(* ===== verification/Prelude.thy ===== *)
theory Prelude
  imports Main "HOL-Library.Word" "HOL-Library.Char_ord" "HOL-Library.List_Lexorder"
    "HOL-Library.Sublist"
begin

text \<open>
  Shared vocabulary of the development.

  Rust \<open>String\<close> and \<open>&str\<close> values are modelled as \<open>string\<close>, one \<open>char\<close> per UTF-8 byte, so that
  \<open>len()\<close>, slicing and \<open>find\<close> count what the code counts. \<open>chars()\<close> is \<open>uchars\<close>, which groups the
  bytes of each scalar value. The Unicode tables behind \<open>to_lowercase\<close> and \<open>is_alphanumeric\<close> are data of
  the standard library that no source file holds; the definitions that use them take them as
  function arguments. \<open>char::is_whitespace\<close> is the fixed list of the White_Space property and is
  written out.
\<close>

named_theorems text_simps \<open>equations of the string operations\<close>
named_theorems step_simps \<open>equations of the actors' step functions\<close>
named_theorems inv_intros \<open>preservation lemmas of the components' invariants\<close>

type_synonym u32 = "32 word"
type_synonym u64 = "64 word"
type_synonym i64 = "64 word"
type_synonym byte = "8 word"

section \<open>Machine integers\<close>

definition sat_succ :: "'a::len word \<Rightarrow> 'a word" where
  "sat_succ w = (if w = - 1 then w else w + 1)"

lemma unat_bound: "unat w < 2 ^ LENGTH('a)" for w :: "'a::len word"
  by (rule unsigned_less)

lemma unat_neg_one: "unat (- 1 :: 'a::len word) = 2 ^ LENGTH('a) - 1"
  by (simp add: unsigned_minus_1_eq_mask mask_eq_exp_minus_1)

lemma unat_sat_succ: "unat (sat_succ w) = min (unat w + 1) (2 ^ LENGTH('a) - 1)"
  for w :: "'a::len word"
proof (cases "w = - 1")
  case True
  then show ?thesis by (simp add: sat_succ_def unat_neg_one)
next
  case False
  have "unat w \<noteq> 2 ^ LENGTH('a) - 1"
    using False by (metis unat_neg_one word_unat_eq_iff)
  moreover have "unat w < 2 ^ LENGTH('a)" by simp
  ultimately have "unat w + 1 < 2 ^ LENGTH('a)" by linarith
  then show ?thesis using False
    by (simp add: sat_succ_def unat_word_ariths)
qed

lemma unat_of_nat_id: "n < 2 ^ LENGTH('a) \<Longrightarrow> unat (of_nat n :: 'a::len word) = n"
  by (simp add: unsigned_of_nat take_bit_nat_eq_self)

lemma sat_succ_less: "unat w < 2 ^ LENGTH('a) - 1 \<Longrightarrow> unat (sat_succ w) = Suc (unat w)"
  for w :: "'a::len word"
  by (simp add: unat_sat_succ)

section \<open>Strings\<close>

definition is_cont :: "char \<Rightarrow> bool" where
  "is_cont c \<longleftrightarrow> 128 \<le> (of_char c :: nat) \<and> (of_char c :: nat) < 192"

function uchars :: "string \<Rightarrow> string list" where
  "uchars [] = []"
| "uchars (c # cs) = (c # takeWhile is_cont cs) # uchars (dropWhile is_cont cs)"
  by pat_completeness auto
termination
  by (relation "measure length") (auto simp: le_imp_less_Suc length_dropWhile_le)

lemma concat_uchars [simp]: "concat (uchars s) = s"
  by (induction s rule: uchars.induct) simp_all

definition is_white :: "string \<Rightarrow> bool" where
  "is_white g \<longleftrightarrow> map of_char g \<in> set
     ([[9], [10], [11], [12], [13], [32], [194, 133], [194, 160], [225, 154, 128],
       [226, 128, 168], [226, 128, 169], [226, 128, 175], [226, 129, 159], [227, 128, 128]]
      @ map (\<lambda>i. [226, 128, 128 + i]) [0, 1, 2, 3, 4, 5, 6, 7, 8, 9, 10] :: nat list list)"

definition trim_end :: "string \<Rightarrow> string" where
  "trim_end s = concat (rev (dropWhile is_white (rev (uchars s))))"

definition trim_start :: "string \<Rightarrow> string" where
  "trim_start s = concat (dropWhile is_white (uchars s))"

definition trim :: "string \<Rightarrow> string" where
  "trim s = trim_end (trim_start s)"

text \<open>A grouping is well formed when each group is one lead byte and its continuation bytes.\<close>

definition wf_group :: "string \<Rightarrow> bool" where
  "wf_group g \<longleftrightarrow> g \<noteq> [] \<and> \<not> is_cont (hd g) \<and> list_all is_cont (tl g)"

definition lead_ok :: "string \<Rightarrow> bool" where
  "lead_ok s \<longleftrightarrow> s = [] \<or> \<not> is_cont (hd s)"

lemma hd_dropWhile_not: "dropWhile P xs \<noteq> [] \<Longrightarrow> \<not> P (hd (dropWhile P xs))"
  by (induction xs) auto

lemma uchars_wf: "lead_ok s \<Longrightarrow> list_all wf_group (uchars s)"
proof (induction s rule: uchars.induct)
  case (2 c cs)
  have "lead_ok (dropWhile is_cont cs)"
    unfolding lead_ok_def using hd_dropWhile_not by blast
  then have "list_all wf_group (uchars (dropWhile is_cont cs))" by (rule "2.IH")
  moreover have "list_all is_cont (takeWhile is_cont cs)"
    unfolding list_all_iff using set_takeWhileD by fast
  moreover have "\<not> is_cont c" using "2.prems" by (simp add: lead_ok_def)
  ultimately show ?case by (simp add: wf_group_def [of "c # takeWhile is_cont cs"])
qed simp

lemma wf_group_prefix_cont:
  assumes "list_all is_cont t" "gs = [] \<or> wf_group (hd gs)"
  shows "takeWhile is_cont (t @ concat gs) = t" "dropWhile is_cont (t @ concat gs) = concat gs"
proof -
  have "concat gs = [] \<or> \<not> is_cont (hd (concat gs))"
    using assms(2) by (cases gs) (auto simp: wf_group_def)
  then have "takeWhile is_cont (concat gs) = []" "dropWhile is_cont (concat gs) = concat gs"
    by (metis list.sel(1) neq_Nil_conv takeWhile.simps(1,2))
       (metis \<open>concat gs = [] \<or> \<not> is_cont (hd (concat gs))\<close> dropWhile.simps list.collapse)
  with assms(1) show "takeWhile is_cont (t @ concat gs) = t"
    "dropWhile is_cont (t @ concat gs) = concat gs"
    by (simp_all add: list_all_iff)
qed

lemma uchars_concat: "list_all wf_group gs \<Longrightarrow> uchars (concat gs) = gs"
proof (induction gs)
  case (Cons g gs)
  then obtain c t where g: "g = c # t" and t: "list_all is_cont t"
    by (cases g) (auto simp: wf_group_def)
  have "gs = [] \<or> wf_group (hd gs)" using Cons.prems by (cases gs) auto
  from wf_group_prefix_cont [OF t this] Cons g show ?case by simp
qed simp

lemma list_all_rev_dropWhile: "list_all P xs \<Longrightarrow> list_all P (rev (dropWhile Q (rev xs)))"
  by (auto simp: list_all_iff dest: set_dropWhileD)

lemma list_all_dropWhile: "list_all P xs \<Longrightarrow> list_all P (dropWhile Q xs)"
  by (auto simp: list_all_iff dest: set_dropWhileD)

lemma uchars_trim_start:
  "lead_ok s \<Longrightarrow> uchars (trim_start s) = dropWhile is_white (uchars s)"
  by (simp add: trim_start_def uchars_concat list_all_dropWhile uchars_wf)

lemma wf_groups_lead_ok: "list_all wf_group gs \<Longrightarrow> lead_ok (concat gs)"
  by (cases gs) (auto simp: lead_ok_def wf_group_def hd_append)

lemma lead_ok_trim_start: "lead_ok s \<Longrightarrow> lead_ok (trim_start s)"
  by (simp add: trim_start_def wf_groups_lead_ok list_all_dropWhile uchars_wf)

text \<open>The grouped form of \<open>trim\<close>: leading and trailing whitespace scalars go, nothing else.\<close>

definition gtrim :: "string list \<Rightarrow> string list" where
  "gtrim gs = rev (dropWhile is_white (rev (dropWhile is_white gs)))"

lemma uchars_trim: "lead_ok s \<Longrightarrow> uchars (trim s) = gtrim (uchars s)"
  by (simp add: trim_def trim_end_def gtrim_def uchars_trim_start uchars_concat
      list_all_rev_dropWhile list_all_dropWhile uchars_wf)

lemma dropWhile_rev_fixed: "xs = [] \<or> \<not> P (last xs) \<Longrightarrow> rev (dropWhile P (rev xs)) = xs"
  by (cases xs rule: rev_cases) simp_all

lemma gtrim_ends: "gtrim gs = [] \<or> \<not> is_white (hd (gtrim gs)) \<and> \<not> is_white (last (gtrim gs))"
proof -
  let ?d = "dropWhile is_white gs" and ?e = "dropWhile is_white (rev (dropWhile is_white gs))"
  show ?thesis
  proof (cases "?e = []")
    case False
    then have last: "\<not> is_white (hd ?e)" by (rule hd_dropWhile_not)
    have ne: "?d \<noteq> []" using False by (metis dropWhile.simps(1) rev.simps(1))
    have "\<not> is_white (hd ?d)" using ne by (rule hd_dropWhile_not)
    moreover obtain ys where "rev ?d = ys @ ?e" by (metis takeWhile_dropWhile_id)
    then have "?d = rev ?e @ rev ys" by (metis rev_append rev_rev_ident)
    then have "hd ?d = hd (rev ?e)" using False by (metis hd_append2 rev_is_Nil_conv)
    ultimately show ?thesis using last False by (simp add: gtrim_def last_rev)
  qed (simp add: gtrim_def)
qed

lemma gtrim_idem [simp]: "gtrim (gtrim gs) = gtrim gs"
proof -
  have "dropWhile is_white (gtrim gs) = gtrim gs"
    using gtrim_ends [of gs] by (cases "gtrim gs") simp_all
  then show ?thesis
    using gtrim_ends [of gs] dropWhile_rev_fixed [of "gtrim gs" is_white] gtrim_def by metis
qed

lemma trim_eq: "lead_ok s \<Longrightarrow> trim s = concat (gtrim (uchars s))"
  by (metis concat_uchars uchars_trim)

lemma lead_ok_trim: "lead_ok s \<Longrightarrow> lead_ok (trim s)"
  by (simp add: trim_eq wf_groups_lead_ok gtrim_def list_all_rev_dropWhile list_all_dropWhile uchars_wf)

lemma trim_idem: "lead_ok s \<Longrightarrow> trim (trim s) = trim s"
  by (metis gtrim_idem lead_ok_trim trim_eq uchars_trim)

lemma trim_Nil [simp]: "trim [] = []"
  by (simp add: trim_def trim_start_def trim_end_def)

lemma set_gtrim: "set (gtrim gs) \<subseteq> set gs"
  by (auto simp: gtrim_def dest!: set_dropWhileD)

lemma length_trim_le: "length (trim s) \<le> length s"
proof -
  have start: "length (trim_start t) \<le> length t" for t
    by (metis concat_append concat_uchars le_add2 length_append takeWhile_dropWhile_id trim_start_def)
  have "length (trim_end t) \<le> length t" for t
  proof -
    have "rev (uchars t) = takeWhile is_white (rev (uchars t)) @ dropWhile is_white (rev (uchars t))"
      by simp
    then have "uchars t = rev (dropWhile is_white (rev (uchars t))) @ rev (takeWhile is_white (rev (uchars t)))"
      by (metis rev_append rev_rev_ident)
    then have "t = trim_end t @ concat (rev (takeWhile is_white (rev (uchars t))))"
      unfolding trim_end_def by (metis concat_append concat_uchars)
    then show ?thesis by (metis le_add1 length_append)
  qed
  with start show ?thesis unfolding trim_def using order_trans by blast
qed

section \<open>Splitting, searching and joining\<close>

fun split_on :: "char \<Rightarrow> string \<Rightarrow> string list" where
  "split_on c [] = [[]]"
| "split_on c (x # xs) =
     (if x = c then [] # split_on c xs
      else case split_on c xs of [] \<Rightarrow> [[x]] | w # ws \<Rightarrow> (x # w) # ws)"

fun join :: "string \<Rightarrow> string list \<Rightarrow> string" where
  "join sep [] = []"
| "join sep [w] = w"
| "join sep (w # ws) = w @ sep @ join sep ws"

fun words_of :: "string list \<Rightarrow> string \<Rightarrow> string list" where
  "words_of [] acc = (if acc = [] then [] else [acc])"
| "words_of (g # gs) acc =
     (if is_white g then (if acc = [] then words_of gs [] else acc # words_of gs [])
      else words_of gs (acc @ g))"

definition split_whitespace :: "string \<Rightarrow> string list" where
  "split_whitespace s = words_of (uchars s) []"

definition strip_prefix :: "string \<Rightarrow> string \<Rightarrow> string option" where
  "strip_prefix p s = (if prefix p s then Some (drop (length p) s) else None)"

definition strip_suffix :: "string \<Rightarrow> string \<Rightarrow> string option" where
  "strip_suffix p s = (if suffix p s then Some (take (length s - length p) s) else None)"

fun find_str :: "string \<Rightarrow> string \<Rightarrow> nat option" where
  "find_str p [] = (if p = [] then Some 0 else None)"
| "find_str p (c # cs) = (if prefix p (c # cs) then Some 0 else map_option Suc (find_str p cs))"

lemma strip_prefix_Some [simp]: "strip_prefix p s = Some r \<longleftrightarrow> s = p @ r"
  by (auto simp: strip_prefix_def prefix_def)

lemma strip_prefix_append [simp]: "strip_prefix p (p @ r) = Some r"
  by simp

lemma strip_suffix_Some [simp]: "strip_suffix p s = Some r \<longleftrightarrow> s = r @ p"
  by (auto simp: strip_suffix_def suffix_def)

lemma find_str_Some: "find_str p s = Some i \<Longrightarrow> i + length p \<le> length s \<and> take (length p) (drop i s) = p"
proof (induction s arbitrary: i)
  case (Cons c cs)
  show ?case
  proof (cases "prefix p (c # cs)")
    case True
    with Cons.prems show ?thesis by (auto simp: prefix_def dest: arg_cong [where f = length])
  next
    case False
    with Cons.prems obtain j where "i = Suc j" "find_str p cs = Some j" by auto
    with Cons.IH show ?thesis by simp
  qed
qed (simp split: if_splits)

lemma find_str_self_prefix: "prefix p s \<Longrightarrow> find_str p s = Some 0"
  by (cases s) auto

lemma find_str_None: "find_str p s = None \<longleftrightarrow> \<not> sublist p s"
proof (induction s)
  case (Cons c cs)
  show ?case
  proof (cases "prefix p (c # cs)")
    case True
    then show ?thesis by (simp add: prefix_imp_sublist)
  next
    case False
    with Cons show ?thesis by (simp add: sublist_Cons_right)
  qed
qed simp

lemma split_on_ne [simp]: "split_on c s \<noteq> []"
  by (induction s) (auto split: list.split)

lemma split_on_no_sep: "c \<notin> set s \<Longrightarrow> split_on c s = [s]"
  by (induction s) auto

lemma split_on_append: "c \<notin> set a \<Longrightarrow> split_on c (a @ c # b) = a # split_on c b"
  by (induction a) auto

lemma split_on_parts: "w \<in> set (split_on c s) \<Longrightarrow> c \<notin> set w"
  by (induction s arbitrary: w) (auto split: if_splits list.splits)

lemma join_split_on: "join [c] (split_on c s) = s"
proof (induction s)
  case (Cons x xs)
  obtain w ws where "split_on c xs = w # ws" by (cases "split_on c xs") simp_all
  with Cons show ?case by (cases ws) simp_all
qed simp

section \<open>Numbers in text\<close>

definition digit_char :: "nat \<Rightarrow> char" where
  "digit_char d = char_of (48 + d)"

function show_nat :: "nat \<Rightarrow> string" where
  "show_nat n = (if n < 10 then [digit_char n] else show_nat (n div 10) @ [digit_char (n mod 10)])"
  by pat_completeness auto
termination
  by (relation "measure id") auto

declare show_nat.simps [simp del]

definition digit_val :: "char \<Rightarrow> nat option" where
  "digit_val c = (if 48 \<le> (of_char c :: nat) \<and> (of_char c :: nat) \<le> 57 then Some (of_char c - 48) else None)"

fun read_digits :: "nat \<Rightarrow> string \<Rightarrow> nat option" where
  "read_digits acc [] = Some acc"
| "read_digits acc (c # cs) =
     (case digit_val c of None \<Rightarrow> None | Some d \<Rightarrow> read_digits (10 * acc + d) cs)"

text \<open>\<open>str::parse::<u64>\<close>: an optional \<open>+\<close>, at least one digit, and a value below \<open>2^64\<close>.\<close>

definition parse_u64 :: "string \<Rightarrow> nat option" where
  "parse_u64 s =
     (let ds = (case s of c # cs \<Rightarrow> if c = CHR ''+'' then cs else s | [] \<Rightarrow> [])
      in if ds = [] then None
         else case read_digits 0 ds of None \<Rightarrow> None
              | Some n \<Rightarrow> if n < 2 ^ 64 then Some n else None)"

lemma digit_val_digit_char [simp]: "d < 10 \<Longrightarrow> digit_val (digit_char d) = Some d"
  by (simp add: digit_val_def digit_char_def)

lemma read_digits_append:
  "read_digits acc (xs @ ys) = (case read_digits acc xs of None \<Rightarrow> None | Some a \<Rightarrow> read_digits a ys)"
  by (induction xs arbitrary: acc) (auto split: option.splits)

lemma read_digits_show_nat: "read_digits 0 (show_nat n) = Some n"
proof (induction n rule: show_nat.induct)
  case (1 n)
  show ?case
    using 1 by (subst show_nat.simps) (auto simp: read_digits_append)
qed

lemma of_char_digit_char [simp]: "d < 10 \<Longrightarrow> of_char (digit_char d) = 48 + d"
  by (simp add: digit_char_def)

lemma digit_char_plain: "d < 10 \<Longrightarrow> digit_char d \<noteq> CHR ''+'' \<and> digit_char d \<noteq> CHR ''/''"
proof -
  assume "d < 10"
  then have "(of_char (digit_char d) :: nat) = 48 + d" by simp
  then show ?thesis by auto
qed

lemma show_nat_digits: "c \<in> set (show_nat n) \<Longrightarrow> \<exists>d < 10. c = digit_char d"
proof (induction n rule: show_nat.induct)
  case (1 n)
  then show ?case
    by (subst (asm) (2) show_nat.simps) (auto split: if_splits intro: exI [of _ "n mod 10"])
qed

lemma show_nat_ne [simp]: "show_nat n \<noteq> []"
  by (subst show_nat.simps) simp

lemma parse_show_nat: "n < 2 ^ 64 \<Longrightarrow> parse_u64 (show_nat n) = Some n"
proof -
  assume n: "n < 2 ^ 64"
  obtain c cs where s: "show_nat n = c # cs" by (cases "show_nat n") simp_all
  then have "c \<noteq> CHR ''+''" using show_nat_digits [of c n] digit_char_plain by auto
  then show ?thesis using s n read_digits_show_nat [of n] by (simp add: parse_u64_def)
qed

section \<open>Lists and options\<close>

lemma find_Some_in: "List.find P xs = Some x \<Longrightarrow> x \<in> set xs \<and> P x"
  by (induction xs) (auto split: if_splits)

lemma find_None_all: "List.find P xs = None \<longleftrightarrow> (\<forall>x \<in> set xs. \<not> P x)"
  by (induction xs) auto

section \<open>Ordered maps\<close>

text \<open>\<open>BTreeMap<String, V>\<close>: an association list in increasing key order (Rust compares strings
  bytewise, as the lexicographic order on \<open>string\<close> does here).\<close>

fun bt_insert :: "string \<Rightarrow> 'v \<Rightarrow> (string \<times> 'v) list \<Rightarrow> (string \<times> 'v) list" where
  "bt_insert k v [] = [(k, v)]"
| "bt_insert k v ((k', v') # m) =
     (if k < k' then (k, v) # (k', v') # m
      else if k = k' then (k, v) # m
      else (k', v') # bt_insert k v m)"

lemma map_of_bt_insert [simp]:
  "map_of (bt_insert k v m) k' = (if k' = k then Some v else map_of m k')"
  by (induction k v m rule: bt_insert.induct) auto

lemma keys_bt_insert [simp]: "fst ` set (bt_insert k v m) = insert k (fst ` set m)"
  by (induction k v m rule: bt_insert.induct) auto

lemma sorted_bt_insert:
  "sorted_wrt (<) (map fst m) \<Longrightarrow> sorted_wrt (<) (map fst (bt_insert k v m))"
proof (induction k v m rule: bt_insert.induct)
  case (2 k v k' v' m)
  have keys: "set (map fst (bt_insert k v m)) = insert k (set (map fst m))" by simp
  show ?case using 2 keys by (auto simp: not_less le_less)
qed simp

section \<open>Channels\<close>

text \<open>
  The sending half of a bounded \<open>mpsc\<close> channel. A blocking \<open>send\<close> waits for room, so capacity does not
  show in what is delivered; it fails once the receiver is dropped. \<open>accepts\<close> says how many more messages
  the receiver takes before it goes away (\<open>None\<close>: it stays). Events on the broadcast bus are sent best
  effort and are modelled by the list of what was sent.
\<close>

record 'm chan =
  sent :: "'m list"
  accepts :: "nat option"

definition send :: "'m \<Rightarrow> 'm chan \<Rightarrow> bool \<times> 'm chan" where
  "send m ch =
     (case accepts ch of
        None \<Rightarrow> (True, ch\<lparr>sent := sent ch @ [m]\<rparr>)
      | Some 0 \<Rightarrow> (False, ch)
      | Some (Suc n) \<Rightarrow> (True, \<lparr>sent = sent ch @ [m], accepts = Some n\<rparr>))"

definition new_chan :: "'m chan" where
  "new_chan = \<lparr>sent = [], accepts = None\<rparr>"

lemma send_alive [simp]: "accepts ch = None \<Longrightarrow> send m ch = (True, ch\<lparr>sent := sent ch @ [m]\<rparr>)"
  by (simp add: send_def)

lemma new_chan_simps [simp]: "sent new_chan = []" "accepts new_chan = None"
  by (simp_all add: new_chan_def)

lemma send_result: "send m ch = (ok, ch') \<Longrightarrow> sent ch' = sent ch @ (if ok then [m] else [])"
  by (auto simp: send_def split: option.splits nat.splits)

section \<open>Ink\<close>

text \<open>The non-whitespace scalar values of a text: what trimming and sentence splitting must preserve.\<close>

definition ink :: "string \<Rightarrow> string list" where
  "ink s = filter (\<lambda>g. \<not> is_white g) (uchars s)"

lemma ink_Nil [simp]: "ink [] = []"
  by (simp add: ink_def)

lemma filter_dropWhile: "filter (\<lambda>x. \<not> P x) (dropWhile P xs) = filter (\<lambda>x. \<not> P x) xs"
  by (induction xs) auto

lemma filter_gtrim [simp]: "filter (\<lambda>g. \<not> is_white g) (gtrim gs) = filter (\<lambda>g. \<not> is_white g) gs"
  by (simp add: gtrim_def filter_dropWhile rev_filter [symmetric])

lemma ink_trim: "lead_ok s \<Longrightarrow> ink (trim s) = ink s"
  by (simp add: ink_def uchars_trim)

lemma uchars_append: "lead_ok a \<Longrightarrow> lead_ok b \<Longrightarrow> uchars (a @ b) = uchars a @ uchars b"
proof -
  assume "lead_ok a" "lead_ok b"
  then have "list_all wf_group (uchars a @ uchars b)" by (simp add: uchars_wf)
  from uchars_concat [OF this] show ?thesis by simp
qed

lemma ink_append: "lead_ok a \<Longrightarrow> lead_ok b \<Longrightarrow> ink (a @ b) = ink a @ ink b"
  by (simp add: ink_def uchars_append)

lemma lead_ok_append: "lead_ok a \<Longrightarrow> lead_ok b \<Longrightarrow> lead_ok (a @ b)"
  by (cases a) (simp_all add: lead_ok_def)

lemma lead_ok_Nil [simp]: "lead_ok []"
  by (simp add: lead_ok_def)

lemma ink_concat: "list_all lead_ok ts \<Longrightarrow> lead_ok (concat ts) \<and> ink (concat ts) = concat (map ink ts)"
  by (induction ts) (auto simp: ink_append lead_ok_append)

lemma trim_Nil_iff: "lead_ok s \<Longrightarrow> trim s = [] \<longleftrightarrow> ink s = []"
proof -
  assume s: "lead_ok s"
  have "gtrim (uchars s) = [] \<longleftrightarrow> filter (\<lambda>g. \<not> is_white g) (gtrim (uchars s)) = []"
    using gtrim_ends [of "uchars s"] by (cases "gtrim (uchars s)") auto
  moreover have "trim s = [] \<longleftrightarrow> gtrim (uchars s) = []"
  proof
    assume "trim s = []"
    then show "gtrim (uchars s) = []" using uchars_trim [OF s] by simp
  qed (simp add: trim_eq [OF s])
  ultimately show ?thesis by (simp add: ink_def)
qed

end
