(* ===== verification/Circuit.thy ===== *)
theory Circuit
  imports Prelude
begin

text \<open>
  The circuit breaker (\<open>crates/athena-voice-providers/src/circuit.rs\<close>) and the retrying provider
  wrappers that consult it (\<open>retry.rs\<close>).

  \<open>Instant\<close> and \<open>Duration\<close> are natural numbers (nanoseconds); \<open>Instant\<close> subtraction saturates at zero
  as it does in the standard library, which is what subtraction on \<open>nat\<close> does. Each operation takes
  the instant its \<open>Instant::now()\<close> reads. The failure counter keeps its 32-bit width. A wrapped
  provider is a function from the attempt number to its result, because the provider lies behind
  the \<open>Stt\<close>, \<open>Llm\<close> and \<open>Tts\<close> traits.
\<close>

section \<open>The breaker\<close>

datatype cb_state = Closed (failures: u32) | Open (until: nat) | HalfOpen (last_probe: nat)

record circuit =
  failure_threshold :: u32
  open_duration :: nat
  half_open_probe_gap :: nat
  cstate :: cb_state

definition new_circuit :: "u32 \<Rightarrow> nat \<Rightarrow> nat \<Rightarrow> circuit" where
  "new_circuit thr dur gap =
     \<lparr>failure_threshold = thr, open_duration = dur, half_open_probe_gap = gap, cstate = Closed 0\<rparr>"

text \<open>\<open>Inl w\<close> is \<open>Err(retry_after)\<close>. The guards are tried in the order of the source's match arms,
  the unreachable one of the last arm included.\<close>

definition can_call :: "nat \<Rightarrow> circuit \<Rightarrow> (nat + unit) \<times> circuit" where
  "can_call now c =
     (case cstate c of
        Closed _ \<Rightarrow> (Inr (), c)
      | Open u \<Rightarrow>
          if now \<ge> u then (Inr (), c\<lparr>cstate := HalfOpen now\<rparr>) else (Inl (u - now), c)
      | HalfOpen lp \<Rightarrow>
          if now - lp \<ge> half_open_probe_gap c then (Inr (), c\<lparr>cstate := HalfOpen now\<rparr>)
          else (let elapsed = now - lp in
                if elapsed \<ge> half_open_probe_gap c then (Inr (), c)
                else (Inl (half_open_probe_gap c - elapsed), c)))"

definition record_success :: "circuit \<Rightarrow> circuit" where
  "record_success c = c\<lparr>cstate := Closed 0\<rparr>"

definition record_failure :: "nat \<Rightarrow> circuit \<Rightarrow> circuit" where
  "record_failure now c =
     (case cstate c of
        Closed f \<Rightarrow>
          let new_failures = f + 1 in
          if new_failures \<ge> failure_threshold c
          then c\<lparr>cstate := Open (now + open_duration c)\<rparr>
          else c\<lparr>cstate := Closed new_failures\<rparr>
      | HalfOpen _ \<Rightarrow> c\<lparr>cstate := Open (now + open_duration c)\<rparr>
      | Open _ \<Rightarrow> c)"

definition is_open :: "circuit \<Rightarrow> bool" where
  "is_open c = (case cstate c of Open _ \<Rightarrow> True | _ \<Rightarrow> False)"

definition permits :: "nat \<Rightarrow> circuit \<Rightarrow> bool" where
  "permits now c \<longleftrightarrow> fst (can_call now c) = Inr ()"

subsection \<open>Invariant: the failure counter stays below the threshold\<close>

definition circuit_inv :: "circuit \<Rightarrow> bool" where
  "circuit_inv c = (case cstate c of Closed f \<Rightarrow> f = 0 \<or> f < failure_threshold c | _ \<Rightarrow> True)"

lemma circuit_inv_new: "circuit_inv (new_circuit thr dur gap)"
  by (simp add: circuit_inv_def new_circuit_def)

lemma can_call_frame [simp]:
  "failure_threshold (snd (can_call now c)) = failure_threshold c"
  "open_duration (snd (can_call now c)) = open_duration c"
  "half_open_probe_gap (snd (can_call now c)) = half_open_probe_gap c"
  by (auto simp: can_call_def Let_def split: cb_state.splits)

lemma record_failure_frame [simp]:
  "failure_threshold (record_failure now c) = failure_threshold c"
  "open_duration (record_failure now c) = open_duration c"
  "half_open_probe_gap (record_failure now c) = half_open_probe_gap c"
  by (auto simp: record_failure_def Let_def split: cb_state.splits)

lemma record_success_frame [simp]:
  "failure_threshold (record_success c) = failure_threshold c"
  "open_duration (record_success c) = open_duration c"
  "half_open_probe_gap (record_success c) = half_open_probe_gap c"
  by (simp_all add: record_success_def)

lemma can_call_inv [inv_intros]: "circuit_inv c \<Longrightarrow> circuit_inv (snd (can_call now c))"
  by (auto simp: can_call_def circuit_inv_def Let_def split: cb_state.splits)

lemma record_success_inv [inv_intros]: "circuit_inv (record_success c)"
  by (simp add: record_success_def circuit_inv_def)

lemma record_failure_inv [inv_intros]: "circuit_inv c \<Longrightarrow> circuit_inv (record_failure now c)"
  by (auto simp: record_failure_def circuit_inv_def Let_def not_le split: cb_state.splits)

text \<open>Under the invariant \<open>failures + 1\<close> is computed without overflow, so the debug build cannot panic.\<close>

lemma circuit_inv_no_overflow:
  assumes "circuit_inv c" "cstate c = Closed f"
  shows "unat (f + 1) = unat f + 1"
proof -
  have "1 + f \<noteq> 0"
    using assms word_order.extremum_strict [of "failure_threshold c"]
    by (auto simp: circuit_inv_def add_eq_0_iff)
  then show ?thesis by (simp add: unatSuc add.commute)
qed

text \<open>A history of operations on one breaker.\<close>

datatype circuit_op = OpCanCall nat | OpSuccess | OpFailure nat

fun circuit_apply :: "circuit \<Rightarrow> circuit_op \<Rightarrow> circuit" where
  "circuit_apply c (OpCanCall now) = snd (can_call now c)"
| "circuit_apply c OpSuccess = record_success c"
| "circuit_apply c (OpFailure now) = record_failure now c"

definition circuit_run :: "circuit \<Rightarrow> circuit_op list \<Rightarrow> circuit" where
  "circuit_run c ops = foldl circuit_apply c ops"

lemma circuit_apply_inv: "circuit_inv c \<Longrightarrow> circuit_inv (circuit_apply c op)"
  by (cases op) (auto intro: inv_intros)

lemma circuit_run_inv: "circuit_inv c \<Longrightarrow> circuit_inv (circuit_run c ops)"
  by (induction ops arbitrary: c) (simp_all add: circuit_run_def circuit_apply_inv)

subsection \<open>Opening\<close>

lemma record_failure_closed:
  assumes "cstate c = Closed f" "unat f + 1 < unat (failure_threshold c)"
  shows "record_failure now c = c\<lparr>cstate := Closed (f + 1)\<rparr>" "unat (f + 1) = unat f + 1"
proof -
  have "unat f + 1 < 2 ^ LENGTH(32)"
    using assms(2) unat_bound [of "failure_threshold c"] by linarith
  then show eq: "unat (f + 1) = unat f + 1" by (simp add: unat_word_ariths)
  with assms show "record_failure now c = c\<lparr>cstate := Closed (f + 1)\<rparr>"
    by (simp add: record_failure_def Let_def word_le_nat_alt)
qed

lemma failures_count:
  assumes "cstate c = Closed f" "unat f + length ts < unat (failure_threshold c)"
  shows "\<exists>g. cstate (circuit_run c (map OpFailure ts)) = Closed g \<and> unat g = unat f + length ts
           \<and> failure_threshold (circuit_run c (map OpFailure ts)) = failure_threshold c
           \<and> open_duration (circuit_run c (map OpFailure ts)) = open_duration c"
  using assms
proof (induction ts arbitrary: c f)
  case (Cons t ts)
  then have lt: "unat f + 1 < unat (failure_threshold c)" by simp
  let ?c = "record_failure t c"
  have c: "cstate ?c = Closed (f + 1)" and u: "unat (f + 1) = unat f + 1"
    using record_failure_closed [OF Cons.prems(1) lt] by simp_all
  have "unat (f + 1) + length ts < unat (failure_threshold ?c)"
    using Cons.prems(2) u by simp
  from Cons.IH [OF c this] u show ?case by (simp add: circuit_run_def)
qed (simp add: circuit_run_def)

lemma record_failure_trips:
  assumes "cstate c = Closed f" "unat f + 1 = unat (failure_threshold c)"
  shows "record_failure now c = c\<lparr>cstate := Open (now + open_duration c)\<rparr>"
proof -
  have "unat f + 1 < 2 ^ LENGTH(32)"
    using assms(2) unat_bound [of "failure_threshold c"] by linarith
  then have "unat (f + 1) = unat f + 1" by (simp add: unat_word_ariths)
  with assms show ?thesis by (simp add: record_failure_def Let_def word_le_nat_alt)
qed

subsection \<open>Half-open probes\<close>

text \<open>The instants at which a sequence of \<open>can_call\<close>s is admitted.\<close>

fun admitted :: "circuit \<Rightarrow> nat list \<Rightarrow> nat list" where
  "admitted c [] = []"
| "admitted c (t # ts) =
     (if permits t c then t # admitted (snd (can_call t c)) ts else admitted (snd (can_call t c)) ts)"

lemma can_call_half_open:
  "cstate c = HalfOpen lp \<Longrightarrow>
     can_call now c = (if now - lp \<ge> half_open_probe_gap c then (Inr (), c\<lparr>cstate := HalfOpen now\<rparr>)
                       else (Inl (half_open_probe_gap c - (now - lp)), c))"
  by (simp add: can_call_def Let_def)

lemma can_call_open:
  "cstate c = Open u \<Longrightarrow>
     can_call now c = (if now \<ge> u then (Inr (), c\<lparr>cstate := HalfOpen now\<rparr>) else (Inl (u - now), c))"
  by (simp add: can_call_def)

lemma admitted_spaced_from:
  assumes "cstate c = HalfOpen lp" "sorted (lp # ts)"
  shows "successively (\<lambda>a b. a \<le> b \<and> half_open_probe_gap c \<le> b - a) (lp # admitted c ts)"
  using assms
proof (induction ts arbitrary: c lp)
  case (Cons t ts)
  show ?case
  proof (cases "t - lp \<ge> half_open_probe_gap c")
    case True
    then have step: "can_call t c = (Inr (), c\<lparr>cstate := HalfOpen t\<rparr>)"
      using Cons.prems(1) by (simp add: can_call_half_open)
    have "successively (\<lambda>a b. a \<le> b \<and> half_open_probe_gap c \<le> b - a)
            (t # admitted (c\<lparr>cstate := HalfOpen t\<rparr>) ts)"
      using Cons.IH [of "c\<lparr>cstate := HalfOpen t\<rparr>" t] Cons.prems(2) by simp
    then show ?thesis using True Cons.prems(2) step by (auto simp: permits_def)
  next
    case False
    then have "\<not> permits t c" "snd (can_call t c) = c"
      using Cons.prems(1) by (simp_all add: can_call_half_open permits_def)
    then show ?thesis using Cons.IH [OF Cons.prems(1)] Cons.prems(2) by simp
  qed
qed simp

section \<open>Retrying providers\<close>

record retry_config =
  max_attempts :: u32
  backoff :: "nat list"

definition retry_llm :: retry_config where
  "retry_llm = \<lparr>max_attempts = 1, backoff = []\<rparr>"

definition retry_stt :: retry_config where
  "retry_stt = \<lparr>max_attempts = 1, backoff = []\<rparr>"

text \<open>200 ms, in nanoseconds.\<close>

definition retry_tts :: retry_config where
  "retry_tts = \<lparr>max_attempts = 2, backoff = [200000000]\<rparr>"

text \<open>\<open>BoxError\<close>: a message the wrapper makes itself, or the wrapped provider's own error.\<close>

datatype 'e box_error = Msg string | Inner 'e

text \<open>The result of one call through a wrapper: what the caller gets, the breaker after it, how often
  the wrapped provider was entered, and the delays slept.\<close>

record ('e, 'a) outcome_of_call =
  res :: "'e box_error + 'a"
  breaker_after :: circuit
  inner_calls :: nat
  slept :: "nat list"

definition stt_transcribe ::
  "nat \<Rightarrow> (nat \<Rightarrow> nat) \<Rightarrow> (nat \<Rightarrow> 'e + 'a) \<Rightarrow> circuit \<Rightarrow> ('e, 'a) outcome_of_call" where
  "stt_transcribe now clk inner c =
     (case can_call now c of
        (Inl _, c1) \<Rightarrow> \<lparr>res = Inl (Msg ''stt circuit open''), breaker_after = c1, inner_calls = 0, slept = []\<rparr>
      | (Inr _, c1) \<Rightarrow>
          (case inner 0 of
             Inr s \<Rightarrow> \<lparr>res = Inr s, breaker_after = record_success c1, inner_calls = 1, slept = []\<rparr>
           | Inl e \<Rightarrow> \<lparr>res = Inl (Inner e), breaker_after = record_failure (clk 0) c1, inner_calls = 1, slept = []\<rparr>))"

definition llm_complete ::
  "nat \<Rightarrow> (nat \<Rightarrow> nat) \<Rightarrow> (nat \<Rightarrow> 'e + 'a) \<Rightarrow> circuit \<Rightarrow> ('e, 'a) outcome_of_call" where
  "llm_complete now clk inner c =
     (case can_call now c of
        (Inl _, c1) \<Rightarrow> \<lparr>res = Inl (Msg ''llm circuit open''), breaker_after = c1, inner_calls = 0, slept = []\<rparr>
      | (Inr _, c1) \<Rightarrow>
          (case inner 0 of
             Inr s \<Rightarrow> \<lparr>res = Inr s, breaker_after = record_success c1, inner_calls = 1, slept = []\<rparr>
           | Inl e \<Rightarrow> \<lparr>res = Inl (Inner e), breaker_after = record_failure (clk 0) c1, inner_calls = 1, slept = []\<rparr>))"

text \<open>The \<open>for attempt in 0..max_attempts\<close> loop, over the attempts still to make.\<close>

fun tts_attempts ::
  "retry_config \<Rightarrow> (nat \<Rightarrow> nat) \<Rightarrow> (nat \<Rightarrow> 'e + 'a) \<Rightarrow> nat list \<Rightarrow> 'e option \<Rightarrow> nat list \<Rightarrow> nat \<Rightarrow> circuit
     \<Rightarrow> ('e, 'a) outcome_of_call" where
  "tts_attempts cfg clk inner [] last_err ds n c =
     \<lparr>res = Inl (case last_err of Some e \<Rightarrow> Inner e | None \<Rightarrow> Msg ''tts retry exhausted''),
      breaker_after = c, inner_calls = n, slept = ds\<rparr>"
| "tts_attempts cfg clk inner (attempt # later) last_err ds n c =
     (case inner attempt of
        Inr s \<Rightarrow> \<lparr>res = Inr s, breaker_after = record_success c, inner_calls = Suc n, slept = ds\<rparr>
      | Inl e \<Rightarrow>
          tts_attempts cfg clk inner later (Some e)
            (if attempt + 1 < unat (max_attempts cfg) \<and> attempt < length (backoff cfg)
             then ds @ [backoff cfg ! attempt] else ds)
            (Suc n) (record_failure (clk attempt) c))"

definition tts_synthesize ::
  "retry_config \<Rightarrow> nat \<Rightarrow> (nat \<Rightarrow> nat) \<Rightarrow> (nat \<Rightarrow> 'e + 'a) \<Rightarrow> circuit \<Rightarrow> ('e, 'a) outcome_of_call" where
  "tts_synthesize cfg now clk inner c =
     (case can_call now c of
        (Inl _, c1) \<Rightarrow> \<lparr>res = Inl (Msg ''tts circuit open''), breaker_after = c1, inner_calls = 0, slept = []\<rparr>
      | (Inr _, c1) \<Rightarrow> tts_attempts cfg clk inner [0..<unat (max_attempts cfg)] None [] 0 c1)"

subsection \<open>The contract the wrappers share\<close>

text \<open>Every wrapper fails fast on a rejecting breaker without touching it or the provider, enters the
  provider at most \<open>bound\<close> times, keeps the breaker's invariant, closes the breaker on a success and
  returns what the last attempt returned.\<close>

locale guarded_provider =
  fixes call :: "nat \<Rightarrow> (nat \<Rightarrow> nat) \<Rightarrow> (nat \<Rightarrow> 'e + 'a) \<Rightarrow> circuit \<Rightarrow> ('e, 'a) outcome_of_call"
    and bound :: nat
    and open_msg :: string
  assumes rejects: "\<not> permits now c \<Longrightarrow>
      call now clk inner c = \<lparr>res = Inl (Msg open_msg), breaker_after = c, inner_calls = 0, slept = []\<rparr>"
    and bounded: "inner_calls (call now clk inner c) \<le> bound"
    and keeps_inv: "circuit_inv c \<Longrightarrow> circuit_inv (breaker_after (call now clk inner c))"
    and success: "res (call now clk inner c) = Inr a \<Longrightarrow>
      cstate (breaker_after (call now clk inner c)) = Closed 0
      \<and> 0 < inner_calls (call now clk inner c)
      \<and> inner (inner_calls (call now clk inner c) - 1) = Inr a
      \<and> (\<forall>i < inner_calls (call now clk inner c) - 1. \<exists>e. inner i = Inl e)"
begin

lemma success_reopens_nothing:
  assumes "res (call now clk inner c) = Inr a"
  shows "permits later (breaker_after (call now clk inner c))"
  using success [OF assms] by (simp add: permits_def can_call_def)

lemma open_means_no_call:
  assumes "cstate c = Open u" "now < u"
  shows "inner_calls (call now clk inner c) = 0 \<and> breaker_after (call now clk inner c) = c"
proof -
  have "\<not> permits now c" using assms by (simp add: permits_def can_call_open)
  then show ?thesis by (simp add: rejects)
qed

end

lemma can_call_rejects: "\<not> permits now c \<Longrightarrow> \<exists>w. can_call now c = (Inl w, c)"
  by (auto simp: permits_def can_call_def Let_def split: cb_state.splits if_splits)

lemma can_call_permits: "permits now c \<Longrightarrow> \<exists>c1. can_call now c = (Inr (), c1)"
  by (cases "can_call now c") (simp add: permits_def)

lemma tts_attempts_success:
  assumes "res (tts_attempts cfg clk inner [k..<m] le ds k c) = Inr a" "\<forall>i < k. \<exists>e. inner i = Inl e"
  shows "let oc = tts_attempts cfg clk inner [k..<m] le ds k c in
           cstate (breaker_after oc) = Closed 0 \<and> 0 < inner_calls oc \<and> inner (inner_calls oc - 1) = Inr a
           \<and> (\<forall>i < inner_calls oc - 1. \<exists>e. inner i = Inl e)"
  using assms
proof (induction "m - k" arbitrary: k le ds c)
  case (Suc d)
  then have up: "[k..<m] = k # [Suc k..<m]" by (simp add: upt_conv_Cons)
  show ?case
  proof (cases "inner k")
    case (Inl e)
    have "\<forall>i < Suc k. \<exists>e. inner i = Inl e" using Suc.prems(2) Inl by (simp add: less_Suc_eq)
    then show ?thesis using Suc.hyps Suc.prems(1) Inl by (simp add: up)
  next
    case (Inr s)
    then show ?thesis using Suc.prems by (simp add: up record_success_def)
  qed
qed simp

lemma tts_attempts_calls: "inner_calls (tts_attempts cfg clk inner as le ds n c) \<le> n + length as"
proof (induction as arbitrary: le ds n c)
  case (Cons a as)
  have "inner_calls (tts_attempts cfg clk inner as le' ds' (Suc n) c') \<le> Suc (n + length as)" for le' ds' c'
    using Cons.IH [of le' ds' "Suc n" c'] by simp
  then show ?case by (auto split: sum.splits)
qed simp

lemma tts_attempts_inv:
  "circuit_inv c \<Longrightarrow> circuit_inv (breaker_after (tts_attempts cfg clk inner as le ds n c))"
  by (induction as arbitrary: le ds n c) (auto simp: inv_intros split: sum.splits)

interpretation stt: guarded_provider stt_transcribe 1 "''stt circuit open''"
proof (unfold_locales, goal_cases)
  case (1 now c clk inner)
  show ?case using can_call_rejects [OF 1] by (auto simp: stt_transcribe_def)
next
  case (2 now clk inner c)
  show ?case by (simp add: stt_transcribe_def split: prod.splits sum.splits)
next
  case (3 c now clk inner)
  then have "circuit_inv (snd (can_call now c))" by (rule inv_intros)
  then show ?case by (auto simp: stt_transcribe_def split: prod.splits sum.splits intro: inv_intros)
next
  case (4 now clk inner c a)
  then show ?case by (auto simp: stt_transcribe_def record_success_def split: prod.splits sum.splits)
qed

interpretation llm: guarded_provider llm_complete 1 "''llm circuit open''"
proof (unfold_locales, goal_cases)
  case (1 now c clk inner)
  show ?case using can_call_rejects [OF 1] by (auto simp: llm_complete_def)
next
  case (2 now clk inner c)
  show ?case by (simp add: llm_complete_def split: prod.splits sum.splits)
next
  case (3 c now clk inner)
  then have "circuit_inv (snd (can_call now c))" by (rule inv_intros)
  then show ?case by (auto simp: llm_complete_def split: prod.splits sum.splits intro: inv_intros)
next
  case (4 now clk inner c a)
  then show ?case by (auto simp: llm_complete_def record_success_def split: prod.splits sum.splits)
qed

interpretation tts: guarded_provider "tts_synthesize cfg" "unat (max_attempts cfg)" "''tts circuit open''"
  for cfg
proof (unfold_locales, goal_cases)
  case (1 now c clk inner)
  show ?case using can_call_rejects [OF 1] by (auto simp: tts_synthesize_def)
next
  case (2 now clk inner c)
  show ?case using tts_attempts_calls [of cfg clk inner "[0..<unat (max_attempts cfg)]" None "[]" 0]
    by (simp add: tts_synthesize_def split: prod.splits sum.splits)
next
  case (3 c now clk inner)
  then have "circuit_inv (snd (can_call now c))" by (rule inv_intros)
  then show ?case
    by (auto simp: tts_synthesize_def tts_attempts_inv split: prod.splits sum.splits)
next
  case (4 now clk inner c a)
  then show ?case
    using tts_attempts_success [of cfg clk inner 0 "unat (max_attempts cfg)" None "[]"]
    by (auto simp: tts_synthesize_def Let_def split: prod.splits sum.splits)
qed

subsection \<open>What a retried synthesis returns\<close>

lemma tts_attempts_failing:
  assumes "j \<le> k" "k \<le> m" "\<forall>i. j \<le> i \<and> i < k \<longrightarrow> inner i = Inl (err i)" "m = unat (max_attempts cfg)"
  shows "tts_attempts cfg clk inner [j..<m] le ds j c =
           tts_attempts cfg clk inner [k..<m] (if j < k then Some (err (k - 1)) else le)
             (ds @ map ((!) (backoff cfg)) (filter (\<lambda>i. i + 1 < m \<and> i < length (backoff cfg)) [j..<k]))
             k (foldl (\<lambda>c i. record_failure (clk i) c) c [j..<k])"
  using assms
proof (induction "k - j" arbitrary: j le ds c)
  case (Suc d)
  then have jm: "[j..<m] = j # [Suc j..<m]" and jk: "[j..<k] = j # [Suc j..<k]"
    by (simp_all add: upt_conv_Cons)
  have ij: "inner j = Inl (err j)" using Suc.prems Suc.hyps(2) by simp
  have le: "(if Suc j < k then Some (err (k - 1)) else Some (err j)) = Some (err (k - 1))"
    using Suc.hyps(2) by (cases "Suc j < k") (auto simp: not_less le_Suc_eq)
  have "Suc j \<le> k" "d = k - Suc j" using Suc.hyps(2) by simp_all
  moreover have "\<forall>i. Suc j \<le> i \<and> i < k \<longrightarrow> inner i = Inl (err i)" using Suc.prems(3) by simp
  ultimately have IH: "tts_attempts cfg clk inner [Suc j..<m] le' ds' (Suc j) c' =
           tts_attempts cfg clk inner [k..<m] (if Suc j < k then Some (err (k - 1)) else le')
             (ds' @ map ((!) (backoff cfg)) (filter (\<lambda>i. i + 1 < m \<and> i < length (backoff cfg)) [Suc j..<k]))
             k (foldl (\<lambda>c i. record_failure (clk i) c) c' [Suc j..<k])" for le' ds' c'
    using Suc.hyps(1) Suc.prems(2,4) by blast
  have "j < k" using Suc.hyps(2) by simp
  with IH le show ?case by (simp add: jm jk ij Suc.prems(4) [symmetric])
qed simp

lemma map_nth_upt_take: "map ((!) xs) (filter (\<lambda>i. i < length xs) [0..<k]) = take k xs"
proof (induction k)
  case (Suc k)
  then show ?case by (simp add: take_Suc_conv_app_nth)
qed simp



text \<open>The failure counter never overflows: after any history of calls, successes and failures on a new
  breaker, a closed breaker's counter is zero or below the threshold, so the 32-bit increment of
  \<open>record_failure\<close> is exact.\<close>

theorem breaker_counter_never_overflows:
  assumes "cstate (circuit_run (new_circuit thr dur gap) ops) = Closed f"
  shows "(f = 0 \<or> f < thr) \<and> unat (f + 1) = unat f + 1"
proof -
  let ?c = "circuit_run (new_circuit thr dur gap) ops"
  have thr: "failure_threshold (circuit_run c ops) = failure_threshold c" for c
  proof (induction ops arbitrary: c)
    case (Cons op ops)
    then show ?case by (cases op) (simp_all add: circuit_run_def)
  qed (simp add: circuit_run_def)
  have inv: "circuit_inv ?c" by (simp add: circuit_run_inv circuit_inv_new)
  with assms thr [of "new_circuit thr dur gap"] show ?thesis
    using circuit_inv_no_overflow [OF inv assms] by (simp add: circuit_inv_def new_circuit_def)
qed

theorem breaker_counter_never_overflows_witness:
  "unat ((1 :: u32) + 1) = unat (1 :: u32) + 1"
  using breaker_counter_never_overflows [of 3 100 10 "[OpFailure 4, OpSuccess, OpFailure 9]" 1]
  by (simp add: circuit_run_def new_circuit_def record_failure_def record_success_def)

text \<open>Half-open probes are spaced: once open until \<open>u\<close>, and while no outcome is recorded, the calls the
  breaker admits all come at or after \<open>u\<close> and any two consecutive ones are at least
  \<open>half_open_probe_gap\<close> apart.\<close>

theorem half_open_probes_spaced:
  assumes "cstate c = Open u" "sorted ts"
  shows "successively (\<lambda>a b. a \<le> b \<and> half_open_probe_gap c \<le> b - a) (admitted c ts)
         \<and> (\<forall>t \<in> set (admitted c ts). u \<le> t)"
  using assms
proof (induction ts)
  case (Cons t ts)
  show ?case
  proof (cases "u \<le> t")
    case True
    then have step: "can_call t c = (Inr (), c\<lparr>cstate := HalfOpen t\<rparr>)"
      using Cons.prems by (simp add: can_call_open)
    let ?c = "c\<lparr>cstate := HalfOpen t\<rparr>"
    have adm: "admitted c (t # ts) = t # admitted ?c ts" using step by (simp add: permits_def)
    have sub: "set (admitted d xs) \<subseteq> set xs" for d xs by (induction xs arbitrary: d) auto
    have "successively (\<lambda>a b. a \<le> b \<and> half_open_probe_gap c \<le> b - a) (t # admitted ?c ts)"
      using admitted_spaced_from [of ?c t ts] Cons.prems by simp
    moreover have "\<forall>x \<in> set (admitted ?c ts). u \<le> x"
      using sub [of ?c ts] Cons.prems(2) True by fastforce
    ultimately show ?thesis unfolding adm using True by simp
  next
    case False
    then have "\<not> permits t c" "snd (can_call t c) = c"
      using Cons.prems by (simp_all add: can_call_open permits_def)
    then show ?thesis using Cons.IH Cons.prems by simp
  qed
qed simp

theorem half_open_probes_spaced_witness:
  "admitted \<lparr>failure_threshold = 1, open_duration = 5, half_open_probe_gap = 10, cstate = Open 20\<rparr>
     [18, 21, 25, 31] = [21, 31] \<and> (10 :: nat) \<le> 31 - 21"
  using half_open_probes_spaced
    [of "\<lparr>failure_threshold = 1, open_duration = 5, half_open_probe_gap = 10, cstate = Open 20\<rparr>" 20
        "[18, 21, 25, 31]"]
  by (simp add: permits_def can_call_def Let_def)

text \<open>A retried synthesis returns the first success: when the breaker admits the call and attempt \<open>k\<close> is
  the first of the configured attempts to succeed, the caller gets that result, the provider was entered
  exactly \<open>k + 1\<close> times, exactly the first \<open>k\<close> configured backoff delays were slept, and the breaker is
  closed with its counter at zero; the next call is admitted.\<close>

theorem tts_retry_first_success:
  assumes "permits now c" "k < unat (max_attempts cfg)" "inner k = Inr a"
    and "\<forall>i < k. inner i = Inl (err i)"
  shows "let oc = tts_synthesize cfg now clk inner c in
    res oc = Inr a \<and> inner_calls oc = k + 1 \<and> slept oc = take k (backoff cfg)
    \<and> cstate (breaker_after oc) = Closed 0 \<and> (\<forall>later. permits later (breaker_after oc))"
proof -
  obtain c1 where c1: "can_call now c = (Inr (), c1)" using can_call_permits [OF assms(1)] by blast
  let ?m = "unat (max_attempts cfg)"
  have up: "[k..<?m] = k # [Suc k..<?m]" using assms(2) by (simp add: upt_conv_Cons)
  have delays: "filter (\<lambda>i. i + 1 < ?m \<and> i < length (backoff cfg)) [0..<k]
                = filter (\<lambda>i. i < length (backoff cfg)) [0..<k]"
    using assms(2) by (intro filter_cong) auto
  have eq: "tts_synthesize cfg now clk inner c =
      tts_attempts cfg clk inner [k..<?m] (if 0 < k then Some (err (k - 1)) else None)
        (take k (backoff cfg)) k (foldl (\<lambda>c i. record_failure (clk i) c) c1 [0..<k])"
    using tts_attempts_failing [of 0 k ?m inner err cfg clk None "[]" c1] assms(2,4)
    by (simp only: tts_synthesize_def c1 delays map_nth_upt_take) simp
  then have r: "res (tts_synthesize cfg now clk inner c) = Inr a"
    using assms(3) by (simp add: up)
  show ?thesis
    using eq assms(3) tts.success_reopens_nothing [OF r] by (simp add: up Let_def record_success_def)
qed

theorem tts_retry_first_success_witness:
  "let oc = tts_synthesize retry_tts 0 (\<lambda>_. 0)
              (\<lambda>i. if i = 0 then Inl ''busy'' else Inr ''audio'') (new_circuit 5 100 10) in
    res oc = Inr ''audio'' \<and> inner_calls oc = 2 \<and> slept oc = [200000000]"
  using tts_retry_first_success
    [of 0 "new_circuit 5 100 10" 1 retry_tts "\<lambda>i. if i = 0 then Inl ''busy'' else Inr ''audio''" "''audio''"
        "\<lambda>_. ''busy''" "\<lambda>_. 0"]
  by (simp add: Let_def retry_tts_def permits_def can_call_def new_circuit_def)

end
