(* ===== verification/Core_Types.thy ===== *)
theory Core_Types
  imports Complex_Main Prelude
begin

text \<open>
  The vocabulary of \<open>crates/athena-voice-core\<close>: identifiers and their validation (\<open>ids.rs\<close>), the error
  type (\<open>error.rs\<close>), the event-bus messages (\<open>event.rs\<close>) and the data types (\<open>types.rs\<close>), plus the
  skill SDK's answer type, which every runtime component passes around.

  A session id is a 128-bit UUID; parsing and printing UUIDs is the \<open>uuid\<close> crate's. JSON values follow
  \<open>serde_json::Value\<close>, with the three number representations of that crate; a 32-bit float travels as
  its bit pattern except in the intent engine, where arithmetic is done on it.
\<close>

section \<open>Text constants\<close>

text \<open>The UTF-8 encodings of the accented letters the code's phrases use.\<close>

definition e_acute :: string where "e_acute = [CHR 0xC3, CHR 0xA9]"
definition a_grave :: string where "a_grave = [CHR 0xC3, CHR 0xA0]"
definition e_grave :: string where "e_grave = [CHR 0xC3, CHR 0xA8]"
definition e_circ :: string where "e_circ = [CHR 0xC3, CHR 0xAA]"

section \<open>Identifiers\<close>

type_synonym session_id = "128 word"
type_synonym satellite_id = string
type_synonym locale_id = string

datatype id_error = InvalidSatelliteId string | InvalidLocale string | InvalidSessionId string

definition is_ascii_lowercase :: "char \<Rightarrow> bool" where
  "is_ascii_lowercase c \<longleftrightarrow> 97 \<le> (of_char c :: nat) \<and> (of_char c :: nat) \<le> 122"

definition is_ascii_uppercase :: "char \<Rightarrow> bool" where
  "is_ascii_uppercase c \<longleftrightarrow> 65 \<le> (of_char c :: nat) \<and> (of_char c :: nat) \<le> 90"

definition is_ascii_digit :: "char \<Rightarrow> bool" where
  "is_ascii_digit c \<longleftrightarrow> 48 \<le> (of_char c :: nat) \<and> (of_char c :: nat) \<le> 57"

definition is_ascii :: "char \<Rightarrow> bool" where
  "is_ascii c \<longleftrightarrow> (of_char c :: nat) < 128"

text \<open>Every byte of a non-ASCII scalar value fails the three tests, so testing bytes is testing
  \<open>chars()\<close>.\<close>

definition satellite_new :: "string \<Rightarrow> id_error + satellite_id" where
  "satellite_new s =
     (if s = [] \<or> length s > 64
         \<or> \<not> list_all (\<lambda>c. is_ascii_lowercase c \<or> is_ascii_digit c \<or> c = CHR ''-'') s
      then Inl (InvalidSatelliteId s) else Inr s)"

definition locale_new :: "string \<Rightarrow> id_error + locale_id" where
  "locale_new s =
     (let ok =
        (if length s = 2 then list_all is_ascii_lowercase s
         else if length s = 5 then
           is_ascii_lowercase (s ! 0) \<and> is_ascii_lowercase (s ! 1) \<and> s ! 2 = CHR ''-''
           \<and> is_ascii_uppercase (s ! 3) \<and> is_ascii_uppercase (s ! 4)
         else False)
      in if \<not> ok then Inl (InvalidLocale s) else Inr s)"

definition valid_satellite :: "satellite_id \<Rightarrow> bool" where
  "valid_satellite s \<longleftrightarrow> satellite_new s = Inr s"

definition valid_locale :: "locale_id \<Rightarrow> bool" where
  "valid_locale s \<longleftrightarrow> locale_new s = Inr s"

lemma satellite_new_Inr: "satellite_new s = Inr t \<longleftrightarrow> t = s \<and> valid_satellite s"
  by (auto simp: satellite_new_def valid_satellite_def)

lemma locale_new_Inr: "locale_new s = Inr t \<longleftrightarrow> t = s \<and> valid_locale s"
  by (auto simp: locale_new_def valid_locale_def Let_def)

lemma valid_satellite_plain:
  assumes "valid_satellite s"
  shows "s \<noteq> []" "length s \<le> 64" "\<And>c. c \<in> set s \<Longrightarrow> c \<notin> {CHR ''/'', CHR ''+'', CHR ''#''}"
proof -
  have all: "list_all (\<lambda>c. is_ascii_lowercase c \<or> is_ascii_digit c \<or> c = CHR ''-'') s"
    and "s \<noteq> []" "length s \<le> 64"
    using assms by (auto simp: valid_satellite_def satellite_new_def not_less split: if_splits)
  then show "s \<noteq> []" "length s \<le> 64" by simp_all
  fix c assume "c \<in> set s"
  then have "is_ascii_lowercase c \<or> is_ascii_digit c \<or> c = CHR ''-''" using all by (simp add: list_all_iff)
  then show "c \<notin> {CHR ''/'', CHR ''+'', CHR ''#''}"
    by (auto simp: is_ascii_lowercase_def is_ascii_digit_def)
qed

section \<open>Data types\<close>

datatype jnumber = PosInt u64 | NegInt i64 | FloatBits u64

datatype json =
    JNull
  | JBool bool
  | JNum jnumber
  | JStr string
  | JArr "json list"
  | JObj "(string \<times> json) list"

definition json_get :: "string \<Rightarrow> json \<Rightarrow> json option" where
  "json_get k v = (case v of JObj kvs \<Rightarrow> map_of kvs k | _ \<Rightarrow> None)"

definition as_str :: "json \<Rightarrow> string option" where
  "as_str v = (case v of JStr s \<Rightarrow> Some s | _ \<Rightarrow> None)"

record audio_frame =
  af_session :: session_id
  af_seq :: u32
  af_pcm :: "byte list"

record transcript =
  t_text :: string
  t_is_final :: bool
  t_confidence :: "u32 option"

text \<open>\<open>slots\<close> is a \<open>BTreeMap\<close>: an association list in key order. The core's intent carries the matcher's
  confidence (a finite float, as the rational it denotes), the SDK's carries the session's locale.\<close>

record core_intent =
  ci_name :: string
  ci_slots :: "(string \<times> json) list"
  ci_confidence :: rat

record intent =
  i_name :: string
  i_slots :: "(string \<times> json) list"
  i_locale :: string

datatype audio_format = S16le | Opus | F32le | TextFormat
datatype stage = Ingest | Vad | Stt | Router | Skill | Llm | Tts | Sink | Storage
datatype outcome = OutOk | OutError | OutCancelled | OutOverloaded | OutOrphaned
datatype barge_in_reason = NewFinalTranscript | VadSpeechStart
datatype llm_fallback_reason = NoMatch | MissingSlots
datatype finish_reason = Stop | Length | ContentFilter | FinishError

datatype event =
    SessionStarted session_id satellite_id locale_id
  | AudioFrameDropped session_id u32
  | TranscriptPartial session_id string
  | TranscriptFinal session_id string
  | IntentMatched session_id core_intent
  | SkillInvoked session_id string
  | SkillPanicked session_id string string
  | LlmFallback session_id llm_fallback_reason "string list"
  | TtsChunk session_id u32 nat
  | SessionEnded session_id outcome
  | ProviderError session_id stage string
  | CircuitOpened stage string
  | CircuitClosed stage string
  | BargeIn session_id barge_in_reason
  | SkillCancelled session_id string
  | SkillReloaded string
  | SkillReloadFailed string string
  | ScheduledFired string i64
  | SkillNotify session_id string string
  | AudioChunk session_id audio_format u32 "byte list"
  | VolumeChanged session_id u32
  | TtsText session_id string

text \<open>The skill SDK's answers and errors (\<open>athena-voice-skill-sdk/src/response.rs\<close>, \<open>skill.rs\<close>).\<close>

datatype skill_response =
    Speak string
  | AskLlm string
  | Empty
  | SampledPcm u32 "u32 list"
  | SampledOpus "byte list"
  | Volume u32

datatype skill_error =
    HttpFailed string
  | MqttFailed string
  | StateError string
  | ConfigError string
  | HostFn string
  | Custom string

text \<open>\<open>SkillResponse::volume\<close> clamps its level, here a rational, to \<open>0 \<dots> 1.5\<close>.\<close>

definition clamp_volume :: "rat \<Rightarrow> rat" where
  "clamp_volume level = max 0 (min (3 / 2) level)"

text \<open>\<open>to_le_bytes\<close> and \<open>from_le_bytes\<close> of a 32-bit value.\<close>

definition le_bytes32 :: "u32 \<Rightarrow> byte list" where
  "le_bytes32 x = map (\<lambda>i. ucast (drop_bit (8 * i) x)) [0, 1, 2, 3]"

fun from_le32 :: "byte list \<Rightarrow> u32" where
  "from_le32 (a # b # c # d # _) = or (or (ucast a) (push_bit 8 (ucast b))) (or (push_bit 16 (ucast c)) (push_bit 24 (ucast d)))"
| "from_le32 _ = 0"

lemma le_bytes32_from_le32 [simp]: "le_bytes32 (from_le32 [a, b, c, d]) = [a, b, c, d]"
  by (simp add: le_bytes32_def bit_eq_iff)
     (auto simp: bit_simps not_less dest: bit_imp_le_length)

section \<open>Core errors\<close>

datatype core_error = InvalidId id_error | Cancelled | Timeout stage u64

definition core_is_retryable :: "core_error \<Rightarrow> bool" where
  "core_is_retryable e = (case e of Timeout _ _ \<Rightarrow> True | _ \<Rightarrow> False)"

definition to_user_message :: "core_error \<Rightarrow> locale_id \<Rightarrow> string" where
  "to_user_message e loc =
     (let lang = take 2 loc in
      case e of
        Timeout _ _ \<Rightarrow>
          if lang = ''fr'' then ''D'' @ e_acute @ ''sol'' @ e_acute @ '', j'' @ [CHR 0x27] @ ''ai mis trop de temps '' @ a_grave
              @ '' r'' @ e_acute @ ''pondre.''
          else ''Sorry, that timed out.''
      | Cancelled \<Rightarrow> if lang = ''fr'' then ''Annul'' @ e_acute @ ''.'' else ''Cancelled.''
      | InvalidId _ \<Rightarrow> if lang = ''fr'' then ''Identifiant invalide.'' else ''Invalid identifier.'')"

end
