(* ===== verification/Floats.thy ===== *)
theory Floats
  imports Complex_Main Prelude "HOL-Library.Log_Nat"
begin

text \<open>
  Binary floating point, as far as the program uses it: a finite \<open>f32\<close> or \<open>f64\<close> value is the rational it
  denotes, and an arithmetic result is the exact one rounded to the format's 24 or 53 significant bits,
  ties to even. Exponent range is not modelled: every quantity the code computes lies far inside it.
\<close>

definition round_half_even :: "rat \<Rightarrow> int" where
  "round_half_even x =
     (let f = \<lfloor>x\<rfloor>; r = x - of_int f in
      if r < 1 / 2 then f else if r > 1 / 2 then f + 1 else if even f then f else f + 1)"

text \<open>\<open>2 ^ k\<close> for a signed exponent, and the exponent \<open>e\<close> with \<open>2 ^ e \<le> x < 2 ^ (e + 1)\<close>.\<close>

definition pow2 :: "int \<Rightarrow> rat" where
  "pow2 k = (if k \<ge> 0 then 2 ^ nat k else 1 / 2 ^ nat (- k))"

definition exponent :: "rat \<Rightarrow> int" where
  "exponent x =
     (let (n, d) = quotient_of x; e = bitlen n - bitlen d in if pow2 e \<le> x then e else e - 1)"

definition fl :: "nat \<Rightarrow> rat \<Rightarrow> rat" where
  "fl p x =
     (if x = 0 then 0
      else let a = \<bar>x\<bar>; u = pow2 (exponent a - int p + 1)
           in sgn x * of_int (round_half_even (a / u)) * u)"

abbreviation f32 :: "rat \<Rightarrow> rat" where "f32 \<equiv> fl 24"
abbreviation f64 :: "rat \<Rightarrow> rat" where "f64 \<equiv> fl 53"

lemma fl_0 [simp]: "fl p 0 = 0"
  by (simp add: fl_def)

lemma fl_minus: "fl p (- x) = - fl p x"
  by (simp add: fl_def Let_def sgn_minus)

lemma fl_diff_swap: "fl p (x - y) = - fl p (y - x)"
  using fl_minus [of p "y - x"] by simp

end
