(* ===== verification/Intent.thy ===== *)
theory Intent
  imports Core_Types Floats "HOL-Library.AList"
begin

text \<open>
  The intent engine (\<open>crates/athena-voice-runtime/src/intent\<close>): pattern rules (\<open>rule.rs\<close>), the index of
  rules by locale (\<open>loader.rs\<close>) and the fuzzy matcher with slot extraction (\<open>engine.rs\<close>).

  \<open>to_lowercase\<close> and \<open>is_alphanumeric\<close> are Unicode data and \<open>strsim\<close>'s similarity is another crate's: the
  matcher takes them as the record \<open>text_fns\<close>. Confidences are floats; see \<open>Floats\<close>.
\<close>

section \<open>Rules\<close>

datatype host_slot_kind = KString | KNumber | KOneOf "string list"

record host_slot_spec =
  slot_name :: string
  slot_kind :: host_slot_kind

record host_pattern_rule =
  r_intent :: string
  r_phrases :: "string list"
  r_slots :: "host_slot_spec list"

type_synonym rule_entry = "host_pattern_rule \<times> string"
type_synonym rule_index = "(string \<times> rule_entry list) list"

definition ri_new :: rule_index where
  "ri_new = []"

definition ri_for_locale :: "rule_index \<Rightarrow> string \<Rightarrow> rule_entry list option" where
  "ri_for_locale idx loc = map_of idx loc"

definition ri_insert :: "string \<Rightarrow> host_pattern_rule \<Rightarrow> string \<Rightarrow> rule_index \<Rightarrow> rule_index" where
  "ri_insert loc rule skill idx =
     AList.update loc ((case map_of idx loc of None \<Rightarrow> [] | Some es \<Rightarrow> es) @ [(rule, skill)]) idx"

definition ri_locale_count :: "rule_index \<Rightarrow> nat" where
  "ri_locale_count idx = length idx"

lemma ri_for_locale_insert [simp]:
  "ri_for_locale (ri_insert loc rule skill idx) loc' =
     (if loc' = loc then Some ((case ri_for_locale idx loc of None \<Rightarrow> [] | Some es \<Rightarrow> es) @ [(rule, skill)])
      else ri_for_locale idx loc')"
  by (simp add: ri_for_locale_def ri_insert_def update_conv')

lemma ri_insert_distinct [inv_intros]:
  "distinct (map fst idx) \<Longrightarrow> distinct (map fst (ri_insert loc rule skill idx))"
  by (simp add: ri_insert_def distinct_update)

section \<open>Phrases\<close>

datatype segment = Literal string | Slot string

text \<open>\<open>split_phrase\<close>, with the buffer and, inside braces, the name read so far. An unclosed brace takes
  the rest of the phrase as the slot's name.\<close>

definition flush_buf :: "string \<Rightarrow> segment list" where
  "flush_buf b = (if b = [] then [] else [Literal b])"

fun split_lit :: "string \<Rightarrow> string \<Rightarrow> segment list"
and split_slot :: "string \<Rightarrow> string \<Rightarrow> segment list" where
  "split_lit [] b = flush_buf b"
| "split_lit (c # cs) b = (if c = CHR 0x7B then flush_buf b @ split_slot cs [] else split_lit cs (b @ [c]))"
| "split_slot [] name = [Slot name]"
| "split_slot (c # cs) name = (if c = CHR 0x7D then Slot name # split_lit cs [] else split_slot cs (name @ [c]))"

definition split_phrase :: "string \<Rightarrow> segment list" where
  "split_phrase phrase = split_lit phrase []"

section \<open>Matching one phrase\<close>

record text_fns =
  lower :: "string \<Rightarrow> string"
  alnum :: "string \<Rightarrow> bool"
  similarity :: "string \<Rightarrow> string \<Rightarrow> rat"

record intent_match =
  m_intent :: intent
  m_skill :: string
  m_confidence :: rat
  m_specificity :: nat

definition match_threshold :: rat where "match_threshold = f32 (4 / 5)"
definition specificity_epsilon :: rat where "specificity_epsilon = f32 (1 / 20)"

fun norm_go :: "(string \<Rightarrow> bool) \<Rightarrow> string list \<Rightarrow> string \<Rightarrow> bool \<Rightarrow> string" where
  "norm_go keep [] out pending = out"
| "norm_go keep (g # gs) out pending =
     (if keep g \<or> g = [CHR 0x27] \<or> g = ''-'' then
        norm_go keep gs ((if pending \<and> out \<noteq> [] then out @ '' '' else out) @ g) False
      else norm_go keep gs out True)"

definition normalize_literal :: "text_fns \<Rightarrow> string \<Rightarrow> string" where
  "normalize_literal tf s = norm_go (alnum tf) (uchars (lower tf s)) [] False"

definition windows :: "nat \<Rightarrow> string list \<Rightarrow> string list" where
  "windows sz ws =
     (if sz > length ws then []
      else map (\<lambda>start. join '' '' (take sz (drop start ws))) [0 ..< length ws - sz + 1])"

definition best_window_similarity :: "text_fns \<Rightarrow> string \<Rightarrow> string \<Rightarrow> rat" where
  "best_window_similarity tf phrase input =
     (let ws = split_whitespace input; n = length (split_whitespace phrase) in
      if n = 0 \<or> length ws \<le> n then 0
      else fold (\<lambda>w best. max best (similarity tf phrase w))
             (windows (max (n - 1) 1) ws @ windows n ws @ windows (n + 1) ws) 0)"

text \<open>\<open>str::parse::<f64>().is_ok()\<close>, by the grammar of its documentation.\<close>

definition ascii_lower :: "string \<Rightarrow> string" where
  "ascii_lower s = map (\<lambda>c. if is_ascii_uppercase c then char_of (of_char c + 32 :: nat) else c) s"

definition exponent_ok :: "string \<Rightarrow> bool" where
  "exponent_ok s =
     (case s of
        [] \<Rightarrow> True
      | c # cs \<Rightarrow>
          (c = CHR ''e'' \<or> c = CHR ''E'')
          \<and> (let ds = (case cs of d # ds \<Rightarrow> if d = CHR ''+'' \<or> d = CHR ''-'' then ds else cs | [] \<Rightarrow> [])
             in ds \<noteq> [] \<and> list_all is_ascii_digit ds))"

definition parses_f64 :: "string \<Rightarrow> bool" where
  "parses_f64 s =
     (let r = (case s of c # cs \<Rightarrow> if c = CHR ''+'' \<or> c = CHR ''-'' then cs else s | [] \<Rightarrow> []);
          ip = takeWhile is_ascii_digit r; r1 = dropWhile is_ascii_digit r;
          (fp, r2) = (case r1 of c # cs \<Rightarrow> if c = CHR ''.'' then (takeWhile is_ascii_digit cs, dropWhile is_ascii_digit cs) else ([], r1)
                      | [] \<Rightarrow> ([], []))
      in ascii_lower r \<in> set [''inf'', ''infinity'', ''nan'']
         \<or> (ip \<noteq> [] \<or> fp \<noteq> []) \<and> exponent_ok r2)"

definition slot_matches_kind :: "string \<Rightarrow> host_pattern_rule \<Rightarrow> string \<Rightarrow> bool" where
  "slot_matches_kind raw rule name =
     (case List.find (\<lambda>s. slot_name s = name) (r_slots rule) of
        None \<Rightarrow> True
      | Some spec \<Rightarrow>
          (case slot_kind spec of
             KString \<Rightarrow> True
           | KNumber \<Rightarrow> parses_f64 raw
           | KOneOf options \<Rightarrow> list_ex (\<lambda>opt. ascii_lower opt = ascii_lower raw) options))"

text \<open>\<open>str::get(a..b)\<close>: \<open>None\<close> unless the range is in bounds and cuts no scalar value.\<close>

definition char_boundary :: "string \<Rightarrow> nat \<Rightarrow> bool" where
  "char_boundary s i \<longleftrightarrow> i = length s \<or> i < length s \<and> (i = 0 \<or> \<not> is_cont (s ! i))"

definition str_get :: "string \<Rightarrow> nat \<Rightarrow> nat \<Rightarrow> string option" where
  "str_get s a b =
     (if a \<le> b \<and> char_boundary s a \<and> char_boundary s b then Some (take (b - a) (drop a s)) else None)"

record walk_state =
  cursor :: nat
  w_slots :: "(string \<times> json) list"
  filled :: string

definition slot_end :: "text_fns \<Rightarrow> string \<Rightarrow> nat \<Rightarrow> segment list \<Rightarrow> nat" where
  "slot_end tf nrm cur rest =
     (case rest of
        Literal nxt # _ \<Rightarrow> cur + (case find_str (lower tf nxt) (drop cur nrm) of None \<Rightarrow> 0 | Some i \<Rightarrow> i)
      | _ \<Rightarrow> length nrm)"

fun walk :: "text_fns \<Rightarrow> host_pattern_rule \<Rightarrow> string \<Rightarrow> string \<Rightarrow> segment list \<Rightarrow> walk_state \<Rightarrow> walk_state option" where
  "walk tf rule input nrm [] w = Some w"
| "walk tf rule input nrm (Literal lit # segs) w =
     (let ll = lower tf lit in
      case find_str ll (drop (cursor w) nrm) of
        Some hit \<Rightarrow>
          walk tf rule input nrm segs
            (w\<lparr>cursor := cursor w + hit + length ll, filled := filled w @ lit\<rparr>)
      | None \<Rightarrow>
          (let tr = trim_end ll in
           case find_str tr (drop (cursor w) nrm) of
             None \<Rightarrow> None
           | Some hit \<Rightarrow>
               walk tf rule input nrm segs
                 (w\<lparr>cursor := cursor w + hit + length tr, filled := filled w @ trim_end lit\<rparr>)))"
| "walk tf rule input nrm (Slot name # segs) w =
     (let e = slot_end tf nrm (cursor w) segs in
      case map_option trim (str_get input (cursor w) e) of
        Some raw \<Rightarrow>
          if raw \<noteq> [] \<and> slot_matches_kind raw rule name then
            walk tf rule input nrm segs
              \<lparr>cursor = e, w_slots = bt_insert name (JStr raw) (w_slots w), filled = filled w @ raw\<rparr>
          else walk tf rule input nrm segs (w\<lparr>w_slots := bt_insert name JNull (w_slots w)\<rparr>)
      | None \<Rightarrow> walk tf rule input nrm segs (w\<lparr>w_slots := bt_insert name JNull (w_slots w)\<rparr>))"

definition mk_match :: "host_pattern_rule \<Rightarrow> (string \<times> json) list \<Rightarrow> rat \<Rightarrow> nat \<Rightarrow> intent_match" where
  "mk_match rule slots conf spec =
     \<lparr>m_intent = \<lparr>i_name = r_intent rule, i_slots = slots, i_locale = []\<rparr>, m_skill = [],
      m_confidence = conf, m_specificity = spec\<rparr>"

definition match_literal :: "text_fns \<Rightarrow> string \<Rightarrow> host_pattern_rule \<Rightarrow> string \<Rightarrow> intent_match" where
  "match_literal tf lit rule input =
     (let ll = normalize_literal tf lit; inp = normalize_literal tf input;
          whole = similarity tf ll inp;
          sim = max whole (f64 (best_window_similarity tf ll inp * f64 (19 / 20)))
      in mk_match rule [] (f32 sim) (length (split_whitespace ll)))"

definition try_match_phrase :: "text_fns \<Rightarrow> string \<Rightarrow> host_pattern_rule \<Rightarrow> string \<Rightarrow> intent_match option" where
  "try_match_phrase tf phrase rule input =
     (let segments = split_phrase phrase; nrm = lower tf input in
      case segments of
        [Literal lit] \<Rightarrow> Some (match_literal tf lit rule input)
      | _ \<Rightarrow>
          (case walk tf rule input nrm segments \<lparr>cursor = 0, w_slots = [], filled = []\<rparr> of
             None \<Rightarrow> None
           | Some w \<Rightarrow>
               Some (mk_match rule (w_slots w) (f32 (similarity tf (lower tf (filled w)) nrm))
                      (length (split_whitespace (filled w))))))"

section \<open>Choosing a match\<close>

definition better :: "intent_match \<Rightarrow> intent_match option \<Rightarrow> bool" where
  "better c best =
     (case best of
        None \<Rightarrow> True
      | Some b \<Rightarrow>
          (let diff = f32 (m_confidence c - m_confidence b) in
           if \<bar>diff\<bar> \<le> specificity_epsilon then m_specificity c > m_specificity b else diff > 0))"

definition pick :: "intent_match \<Rightarrow> intent_match option \<Rightarrow> intent_match option" where
  "pick c best = (if better c best then Some c else best)"

definition match_one :: "text_fns \<Rightarrow> string \<Rightarrow> rule_entry \<Rightarrow> string \<Rightarrow> intent_match option \<Rightarrow> intent_match option" where
  "match_one tf text entry phrase best =
     (case try_match_phrase tf phrase (fst entry) text of
        Some c \<Rightarrow> if m_confidence c \<ge> match_threshold then pick (c\<lparr>m_skill := snd entry\<rparr>) best else best
      | None \<Rightarrow> best)"

definition find_match :: "text_fns \<Rightarrow> string \<Rightarrow> string \<Rightarrow> rule_index \<Rightarrow> intent_match option" where
  "find_match tf text loc idx =
     (case ri_for_locale idx loc of
        None \<Rightarrow> None
      | Some rules \<Rightarrow>
          fold (\<lambda>entry. fold (match_one tf text entry) (r_phrases (fst entry))) rules None)"

section \<open>Properties of phrases\<close>

fun render :: "segment list \<Rightarrow> string" where
  "render [] = []"
| "render (Literal l # segs) = l @ render segs"
| "render (Slot n # segs) = CHR 0x7B # n @ CHR 0x7D # render segs"

fun wf_segs :: "segment list \<Rightarrow> bool" where
  "wf_segs [] = True"
| "wf_segs (Literal l # segs) \<longleftrightarrow>
     l \<noteq> [] \<and> CHR 0x7B \<notin> set l \<and> (case segs of Literal _ # _ \<Rightarrow> False | _ \<Rightarrow> True) \<and> wf_segs segs"
| "wf_segs (Slot n # segs) \<longleftrightarrow> CHR 0x7D \<notin> set n \<and> wf_segs segs"

lemma wf_segs_flush:
  "wf_segs (flush_buf b @ segs) \<longleftrightarrow>
     wf_segs segs \<and> (b \<noteq> [] \<longrightarrow> CHR 0x7B \<notin> set b \<and> (case segs of Literal _ # _ \<Rightarrow> False | _ \<Rightarrow> True))"
  by (auto simp: flush_buf_def)

lemma split_slot_first: "\<exists>n segs. split_slot s name = Slot n # segs"
  by (induction s arbitrary: name) auto

lemma split_lit_wf:
  "CHR 0x7B \<notin> set b \<Longrightarrow> wf_segs (split_lit s b)"
  "CHR 0x7D \<notin> set n \<Longrightarrow> wf_segs (split_slot s n)"
proof (induction s b and s n rule: split_lit_split_slot.induct)
  case (1 b)
  then show ?case by (auto simp: flush_buf_def)
next
  case (2 c cs b)
  obtain n segs where "split_slot cs [] = Slot n # segs" using split_slot_first by blast
  then show ?case using 2 by (auto simp: wf_segs_flush)
qed auto

lemma render_split:
  "render (split_lit s b) \<in> {b @ s, b @ s @ [CHR 0x7D]}"
  "render (split_slot s n) \<in> {CHR 0x7B # n @ s, CHR 0x7B # n @ s @ [CHR 0x7D]}"
  by (induction s b and s n rule: split_lit_split_slot.induct) (auto simp: flush_buf_def)

lemma split_lit_prefix: "CHR 0x7B \<notin> set l \<Longrightarrow> split_lit (l @ s) b = split_lit s (b @ l)"
  by (induction l arbitrary: b) auto

lemma split_slot_prefix:
  "CHR 0x7D \<notin> set n \<Longrightarrow> split_slot (n @ CHR 0x7D # s) m = Slot (m @ n) # split_lit s []"
  by (induction n arbitrary: m) auto

lemma split_render: "wf_segs segs \<Longrightarrow> split_lit (render segs) [] = segs"
proof (induction segs rule: render.induct)
  case (2 l segs)
  show ?case
  proof (cases segs)
    case Nil
    then show ?thesis using 2 by (simp add: split_lit_prefix [of l "[]", simplified] flush_buf_def)
  next
    case (Cons seg segs')
    then obtain n where seg: "seg = Slot n" using 2 by (cases seg) auto
    have "split_slot (n @ CHR 0x7D # render segs') [] = segs" using 2 Cons seg by (simp add: flush_buf_def)
    then show ?thesis using 2 Cons seg by (simp add: split_lit_prefix flush_buf_def)
  qed
next
  case (3 n segs)
  then show ?case by (simp add: split_slot_prefix flush_buf_def)
qed (simp add: flush_buf_def)

text \<open>Phrases are parsed faithfully: parsing the text of any list of segments whose literals are
  non-empty, brace-free and never adjacent and whose slot names have no closing brace gives that list
  back; every phrase parses to such a list, whose text is the phrase itself, completed with a closing brace
  when the last one is missing.\<close>

theorem split_phrase_roundtrip:
  "(\<forall>segs. wf_segs segs \<longrightarrow> split_phrase (render segs) = segs)
   \<and> wf_segs (split_phrase phrase) \<and> render (split_phrase phrase) \<in> {phrase, phrase @ [CHR 0x7D]}"
  using split_lit_wf(1) [of "[]" phrase] render_split(1) [of phrase "[]"]
  by (simp add: split_phrase_def split_render)

theorem split_phrase_roundtrip_witness:
  "split_phrase ''volume {n} please'' = [Literal ''volume '', Slot ''n'', Literal '' please'']"
proof -
  have "wf_segs [Literal ''volume '', Slot ''n'', Literal '' please'']" by code_simp
  then have "split_phrase (render [Literal ''volume '', Slot ''n'', Literal '' please''])
      = [Literal ''volume '', Slot ''n'', Literal '' please'']"
    using split_phrase_roundtrip by blast
  then show ?thesis by simp
qed

section \<open>Properties of slots\<close>

fun slot_names :: "segment list \<Rightarrow> string list" where
  "slot_names [] = []"
| "slot_names (Literal _ # segs) = slot_names segs"
| "slot_names (Slot n # segs) = n # slot_names segs"

definition slot_value_ok :: "string \<Rightarrow> host_pattern_rule \<Rightarrow> string \<times> json \<Rightarrow> bool" where
  "slot_value_ok input rule kv \<longleftrightarrow>
     snd kv = JNull
     \<or> (\<exists>a b x. str_get input a b = Some x \<and> snd kv = JStr (trim x) \<and> trim x \<noteq> []
          \<and> slot_matches_kind (trim x) rule (fst kv))"

definition slots_wf :: "string \<Rightarrow> host_pattern_rule \<Rightarrow> (string \<times> json) list \<Rightarrow> bool" where
  "slots_wf input rule m \<longleftrightarrow> sorted_wrt (<) (map fst m) \<and> (\<forall>kv \<in> set m. slot_value_ok input rule kv)"

lemma set_bt_insert: "set (bt_insert k v m) \<subseteq> insert (k, v) (set m)"
  by (induction k v m rule: bt_insert.induct) auto

lemma slots_wf_insert:
  "slots_wf input rule m \<Longrightarrow> slot_value_ok input rule (k, v) \<Longrightarrow> slots_wf input rule (bt_insert k v m)"
  using set_bt_insert [of k v m] by (auto simp: slots_wf_def sorted_bt_insert)

lemma walk_slots:
  assumes "walk tf rule input nrm segs w = Some w'" "slots_wf input rule (w_slots w)"
  shows "slots_wf input rule (w_slots w') \<and> fst ` set (w_slots w') = fst ` set (w_slots w) \<union> set (slot_names segs)"
  using assms
proof (induction tf rule input nrm segs w rule: walk.induct)
  case (2 tf rule input nrm lit segs w)
  then show ?case by (auto simp: Let_def split: option.splits)
next
  case (3 tf rule input nrm name segs w)
  let ?e = "slot_end tf nrm (cursor w) segs"
  have nul: "slots_wf input rule (bt_insert name JNull (w_slots w))"
    using 3(5) by (simp add: slots_wf_insert slot_value_ok_def)
  show ?case
  proof (cases "str_get input (cursor w) ?e")
    case None
    then show ?thesis using 3 nul by simp
  next
    case (Some x)
    show ?thesis
    proof (cases "trim x \<noteq> [] \<and> slot_matches_kind (trim x) rule name")
      case True
      then have "slot_value_ok input rule (name, JStr (trim x))"
        using Some by (auto simp: slot_value_ok_def)
      then show ?thesis using 3 Some True by (simp add: slots_wf_insert)
    next
      case False
      then have "walk tf rule input nrm segs (w\<lparr>w_slots := bt_insert name JNull (w_slots w)\<rparr>) = Some w'"
        using 3(4) Some False by (auto simp: Let_def split: if_splits)
      then show ?thesis using 3 Some nul False by force
    qed
  qed
qed simp

text \<open>C9: slot values come from the speaker: a match carries exactly one entry per slot named in its
  phrase, in key order; each is null or a non-empty trimmed piece of the input, cut at character
  boundaries, that fits the kind the rule declares for the slot.\<close>

theorem slots_come_from_input:
  assumes "try_match_phrase tf phrase rule input = Some m"
  shows "i_name (m_intent m) = r_intent rule
    \<and> fst ` set (i_slots (m_intent m)) = set (slot_names (split_phrase phrase))
    \<and> slots_wf input rule (i_slots (m_intent m))"
proof (cases "\<exists>lit. split_phrase phrase = [Literal lit]")
  case True
  then show ?thesis using assms
    by (auto simp: try_match_phrase_def match_literal_def mk_match_def Let_def slots_wf_def)
next
  case False
  then obtain w where w: "walk tf rule input (lower tf input) (split_phrase phrase)
      \<lparr>cursor = 0, w_slots = [], filled = []\<rparr> = Some w"
    and m: "m = mk_match rule (w_slots w) (f32 (similarity tf (lower tf (filled w)) (lower tf input)))
                  (length (split_whitespace (filled w)))"
    using assms by (auto simp: try_match_phrase_def Let_def split: list.splits segment.splits option.splits)
  from walk_slots [OF w] show ?thesis by (simp add: m mk_match_def slots_wf_def)
qed

theorem slots_come_from_input_witness:
  "slots_wf ''meteo a Paris '' \<lparr>r_intent = ''weather'', r_phrases = [], r_slots = []\<rparr> [(''city'', JStr ''Paris'')]"
proof -
  let ?tf = "\<lparr>lower = ascii_lower, alnum = (\<lambda>_. True), similarity = (\<lambda>_ _. 1)\<rparr>"
    and ?rule = "\<lparr>r_intent = ''weather'', r_phrases = [], r_slots = []\<rparr>"
  have "try_match_phrase ?tf ''meteo a {city}'' ?rule ''meteo a Paris ''
      = Some (mk_match ?rule [(''city'', JStr ''Paris'')] 1 3)"
    by code_simp
  from slots_come_from_input [OF this] show ?thesis by (simp add: mk_match_def)
qed

section \<open>Properties of the choice\<close>

definition entries :: "rule_index \<Rightarrow> string \<Rightarrow> rule_entry list" where
  "entries idx loc = (case ri_for_locale idx loc of None \<Rightarrow> [] | Some es \<Rightarrow> es)"

text \<open>The candidates, in the order the engine sees them.\<close>

definition phrase_candidates :: "text_fns \<Rightarrow> string \<Rightarrow> rule_entry \<Rightarrow> string \<Rightarrow> intent_match list" where
  "phrase_candidates tf text entry phrase =
     (case try_match_phrase tf phrase (fst entry) text of
        Some c \<Rightarrow> if m_confidence c \<ge> match_threshold then [c\<lparr>m_skill := snd entry\<rparr>] else []
      | None \<Rightarrow> [])"

definition candidates :: "text_fns \<Rightarrow> string \<Rightarrow> rule_entry list \<Rightarrow> intent_match list" where
  "candidates tf text es =
     concat (map (\<lambda>e. concat (map (phrase_candidates tf text e) (r_phrases (fst e)))) es)"

lemma match_one_fold: "match_one tf text e ph best = fold pick (phrase_candidates tf text e ph) best"
  by (simp add: match_one_def phrase_candidates_def split: option.splits)

lemma fold_concat_map: "fold f (concat (map g xs)) = fold (\<lambda>x. fold f (g x)) xs"
  by (induction xs) (simp_all add: fun_eq_iff)

lemma find_match_fold: "find_match tf text loc idx = fold pick (candidates tf text (entries idx loc)) None"
proof -
  have "match_one tf text e = (\<lambda>ph. fold pick (phrase_candidates tf text e ph))" for e
    by (intro ext) (rule match_one_fold)
  then show ?thesis
    by (simp only: find_match_def candidates_def entries_def fold_concat_map) (simp split: option.split)
qed

lemma fold_pick_in:
  "fold pick cs b = None \<longleftrightarrow> cs = [] \<and> b = None"
  "fold pick cs b = Some m \<Longrightarrow> m \<in> set cs \<or> b = Some m"
proof (induction cs arbitrary: b)
  case (Cons c cs)
  {
    case 1 show ?case using Cons(1) [of "pick c b"] by (auto simp: pick_def better_def split: option.split)
  next
    case 2 then show ?case using Cons(2) [of "pick c b"] by (auto simp: pick_def split: if_splits)
  }
qed simp_all

lemma epsilon_pos: "specificity_epsilon > 0"
proof -
  have "specificity_epsilon = 13421773 / 268435456" by code_simp
  then show ?thesis by simp
qed

definition clearly_above :: "intent_match \<Rightarrow> intent_match \<Rightarrow> bool" where
  "clearly_above x y \<longleftrightarrow> f32 (m_confidence x - m_confidence y) > specificity_epsilon"

lemma pick_clear:
  assumes "clearly_above x y"
  shows "pick x (Some y) = Some x" "pick y (Some x) = Some x"
  using assms epsilon_pos fl_diff_swap [of 24 "m_confidence y" "m_confidence x"]
  by (auto simp: pick_def better_def clearly_above_def Let_def)

lemma pick_self: "pick x (Some x) = Some x"
  using epsilon_pos by (simp add: pick_def better_def Let_def)

lemma fold_pick_clear:
  assumes "\<And>y. y \<in> set cs \<Longrightarrow> y \<noteq> x \<Longrightarrow> clearly_above x y" "b = None \<or> b = Some x \<or> clearly_above x (the b)"
    "x \<in> set cs \<or> b = Some x"
  shows "fold pick cs b = Some x"
  using assms
proof (induction cs arbitrary: b)
  case (Cons c cs)
  show ?case
  proof (cases "c = x")
    case True
    have "pick c b = Some x"
    proof (cases b)
      case (Some y)
      then show ?thesis using Cons.prems(2) True pick_self pick_clear(1) by auto
    qed (simp add: pick_def better_def True)
    then show ?thesis using Cons.IH [of "Some x"] Cons.prems(1) by simp
  next
    case False
    then have c: "clearly_above x c" using Cons.prems(1) by simp
    have "pick c b = Some x \<Longrightarrow> b = Some x"
      using False by (simp add: pick_def split: if_splits)
    moreover have "pick c b = b \<or> pick c b = Some c" by (simp add: pick_def)
    moreover have "b = Some x \<Longrightarrow> pick c b = Some x" using pick_clear(2) [OF c] by simp
    ultimately show ?thesis using Cons.IH [of "pick c b"] Cons.prems False c by auto
  qed
qed auto

text \<open>C5: the matcher answers exactly when some phrase of the locale's rules reaches the threshold, its
  answer is one of those candidates tagged with the skill that owns the rule, and a candidate whose
  confidence exceeds every other's by more than the tie band is the answer, whatever the order in which
  skills registered their rules.\<close>

theorem find_match_correct:
  "(find_match tf text loc idx = None \<longleftrightarrow> candidates tf text (entries idx loc) = [])
   \<and> (\<forall>m. find_match tf text loc idx = Some m \<longrightarrow>
        (\<exists>(rule, skill) \<in> set (entries idx loc). \<exists>phrase \<in> set (r_phrases rule). \<exists>c.
           try_match_phrase tf phrase rule text = Some c \<and> m_confidence c \<ge> match_threshold
           \<and> m = c\<lparr>m_skill := skill\<rparr>))
   \<and> (\<forall>x. x \<in> set (candidates tf text (entries idx loc)) \<longrightarrow>
        (\<forall>y \<in> set (candidates tf text (entries idx loc)). y \<noteq> x \<longrightarrow> clearly_above x y) \<longrightarrow>
        find_match tf text loc idx = Some x)"
proof (intro conjI allI impI)
  let ?cs = "candidates tf text (entries idx loc)"
  show "find_match tf text loc idx = None \<longleftrightarrow> ?cs = []"
    by (simp add: find_match_fold fold_pick_in(1))
  fix m assume "find_match tf text loc idx = Some m"
  then have "m \<in> set ?cs" using fold_pick_in(2) by (force simp: find_match_fold)
  then show "\<exists>(rule, skill) \<in> set (entries idx loc). \<exists>phrase \<in> set (r_phrases rule). \<exists>c.
           try_match_phrase tf phrase rule text = Some c \<and> m_confidence c \<ge> match_threshold
           \<and> m = c\<lparr>m_skill := skill\<rparr>"
    by (force simp: candidates_def phrase_candidates_def split: option.splits if_splits)
next
  let ?cs = "candidates tf text (entries idx loc)"
  fix x assume "x \<in> set ?cs" "\<forall>y \<in> set ?cs. y \<noteq> x \<longrightarrow> clearly_above x y"
  then show "find_match tf text loc idx = Some x"
    unfolding find_match_fold by (intro fold_pick_clear) auto
qed

definition demo_index :: rule_index where
  "demo_index = ri_insert ''fr'' \<lparr>r_intent = ''time'', r_phrases = [''quelle heure est-il''], r_slots = []\<rparr> ''clock''
     (ri_insert ''fr'' \<lparr>r_intent = ''weather'', r_phrases = [''meteo a {city}''], r_slots = []\<rparr> ''weather'' ri_new)"

definition demo_fns :: text_fns where
  "demo_fns = \<lparr>lower = ascii_lower, alnum = (\<lambda>g. list_ex is_ascii_lowercase g), similarity = (\<lambda>a b. if a = b then 1 else 0)\<rparr>"

theorem find_match_correct_witness:
  "find_match demo_fns ''meteo a Paris'' ''fr'' demo_index
     = Some \<lparr>m_intent = \<lparr>i_name = ''weather'', i_slots = [(''city'', JStr ''Paris'')], i_locale = []\<rparr>,
            m_skill = ''weather'', m_confidence = 1, m_specificity = 3\<rparr>"
proof -
  let ?m = "\<lparr>m_intent = \<lparr>i_name = ''weather'', i_slots = [(''city'', JStr ''Paris'')], i_locale = []\<rparr>,
            m_skill = ''weather'', m_confidence = 1, m_specificity = 3\<rparr>"
  have "candidates demo_fns ''meteo a Paris'' (entries demo_index ''fr'') = [?m]" by code_simp
  then show ?thesis using find_match_correct [of demo_fns "''meteo a Paris''" "''fr''" demo_index] by simp
qed

text \<open>The tie band is not transitive: a chain of near-ties, each preferred for being longer, can end on a
  candidate that is clearly below the first, and the outcome depends on the order of the rules.\<close>

lemma near_ties_drift:
  "let cand = (\<lambda>conf spec. mk_match \<lparr>r_intent = ''i'', r_phrases = [], r_slots = []\<rparr> [] conf spec);
       a = cand 1 2; b = cand (31 / 32) 3; c = cand (15 / 16) 4
   in fold pick [a, b, c] None = Some c \<and> clearly_above a c \<and> fold pick [c, a, b] None = Some b"
  by code_simp

end
