(* ===== verification/Sentence.thy ===== *)
theory Sentence
  imports Core_Types
begin

text \<open>
  Sentence aggregation (\<open>athena-voice-runtime/src/pipeline/sentence.rs\<close>), shared by the TTS actor and the
  assist bridge, with the interface both rely on: no non-whitespace character of the token stream is lost,
  repeated or reordered.
\<close>

text \<open>800 ms, in milliseconds.\<close>

definition idle_flush :: nat where
  "idle_flush = 800"

definition is_sentence_boundary :: "string \<Rightarrow> bool" where
  "is_sentence_boundary g \<longleftrightarrow> g = ''.'' \<or> g = ''!'' \<or> g = ''?''"

record sentence_buffer =
  buf :: string

definition sb_new :: sentence_buffer where
  "sb_new = \<lparr>buf = []\<rparr>"

definition ends_sentence :: "string \<Rightarrow> bool" where
  "ends_sentence s =
     (case rev (uchars (trim_end s)) of [] \<Rightarrow> False | c # _ \<Rightarrow> is_sentence_boundary c)"

definition sb_push :: "string \<Rightarrow> sentence_buffer \<Rightarrow> string option \<times> sentence_buffer" where
  "sb_push token b =
     (let s = buf b @ token; boundary = ends_sentence s in
      if (boundary \<or> length s \<ge> 100) \<and> trim s \<noteq> []
      then (Some (trim s), b\<lparr>buf := []\<rparr>)
      else (None, b\<lparr>buf := s\<rparr>))"

definition sb_take :: "sentence_buffer \<Rightarrow> string option \<times> sentence_buffer" where
  "sb_take b = (let out = trim (buf b) in (if out = [] then None else Some out, b\<lparr>buf := []\<rparr>))"

definition sb_clear :: "sentence_buffer \<Rightarrow> sentence_buffer" where
  "sb_clear b = b\<lparr>buf := []\<rparr>"

definition sb_is_empty :: "sentence_buffer \<Rightarrow> bool" where
  "sb_is_empty b \<longleftrightarrow> trim (buf b) = []"

section \<open>The aggregator's contract\<close>

definition ink_opt :: "string option \<Rightarrow> string list" where
  "ink_opt so = (case so of None \<Rightarrow> [] | Some s \<Rightarrow> ink s)"

lemma ink_opt_simps [simp]: "ink_opt None = []" "ink_opt (Some s) = ink s"
  by (simp_all add: ink_opt_def)

fun push_all :: "(string \<Rightarrow> 'b \<Rightarrow> string option \<times> 'b) \<Rightarrow> string list \<Rightarrow> 'b \<Rightarrow> string list \<times> 'b" where
  "push_all push [] b = ([], b)"
| "push_all push (t # ts) b =
     (let (o1, b1) = push t b; (out, b2) = push_all push ts b1
      in ((case o1 of None \<Rightarrow> out | Some s \<Rightarrow> s # out), b2))"

locale aggregator =
  fixes empty :: 'b
    and push :: "string \<Rightarrow> 'b \<Rightarrow> string option \<times> 'b"
    and take_all :: "'b \<Rightarrow> string option \<times> 'b"
    and clear :: "'b \<Rightarrow> 'b"
    and held :: "'b \<Rightarrow> string list"
    and wf :: "'b \<Rightarrow> bool"
  assumes wf_empty: "wf empty" and held_empty: "held empty = []"
    and push_wf: "wf b \<Longrightarrow> lead_ok t \<Longrightarrow> wf (snd (push t b))"
    and push_held: "wf b \<Longrightarrow> lead_ok t \<Longrightarrow>
          ink_opt (fst (push t b)) @ held (snd (push t b)) = held b @ ink t"
    and push_out: "wf b \<Longrightarrow> lead_ok t \<Longrightarrow> fst (push t b) = Some s \<Longrightarrow> ink s \<noteq> [] \<and> lead_ok s"
    and take_held: "wf b \<Longrightarrow> ink_opt (fst (take_all b)) = held b \<and> held (snd (take_all b)) = []"
    and take_wf: "wf b \<Longrightarrow> wf (snd (take_all b))"
    and take_out: "wf b \<Longrightarrow> fst (take_all b) = Some s \<Longrightarrow> ink s \<noteq> [] \<and> lead_ok s"
    and clear_held: "wf b \<Longrightarrow> held (clear b) = [] \<and> wf (clear b)"
begin

lemma push_all_held:
  assumes "wf b" "list_all lead_ok ts"
  shows "concat (map ink (fst (push_all push ts b))) @ held (snd (push_all push ts b))
           = held b @ concat (map ink ts)
         \<and> wf (snd (push_all push ts b)) \<and> list_all (\<lambda>s. ink s \<noteq> [] \<and> lead_ok s) (fst (push_all push ts b))"
  using assms
proof (induction ts arbitrary: b)
  case (Cons t ts)
  obtain o1 b1 where p: "push t b = (o1, b1)" by (cases "push t b")
  obtain out b2 where q: "push_all push ts b1 = (out, b2)" by (cases "push_all push ts b1")
  have t: "lead_ok t" using Cons.prems by simp
  have h: "wf b1" "ink_opt o1 @ held b1 = held b @ ink t" "\<And>s. o1 = Some s \<Longrightarrow> ink s \<noteq> [] \<and> lead_ok s"
    using push_wf [OF Cons.prems(1) t] push_held [OF Cons.prems(1) t] push_out [OF Cons.prems(1) t] p
    by simp_all
  have IH: "concat (map ink out) @ held b2 = held b1 @ concat (map ink ts)" "wf b2"
      "list_all (\<lambda>s. ink s \<noteq> [] \<and> lead_ok s) out"
    using Cons.IH [OF h(1)] Cons.prems q by simp_all
  have "ink_opt o1 @ concat (map ink out) @ held b2 = held b @ ink t @ concat (map ink ts)"
    using h(2) IH(1) by (metis append_assoc)
  with h IH p q show ?case by (cases o1) simp_all
qed simp

end

lemma sb_push_cases:
  obtains (full) "(ends_sentence (buf b @ t) \<or> length (buf b @ t) \<ge> 100) \<and> trim (buf b @ t) \<noteq> []"
      "sb_push t b = (Some (trim (buf b @ t)), b\<lparr>buf := []\<rparr>)"
    | (more) "\<not> ((ends_sentence (buf b @ t) \<or> length (buf b @ t) \<ge> 100) \<and> trim (buf b @ t) \<noteq> [])"
      "sb_push t b = (None, b\<lparr>buf := buf b @ t\<rparr>)"
  by (cases "(ends_sentence (buf b @ t) \<or> length (buf b @ t) \<ge> 100) \<and> trim (buf b @ t) \<noteq> []")
     (auto simp: sb_push_def Let_def)

interpretation sb: aggregator sb_new sb_push sb_take sb_clear "\<lambda>b. ink (buf b)" "\<lambda>b. lead_ok (buf b)"
proof (unfold_locales, goal_cases)
  case 1 show ?case by (simp add: sb_new_def)
next
  case 2 show ?case by (simp add: sb_new_def)
next
  case (3 b t)
  then show ?case by (cases rule: sb_push_cases [of b t]) (simp_all add: lead_ok_append)
next
  case (4 b t)
  then show ?case
    by (cases rule: sb_push_cases [of b t]) (simp_all add: ink_append ink_trim lead_ok_append)
next
  case (5 b t s)
  then have ok: "lead_ok (buf b @ t)" by (simp add: lead_ok_append)
  show ?case using 5 ok
    by (cases rule: sb_push_cases [of b t]) (auto simp: lead_ok_trim trim_Nil_iff ink_trim)
next
  case (6 b)
  then show ?case by (auto simp: sb_take_def Let_def ink_trim trim_Nil_iff)
next
  case (7 b)
  then show ?case by (simp add: sb_take_def Let_def)
next
  case (8 b s)
  then show ?case by (auto simp: sb_take_def Let_def lead_ok_trim ink_trim trim_Nil_iff split: if_splits)
next
  case (9 b)
  then show ?case by (simp add: sb_clear_def)
qed

lemma sb_push_trimmed: "fst (sb_push t b) = Some s \<Longrightarrow> lead_ok (buf b @ t) \<Longrightarrow> trim s = s \<and> s \<noteq> []"
  by (cases rule: sb_push_cases [of b t]) (auto simp: trim_idem)

lemma sb_push_short:
  "length (buf (snd (sb_push t b))) < 100 \<or> trim (buf (snd (sb_push t b))) = []"
  by (cases rule: sb_push_cases [of b t]) auto

lemma sb_take_empty [simp]: "buf (snd (sb_take b)) = []"
  by (simp add: sb_take_def Let_def)

lemma sb_clear_empty [simp]: "buf (sb_clear b) = []"
  by (simp add: sb_clear_def)

lemma sb_take_None: "fst (sb_take b) = None \<longleftrightarrow> trim (buf b) = []"
  by (simp add: sb_take_def Let_def)

text \<open>Sentences lose no text: whatever tokens a producer streams, the sentences \<open>push\<close> completes
  followed by the one \<open>take\<close> drains contain exactly the tokens' non-whitespace characters, in order; each
  sentence is non-empty and trimmed, and between tokens the buffer holds fewer than 100 bytes or only
  whitespace.\<close>

theorem sentences_lose_no_text:
  assumes "list_all lead_ok ts"
  shows "let (out, b) = push_all sb_push ts sb_new; (rest, b') = sb_take b in
    concat (map ink out) @ ink_opt rest = concat (map ink ts)
    \<and> list_all (\<lambda>s. ink s \<noteq> []) out \<and> buf b' = []
    \<and> (ts \<noteq> [] \<longrightarrow> length (buf b) < 100 \<or> trim (buf b) = [])"
proof -
  obtain out b where p: "push_all sb_push ts sb_new = (out, b)" by (cases "push_all sb_push ts sb_new")
  obtain rest b' where q: "sb_take b = (rest, b')" by (cases "sb_take b")
  have h: "concat (map ink out) @ ink (buf b) = concat (map ink ts)" "lead_ok (buf b)"
    "list_all (\<lambda>s. ink s \<noteq> [] \<and> lead_ok s) out"
    using sb.push_all_held [OF sb.wf_empty assms] p by (simp_all add: sb.held_empty)
  have "ink_opt rest = ink (buf b)" "buf b' = []"
    using sb.take_held [OF h(2)] sb_take_empty [of b] q by simp_all
  moreover have "length (buf (snd (push_all sb_push us c))) < 100 \<or> trim (buf (snd (push_all sb_push us c))) = []"
    if "us \<noteq> []" for us c
    using that
  proof (induction us arbitrary: c)
    case (Cons u us)
    show ?case
    proof (cases "us = []")
      case True
      then show ?thesis using sb_push_short [of u c] by (cases "sb_push u c") simp
    next
      case False
      from Cons.IH [OF this, of "snd (sb_push u c)"] show ?thesis
        by (cases "sb_push u c"; cases "push_all sb_push us (snd (sb_push u c))") simp
    qed
  qed simp
  ultimately show ?thesis using h p q by (auto simp: list_all_iff) (metis snd_conv)
qed

theorem sentences_lose_no_text_witness:
  "fst (push_all sb_push [''Il est '', ''midi. Bon'', ''jour!''] sb_new) = [''Il est midi. Bonjour!'']
   \<and> list_all (\<lambda>s. ink s \<noteq> []) (fst (push_all sb_push [''Il est '', ''midi. Bon'', ''jour!''] sb_new))"
proof -
  have "list_all lead_ok [''Il est '', ''midi. Bon'', ''jour!'']"
    by (simp add: lead_ok_def is_cont_def)
  from sentences_lose_no_text [OF this]
  have "list_all (\<lambda>s. ink s \<noteq> []) (fst (push_all sb_push [''Il est '', ''midi. Bon'', ''jour!''] sb_new))"
    by (simp only: Let_def split: prod.splits) simp
  moreover have "fst (push_all sb_push [''Il est '', ''midi. Bon'', ''jour!''] sb_new) = [''Il est midi. Bonjour!'']"
    by code_simp
  ultimately show ?thesis by simp
qed

end
