(* ===== verification/Topics.thy ===== *)
theory Topics
  imports Core_Types
begin

text \<open>
  The MQTT topic layouts: the satellite protocol (\<open>athena-voice-runtime/src/mqtt/topics.rs\<close>) and the
  text-assist protocol (\<open>assist/topics.rs\<close>). Printing and parsing of session ids are arguments
  (\<open>fmt\<close>, \<open>puuid\<close>): they belong to the \<open>uuid\<close> crate.
\<close>

section \<open>Satellite protocol\<close>

definition default_root :: string where
  "default_root = ''assist''"

definition sat_wildcard :: "string \<Rightarrow> string" where
  "sat_wildcard troot = troot @ ''/sat/+/session/#''"

definition session_base :: "(session_id \<Rightarrow> string) \<Rightarrow> string \<Rightarrow> satellite_id \<Rightarrow> session_id \<Rightarrow> string" where
  "session_base fmt troot sat sid = troot @ ''/sat/'' @ sat @ ''/session/'' @ fmt sid"

definition session_transcript :: "(session_id \<Rightarrow> string) \<Rightarrow> string \<Rightarrow> satellite_id \<Rightarrow> session_id \<Rightarrow> string" where
  "session_transcript fmt troot sat sid = session_base fmt troot sat sid @ ''/transcript''"

definition session_tts :: "(session_id \<Rightarrow> string) \<Rightarrow> string \<Rightarrow> satellite_id \<Rightarrow> session_id \<Rightarrow> string" where
  "session_tts fmt troot sat sid = session_base fmt troot sat sid @ ''/tts''"

definition session_tts_meta :: "(session_id \<Rightarrow> string) \<Rightarrow> string \<Rightarrow> satellite_id \<Rightarrow> session_id \<Rightarrow> string" where
  "session_tts_meta fmt troot sat sid = session_base fmt troot sat sid @ ''/tts/meta''"

definition session_tts_text :: "(session_id \<Rightarrow> string) \<Rightarrow> string \<Rightarrow> satellite_id \<Rightarrow> session_id \<Rightarrow> string" where
  "session_tts_text fmt troot sat sid = session_base fmt troot sat sid @ ''/tts/text''"

definition session_done :: "(session_id \<Rightarrow> string) \<Rightarrow> string \<Rightarrow> satellite_id \<Rightarrow> session_id \<Rightarrow> string" where
  "session_done fmt troot sat sid = session_base fmt troot sat sid @ ''/done''"

definition event_topic :: "string \<Rightarrow> string \<Rightarrow> string" where
  "event_topic troot kind = troot @ ''/events/'' @ kind"

definition provider_request :: "string \<Rightarrow> string \<Rightarrow> string \<Rightarrow> string" where
  "provider_request troot kind name = troot @ ''/providers/'' @ kind @ ''/'' @ name @ ''/request''"

definition provider_response :: "string \<Rightarrow> string \<Rightarrow> string \<Rightarrow> string" where
  "provider_response troot kind name = troot @ ''/providers/'' @ kind @ ''/'' @ name @ ''/response''"

datatype parsed_topic =
    PStart satellite_id session_id
  | PAudio satellite_id session_id
  | PText satellite_id session_id
  | PEnd satellite_id session_id

definition parse_satellite_topic ::
  "(string \<Rightarrow> session_id option) \<Rightarrow> string \<Rightarrow> string \<Rightarrow> parsed_topic option" where
  "parse_satellite_topic puuid troot topic =
     (let parts = split_on (CHR ''/'') topic in
      if length parts \<noteq> 6 \<or> parts ! 0 \<noteq> troot \<or> parts ! 1 \<noteq> ''sat'' \<or> parts ! 3 \<noteq> ''session'' then None
      else case satellite_new (parts ! 2) of
             Inl _ \<Rightarrow> None
           | Inr sat \<Rightarrow>
               (case puuid (parts ! 4) of
                  None \<Rightarrow> None
                | Some sid \<Rightarrow>
                    if parts ! 5 = ''start'' then Some (PStart sat sid)
                    else if parts ! 5 = ''audio'' then Some (PAudio sat sid)
                    else if parts ! 5 = ''text'' then Some (PText sat sid)
                    else if parts ! 5 = ''end'' then Some (PEnd sat sid)
                    else None))"

definition verb_of :: "parsed_topic \<Rightarrow> string" where
  "verb_of p = (case p of PStart _ _ \<Rightarrow> ''start'' | PAudio _ _ \<Rightarrow> ''audio'' | PText _ _ \<Rightarrow> ''text'' | PEnd _ _ \<Rightarrow> ''end'')"

fun topic_ids :: "parsed_topic \<Rightarrow> satellite_id \<times> session_id" where
  "topic_ids (PStart sat sid) = (sat, sid)"
| "topic_ids (PAudio sat sid) = (sat, sid)"
| "topic_ids (PText sat sid) = (sat, sid)"
| "topic_ids (PEnd sat sid) = (sat, sid)"

lemma split_six:
  assumes "CHR ''/'' \<notin> set a" "CHR ''/'' \<notin> set c" "CHR ''/'' \<notin> set e" "CHR ''/'' \<notin> set f"
  shows "split_on (CHR ''/'') (a @ ''/sat/'' @ c @ ''/session/'' @ e @ ''/'' @ f)
         = [a, ''sat'', c, ''session'', e, f]"
proof -
  have s: "a @ ''/sat/'' @ c @ ''/session/'' @ e @ ''/'' @ f
      = a @ CHR ''/'' # (''sat'' @ CHR ''/'' # (c @ CHR ''/'' # (''session'' @ CHR ''/'' # (e @ CHR ''/'' # f))))"
    by simp
  show ?thesis unfolding s using assms by (simp add: split_on_append split_on_no_sep)
qed

lemma parse_satellite_topic_six:
  assumes "CHR ''/'' \<notin> set troot" "valid_satellite sat" "CHR ''/'' \<notin> set u" "puuid u = Some sid"
    and "CHR ''/'' \<notin> set v"
  shows "parse_satellite_topic puuid troot (troot @ ''/sat/'' @ sat @ ''/session/'' @ u @ ''/'' @ v)
         = (if v = ''start'' then Some (PStart sat sid) else if v = ''audio'' then Some (PAudio sat sid)
            else if v = ''text'' then Some (PText sat sid) else if v = ''end'' then Some (PEnd sat sid) else None)"
proof -
  have "CHR ''/'' \<notin> set sat" using valid_satellite_plain(3) [OF assms(2)] by blast
  moreover have "satellite_new sat = Inr sat" using assms(2) by (simp add: valid_satellite_def)
  ultimately show ?thesis using assms
    by (simp add: parse_satellite_topic_def Let_def split_six del: append_assoc append_Cons)
qed

text \<open>Satellite topics round trip, and the parser inverts no other topic: for a troot and printed ids
  without slashes, \<open>parse_satellite_topic\<close> returns a message \<open>p\<close> for a topic exactly when the topic is
  \<open><root>/sat/<sat>/session/<uuid>/<verb>\<close> of \<open>p\<close> for some spelling the UUID parser reads as \<open>p\<close>'s session,
  with a valid satellite id. The egress topics the runtime itself publishes are never parsed back as ingress.\<close>

theorem parse_satellite_topic_iff:
  assumes "CHR ''/'' \<notin> set troot" "\<forall>s sid. puuid s = Some sid \<longrightarrow> CHR ''/'' \<notin> set s"
  shows "parse_satellite_topic puuid troot topic = Some p \<longleftrightarrow>
    (\<exists>u. valid_satellite (fst (topic_ids p)) \<and> puuid u = Some (snd (topic_ids p))
       \<and> topic = troot @ ''/sat/'' @ fst (topic_ids p) @ ''/session/'' @ u @ ''/'' @ verb_of p)"
    (is "?L \<longleftrightarrow> ?R")
proof
  assume L: ?L
  let ?ps = "split_on (CHR ''/'') topic"
  have "length ?ps = 6" using L by (simp add: parse_satellite_topic_def Let_def split: if_splits)
  then obtain a b c d e f where ps: "?ps = [a, b, c, d, e, f]"
    by (auto simp: numeral_eq_Suc length_Suc_conv)
  have t: "topic = a @ ''/'' @ b @ ''/'' @ c @ ''/'' @ d @ ''/'' @ e @ ''/'' @ f"
    using join_split_on [of "CHR ''/''" topic] ps by simp
  have "a = troot \<and> b = ''sat'' \<and> d = ''session'' \<and> f = verb_of p \<and> valid_satellite c
      \<and> fst (topic_ids p) = c \<and> puuid e = Some (snd (topic_ids p))"
    using L by (auto simp: parse_satellite_topic_def Let_def ps verb_of_def satellite_new_Inr
        split: if_splits sum.splits option.splits)
  with t show ?R by auto
next
  assume ?R
  then obtain u where u: "valid_satellite (fst (topic_ids p))" "puuid u = Some (snd (topic_ids p))"
    "topic = troot @ ''/sat/'' @ fst (topic_ids p) @ ''/session/'' @ u @ ''/'' @ verb_of p" by blast
  have "CHR ''/'' \<notin> set (verb_of p)" by (cases p) (simp_all add: verb_of_def)
  from parse_satellite_topic_six
      [where puuid = puuid and v = "verb_of p", OF assms(1) u(1) assms(2) [rule_format, OF u(2)] u(2) this] u(3)
  show ?L
    by (cases p) (simp_all add: verb_of_def del: append_assoc append_Cons)
qed


theorem parse_satellite_topic_iff_witness:
  "parse_satellite_topic (\<lambda>s. if s = ''0a'' then Some 10 else None) ''assist''
     ''assist/sat/esp32/session/0a/audio'' = Some (PAudio ''esp32'' 10)"
proof -
  let ?pu = "\<lambda>s. if s = ''0a'' then Some 10 else None :: session_id option"
  have "CHR ''/'' \<notin> set ''assist''" "\<forall>s sid. ?pu s = Some sid \<longrightarrow> CHR ''/'' \<notin> set s"
    by (auto split: if_splits)
  note iff = parse_satellite_topic_iff [where puuid = ?pu, OF this]
  have "valid_satellite ''esp32''"
    by (simp add: valid_satellite_def satellite_new_def is_ascii_lowercase_def is_ascii_digit_def)
  then have "\<exists>u. valid_satellite (fst (topic_ids (PAudio ''esp32'' 10)))
      \<and> ?pu u = Some (snd (topic_ids (PAudio ''esp32'' 10)))
      \<and> ''assist/sat/esp32/session/0a/audio'' = ''assist'' @ ''/sat/'' @ fst (topic_ids (PAudio ''esp32'' 10))
          @ ''/session/'' @ u @ ''/'' @ verb_of (PAudio ''esp32'' 10)"
    by (intro exI [of _ "''0a''"]) (simp add: verb_of_def)
  then show ?thesis
    using iff [where topic = "''assist/sat/esp32/session/0a/audio''" and p = "PAudio ''esp32'' 10"] by blast
qed

section \<open>Assist protocol\<close>

definition transcription_wildcard :: "string \<Rightarrow> string" where
  "transcription_wildcard pre = pre @ ''/transcription/+''"

definition parse_transcription :: "string \<Rightarrow> string \<Rightarrow> string option" where
  "parse_transcription pre topic =
     (case strip_prefix pre topic of
        None \<Rightarrow> None
      | Some r1 \<Rightarrow>
          (case strip_prefix ''/'' r1 of
             None \<Rightarrow> None
           | Some r2 \<Rightarrow>
               (case strip_prefix ''transcription/'' r2 of
                  None \<Rightarrow> None
                | Some device \<Rightarrow>
                    if device = [] \<or> list_ex (\<lambda>c. c \<in> {CHR ''/'', CHR ''+'', CHR ''#''}) device then None
                    else Some device)))"

definition tts_topic :: "string \<Rightarrow> string \<Rightarrow> string" where
  "tts_topic pre device = pre @ ''/tts/'' @ device"

definition status_topic :: "string \<Rightarrow> string \<Rightarrow> string" where
  "status_topic pre device = pre @ ''/llm/'' @ device @ ''/status''"

definition heartbeat_topic :: "string \<Rightarrow> string" where
  "heartbeat_topic pre = pre @ ''/heartbeat/''"

text \<open>\<open>parse_text_payload\<close>; decoding the payload is \<open>serde_json\<close>'s, the argument \<open>decode\<close>.\<close>

definition parse_text_payload :: "(byte list \<Rightarrow> json option) \<Rightarrow> byte list \<Rightarrow> string option" where
  "parse_text_payload decode payload =
     (case decode payload of
        None \<Rightarrow> None
      | Some v \<Rightarrow>
          (case json_get ''text'' v of
             None \<Rightarrow> None
           | Some t \<Rightarrow>
               (case as_str t of
                  None \<Rightarrow> None
                | Some s \<Rightarrow> if trim s = [] then None else Some (trim s))))"

text \<open>What a topic filter of one literal prefix and a final \<open>+\<close> matches: exactly one more level.\<close>

lemma parse_transcription_iff:
  "parse_transcription pre topic = Some device \<longleftrightarrow>
     topic = pre @ ''/transcription/'' @ device \<and> device \<noteq> []
     \<and> set device \<inter> {CHR ''/'', CHR ''+'', CHR ''#''} = {}"
proof -
  have sp: "strip_prefix p s = None \<longleftrightarrow> (\<forall>r. s \<noteq> p @ r)" for p s
    by (auto simp: strip_prefix_def prefix_def)
  show ?thesis
    by (auto simp: parse_transcription_def list_ex_iff sp split: option.splits if_splits)
qed

text \<open>Assist devices cannot steer the answer topic: an accepted transcription topic names exactly one
  non-empty device id free of \<open>/\<close>, \<open>+\<close> and \<open>#\<close>, and distinct devices are answered on distinct topics that
  are themselves never transcription topics, so an answer cannot be taken for a question.\<close>

theorem assist_topics_isolated:
  assumes "parse_transcription pre topic = Some d" "parse_transcription pre topic' = Some d'"
  shows "topic = pre @ ''/transcription/'' @ d
    \<and> (\<forall>c \<in> {CHR ''/'', CHR ''+'', CHR ''#''}. c \<notin> set d) \<and> d \<noteq> []
    \<and> (tts_topic pre d = tts_topic pre d' \<longleftrightarrow> topic = topic')
    \<and> (status_topic pre d = status_topic pre d' \<longleftrightarrow> topic = topic')
    \<and> parse_transcription pre (tts_topic pre d) = None
    \<and> parse_transcription pre (status_topic pre d) = None
    \<and> parse_transcription pre (heartbeat_topic pre) = None"
proof -
  have none: "parse_transcription pre (pre @ CHR ''/'' # c # r) = None" if "c \<noteq> CHR ''t''" for c r
    using that by (simp add: parse_transcription_def strip_prefix_def)
  have "parse_transcription pre (tts_topic pre d) = None"
    by (simp add: tts_topic_def parse_transcription_def strip_prefix_def)
  moreover have "parse_transcription pre (status_topic pre d) = None"
    "parse_transcription pre (heartbeat_topic pre) = None"
    by (simp_all add: status_topic_def heartbeat_topic_def none)
  ultimately show ?thesis using assms
    by (auto simp: parse_transcription_iff tts_topic_def status_topic_def)
qed

theorem assist_topics_isolated_witness:
  "parse_transcription ''assist'' ''assist/transcription/tablet'' = Some ''tablet''
   \<and> tts_topic ''assist'' ''tablet'' \<noteq> tts_topic ''assist'' ''phone''"
proof -
  have p: "parse_transcription ''assist'' ''assist/transcription/tablet'' = Some ''tablet''"
    "parse_transcription ''assist'' ''assist/transcription/phone'' = Some ''phone''"
    by (simp_all add: parse_transcription_iff)
  from assist_topics_isolated [OF p] p(1) show ?thesis by simp
qed

end
