(* ===== verification/Speech.thy ===== *)
theory Speech
  imports Sentence Topics
begin

text \<open>
  The answering half of the pipeline: the LLM actor (\<open>pipeline/llm.rs\<close>), the TTS actor
  (\<open>pipeline/tts.rs\<close>) and the response sink (\<open>pipeline/sink.rs\<close>).

  Each actor is a function from its state and one input of its \<open>select!\<close> loop to its next state and
  what it sent. The LLM and TTS backends are behind traits: \<open>complete\<close> (\<open>compl_llm\<close>) and \<open>synthesize\<close> (\<open>synth\<close>) are arguments, giving
  the stream of items the backend yields. While audio streams, the TTS actor also polls the event bus,
  barge-in first (\<open>biased\<close>); a synthesis is therefore the sequence of what its inner loop observes.
\<close>

section \<open>Messages\<close>

datatype tts_msg = Token string | AnswerEnd
datatype sink_msg = Format audio_format u32 | Chunk "byte list" | SinkAnswerEnd

section \<open>LLM actor\<close>

definition apology :: "locale_id \<Rightarrow> string" where
  "apology loc =
     (if prefix ''fr'' loc then ''d'' @ e_acute @ ''sol'' @ e_acute @ '', je ne peux pas r'' @ e_acute @ ''pondre pour le moment.''
      else ''sorry, I can'' @ [CHR 0x27] @ ''t answer right now.'')"

text \<open>The token loop of one completion: the flag is \<open>sent_any\<close>; the result says whether the actor goes on.\<close>

fun llm_stream :: "locale_id \<Rightarrow> ('e + string) list \<Rightarrow> bool \<Rightarrow> tts_msg chan \<Rightarrow> bool \<times> tts_msg chan" where
  "llm_stream loc [] sent_any ch = (True, ch)"
| "llm_stream loc (Inr t # items) sent_any ch =
     (case send (Token t) ch of
        (False, ch1) \<Rightarrow> (False, ch1)
      | (True, ch1) \<Rightarrow> llm_stream loc items True ch1)"
| "llm_stream loc (Inl e # items) sent_any ch =
     (if \<not> sent_any then send (Token (apology loc)) ch else (True, ch))"

text \<open>\<open>Inl\<close>: \<open>complete\<close> itself failed; \<open>Inr items\<close>: the stream it returned.\<close>

definition llm_answer :: "locale_id \<Rightarrow> 'e + ('e + string) list \<Rightarrow> tts_msg chan \<Rightarrow> bool \<times> tts_msg chan" where
  "llm_answer loc r ch =
     (case r of
        Inl e \<Rightarrow>
          (case send (Token (apology loc)) ch of
             (False, ch1) \<Rightarrow> (False, ch1)
           | (True, ch1) \<Rightarrow> send AnswerEnd ch1)
      | Inr items \<Rightarrow>
          (case llm_stream loc items False ch of
             (False, ch1) \<Rightarrow> (False, ch1)
           | (True, ch1) \<Rightarrow> send AnswerEnd ch1))"

fun llm_run ::
  "locale_id \<Rightarrow> (string \<Rightarrow> 'e + ('e + string) list) \<Rightarrow> string list \<Rightarrow> tts_msg chan \<Rightarrow> bool \<times> tts_msg chan" where
  "llm_run loc compl_llm [] ch = (True, ch)"
| "llm_run loc compl_llm (p # ps) ch =
     (case llm_answer loc (compl_llm p) ch of
        (False, ch1) \<Rightarrow> (False, ch1)
      | (True, ch1) \<Rightarrow> llm_run loc compl_llm ps ch1)"

text \<open>What a listener is meant to hear: the tokens before the first stream error, or an apology when the
  backend failed before producing any.\<close>

fun tokens_before_error :: "('e + string) list \<Rightarrow> string list" where
  "tokens_before_error [] = []"
| "tokens_before_error (Inr t # items) = t # tokens_before_error items"
| "tokens_before_error (Inl e # items) = []"

definition failed :: "'e + ('e + string) list \<Rightarrow> bool" where
  "failed r = (case r of Inl _ \<Rightarrow> True | Inr items \<Rightarrow> list_ex (\<lambda>i. case i of Inl _ \<Rightarrow> True | _ \<Rightarrow> False) items)"

definition spoken :: "locale_id \<Rightarrow> 'e + ('e + string) list \<Rightarrow> string list" where
  "spoken loc r =
     (let ts = (case r of Inl _ \<Rightarrow> [] | Inr items \<Rightarrow> tokens_before_error items)
      in if ts = [] \<and> failed r then [apology loc] else ts)"

lemma llm_stream_alive:
  "accepts ch = None \<Longrightarrow>
     llm_stream loc items sa ch =
       (True, ch\<lparr>sent := sent ch @ map Token
          (tokens_before_error items
           @ (if tokens_before_error items = [] \<and> \<not> sa \<and> failed (Inr items :: 'e + ('e + string) list)
              then [apology loc] else []))\<rparr>)"
  for items :: "('e + string) list"
proof (induction loc items sa ch rule: llm_stream.induct)
  case (2 loc t items sa ch)
  then show ?case by simp
qed (auto simp: failed_def)

lemma llm_answer_alive:
  "accepts ch = None \<Longrightarrow>
     llm_answer loc r ch = (True, ch\<lparr>sent := sent ch @ map Token (spoken loc r) @ [AnswerEnd]\<rparr>)"
  by (cases r) (auto simp: llm_answer_def llm_stream_alive spoken_def Let_def failed_def)

lemma llm_run_alive:
  "accepts ch = None \<Longrightarrow>
     llm_run loc compl_llm ps ch =
       (True, ch\<lparr>sent := sent ch @ concat (map (\<lambda>p. map Token (spoken loc (compl_llm p)) @ [AnswerEnd]) ps)\<rparr>)"
  by (induction ps arbitrary: ch) (simp_all add: llm_answer_alive)

lemma spoken_Nil: "spoken loc r = [] \<longleftrightarrow> r = Inr []"
proof (cases r)
  case (Inr items)
  then show ?thesis
    by (cases items rule: tokens_before_error.cases) (auto simp: spoken_def Let_def failed_def)
qed (simp add: spoken_def failed_def)

text \<open>Every prompt is answered and closed: with the TTS stage listening, the LLM actor sends for each
  prompt, in order, the tokens its backend produced before any error, then exactly one \<open>AnswerEnd\<close>; a
  backend that fails before its first token is answered with the locale's apology, so only a backend that
  succeeds with no tokens at all is silent.\<close>

theorem llm_answers_every_prompt:
  "sent (snd (llm_run loc compl_llm ps new_chan))
     = concat (map (\<lambda>p. map Token (spoken loc (compl_llm p)) @ [AnswerEnd]) ps)
   \<and> (\<forall>p. spoken loc (compl_llm p) = [] \<longleftrightarrow> compl_llm p = Inr [])"
  by (simp add: llm_run_alive spoken_Nil)

section \<open>TTS actor\<close>

text \<open>What the inner loop of \<open>flush\<close> observes, in order: a barge-in for this session, an audio chunk, a
  stream error. (Other bus events change nothing.) The end of the list is the end of the stream.\<close>

datatype synth_item = SBarge | SChunk "byte list" | SError
type_synonym synth_result = "(audio_format \<times> u32 \<times> synth_item list) option"

record tts_world =
  chunk_out :: "sink_msg chan"
  bus :: "event list"

definition emit :: "event \<Rightarrow> tts_world \<Rightarrow> tts_world" where
  "emit e w = w\<lparr>bus := bus w @ [e]\<rparr>"

fun flush_stream :: "session_id \<Rightarrow> synth_item list \<Rightarrow> u32 \<Rightarrow> tts_world \<Rightarrow> u32 \<times> tts_world" where
  "flush_stream sid [] seq w = (seq, w)"
| "flush_stream sid (SBarge # items) seq w = (seq, w)"
| "flush_stream sid (SError # items) seq w = (seq, w)"
| "flush_stream sid (SChunk c # items) seq w =
     (case send (Chunk c) (chunk_out w) of
        (False, ch) \<Rightarrow> (seq, w\<lparr>chunk_out := ch\<rparr>)
      | (True, ch) \<Rightarrow>
          flush_stream sid items (sat_succ seq)
            (emit (TtsChunk sid seq (length c)) (w\<lparr>chunk_out := ch\<rparr>)))"

definition tts_flush ::
  "session_id \<Rightarrow> (string \<Rightarrow> synth_result) \<Rightarrow> string \<Rightarrow> u32 \<Rightarrow> tts_world \<Rightarrow> u32 \<times> tts_world" where
  "tts_flush sid synth text seq w =
     (let w1 = emit (TtsText sid text) w in
      case synth text of
        None \<Rightarrow> (seq, w1)
      | Some (fmt, rate, items) \<Rightarrow>
          (case send (Format fmt rate) (chunk_out w1) of
             (False, ch) \<Rightarrow> (seq, w1\<lparr>chunk_out := ch\<rparr>)
           | (True, ch) \<Rightarrow> flush_stream sid items seq (w1\<lparr>chunk_out := ch\<rparr>)))"

record tts_state =
  tbuf :: sentence_buffer
  tseq :: u32
  flush_deadline :: "nat option"
  running :: bool

definition tts_init :: tts_state where
  "tts_init = \<lparr>tbuf = sb_new, tseq = 0, flush_deadline = None, running = True\<rparr>"

text \<open>The inputs of the outer loop: cancellation, a bus event (a barge-in for this session, or another),
  the flush timer, a token-channel message, and that channel's end.\<close>

datatype tts_input = TCancel | TBarge | TOther | TTimer | TMsg tts_msg | TClosed

definition flush_opt ::
  "session_id \<Rightarrow> (string \<Rightarrow> synth_result) \<Rightarrow> string option \<Rightarrow> u32 \<Rightarrow> tts_world \<Rightarrow> u32 \<times> tts_world" where
  "flush_opt sid synth so seq w = (case so of None \<Rightarrow> (seq, w) | Some s \<Rightarrow> tts_flush sid synth s seq w)"

fun tts_step ::
  "session_id \<Rightarrow> (string \<Rightarrow> synth_result) \<Rightarrow> nat \<Rightarrow> tts_input \<Rightarrow> tts_state \<times> tts_world \<Rightarrow> tts_state \<times> tts_world" where
  "tts_step sid synth now TCancel (st, w) = (st\<lparr>running := False\<rparr>, w)"
| "tts_step sid synth now TBarge (st, w) = (st\<lparr>tbuf := sb_clear (tbuf st), flush_deadline := None\<rparr>, w)"
| "tts_step sid synth now TOther (st, w) = (st, w)"
| "tts_step sid synth now TTimer (st, w) =
     (case flush_deadline st of
        Some d \<Rightarrow>
          if d \<le> now then
            (let (so, b) = sb_take (tbuf st); (seq, w1) = flush_opt sid synth so (tseq st) w
             in (st\<lparr>tbuf := b, tseq := seq, flush_deadline := None\<rparr>, w1))
          else (st, w)
      | None \<Rightarrow> (st, w))"
| "tts_step sid synth now TClosed (st, w) =
     (let (so, b) = sb_take (tbuf st); (_, w1) = flush_opt sid synth so (tseq st) w
      in (st\<lparr>tbuf := b, running := False\<rparr>, w1))"
| "tts_step sid synth now (TMsg AnswerEnd) (st, w) =
     (let (so, b) = sb_take (tbuf st); (seq, w1) = flush_opt sid synth so (tseq st) w;
          st1 = st\<lparr>tbuf := b, tseq := seq, flush_deadline := None\<rparr>
      in case send SinkAnswerEnd (chunk_out w1) of
           (False, ch) \<Rightarrow> (st1\<lparr>running := False\<rparr>, w1\<lparr>chunk_out := ch\<rparr>)
         | (True, ch) \<Rightarrow> (st1, w1\<lparr>chunk_out := ch\<rparr>))"
| "tts_step sid synth now (TMsg (Token t)) (st, w) =
     (let (so, b) = sb_push t (tbuf st) in
      case so of
        Some s \<Rightarrow>
          (let (seq, w1) = tts_flush sid synth s (tseq st) w
           in (st\<lparr>tbuf := b, tseq := seq, flush_deadline := None\<rparr>, w1))
      | None \<Rightarrow> (st\<lparr>tbuf := b, flush_deadline := Some (now + idle_flush)\<rparr>, w))"

text \<open>A run over timed inputs; a stopped actor consumes nothing more.\<close>

fun tts_run ::
  "session_id \<Rightarrow> (string \<Rightarrow> synth_result) \<Rightarrow> (nat \<times> tts_input) list \<Rightarrow> tts_state \<times> tts_world
     \<Rightarrow> tts_state \<times> tts_world" where
  "tts_run sid synth [] sw = sw"
| "tts_run sid synth ((now, i) # is) sw =
     (if running (fst sw) then tts_run sid synth is (tts_step sid synth now i sw) else sw)"

subsection \<open>What a synthesis sends\<close>

fun chunks_before_stop :: "synth_item list \<Rightarrow> byte list list" where
  "chunks_before_stop (SChunk c # items) = c # chunks_before_stop items"
| "chunks_before_stop _ = []"

definition flush_msgs :: "synth_result \<Rightarrow> sink_msg list" where
  "flush_msgs r =
     (case r of None \<Rightarrow> [] | Some (fmt, rate, items) \<Rightarrow> Format fmt rate # map Chunk (chunks_before_stop items))"

text \<open>The texts announced on the bus, in order.\<close>

fun texts :: "event list \<Rightarrow> string list" where
  "texts [] = []"
| "texts (TtsText _ t # es) = t # texts es"
| "texts (_ # es) = texts es"

lemma texts_append [simp]: "texts (xs @ ys) = texts xs @ texts ys"
  by (induction xs rule: texts.induct) simp_all

lemma flush_stream_alive:
  assumes "accepts (chunk_out w) = None"
  shows "sent (chunk_out (snd (flush_stream sid items seq w)))
           = sent (chunk_out w) @ map Chunk (chunks_before_stop items)
         \<and> accepts (chunk_out (snd (flush_stream sid items seq w))) = None
         \<and> texts (bus (snd (flush_stream sid items seq w))) = texts (bus w)"
  using assms by (induction sid items seq w rule: flush_stream.induct) (simp_all add: emit_def)

lemma tts_flush_alive:
  assumes "accepts (chunk_out w) = None"
  shows "sent (chunk_out (snd (tts_flush sid synth t seq w))) = sent (chunk_out w) @ flush_msgs (synth t)
         \<and> accepts (chunk_out (snd (tts_flush sid synth t seq w))) = None
         \<and> texts (bus (snd (tts_flush sid synth t seq w))) = texts (bus w) @ [t]"
proof (cases "synth t")
  case None
  then show ?thesis using assms by (simp add: tts_flush_def flush_msgs_def emit_def)
next
  case (Some r)
  obtain fmt rate items where "r = (fmt, rate, items)" by (cases r)
  then show ?thesis
    using Some assms flush_stream_alive
      [of "(emit (TtsText sid t) w)\<lparr>chunk_out := (chunk_out w)\<lparr>sent := sent (chunk_out w) @ [Format fmt rate]\<rparr>\<rparr>"
          sid items seq]
    by (simp add: tts_flush_def flush_msgs_def emit_def)
qed

lemma flush_opt_alive:
  assumes "accepts (chunk_out w) = None"
  shows "sent (chunk_out (snd (flush_opt sid synth so seq w)))
           = sent (chunk_out w) @ (case so of None \<Rightarrow> [] | Some t \<Rightarrow> flush_msgs (synth t))
         \<and> accepts (chunk_out (snd (flush_opt sid synth so seq w))) = None
         \<and> texts (bus (snd (flush_opt sid synth so seq w))) = texts (bus w) @ (case so of None \<Rightarrow> [] | Some t \<Rightarrow> [t])"
  using assms tts_flush_alive by (cases so) (simp_all add: flush_opt_def)

lemma flush_msgs_no_end [simp]: "SinkAnswerEnd \<notin> set (flush_msgs r)"
  by (auto simp: flush_msgs_def split: option.splits)

subsection \<open>Runs without barge-in\<close>

definition quiet :: "tts_input \<Rightarrow> bool" where
  "quiet i \<longleftrightarrow> i \<noteq> TCancel \<and> i \<noteq> TBarge \<and> i \<noteq> TClosed"

fun token_of :: "tts_input \<Rightarrow> string list" where
  "token_of (TMsg (Token t)) = [t]"
| "token_of _ = []"

definition tokens_in :: "(nat \<times> tts_input) list \<Rightarrow> string list" where
  "tokens_in is = concat (map (token_of \<circ> snd) is)"

definition ends_in :: "(nat \<times> tts_input) list \<Rightarrow> nat" where
  "ends_in is = length (filter (\<lambda>i. snd i = TMsg AnswerEnd) is)"

definition alive :: "tts_state \<times> tts_world \<Rightarrow> bool" where
  "alive sw \<longleftrightarrow> running (fst sw) \<and> lead_ok (buf (tbuf (fst sw))) \<and> accepts (chunk_out (snd sw)) = None"

definition answer_ends :: "sink_msg list \<Rightarrow> nat" where
  "answer_ends ms = length (filter (\<lambda>m. m = SinkAnswerEnd) ms)"

lemma answer_ends_simps [simp]:
  "answer_ends [] = 0" "answer_ends (xs @ ys) = answer_ends xs + answer_ends ys"
  "answer_ends (SinkAnswerEnd # ms) = Suc (answer_ends ms)" "answer_ends (flush_msgs r) = 0"
  "answer_ends (map Chunk cs) = 0"
  using flush_msgs_no_end [of r] by (auto simp: answer_ends_def filter_empty_conv)

text \<open>One quiet input: the actor stays alive, the ink it announces and still holds is what it held plus the
  token's, and it forwards an end mark exactly for an end mark.\<close>

lemma tts_step_quiet:
  fixes sid :: session_id and synth :: "string \<Rightarrow> synth_result" and now :: nat
  assumes "alive (st, w)" "quiet i" "list_all lead_ok (token_of i)"
  defines "r \<equiv> tts_step sid synth now i (st, w)"
  shows "alive r
    \<and> (\<exists>ts ms. texts (bus (snd r)) = texts (bus w) @ ts \<and> sent (chunk_out (snd r)) = sent (chunk_out w) @ ms
         \<and> concat (map ink ts) @ ink (buf (tbuf (fst r))) = ink (buf (tbuf st)) @ concat (map ink (token_of i))
         \<and> answer_ends ms = (if i = TMsg AnswerEnd then 1 else 0)
         \<and> (i = TMsg AnswerEnd \<longrightarrow> buf (tbuf (fst r)) = [] \<and> last ms = SinkAnswerEnd))"
proof -
  have ok: "lead_ok (buf (tbuf st))" "accepts (chunk_out w) = None" "running st"
    using assms(1) by (simp_all add: alive_def)
  obtain so b where tk: "sb_take (tbuf st) = (so, b)" by (cases "sb_take (tbuf st)")
  have take: "ink_opt so = ink (buf (tbuf st))" "buf b = []"
    using sb.take_held [OF ok(1)] sb_take_empty [of "tbuf st"] tk by simp_all
  have fl: "concat (map ink (case so of None \<Rightarrow> [] | Some t \<Rightarrow> [t])) = ink (buf (tbuf st))"
    using take(1) by (cases so) simp_all
  have none: "answer_ends (case so of None \<Rightarrow> [] | Some t \<Rightarrow> flush_msgs (synth t)) = 0" by (cases so) simp_all
  obtain seq w1 where fo: "flush_opt sid synth so (tseq st) w = (seq, w1)" by (cases "flush_opt sid synth so (tseq st) w")
  note fa = flush_opt_alive [OF ok(2), of sid synth so "tseq st", unfolded fo snd_conv]
  show ?thesis
  proof (cases i)
    case TOther
    then show ?thesis using assms(1) by (simp add: r_def)
  next
    case TTimer
    then show ?thesis
      using assms(1) tk fo fa take fl none ok by (auto simp: r_def alive_def split: option.splits)
  next
    case (TMsg m)
    show ?thesis
    proof (cases m)
      case AnswerEnd
      then show ?thesis using TMsg tk fo fa take fl none ok by (simp add: r_def alive_def)
    next
      case (Token t)
      obtain so' b' where p: "sb_push t (tbuf st) = (so', b')" by (cases "sb_push t (tbuf st)")
      have t: "lead_ok t" using assms(3) TMsg Token by simp
      have h: "ink_opt so' @ ink (buf b') = ink (buf (tbuf st)) @ ink t" "lead_ok (buf b')"
        using sb.push_held [OF ok(1) t] sb.push_wf [OF ok(1) t] p by simp_all
      show ?thesis
      proof (cases so')
        case None
        then show ?thesis using TMsg Token p h ok by (simp add: r_def alive_def)
      next
        case (Some s)
        obtain seq' w' where "tts_flush sid synth s (tseq st) w = (seq', w')"
          by (cases "tts_flush sid synth s (tseq st) w")
        then show ?thesis
          using TMsg Token p h ok Some tts_flush_alive [OF ok(2), of sid synth s "tseq st"]
          by (simp add: r_def alive_def)
      qed
    qed
  qed (use assms(2) in \<open>simp_all add: quiet_def\<close>)
qed

lemma tts_run_quiet:
  assumes "alive sw" "list_all (\<lambda>i. quiet (snd i)) is" "list_all lead_ok (tokens_in is)"
  shows "alive (tts_run sid synth is sw)
    \<and> (\<exists>ts ms. texts (bus (snd (tts_run sid synth is sw))) = texts (bus (snd sw)) @ ts
         \<and> sent (chunk_out (snd (tts_run sid synth is sw))) = sent (chunk_out (snd sw)) @ ms
         \<and> concat (map ink ts) @ ink (buf (tbuf (fst (tts_run sid synth is sw))))
             = ink (buf (tbuf (fst sw))) @ concat (map ink (tokens_in is))
         \<and> answer_ends ms = ends_in is)"
  using assms
proof (induction "is" arbitrary: sw)
  case Nil
  then show ?case by (simp add: tokens_in_def ends_in_def)
next
  case (Cons x xs)
  obtain now i where x: "x = (now, i)" by (cases x)
  obtain st w where sw: "sw = (st, w)" by (cases sw)
  have toks: "list_all lead_ok (token_of i)" "list_all lead_ok (tokens_in xs)"
    using Cons.prems(3) x by (simp_all add: tokens_in_def)
  let ?r = "tts_step sid synth now i (st, w)"
  have step: "alive ?r"
    using tts_step_quiet [of st w i sid synth now] Cons.prems x sw toks by simp
  obtain ts ms where s1: "texts (bus (snd ?r)) = texts (bus w) @ ts"
    "sent (chunk_out (snd ?r)) = sent (chunk_out w) @ ms"
    "concat (map ink ts) @ ink (buf (tbuf (fst ?r))) = ink (buf (tbuf st)) @ concat (map ink (token_of i))"
    "answer_ends ms = (if i = TMsg AnswerEnd then 1 else 0)"
    using tts_step_quiet [of st w i sid synth now] Cons.prems x sw toks by auto
  obtain ts' ms' where s2: "alive (tts_run sid synth xs ?r)"
    "texts (bus (snd (tts_run sid synth xs ?r))) = texts (bus (snd ?r)) @ ts'"
    "sent (chunk_out (snd (tts_run sid synth xs ?r))) = sent (chunk_out (snd ?r)) @ ms'"
    "concat (map ink ts') @ ink (buf (tbuf (fst (tts_run sid synth xs ?r))))
       = ink (buf (tbuf (fst ?r))) @ concat (map ink (tokens_in xs))"
    "answer_ends ms' = ends_in xs"
    using Cons.IH [OF step] Cons.prems(2) toks(2) by auto
  have run: "tts_run sid synth (x # xs) sw = tts_run sid synth xs ?r"
    using Cons.prems(1) x sw by (simp add: alive_def)
  have "concat (map ink (ts @ ts')) @ ink (buf (tbuf (fst (tts_run sid synth xs ?r))))
      = ink (buf (tbuf st)) @ concat (map ink (tokens_in (x # xs)))"
    using s1(3) s2(4) x by (simp add: tokens_in_def)
  moreover have "answer_ends (ms @ ms') = ends_in (x # xs)"
    using s1(4) s2(5) x by (simp add: ends_in_def)
  ultimately show ?case
    unfolding run using s1(1,2) s2(1,2,3) sw by (metis append_assoc fst_conv snd_conv)
qed



text \<open>C10: barge-in silences the superseded answer: after a barge-in the actor announces only text of tokens
  that arrive afterwards, whatever was buffered before, and a synthesis interrupted by a barge-in sends the
  sink exactly the chunks produced before it.\<close>

theorem barge_in_silences:
  assumes "alive (st, w)" "list_all (\<lambda>i. quiet (snd i)) is" "list_all lead_ok (tokens_in is)"
  shows "let (st', w') = tts_run sid synth ((now, TBarge) # is) (st, w) in
    (\<exists>ts. texts (bus w') = texts (bus w) @ ts
       \<and> concat (map ink ts) @ ink (buf (tbuf st')) = concat (map ink (tokens_in is)))
    \<and> sent (chunk_out (snd (flush_stream sid (map SChunk cs @ SBarge # items) seq w))) = sent (chunk_out w) @ map Chunk cs"
proof -
  let ?b = "tts_step sid synth now TBarge (st, w)"
  have ok: "running st" "accepts (chunk_out w) = None" using assms(1) by (simp_all add: alive_def)
  have "alive ?b" using assms(1) by (simp add: alive_def)
  note r = tts_run_quiet [OF this assms(2,3), of sid synth]
  have run: "tts_run sid synth ((now, TBarge) # is) (st, w) = tts_run sid synth is ?b" using ok(1) by simp
  have "chunks_before_stop (map SChunk cs @ SBarge # items) = cs" by (induction cs) simp_all
  then have "sent (chunk_out (snd (flush_stream sid (map SChunk cs @ SBarge # items) seq w)))
      = sent (chunk_out w) @ map Chunk cs"
    using flush_stream_alive [OF ok(2)] by simp
  moreover have "\<exists>ts. texts (bus (snd (tts_run sid synth is ?b))) = texts (bus w) @ ts
       \<and> concat (map ink ts) @ ink (buf (tbuf (fst (tts_run sid synth is ?b)))) = concat (map ink (tokens_in is))"
    using r by auto
  ultimately show ?thesis unfolding run by (simp only: Let_def split_beta)
qed

theorem barge_in_silences_witness:
  "let (st', w') = tts_run 7 (\<lambda>_. None) [(1, TBarge), (2, TMsg (Token ''Oui.''))]
          (tts_init\<lparr>tbuf := \<lparr>buf = ''Il fait beau''\<rparr>\<rparr>, \<lparr>chunk_out = new_chan, bus = []\<rparr>)
   in \<exists>ts. texts (bus w') = [] @ ts \<and> concat (map ink ts) @ ink (buf (tbuf st')) = [''O'', ''u'', ''i'', ''.'']"
proof -
  let ?st = "tts_init\<lparr>tbuf := \<lparr>buf = ''Il fait beau''\<rparr>\<rparr>" and ?w = "\<lparr>chunk_out = new_chan, bus = []\<rparr>"
  have "alive (?st, ?w)" "list_all (\<lambda>i. quiet (snd i)) [(2 :: nat, TMsg (Token ''Oui.''))]"
    "list_all lead_ok (tokens_in [(2, TMsg (Token ''Oui.''))])"
    by (simp_all add: alive_def tts_init_def lead_ok_def is_cont_def quiet_def tokens_in_def)
  note r = barge_in_silences [OF this, of 7 "\<lambda>_. None" 1 "[]" "[]" 0]
  have "concat (map ink (tokens_in [(2, TMsg (Token ''Oui.''))])) = [''O'', ''u'', ''i'', ''.'']"
    by code_simp
  then show ?thesis using r by (simp only: Let_def split_beta) simp
qed

section \<open>Response sink\<close>

text \<open>What the sink publishes: \<open>tts/meta\<close>, raw audio, \<open>done\<close>; and the final \<open>SessionEnded\<close> event. The
  payload of \<open>done\<close> is the constant \<open>{"outcome":"ok"}\<close>. A failed publish is only logged.\<close>

datatype sink_out = PubMeta audio_format u32 | PubAudio "byte list" | PubDone | EvSessionEnded outcome

record sink_state =
  sent_format :: "(audio_format \<times> u32) option"
  answer_done :: bool

definition sink_init :: sink_state where
  "sink_init = \<lparr>sent_format = None, answer_done = False\<rparr>"

fun sink_step :: "sink_msg \<Rightarrow> sink_state \<Rightarrow> sink_state \<times> sink_out list" where
  "sink_step (Format fmt rate) s =
     (let s1 = s\<lparr>answer_done := False\<rparr> in
      case sent_format s of
        None \<Rightarrow> (s1\<lparr>sent_format := Some (fmt, rate)\<rparr>, [PubMeta fmt rate])
      | Some prev \<Rightarrow> (s1, []))"
| "sink_step (Chunk c) s = (s\<lparr>answer_done := False\<rparr>, [PubAudio c])"
| "sink_step SinkAnswerEnd s = (s\<lparr>answer_done := True\<rparr>, [PubDone])"

definition sink_finish :: "sink_state \<Rightarrow> sink_out list" where
  "sink_finish s = (if \<not> answer_done s then [PubDone] else []) @ [EvSessionEnded OutOk]"

fun sink_steps :: "sink_msg list \<Rightarrow> sink_state \<Rightarrow> sink_state \<times> sink_out list" where
  "sink_steps [] s = (s, [])"
| "sink_steps (m # ms) s =
     (let (s1, o1) = sink_step m s; (s2, o2) = sink_steps ms s1 in (s2, o1 @ o2))"

text \<open>A session's sink: the messages it receives before its token is cancelled or the channel closes,
  then teardown.\<close>

definition sink_run :: "sink_msg list \<Rightarrow> sink_out list" where
  "sink_run ms = (let (s, out) = sink_steps ms sink_init in out @ sink_finish s)"

fun metas :: "sink_out list \<Rightarrow> (audio_format \<times> u32) list" where
  "metas [] = []"
| "metas (PubMeta f r # os) = (f, r) # metas os"
| "metas (_ # os) = metas os"

lemma metas_append [simp]: "metas (xs @ ys) = metas xs @ metas ys"
  by (induction xs rule: metas.induct) simp_all

fun first_format :: "sink_msg list \<Rightarrow> (audio_format \<times> u32) list" where
  "first_format [] = []"
| "first_format (Format f r # ms) = [(f, r)]"
| "first_format (_ # ms) = first_format ms"

definition audio_out :: "sink_out list \<Rightarrow> byte list list" where
  "audio_out os = concat (map (\<lambda>x. case x of PubAudio c \<Rightarrow> [c] | _ \<Rightarrow> []) os)"

definition audio_in :: "sink_msg list \<Rightarrow> byte list list" where
  "audio_in ms = concat (map (\<lambda>m. case m of Chunk c \<Rightarrow> [c] | _ \<Rightarrow> []) ms)"

lemma audio_out_append: "audio_out (xs @ ys) = audio_out xs @ audio_out ys"
  by (simp add: audio_out_def)

lemma sink_steps_append:
  "sink_steps (ms @ ns) s =
     (let (s1, o1) = sink_steps ms s; (s2, o2) = sink_steps ns s1 in (s2, o1 @ o2))"
  by (induction ms arbitrary: s) (simp_all add: Let_def split_beta)

definition n_done :: "sink_out list \<Rightarrow> nat" where
  "n_done os = length (filter (\<lambda>x. x = PubDone) os)"

lemma n_done_simps [simp]:
  "n_done [] = 0" "n_done (xs @ ys) = n_done xs + n_done ys" "n_done (PubDone # xs) = Suc (n_done xs)"
  "n_done (PubAudio c # xs) = n_done xs" "n_done (PubMeta f r # xs) = n_done xs"
  "n_done (EvSessionEnded x # xs) = n_done xs"
  by (simp_all add: n_done_def)

lemma sink_steps_spec:
  shows "metas (snd (sink_steps ms s)) = (if sent_format s = None then first_format ms else [])"
    and "audio_out (snd (sink_steps ms s)) = audio_in ms"
    and "n_done (snd (sink_steps ms s)) = answer_ends ms"
    and "answer_done (fst (sink_steps ms s)) = (if ms = [] then answer_done s else last ms = SinkAnswerEnd)"
    and "EvSessionEnded x \<notin> set (snd (sink_steps ms s))"
proof (induction ms arbitrary: s)
  case (Cons m ms)
  note sp = Let_def split_beta
  {
    case 1 show ?case by (cases m; cases "sent_format s") (simp_all add: sp Cons(1))
  next
    case 2 show ?case by (cases m; cases "sent_format s") (simp_all add: sp audio_out_def audio_in_def
        Cons(2) [unfolded audio_out_def audio_in_def])
  next
    case 3 show ?case by (cases m; cases "sent_format s") (simp_all add: sp Cons(3)
        answer_ends_def [of "_ # _"], simp_all add: answer_ends_def)
  next
    case 4 show ?case by (cases m; cases "sent_format s") (simp_all add: sp Cons(4))
  next
    case 5 show ?case by (cases m; cases "sent_format s") (simp_all add: sp Cons(5))
  }
qed (simp_all add: answer_ends_def audio_in_def audio_out_def)

text \<open>C7: an answer is bracketed on the wire: whatever the TTS stage sends before teardown, the sink
  publishes all the audio, in order, at most one \<open>meta\<close> (the first format announced, however often the
  backend changes it), one \<open>done\<close> for each \<open>AnswerEnd\<close> and one more exactly when the session ends inside an
  answer, so that the last publish of every session is \<open>done\<close> and then the session ends.\<close>

theorem sink_brackets_every_answer:
  "metas (sink_run ms) = first_format ms
   \<and> audio_out (sink_run ms) = audio_in ms
   \<and> n_done (sink_run ms) = answer_ends ms + (if ms \<noteq> [] \<and> last ms = SinkAnswerEnd then 0 else 1)
   \<and> (\<exists>os. sink_run ms = os @ [PubDone, EvSessionEnded OutOk] \<and> (\<forall>x. EvSessionEnded x \<notin> set os))"
proof -
  obtain s out where r: "sink_steps ms sink_init = (s, out)" by (cases "sink_steps ms sink_init")
  note spec = sink_steps_spec [where ms = ms and s = sink_init, unfolded r fst_conv snd_conv]
  have run: "sink_run ms = out @ sink_finish s" by (simp add: sink_run_def r)
  have ad: "answer_done s \<longleftrightarrow> ms \<noteq> [] \<and> last ms = SinkAnswerEnd" using spec(4) by (simp add: sink_init_def)
  have fin: "metas (sink_finish s) = []" "audio_out (sink_finish s) = []"
    "n_done (sink_finish s) = (if answer_done s then 0 else 1)"
    by (simp_all add: sink_finish_def audio_out_def)
  have "\<exists>os. sink_run ms = os @ [PubDone, EvSessionEnded OutOk] \<and> (\<forall>x. EvSessionEnded x \<notin> set os)"
  proof (cases "answer_done s")
    case True
    then obtain ms0 where ms: "ms = ms0 @ [SinkAnswerEnd]" using ad by (metis append_butlast_last_id)
    obtain s0 out0 where r0: "sink_steps ms0 sink_init = (s0, out0)" by (cases "sink_steps ms0 sink_init")
    have "out = out0 @ [PubDone]" using r ms r0 by (simp add: sink_steps_append)
    then show ?thesis using True run spec(5) by (auto simp: sink_finish_def)
  next
    case False
    then show ?thesis using run spec(5) by (auto simp: sink_finish_def)
  qed
  then show ?thesis using spec(1-3) fin ad run
    by (simp add: sink_init_def audio_out_append)
qed

end
