(* ===== verification/Router.thy ===== *)
theory Router
  imports Intent Speech
begin

text \<open>
  The router (\<open>crates/athena-voice-runtime/src/pipeline/router.rs\<close>): it turns each final transcript into a
  skill dispatch or an LLM prompt, and each dispatch outcome into speech, provided no newer utterance has
  superseded it.

  The state is the loop's local variables plus the spawned dispatch tasks still to report. One function
  models each \<open>select!\<close> arm; \<open>router_step\<close> interleaves them: tasks may report in any order, at any time.
  The rule index is hot-swapped, so each transcript brings the index it is matched against.
\<close>

record dispatch_task =
  dt_epoch :: u64
  dt_skill :: string
  dt_intent :: intent
  dt_cancelled :: bool

record router_deps =
  rd_session :: session_id
  rd_locale :: locale_id
  rd_matcher :: text_fns
  rd_dispatcher :: bool

record router_state =
  epoch :: u64
  pending :: "(u64 \<times> string) option"
  prior_work :: bool
  rx_closed :: bool
  tasks :: "dispatch_task list"
  live :: bool

record router_world =
  llm_out :: "string chan"
  tts_out :: "tts_msg chan"
  r_bus :: "event list"

definition router_init :: router_state where
  "router_init = \<lparr>epoch = 0, pending = None, prior_work = False, rx_closed = False, tasks = [], live = True\<rparr>"

definition publish :: "event \<Rightarrow> router_world \<Rightarrow> router_world" where
  "publish e w = w\<lparr>r_bus := r_bus w @ [e]\<rparr>"

definition missing_slots :: "intent \<Rightarrow> string list" where
  "missing_slots i = map fst (filter (\<lambda>kv. snd kv = JNull) (i_slots i))"

definition elicit_prompt :: "string \<Rightarrow> string \<Rightarrow> string list \<Rightarrow> string" where
  "elicit_prompt text name missing =
     ''The user said '' @ [CHR 0x22] @ text @ [CHR 0x22] @ ''. The matched intent '' @ name
     @ '' needs the value for slots '' @ join '', '' missing
     @ ''. Ask a short follow-up question to obtain it.''"

text \<open>Superseding whatever the previous utterance left: announce the barge-in, cancel the awaiting side of
  the pending dispatch, forget it.\<close>

definition cancel_task :: "u64 \<times> string \<Rightarrow> dispatch_task list \<Rightarrow> dispatch_task list" where
  "cancel_task p ts =
     map (\<lambda>t. if (dt_epoch t, dt_skill t) = p then t\<lparr>dt_cancelled := True\<rparr> else t) ts"

definition supersede :: "router_deps \<Rightarrow> router_state \<times> router_world \<Rightarrow> router_state \<times> router_world" where
  "supersede d sw =
     (let (st, w) = sw in
      if pending st \<noteq> None \<or> prior_work st then
        (st\<lparr>tasks := (case pending st of None \<Rightarrow> tasks st | Some p \<Rightarrow> cancel_task p (tasks st)),
            pending := None, prior_work := False\<rparr>,
         publish (BargeIn (rd_session d) NewFinalTranscript) w)
      else (st, w))"

definition prompt_llm :: "string \<Rightarrow> router_state \<times> router_world \<Rightarrow> router_state \<times> router_world" where
  "prompt_llm p sw =
     (let (st, w) = sw in
      case send p (llm_out w) of
        (False, ch) \<Rightarrow> (st\<lparr>live := False\<rparr>, w\<lparr>llm_out := ch\<rparr>)
      | (True, ch) \<Rightarrow> (st\<lparr>prior_work := True\<rparr>, w\<lparr>llm_out := ch\<rparr>))"

definition fall_back :: "router_deps \<Rightarrow> string \<Rightarrow> router_state \<times> router_world \<Rightarrow> router_state \<times> router_world" where
  "fall_back d text sw =
     (let (st, w) = sw in prompt_llm text (st, publish (LlmFallback (rd_session d) NoMatch []) w))"

text \<open>A matched intent with a dispatcher: spawn the dispatch, in the session's language.\<close>

definition dispatch_match :: "router_deps \<Rightarrow> intent_match \<Rightarrow> router_state \<times> router_world \<Rightarrow> router_state \<times> router_world" where
  "dispatch_match d m sw =
     (let (st, w) = sw; missing = missing_slots (m_intent m);
          w1 = (if missing \<noteq> [] then publish (LlmFallback (rd_session d) MissingSlots missing) w else w)
      in (st\<lparr>tasks := tasks st @
              [\<lparr>dt_epoch = epoch st, dt_skill = m_skill m,
                dt_intent = (m_intent m)\<lparr>i_locale := rd_locale d\<rparr>, dt_cancelled = False\<rparr>],
            pending := Some (epoch st, m_skill m)\<rparr>, w1))"

text \<open>A matched intent without one.\<close>

definition legacy_match ::
  "router_deps \<Rightarrow> string \<Rightarrow> intent_match \<Rightarrow> router_state \<times> router_world \<Rightarrow> router_state \<times> router_world" where
  "legacy_match d text m sw =
     (let (st, w) = sw; w1 = publish (SkillInvoked (rd_session d) (m_skill m)) w;
          missing = missing_slots (m_intent m)
      in if missing \<noteq> [] then
           prompt_llm (elicit_prompt text (i_name (m_intent m)) missing)
             (st, publish (LlmFallback (rd_session d) MissingSlots missing) w1)
         else fall_back d text (st, w1))"

definition on_transcript ::
  "router_deps \<Rightarrow> rule_index \<Rightarrow> transcript \<Rightarrow> router_state \<times> router_world \<Rightarrow> router_state \<times> router_world" where
  "on_transcript d rules t sw =
     (if \<not> t_is_final t then sw
      else let (st, w) = supersede d ((fst sw)\<lparr>epoch := sat_succ (epoch (fst sw))\<rparr>, snd sw) in
           case find_match (rd_matcher d) (t_text t) (rd_locale d) rules of
             None \<Rightarrow> fall_back d (t_text t) (st, w)
           | Some m \<Rightarrow>
               (let w1 = publish (IntentMatched (rd_session d)
                     \<lparr>ci_name = i_name (m_intent m), ci_slots = i_slots (m_intent m), ci_confidence = m_confidence m\<rparr>) w
                in if rd_dispatcher d then dispatch_match d m (st, w1)
                   else legacy_match d (t_text t) m (st, w1)))"

definition ensure_sentence_boundary :: "string \<Rightarrow> string" where
  "ensure_sentence_boundary text =
     (if text \<noteq> [] \<and> last text \<in> set ''.!?'' then text else text @ ''.'')"

text \<open>What a current outcome does before the turn is closed; the flag is whether the function goes on.\<close>

definition speak_result ::
  "router_deps \<Rightarrow> skill_error + skill_response \<Rightarrow> router_state \<times> router_world \<Rightarrow> bool \<times> router_state \<times> router_world" where
  "speak_result d res sw =
     (let (st, w) = sw in
      case res of
        Inl _ \<Rightarrow> (True, st, w)
      | Inr (Speak text) \<Rightarrow>
          (case send (Token (ensure_sentence_boundary text)) (tts_out w) of
             (False, ch) \<Rightarrow> (False, st, w\<lparr>tts_out := ch\<rparr>)
           | (True, ch) \<Rightarrow> (True, st\<lparr>prior_work := True\<rparr>, w\<lparr>tts_out := ch\<rparr>))
      | Inr (AskLlm prompt) \<Rightarrow>
          (let w1 = publish (LlmFallback (rd_session d) NoMatch []) w in
           case send prompt (llm_out w1) of
             (False, ch) \<Rightarrow> (False, st, w1\<lparr>llm_out := ch\<rparr>)
           | (True, ch) \<Rightarrow> (True, st\<lparr>prior_work := True\<rparr>, w1\<lparr>llm_out := ch\<rparr>))
      | Inr Empty \<Rightarrow> (True, st, w)
      | Inr (SampledPcm rate samples) \<Rightarrow>
          (True, st, publish (AudioChunk (rd_session d) F32le rate (concat (map le_bytes32 samples))) w)
      | Inr (SampledOpus frames) \<Rightarrow> (True, st, publish (AudioChunk (rd_session d) Opus 48000 frames) w)
      | Inr (Volume level) \<Rightarrow> (True, st, publish (VolumeChanged (rd_session d) level) w))"

definition hands_off_to_llm :: "skill_error + skill_response \<Rightarrow> bool" where
  "hands_off_to_llm res = (case res of Inr (AskLlm _) \<Rightarrow> True | _ \<Rightarrow> False)"

definition handle_outcome ::
  "router_deps \<Rightarrow> u64 \<Rightarrow> string \<Rightarrow> skill_error + skill_response \<Rightarrow> router_state \<times> router_world \<Rightarrow> router_state \<times> router_world" where
  "handle_outcome d e skill res sw =
     (let (st, w) = sw;
          st1 = (if pending st = Some (e, skill) then st\<lparr>pending := None\<rparr> else st)
      in if e \<noteq> epoch st then (st1, publish (SkillCancelled (rd_session d) skill) w)
         else case speak_result d res (st1, w) of
                (False, st2, w2) \<Rightarrow> (st2, w2)
              | (True, st2, w2) \<Rightarrow>
                  if hands_off_to_llm res then (st2, w2)
                  else (st2, w2\<lparr>tts_out := snd (send AnswerEnd (tts_out w2))\<rparr>))"

text \<open>A task that was cancelled may still have finished first, so its report is a result or the stub error;
  one that was not reports the skill's result.\<close>

inductive router_step :: "router_deps \<Rightarrow> router_state \<times> router_world \<Rightarrow> router_state \<times> router_world \<Rightarrow> bool"
  for d :: router_deps where
  transcript: "live st \<Longrightarrow> \<not> rx_closed st \<Longrightarrow> router_step d (st, w) (on_transcript d rules t (st, w))"
| closed: "live st \<Longrightarrow> \<not> rx_closed st \<Longrightarrow> router_step d (st, w) (st\<lparr>rx_closed := True\<rparr>, w)"
| outcome: "live st \<Longrightarrow> t \<in> set (tasks st) \<Longrightarrow>
     router_step d (st, w)
       (handle_outcome d (dt_epoch t) (dt_skill t) res (st\<lparr>tasks := remove1 t (tasks st)\<rparr>, w))"
| drained: "live st \<Longrightarrow> rx_closed st \<Longrightarrow> pending st = None \<Longrightarrow> router_step d (st, w) (st\<lparr>live := False\<rparr>, w)"
| cancelled: "live st \<Longrightarrow> router_step d (st, w) (st\<lparr>live := False\<rparr>, w)"

inductive_cases router_stepE: "router_step d sw sw'"

definition router_reach :: "router_deps \<Rightarrow> router_state \<times> router_world \<Rightarrow> bool" where
  "router_reach d sw \<longleftrightarrow>
     (router_step d)\<^sup>*\<^sup>* (router_init, \<lparr>llm_out = new_chan, tts_out = new_chan, r_bus = []\<rparr>) sw"

section \<open>Invariant\<close>

definition n_ends :: "tts_msg list \<Rightarrow> nat" where
  "n_ends ms = length (filter (\<lambda>m. m = AnswerEnd) ms)"

definition n_cancelled :: "event list \<Rightarrow> nat" where
  "n_cancelled es = length (filter (\<lambda>e. case e of SkillCancelled _ _ \<Rightarrow> True | _ \<Rightarrow> False) es)"

lemma n_ends_simps [simp]: "n_ends [] = 0" "n_ends (xs @ ys) = n_ends xs + n_ends ys"
  "n_ends (Token t # ms) = n_ends ms" "n_ends (AnswerEnd # ms) = Suc (n_ends ms)"
  by (simp_all add: n_ends_def)

lemma n_cancelled_simps [simp]: "n_cancelled [] = 0" "n_cancelled (xs @ ys) = n_cancelled xs + n_cancelled ys"
  by (simp_all add: n_cancelled_def)

definition unsaturated :: "router_state \<Rightarrow> bool" where
  "unsaturated st \<longleftrightarrow> unat (epoch st) < 2 ^ 64 - 1"

text \<open>The answers an utterance can get: closed by the router, or handed to the LLM stage.\<close>

definition answered :: "router_world \<Rightarrow> nat" where
  "answered w = n_ends (sent (tts_out w)) + length (sent (llm_out w))"

definition task_keys :: "router_state \<Rightarrow> (u64 \<times> string) list" where
  "task_keys st = map (\<lambda>t. (dt_epoch t, dt_skill t)) (tasks st)"

definition listening :: "router_world \<Rightarrow> bool" where
  "listening w \<longleftrightarrow> accepts (llm_out w) = None \<and> accepts (tts_out w) = None"

fun pending_ok :: "u64 \<Rightarrow> (u64 \<times> string) list \<Rightarrow> (u64 \<times> string) option \<Rightarrow> bool" where
  "pending_ok e ks None \<longleftrightarrow> e \<notin> fst ` set ks"
| "pending_ok e ks (Some p) \<longleftrightarrow> fst p = e \<and> p \<in> set ks"

definition router_inv :: "router_state \<times> router_world \<Rightarrow> bool" where
  "router_inv sw \<longleftrightarrow>
     listening (snd sw)
     \<and> (unsaturated (fst sw) \<longrightarrow>
          distinct (map fst (task_keys (fst sw)))
          \<and> (\<forall>k \<in> set (task_keys (fst sw)). fst k \<le> epoch (fst sw))
          \<and> pending_ok (epoch (fst sw)) (task_keys (fst sw)) (pending (fst sw))
          \<and> answered (snd sw) + n_cancelled (r_bus (snd sw)) + length (task_keys (fst sw)) = unat (epoch (fst sw)))"

subsection \<open>What each step does\<close>

lemma publish_simps [simp]:
  "llm_out (publish e w) = llm_out w" "tts_out (publish e w) = tts_out w" "r_bus (publish e w) = r_bus w @ [e]"
  "listening (publish e w) = listening w" "answered (publish e w) = answered w"
  by (simp_all add: publish_def listening_def answered_def)

lemma cancel_task_keys: "map (\<lambda>t. (dt_epoch t, dt_skill t)) (cancel_task p ts) = map (\<lambda>t. (dt_epoch t, dt_skill t)) ts"
  by (simp add: cancel_task_def)

lemma supersede_facts:
  assumes "supersede d (st, w) = (st', w')"
  shows "epoch st' = epoch st" "task_keys st' = task_keys st" "pending st' = None" "prior_work st' = False"
    "live st' = live st" "rx_closed st' = rx_closed st"
    "llm_out w' = llm_out w" "tts_out w' = tts_out w" "n_cancelled (r_bus w') = n_cancelled (r_bus w)"
    "r_bus w' = r_bus w @ (if pending st \<noteq> None \<or> prior_work st then [BargeIn (rd_session d) NewFinalTranscript] else [])"
  using assms
  by (cases "pending st"; auto simp: supersede_def task_keys_def cancel_task_keys n_cancelled_def split: if_splits)+

lemma prompt_llm_alive:
  "listening w \<Longrightarrow>
     prompt_llm p (st, w) = (st\<lparr>prior_work := True\<rparr>, w\<lparr>llm_out := (llm_out w)\<lparr>sent := sent (llm_out w) @ [p]\<rparr>\<rparr>)"
  by (simp add: prompt_llm_def listening_def)

definition advances :: "router_state \<times> router_world \<Rightarrow> router_state \<times> router_world \<Rightarrow> bool" where
  "advances sw r \<longleftrightarrow>
     listening (snd r) \<and> epoch (fst r) = epoch (fst sw) \<and> n_cancelled (r_bus (snd r)) = n_cancelled (r_bus (snd sw))
     \<and> (pending (fst r) = None \<and> task_keys (fst r) = task_keys (fst sw) \<and> answered (snd r) = Suc (answered (snd sw))
        \<or> (\<exists>k. pending (fst r) = Some (epoch (fst r), k) \<and> task_keys (fst r) = task_keys (fst sw) @ [(epoch (fst r), k)]
             \<and> answered (snd r) = answered (snd sw)))"

lemma prompt_llm_advances:
  "listening w \<Longrightarrow> pending st = None \<Longrightarrow> advances (st, w) (prompt_llm p (st, w))"
  by (simp add: prompt_llm_alive advances_def) (simp add: listening_def task_keys_def answered_def)

lemma advances_publish:
  "n_cancelled [e] = 0 \<Longrightarrow> advances (st, publish e w) r \<longleftrightarrow> advances (st, w) r"
  by (simp add: advances_def)

lemma n_cancelled_other [simp]:
  "n_cancelled [LlmFallback s x y] = 0" "n_cancelled [SkillInvoked s k] = 0" "n_cancelled [IntentMatched s i] = 0"
  "n_cancelled [BargeIn s br] = 0" "n_cancelled [AudioChunk s f r b] = 0" "n_cancelled [VolumeChanged s v] = 0"
  "n_cancelled [SkillCancelled s k] = 1"
  by (simp_all add: n_cancelled_def)

lemma fall_back_advances:
  "listening w \<Longrightarrow> pending st = None \<Longrightarrow> advances (st, w) (fall_back d u (st, w))"
  using prompt_llm_advances [of "publish (LlmFallback (rd_session d) NoMatch []) w" st u]
  by (simp add: fall_back_def advances_publish)

lemma legacy_match_advances:
  assumes "listening w" "pending st = None"
  shows "advances (st, w) (legacy_match d text m (st, w))"
proof -
  let ?w1 = "publish (SkillInvoked (rd_session d) (m_skill m)) w"
  let ?miss = "missing_slots (m_intent m)"
  let ?w2 = "publish (LlmFallback (rd_session d) MissingSlots ?miss) ?w1"
  have "advances (st, ?w1) (fall_back d text (st, ?w1))" using assms by (simp add: fall_back_advances)
  moreover have "advances (st, ?w2) (prompt_llm p (st, ?w2))" for p using assms by (simp add: prompt_llm_advances)
  ultimately show ?thesis by (simp add: legacy_match_def Let_def advances_publish)
qed

lemma dispatch_match_advances:
  "listening w \<Longrightarrow> pending st = None \<Longrightarrow> advances (st, w) (dispatch_match d m (st, w))"
  by (simp add: dispatch_match_def Let_def advances_def task_keys_def)

lemma on_transcript_facts:
  fixes d :: router_deps and rules :: rule_index and st :: router_state and t :: transcript and w :: router_world
  assumes "listening w" "t_is_final t"
  defines "r \<equiv> on_transcript d rules t (st, w)"
  shows "listening (snd r)" "epoch (fst r) = sat_succ (epoch st)" "n_cancelled (r_bus (snd r)) = n_cancelled (r_bus w)"
    "pending (fst r) = None \<and> task_keys (fst r) = task_keys st \<and> answered (snd r) = Suc (answered w)
     \<or> (\<exists>k. pending (fst r) = Some (epoch (fst r), k) \<and> task_keys (fst r) = task_keys st @ [(epoch (fst r), k)]
          \<and> answered (snd r) = answered w)"
proof -
  obtain st1 w1 where s: "supersede d (st\<lparr>epoch := sat_succ (epoch st)\<rparr>, w) = (st1, w1)"
    by (cases "supersede d (st\<lparr>epoch := sat_succ (epoch st)\<rparr>, w)")
  note sf = supersede_facts [OF s]
  have l: "listening w1" using assms(1) sf by (simp add: listening_def)
  have "advances (st1, w1) r"
  proof (cases "find_match (rd_matcher d) (t_text t) (rd_locale d) rules")
    case None
    then show ?thesis using assms(2) s l sf by (simp add: r_def on_transcript_def fall_back_advances)
  next
    case (Some m)
    let ?e = "IntentMatched (rd_session d)
      \<lparr>ci_name = i_name (m_intent m), ci_slots = i_slots (m_intent m), ci_confidence = m_confidence m\<rparr>"
    have "advances (st1, publish ?e w1) r"
      using assms(2) s l sf Some
      by (simp add: r_def on_transcript_def Let_def dispatch_match_advances legacy_match_advances)
    then show ?thesis by (simp add: advances_publish)
  qed
  then show "listening (snd r)" "epoch (fst r) = sat_succ (epoch st)" "n_cancelled (r_bus (snd r)) = n_cancelled (r_bus w)"
    "pending (fst r) = None \<and> task_keys (fst r) = task_keys st \<and> answered (snd r) = Suc (answered w)
     \<or> (\<exists>k. pending (fst r) = Some (epoch (fst r), k) \<and> task_keys (fst r) = task_keys st @ [(epoch (fst r), k)]
          \<and> answered (snd r) = answered w)"
    using sf(1,2,7,8,9) unfolding advances_def fst_conv snd_conv answered_def
    by (auto simp: task_keys_def)
qed

lemma handle_outcome_stale:
  "e \<noteq> epoch st \<Longrightarrow>
     handle_outcome d e k res (st, w) =
       ((if pending st = Some (e, k) then st\<lparr>pending := None\<rparr> else st), publish (SkillCancelled (rd_session d) k) w)"
  by (simp add: handle_outcome_def Let_def)

lemma handle_outcome_current:
  fixes d :: router_deps and e :: u64 and k :: string and res :: "skill_error + skill_response"
    and st :: router_state and w :: router_world
  assumes "listening w" "e = epoch st"
  defines "r \<equiv> handle_outcome d e k res (st, w)"
  shows "listening (snd r) \<and> epoch (fst r) = epoch st \<and> tasks (fst r) = tasks st
    \<and> pending (fst r) = (if pending st = Some (e, k) then None else pending st)
    \<and> n_cancelled (r_bus (snd r)) = n_cancelled (r_bus w) \<and> answered (snd r) = Suc (answered w)
    \<and> live (fst r) = live st \<and> rx_closed (fst r) = rx_closed st"
  using assms(1,2)
  by (cases res rule: sum.exhaust; cases "projr res" rule: skill_response.exhaust)
     (simp_all add: r_def handle_outcome_def speak_result_def hands_off_to_llm_def Let_def listening_def answered_def publish_def)

lemma task_keys_cong [simp]:
  "task_keys (st\<lparr>pending := p\<rparr>) = task_keys st" "task_keys (st\<lparr>rx_closed := b\<rparr>) = task_keys st"
  "task_keys (st\<lparr>live := b\<rparr>) = task_keys st"
  by (simp_all add: task_keys_def)

lemma router_step_inv:
  assumes "router_step d sw sw'" "router_inv sw"
  shows "router_inv sw'"
  using assms
proof (cases rule: router_step.cases)
  case (transcript st w rules t)
  show ?thesis
  proof (cases "t_is_final t")
    case True
    let ?r = "on_transcript d rules t (st, w)"
    have l: "listening w" using assms(2) transcript by (simp add: router_inv_def)
    note f = on_transcript_facts [OF l True, where d = d and rules = rules and st = st]
    have sat: "unsaturated (fst ?r) \<Longrightarrow> unsaturated st \<and> unat (epoch (fst ?r)) = Suc (unat (epoch st))"
      using f(2) unat_sat_succ [of "epoch st"] by (simp add: unsaturated_def)
    have ep: "\<forall>k \<in> set (task_keys st). fst k < epoch (fst ?r)" if "unsaturated (fst ?r)"
      using assms(2) transcript sat [OF that]
      by (auto simp: router_inv_def word_le_nat_alt word_less_nat_alt)
    show ?thesis unfolding transcript(2) router_inv_def
    proof (intro conjI impI)
      assume u: "unsaturated (fst ?r)"
      then show "distinct (map fst (task_keys (fst ?r)))"
        "\<forall>k \<in> set (task_keys (fst ?r)). fst k \<le> epoch (fst ?r)"
        "pending_ok (epoch (fst ?r)) (task_keys (fst ?r)) (pending (fst ?r))"
        "answered (snd ?r) + n_cancelled (r_bus (snd ?r)) + length (task_keys (fst ?r)) = unat (epoch (fst ?r))"
        using f(3,4) ep [OF u] sat [OF u] assms(2) transcript(1) by (force simp: router_inv_def less_imp_le)+
    qed (rule f(1))
  qed (use transcript assms(2) in \<open>simp add: on_transcript_def\<close>)
next
  case (outcome st t w res)
  obtain xs ys where ts: "tasks st = xs @ t # ys" "t \<notin> set xs"
    using split_list_first outcome(4) by metis
  define st1 where "st1 = st\<lparr>tasks := remove1 t (tasks st)\<rparr>"
  have st1: "tasks st1 = xs @ ys" "epoch st1 = epoch st" "pending st1 = pending st"
    using ts by (simp_all add: st1_def remove1_append)
  have l: "listening w" using assms(2) outcome by (simp add: router_inv_def)
  let ?k = "(dt_epoch t, dt_skill t)"
  have u: "unsaturated st \<Longrightarrow> distinct (map fst (task_keys st))
      \<and> (\<forall>k \<in> set (task_keys st). fst k \<le> epoch st)
      \<and> pending_ok (epoch st) (task_keys st) (pending st)
      \<and> answered w + n_cancelled (r_bus w) + length (task_keys st) = unat (epoch st)"
    using assms(2) outcome(1) by (simp add: router_inv_def)
  have keys: "task_keys st = map (\<lambda>t. (dt_epoch t, dt_skill t)) xs @ ?k # map (\<lambda>t. (dt_epoch t, dt_skill t)) ys"
    "task_keys st1 = map (\<lambda>t. (dt_epoch t, dt_skill t)) xs @ map (\<lambda>t. (dt_epoch t, dt_skill t)) ys"
    using ts st1 by (simp_all add: task_keys_def)
  show ?thesis
  proof (cases "dt_epoch t = epoch st")
    case True
    let ?r = "handle_outcome d (dt_epoch t) (dt_skill t) res (st1, w)"
    note f = handle_outcome_current [OF l, where e = "dt_epoch t" and st = st1 and d = d and k = "dt_skill t" and res = res]
    have r: "listening (snd ?r)" "epoch (fst ?r) = epoch st" "task_keys (fst ?r) = task_keys st1"
      "pending (fst ?r) = (if pending st = Some ?k then None else pending st)"
      "n_cancelled (r_bus (snd ?r)) = n_cancelled (r_bus w)" "answered (snd ?r) = Suc (answered w)"
      using f st1 True by (simp_all add: task_keys_def)
    show ?thesis
      unfolding outcome(2) st1_def [symmetric] router_inv_def
      using r u keys True by (cases "pending st") (auto simp: unsaturated_def)
  next
    case False
    then have ne: "pending st \<noteq> Some ?k \<or> \<not> unsaturated st" using u by (cases "pending st") auto
    show ?thesis
      unfolding outcome(2) st1_def [symmetric] router_inv_def
      using handle_outcome_stale [of "dt_epoch t" st1 d "dt_skill t" res w] st1 False u keys l ne
      by (cases "pending st") (auto simp: unsaturated_def)
  qed
qed (auto simp: router_inv_def unsaturated_def)

lemma router_reach_inv: "router_reach d sw \<Longrightarrow> router_inv sw"
  unfolding router_reach_def
proof (induction rule: rtranclp_induct)
  case base
  then show ?case by (simp add: router_inv_def router_init_def listening_def task_keys_def answered_def)
qed (rule router_step_inv)

section \<open>Properties\<close>

text \<open>Every utterance is accounted for exactly once: in any reachable state (with fewer than
  \<open>2^64 - 1\<close> utterances so far and the TTS and LLM stages listening), the final transcripts received equal
  the turns answered (closed towards TTS, or handed to the LLM), plus the dispatches reported as
  cancelled, plus the dispatches still running; and at most one running dispatch can still be spoken, the
  pending one, which belongs to the latest utterance.\<close>

theorem every_utterance_accounted:
  assumes "router_reach d (st, w)" "unsaturated st"
  shows "answered w + n_cancelled (r_bus w) + length (tasks st) = unat (epoch st)
    \<and> (\<forall>t \<in> set (tasks st). dt_epoch t = epoch st \<longleftrightarrow> pending st = Some (dt_epoch t, dt_skill t))
    \<and> distinct (map dt_epoch (tasks st))"
proof -
  have inv: "distinct (map fst (task_keys st))" "pending_ok (epoch st) (task_keys st) (pending st)"
    "answered w + n_cancelled (r_bus w) + length (task_keys st) = unat (epoch st)"
    using router_reach_inv [OF assms(1)] assms(2) by (simp_all add: router_inv_def)
  have d: "distinct (map dt_epoch (tasks st))" using inv(1) by (simp add: task_keys_def comp_def)
  have "dt_epoch t = epoch st \<longleftrightarrow> pending st = Some (dt_epoch t, dt_skill t)" if t: "t \<in> set (tasks st)" for t
  proof (cases "pending st")
    case None
    then show ?thesis using inv(2) t by (force simp: task_keys_def)
  next
    case (Some p)
    then obtain t' where t': "t' \<in> set (tasks st)" "p = (dt_epoch t', dt_skill t')" "fst p = epoch st"
      using inv(2) by (auto simp: task_keys_def)
    then show ?thesis using Some t d inj_onD [of dt_epoch "set (tasks st)" t t']
      by (auto simp: distinct_map)
  qed
  then show ?thesis using inv d by (simp add: task_keys_def)
qed

definition clock_index :: rule_index where
  "clock_index = ri_insert ''fr'' \<lparr>r_intent = ''time'', r_phrases = [''heure''], r_slots = []\<rparr> ''clock'' ri_new"

definition clock_deps :: router_deps where
  "clock_deps = \<lparr>rd_session = 7, rd_locale = ''fr'',
     rd_matcher = \<lparr>lower = ascii_lower, alnum = (\<lambda>_. True), similarity = (\<lambda>a b. if a = b then 1 else 0)\<rparr>,
     rd_dispatcher = True\<rparr>"

definition final :: "string \<Rightarrow> transcript" where
  "final s = \<lparr>t_text = s, t_is_final = True, t_confidence = None\<rparr>"

text \<open>Two utterances: a dispatch superseded by an utterance no rule matches.\<close>

definition demo_world :: router_world where
  "demo_world = \<lparr>llm_out = new_chan, tts_out = new_chan, r_bus = []\<rparr>"

definition demo_run1 :: "router_state \<times> router_world" where
  "demo_run1 = on_transcript clock_deps clock_index (final ''Heure'') (router_init, demo_world)"

definition demo_run2 :: "router_state \<times> router_world" where
  "demo_run2 = on_transcript clock_deps clock_index (final ''raconte'') demo_run1"

lemma clock_match:
  "find_match (rd_matcher clock_deps) ''Heure'' ''fr'' clock_index
     = Some \<lparr>m_intent = \<lparr>i_name = ''time'', i_slots = [], i_locale = []\<rparr>, m_skill = ''clock'',
            m_confidence = 1, m_specificity = 1\<rparr>"
  "find_match (rd_matcher clock_deps) ''raconte'' ''fr'' clock_index = None"
  by code_simp+

lemma demo_run1:
  "demo_run1 =
     (router_init\<lparr>epoch := 1, pending := Some (1, ''clock''),
        tasks := [\<lparr>dt_epoch = 1, dt_skill = ''clock'', dt_intent = \<lparr>i_name = ''time'', i_slots = [], i_locale = ''fr''\<rparr>,
                   dt_cancelled = False\<rparr>]\<rparr>,
      publish (IntentMatched 7 \<lparr>ci_name = ''time'', ci_slots = [], ci_confidence = 1\<rparr>) demo_world)"
proof -
  have d: "rd_session clock_deps = 7" "rd_locale clock_deps = ''fr''" "rd_dispatcher clock_deps"
    by (simp_all add: clock_deps_def)
  show ?thesis
    by (simp add: demo_run1_def on_transcript_def final_def clock_match d router_init_def supersede_def Let_def
        dispatch_match_def missing_slots_def sat_succ_def)
qed

lemma demo_run2:
  "demo_run2 =
     ((fst demo_run1)\<lparr>epoch := 2, pending := None, prior_work := True, tasks := cancel_task (1, ''clock'') (tasks (fst demo_run1))\<rparr>,
      (publish (LlmFallback 7 NoMatch []) (publish (BargeIn 7 NewFinalTranscript) (snd demo_run1)))
        \<lparr>llm_out := \<lparr>sent = [''raconte''], accepts = None\<rparr>\<rparr>)"
proof -
  have d: "rd_session clock_deps = 7" "rd_locale clock_deps = ''fr''" by (simp_all add: clock_deps_def)
  have "(1 :: 64 word) + 1 = 2" "(1 :: 64 word) \<noteq> - 1" by simp_all
  then show ?thesis unfolding demo_run2_def demo_run1
    by (simp add: on_transcript_def final_def clock_match d router_init_def supersede_def Let_def sat_succ_def
        fall_back_def prompt_llm_def demo_world_def new_chan_def publish_def)
qed

lemma on_transcript_step:
  "live (fst sw) \<Longrightarrow> \<not> rx_closed (fst sw) \<Longrightarrow> router_step d sw (on_transcript d rules t sw)"
  using router_step.transcript by (cases sw) simp

lemma demo_live: "live (fst demo_run1) \<and> \<not> rx_closed (fst demo_run1) \<and> live (fst demo_run2) \<and> \<not> rx_closed (fst demo_run2)"
  by (simp add: demo_run1 demo_run2 router_init_def)

lemma demo_reach: "router_reach clock_deps demo_run1" "router_reach clock_deps demo_run2"
proof -
  have 1: "router_step clock_deps (router_init, demo_world) demo_run1"
    unfolding demo_run1_def by (rule on_transcript_step) (simp_all add: router_init_def)
  have 2: "router_step clock_deps demo_run1 demo_run2"
    unfolding demo_run2_def by (rule on_transcript_step) (use demo_live in simp_all)
  show "router_reach clock_deps demo_run1" "router_reach clock_deps demo_run2"
    unfolding router_reach_def demo_world_def [symmetric] using 1 2 by (meson r_into_rtranclp rtranclp_trans)+
qed

theorem every_utterance_accounted_witness:
  "answered (snd demo_run2) + n_cancelled (r_bus (snd demo_run2)) + length (tasks (fst demo_run2)) = 2"
proof -
  have u: "unsaturated (fst demo_run2)" and e: "unat (epoch (fst demo_run2)) = 2"
    by (simp_all add: demo_run2 unsaturated_def)
  have "router_reach clock_deps (fst demo_run2, snd demo_run2)" using demo_reach(2) by simp
  from every_utterance_accounted [OF this u] e show ?thesis by simp
qed

lemma epoch_step_mono:
  assumes "router_step d sw sw'" "unsaturated (fst sw')" "listening (snd sw)"
  shows "epoch (fst sw) \<le> epoch (fst sw') \<and> unsaturated (fst sw)"
  using assms
proof (cases rule: router_step.cases)
  case (transcript st w rules t)
  show ?thesis
  proof (cases "t_is_final t")
    case True
    have "epoch (fst sw') = sat_succ (epoch st)"
      using transcript on_transcript_facts(2) [OF _ True] assms(3) by simp
    then show ?thesis using transcript unat_sat_succ [of "epoch st"] assms(2)
      by (simp add: unsaturated_def word_le_nat_alt)
  qed (use transcript assms in \<open>simp add: on_transcript_def\<close>)
next
  case (outcome st t w res)
  have "epoch (fst sw') = epoch st"
    using handle_outcome_current [of w "dt_epoch t" "st\<lparr>tasks := remove1 t (tasks st)\<rparr>" d "dt_skill t" res]
      handle_outcome_stale [of "dt_epoch t" "st\<lparr>tasks := remove1 t (tasks st)\<rparr>" d "dt_skill t" res w]
      outcome assms(3) by (cases "dt_epoch t = epoch st") auto
  then show ?thesis using outcome assms(2) by (simp add: unsaturated_def)
qed (auto simp: unsaturated_def)

lemma epoch_steps_mono:
  assumes "(router_step d)\<^sup>*\<^sup>* sw sw'" "router_inv sw" "unsaturated (fst sw')"
  shows "epoch (fst sw) \<le> epoch (fst sw') \<and> router_inv sw' \<and> unsaturated (fst sw)"
  using assms
proof (induction rule: rtranclp_induct)
  case (step y z)
  have y: "router_inv y"
    using step.hyps(1) assms(2) by (induction rule: rtranclp_induct) (auto intro: router_step_inv)
  then have "listening (snd y)" by (simp add: router_inv_def)
  from epoch_step_mono [OF step.hyps(2) step.prems(2) this] step.IH [OF assms(2)] y
  show ?case using router_step_inv [OF step.hyps(2)] by auto
qed simp

text \<open>C4: a superseded skill is never heard: once a final transcript arrives while a dispatch is running,
  then however the run continues, that dispatch's report, whatever it is, only publishes that the skill
  was cancelled; it sends nothing to the TTS or LLM stage and does not disturb the pending dispatch.\<close>

theorem superseded_never_heard:
  assumes "router_reach d (st, w)" "t \<in> set (tasks st)" "t_is_final u"
    and "(router_step d)\<^sup>*\<^sup>* (on_transcript d rules u (st, w)) (st', w')" "live st" "\<not> rx_closed st" "unsaturated st'"
  shows "handle_outcome d (dt_epoch t) (dt_skill t) res (st', w')
    = (st', publish (SkillCancelled (rd_session d) (dt_skill t)) w')"
proof -
  have inv: "router_inv (st, w)" using router_reach_inv assms(1) by blast
  have "router_step d (st, w) (on_transcript d rules u (st, w))"
    using assms(5,6) by (rule router_step.transcript)
  then have inv1: "router_inv (on_transcript d rules u (st, w))" using inv by (rule router_step_inv)
  have l: "listening w" using inv by (simp add: router_inv_def)
  have ep: "epoch (fst (on_transcript d rules u (st, w))) = sat_succ (epoch st)"
    using on_transcript_facts(2) [OF l assms(3)] .
  have m: "sat_succ (epoch st) \<le> epoch st'" "router_inv (st', w')" "unsaturated (fst (on_transcript d rules u (st, w)))"
    using epoch_steps_mono [OF assms(4) inv1] assms(7) ep by simp_all
  then have st: "unsaturated st" "unat (sat_succ (epoch st)) = Suc (unat (epoch st))"
    using ep unat_sat_succ [of "epoch st"] by (simp_all add: unsaturated_def)
  then have "dt_epoch t \<le> epoch st" using inv assms(2) by (auto simp: router_inv_def task_keys_def)
  then have less: "dt_epoch t < epoch st'" using m(1) st(2) by (simp add: word_le_nat_alt word_less_nat_alt)
  have "pending st' \<noteq> Some (dt_epoch t, dt_skill t)"
    using m(2) assms(7) less by (cases "pending st'") (auto simp: router_inv_def)
  then show ?thesis using less by (simp add: handle_outcome_stale)
qed

theorem superseded_never_heard_witness:
  "handle_outcome clock_deps 1 ''clock'' (Inr (Speak ''Il pleut'')) demo_run2
     = (fst demo_run2, publish (SkillCancelled 7 ''clock'') (snd demo_run2))"
proof -
  define st w where sw: "st = fst demo_run1" "w = snd demo_run1"
  define st' w' where sw': "st' = fst demo_run2" "w' = snd demo_run2"
  have r1: "demo_run1 = (st, w)" and r2: "demo_run2 = (st', w')" by (simp_all add: sw sw')
  have "tasks (fst demo_run1) \<noteq> [] \<and> dt_epoch (hd (tasks (fst demo_run1))) = 1
      \<and> dt_skill (hd (tasks (fst demo_run1))) = ''clock'' \<and> unsaturated (fst demo_run2)"
    by (simp add: demo_run1 demo_run2 unsaturated_def)
  then have t: "hd (tasks st) \<in> set (tasks st)" "dt_epoch (hd (tasks st)) = 1" "dt_skill (hd (tasks st)) = ''clock''"
    "unsaturated st'" by (auto simp: sw sw')
  have "(router_step clock_deps)\<^sup>*\<^sup>* (on_transcript clock_deps clock_index (final ''raconte'') (st, w)) (st', w')"
    using r1 r2 by (simp add: demo_run2_def)
  from superseded_never_heard [OF _ t(1) _ this, of "Inr (Speak ''Il pleut'')"] demo_reach(1) demo_live r1 r2 t
  have "handle_outcome clock_deps 1 ''clock'' (Inr (Speak ''Il pleut'')) (st', w')
      = (st', publish (SkillCancelled (rd_session clock_deps) ''clock'') w')"
    by (simp add: final_def sw)
  then show ?thesis by (simp add: clock_deps_def sw')
qed

text \<open>A reported outcome ends its turn: for the current utterance, spoken text goes to the TTS stage as
  one token ending a sentence, every outcome but a hand-over to the LLM is followed by exactly one
  \<open>AnswerEnd\<close> (errors, silence and audio included), and a hand-over sends the LLM exactly the skill's prompt.\<close>

theorem outcome_ends_turn:
  assumes "listening w" "e = epoch st"
  shows "let w' = snd (handle_outcome d e k res (st, w)) in
    sent (tts_out w') = sent (tts_out w) @
      (case res of
         Inr (Speak t) \<Rightarrow> [Token (ensure_sentence_boundary t), AnswerEnd]
       | Inr (AskLlm _) \<Rightarrow> []
       | _ \<Rightarrow> [AnswerEnd])
    \<and> sent (llm_out w') = sent (llm_out w) @ (case res of Inr (AskLlm p) \<Rightarrow> [p] | _ \<Rightarrow> [])
    \<and> (\<forall>t. last (ensure_sentence_boundary t) \<in> set ''.!?'' \<and> prefix t (ensure_sentence_boundary t))"
  using assms
  by (cases res rule: sum.exhaust; cases "projr res" rule: skill_response.exhaust)
     (simp_all add: handle_outcome_def speak_result_def hands_off_to_llm_def Let_def listening_def
       ensure_sentence_boundary_def)

theorem outcome_ends_turn_witness:
  "sent (tts_out (snd (handle_outcome clock_deps 0 ''jokes'' (Inl (Custom ''boom'')) (router_init, demo_world)))) = [AnswerEnd]"
proof -
  have "listening demo_world" "0 = epoch router_init"
    by (simp_all add: demo_world_def listening_def router_init_def)
  from outcome_ends_turn [OF this, of clock_deps "''jokes''" "Inl (Custom ''boom'')"]
  show ?thesis by (simp add: Let_def demo_world_def)
qed

text \<open>\<open>prior_work_in_flight\<close> is set when an answer is forwarded and cleared only by the next barge-in, so an
  utterance that follows a fully spoken answer is still announced as a barge-in.\<close>

lemma finished_answer_still_barged:
  assumes "listening w" "t_is_final u" "e = epoch st"
  shows "let (st1, w1) = handle_outcome d e k (Inr (Speak s)) (st, w) in
     last (sent (tts_out w1)) = AnswerEnd
     \<and> r_bus (snd (supersede d (st1\<lparr>epoch := sat_succ (epoch st1)\<rparr>, w1)))
          = r_bus w1 @ [BargeIn (rd_session d) NewFinalTranscript]"
  using assms
  by (auto simp: handle_outcome_def speak_result_def hands_off_to_llm_def Let_def listening_def supersede_def)

end
