(* ===== verification/Pipeline.thy ===== *)
theory Pipeline
  imports Router
begin

text \<open>
  The answering pipeline of one session, as \<open>open_session\<close> of
  \<open>crates/athena-voice-runtime/src/satellite/ingress.rs\<close> wires it: router, LLM actor, TTS actor and sink run
  concurrently and are joined by bounded channels, four prompts and sixty-four tokens or chunks long. The
  router and the LLM actor both send into the token channel.

  An actor is blocked while a message it has sent does not fit: what an actor has sent is the history its
  own model keeps (\<open>sent\<close>), and the messages of that history that have not entered the channel yet are its
  box. Every hand-over of one message, and every input an actor takes, is a step of its own, so all
  interleavings of the four tasks are runs of the model. A cancelled session is followed up to the moment
  the LLM actor, the TTS actor or the sink notices it.
\<close>

section \<open>Bounded channels\<close>

record 'm fifo =
  taken :: "'m list"
  waiting :: "'m list"

definition fifo_new :: "'m fifo" where
  "fifo_new = \<lparr>taken = [], waiting = []\<rparr>"

definition entered :: "'m fifo \<Rightarrow> 'm list" where
  "entered q = taken q @ waiting q"

definition put :: "'m \<Rightarrow> 'm fifo \<Rightarrow> 'm fifo" where
  "put m q = q\<lparr>waiting := waiting q @ [m]\<rparr>"

definition shift :: "'m fifo \<Rightarrow> 'm fifo" where
  "shift q = \<lparr>taken = taken q @ [hd (waiting q)], waiting = tl (waiting q)\<rparr>"

lemma fifo_simps [simp]:
  "taken fifo_new = []" "waiting fifo_new = []" "taken (put m q) = taken q" "waiting (put m q) = waiting q @ [m]"
  "taken (shift q) = taken q @ [hd (waiting q)]" "waiting (shift q) = tl (waiting q)"
  "entered fifo_new = []" "entered (put m q) = entered q @ [m]"
  by (simp_all add: fifo_new_def put_def shift_def entered_def)

lemma entered_shift [simp]: "waiting q \<noteq> [] \<Longrightarrow> entered (shift q) = entered q"
  by (simp add: entered_def)

definition prompt_room :: nat where "prompt_room = 4"
definition token_room :: nat where "token_room = 64"
definition chunk_room :: nat where "chunk_room = 64"

section \<open>The session's tasks\<close>

text \<open>The backends: what the n-th completion and the n-th synthesis of the session give.\<close>

record 'e pipe_env =
  pe_deps :: router_deps
  pe_llm :: "nat \<Rightarrow> string \<Rightarrow> 'e + ('e + string) list"
  pe_tts :: "nat \<Rightarrow> string \<Rightarrow> synth_result"

record pipe =
  pr :: "router_state \<times> router_world"
  prompt_q :: "string fifo"
  llm_ch :: "tts_msg chan"
  llm_live :: bool
  tok_q :: "tts_msg fifo"
  router_posted :: nat
  llm_posted :: nat
  pt :: "tts_state \<times> tts_world"
  chunk_q :: "sink_msg fifo"
  psink :: sink_state
  published :: "sink_out list"
  sink_live :: bool

definition pipe_init :: pipe where
  "pipe_init =
     \<lparr>pr = (router_init, \<lparr>llm_out = new_chan, tts_out = new_chan, r_bus = []\<rparr>), prompt_q = fifo_new,
      llm_ch = new_chan, llm_live = True, tok_q = fifo_new, router_posted = 0, llm_posted = 0,
      pt = (tts_init, \<lparr>chunk_out = new_chan, bus = []\<rparr>), chunk_q = fifo_new, psink = sink_init,
      published = [], sink_live = True\<rparr>"

definition prompt_box :: "pipe \<Rightarrow> string list" where
  "prompt_box s = drop (length (entered (prompt_q s))) (sent (llm_out (snd (pr s))))"

definition router_box :: "pipe \<Rightarrow> tts_msg list" where
  "router_box s = drop (router_posted s) (sent (tts_out (snd (pr s))))"

definition llm_box :: "pipe \<Rightarrow> tts_msg list" where
  "llm_box s = drop (llm_posted s) (sent (llm_ch s))"

definition chunk_box :: "pipe \<Rightarrow> sink_msg list" where
  "chunk_box s = drop (length (entered (chunk_q s))) (sent (chunk_out (snd (pt s))))"

lemmas box_defs = prompt_box_def router_box_def llm_box_def chunk_box_def

definition tts_hears :: "'e pipe_env \<Rightarrow> nat \<Rightarrow> tts_input \<Rightarrow> pipe \<Rightarrow> tts_state \<times> tts_world" where
  "tts_hears e now i s =
     tts_step (rd_session (pe_deps e)) (pe_tts e (length (texts (bus (snd (pt s)))))) now i (pt s)"

definition llm_reply :: "'e pipe_env \<Rightarrow> string \<Rightarrow> pipe \<Rightarrow> bool \<times> tts_msg chan" where
  "llm_reply e p s =
     llm_answer (rd_locale (pe_deps e)) (pe_llm e (length (taken (prompt_q s))) p) (llm_ch s)"

text \<open>What the tasks do among themselves. A task ends when the sending halves of its channel are gone: the
  LLM actor after the router, the TTS actor after both, the sink after the TTS actor.\<close>

inductive inner_step :: "'e pipe_env \<Rightarrow> pipe \<Rightarrow> pipe \<Rightarrow> bool" for e :: "'e pipe_env" where
  post_prompt: "prompt_box s = p # box \<Longrightarrow> length (waiting (prompt_q s)) < prompt_room \<Longrightarrow>
     inner_step e s (s\<lparr>prompt_q := put p (prompt_q s)\<rparr>)"
| post_speech: "router_box s = m # box \<Longrightarrow> length (waiting (tok_q s)) < token_room \<Longrightarrow>
     inner_step e s (s\<lparr>tok_q := put m (tok_q s), router_posted := Suc (router_posted s)\<rparr>)"
| post_token: "llm_box s = m # box \<Longrightarrow> length (waiting (tok_q s)) < token_room \<Longrightarrow>
     inner_step e s (s\<lparr>tok_q := put m (tok_q s), llm_posted := Suc (llm_posted s)\<rparr>)"
| post_chunk: "chunk_box s = m # box \<Longrightarrow> length (waiting (chunk_q s)) < chunk_room \<Longrightarrow>
     inner_step e s (s\<lparr>chunk_q := put m (chunk_q s)\<rparr>)"
| llm_takes: "llm_live s \<Longrightarrow> llm_box s = [] \<Longrightarrow> waiting (prompt_q s) = p # rest \<Longrightarrow>
     inner_step e s (s\<lparr>prompt_q := shift (prompt_q s), llm_live := fst (llm_reply e p s), llm_ch := snd (llm_reply e p s)\<rparr>)"
| llm_ends: "llm_live s \<Longrightarrow> llm_box s = [] \<Longrightarrow> waiting (prompt_q s) = [] \<Longrightarrow>
     \<not> live (fst (pr s)) \<Longrightarrow> prompt_box s = [] \<Longrightarrow> router_box s = [] \<Longrightarrow> inner_step e s (s\<lparr>llm_live := False\<rparr>)"
| tts_takes: "running (fst (pt s)) \<Longrightarrow> chunk_box s = [] \<Longrightarrow> waiting (tok_q s) = m # rest \<Longrightarrow>
     inner_step e s (s\<lparr>tok_q := shift (tok_q s), pt := tts_hears e now (TMsg m) s\<rparr>)"
| tts_flushes: "running (fst (pt s)) \<Longrightarrow> chunk_box s = [] \<Longrightarrow> flush_deadline (fst (pt s)) = Some t \<Longrightarrow> t \<le> now \<Longrightarrow>
     inner_step e s (s\<lparr>pt := tts_hears e now TTimer s\<rparr>)"
| tts_ends: "running (fst (pt s)) \<Longrightarrow> chunk_box s = [] \<Longrightarrow> waiting (tok_q s) = [] \<Longrightarrow> \<not> llm_live s \<Longrightarrow>
     \<not> live (fst (pr s)) \<Longrightarrow> router_box s = [] \<Longrightarrow> inner_step e s (s\<lparr>pt := tts_hears e now TClosed s\<rparr>)"
| sink_takes: "sink_live s \<Longrightarrow> waiting (chunk_q s) = m # rest \<Longrightarrow>
     inner_step e s (s\<lparr>chunk_q := shift (chunk_q s), psink := fst (sink_step m (psink s)),
        published := published s @ snd (sink_step m (psink s))\<rparr>)"
| sink_ends: "sink_live s \<Longrightarrow> waiting (chunk_q s) = [] \<Longrightarrow> \<not> running (fst (pt s)) \<Longrightarrow> chunk_box s = [] \<Longrightarrow>
     inner_step e s (s\<lparr>published := published s @ sink_finish (psink s), sink_live := False\<rparr>)"

text \<open>What reaches the session from outside: the router takes a transcript, a dispatch outcome or the end of
  the transcripts; the TTS actor sees a barge-in or another event on the bus.\<close>

inductive pipe_step :: "'e pipe_env \<Rightarrow> pipe \<Rightarrow> pipe \<Rightarrow> bool" for e :: "'e pipe_env" where
  inner: "inner_step e s s' \<Longrightarrow> pipe_step e s s'"
| routed: "prompt_box s = [] \<Longrightarrow> router_box s = [] \<Longrightarrow> router_step (pe_deps e) (pr s) r \<Longrightarrow> pipe_step e s (s\<lparr>pr := r\<rparr>)"
| barged: "running (fst (pt s)) \<Longrightarrow> chunk_box s = [] \<Longrightarrow> i \<in> {TBarge, TOther} \<Longrightarrow>
     pipe_step e s (s\<lparr>pt := tts_hears e now i s\<rparr>)"

inductive_cases pipe_stepE: "pipe_step e s s'"

definition pipe_reach :: "'e pipe_env \<Rightarrow> pipe \<Rightarrow> bool" where
  "pipe_reach e s \<longleftrightarrow> (pipe_step e)\<^sup>*\<^sup>* pipe_init s"

text \<open>Nothing is on its way: every box and channel is empty, no text waits for the flush timer, and a
  session whose router has stopped has ended.\<close>

definition at_rest :: "pipe \<Rightarrow> bool" where
  "at_rest s \<longleftrightarrow>
     prompt_box s = [] \<and> router_box s = [] \<and> llm_box s = [] \<and> chunk_box s = []
     \<and> waiting (prompt_q s) = [] \<and> waiting (tok_q s) = [] \<and> waiting (chunk_q s) = []
     \<and> (running (fst (pt s)) \<longrightarrow> flush_deadline (fst (pt s)) = None)
     \<and> (live (fst (pr s)) \<or> \<not> sink_live s)"

text \<open>The answers that have been promised and whose end is still on its way to the sink.\<close>

definition in_flight :: "pipe \<Rightarrow> nat" where
  "in_flight s =
     length (prompt_box s) + length (waiting (prompt_q s)) + n_ends (router_box s) + n_ends (llm_box s)
     + n_ends (waiting (tok_q s)) + answer_ends (chunk_box s) + answer_ends (waiting (chunk_q s))"

section \<open>What each task sends\<close>

definition closed_off :: "tts_msg list \<Rightarrow> bool" where
  "closed_off ms \<longleftrightarrow> ms = [] \<or> last ms = AnswerEnd"

lemma closed_off_append [simp]: "closed_off (xs @ ys) \<longleftrightarrow> (if ys = [] then closed_off xs else closed_off ys)"
  by (simp add: closed_off_def)

lemma closed_off_simps [simp]: "closed_off []" "closed_off [AnswerEnd]" "closed_off [Token t, AnswerEnd]"
  "\<not> closed_off [Token t]"
  by (simp_all add: closed_off_def)

text \<open>Both stages listening, the router only adds to what it has sent, and leaves no answer to speak open.\<close>

definition extends :: "router_world \<Rightarrow> router_world \<Rightarrow> bool" where
  "extends w w' \<longleftrightarrow>
     prefix (sent (llm_out w)) (sent (llm_out w'))
     \<and> (\<exists>ts. sent (tts_out w') = sent (tts_out w) @ ts \<and> closed_off ts)"

lemma extends_refl [simp]: "extends w w"
  by (simp add: extends_def)

lemma extends_same: "llm_out w' = llm_out w \<Longrightarrow> tts_out w' = tts_out w \<Longrightarrow> extends w w'"
  by (simp add: extends_def)

lemma extends_prompt: "listening w \<Longrightarrow> extends w (snd (prompt_llm p (st, w)))"
  by (simp add: prompt_llm_alive extends_def)

lemma extends_publish [simp]: "extends (publish e w) w' = extends w w'"
  by (simp add: extends_def)

lemma on_transcript_extends:
  assumes "listening w"
  shows "extends w (snd (on_transcript d rules t (st, w)))"
proof (cases "t_is_final t")
  case True
  obtain st1 w1 where s: "supersede d (st\<lparr>epoch := sat_succ (epoch st)\<rparr>, w) = (st1, w1)"
    by (cases "supersede d (st\<lparr>epoch := sat_succ (epoch st)\<rparr>, w)")
  have w1: "llm_out w1 = llm_out w" "tts_out w1 = tts_out w" using supersede_facts(7,8) [OF s] by simp_all
  have l: "listening (publish e w1)" for e using assms w1 by (simp add: listening_def)
  have ext: "extends w1 w' \<Longrightarrow> extends w w'" for w' using w1 by (simp add: extends_def)
  have fb: "extends w1 (snd (fall_back d u (st1, w2)))" if "llm_out w2 = llm_out w1" "tts_out w2 = tts_out w1" for u w2
    using extends_prompt [of "publish (LlmFallback (rd_session d) NoMatch []) w2" u st1] l that
    by (simp add: fall_back_def listening_def extends_def)
  have lm: "extends w1 (snd (legacy_match d u m (st1, w2)))" if "llm_out w2 = llm_out w1" "tts_out w2 = tts_out w1" for u m w2
    using extends_prompt [where st = st1 and w = "publish (LlmFallback (rd_session d) MissingSlots (missing_slots (m_intent m)))
        (publish (SkillInvoked (rd_session d) (m_skill m)) w2)"] fb [of "publish (SkillInvoked (rd_session d) (m_skill m)) w2"]
      l that by (simp add: legacy_match_def Let_def listening_def extends_def)
  have dm: "extends w1 (snd (dispatch_match d m (st1, w2)))" if "llm_out w2 = llm_out w1" "tts_out w2 = tts_out w1" for m w2
    using that by (simp add: dispatch_match_def Let_def extends_def)
  show ?thesis
    using True s ext fb lm dm by (simp add: on_transcript_def Let_def split: option.split)
qed (simp add: on_transcript_def)

lemma handle_outcome_extends:
  assumes "listening w"
  shows "extends w (snd (handle_outcome d e k res (st, w)))"
  using assms
  by (cases res rule: sum.exhaust; cases "projr res" rule: skill_response.exhaust)
     (simp_all add: handle_outcome_def speak_result_def hands_off_to_llm_def Let_def listening_def extends_def publish_def)

lemma router_step_extends:
  "router_step d r r' \<Longrightarrow> listening (snd r) \<Longrightarrow> extends (snd r) (snd r')"
  by (cases rule: router_step.cases) (auto intro: on_transcript_extends handle_outcome_extends)

text \<open>The TTS actor on any input.\<close>

lemma tts_step_any:
  fixes sid :: session_id and synth :: "string \<Rightarrow> synth_result" and now :: nat and st :: tts_state and w :: tts_world and i :: tts_input
  assumes "accepts (chunk_out w) = None" "i \<noteq> TCancel"
  defines "r \<equiv> tts_step sid synth now i (st, w)"
  shows "accepts (chunk_out (snd r)) = None \<and> running (fst r) = (running st \<and> i \<noteq> TClosed)
    \<and> (\<exists>us. length us \<le> 1 \<and> texts (bus (snd r)) = texts (bus w) @ us
         \<and> sent (chunk_out (snd r)) = sent (chunk_out w) @ concat (map (flush_msgs \<circ> synth) us)
             @ (if i = TMsg AnswerEnd then [SinkAnswerEnd] else [])
         \<and> (buf (tbuf st) = [] \<and> (\<forall>t. i \<noteq> TMsg (Token t)) \<longrightarrow> us = []))
    \<and> (i = TMsg AnswerEnd \<or> buf (tbuf st) = [] \<and> (\<forall>t. i \<noteq> TMsg (Token t)) \<longrightarrow> buf (tbuf (fst r)) = [])
    \<and> (i = TTimer \<and> (\<exists>t. flush_deadline st = Some t \<and> t \<le> now) \<longrightarrow> flush_deadline (fst r) = None)"
proof -
  obtain so b where tk: "sb_take (tbuf st) = (so, b)" by (cases "sb_take (tbuf st)")
  have b: "buf b = []" using sb_take_empty [of "tbuf st"] tk by simp
  define us where "us = (case so of None \<Rightarrow> [] | Some t \<Rightarrow> [t])"
  have us: "length us \<le> 1" "buf (tbuf st) = [] \<Longrightarrow> us = []"
    using tk by (auto simp: us_def sb_take_def Let_def split: option.splits if_splits)
  obtain seq w1 where fo: "flush_opt sid synth so (tseq st) w = (seq, w1)" by (cases "flush_opt sid synth so (tseq st) w")
  have fa: "sent (chunk_out w1) = sent (chunk_out w) @ concat (map (flush_msgs \<circ> synth) us)"
    "accepts (chunk_out w1) = None" "texts (bus w1) = texts (bus w) @ us"
    using flush_opt_alive [OF assms(1), of sid synth so "tseq st", unfolded fo snd_conv] by (cases so; simp add: us_def)+
  have stay: "\<exists>us. length us \<le> 1 \<and> texts (bus w) = texts (bus w) @ us
      \<and> sent (chunk_out w) = sent (chunk_out w) @ concat (map (flush_msgs \<circ> synth) us)" by (intro exI [of _ "[]"]) simp
  show ?thesis
  proof (cases i)
    case TTimer
    show ?thesis
    proof (cases "\<exists>t. flush_deadline st = Some t \<and> t \<le> now")
      case True
      then show ?thesis using TTimer tk fo fa b us by (auto simp: r_def)
    next
      case False
      then show ?thesis using TTimer assms(1) stay by (auto simp: r_def split: option.splits)
    qed
  next
    case TClosed
    then show ?thesis using tk fo fa b us by (auto simp: r_def)
  next
    case (TMsg m)
    show ?thesis
    proof (cases m)
      case AnswerEnd
      then show ?thesis using TMsg tk fo fa b us by (auto simp: r_def)
    next
      case (Token t)
      obtain so' b' where p: "sb_push t (tbuf st) = (so', b')" by (cases "sb_push t (tbuf st)")
      show ?thesis
      proof (cases so')
        case (Some u)
        obtain seq' w' where "tts_flush sid synth u (tseq st) w = (seq', w')" by (cases "tts_flush sid synth u (tseq st) w")
        then show ?thesis using TMsg Token p Some tts_flush_alive [OF assms(1), of sid synth u "tseq st"]
          by (auto simp: r_def intro!: exI [of _ "[u]"])
      qed (use TMsg Token p assms(1) stay in \<open>auto simp: r_def\<close>)
    qed
  qed (use assms stay in \<open>auto simp: r_def sb_clear_def\<close>)
qed

lemma sink_step_done: "n_done (snd (sink_step m z)) = (if m = SinkAnswerEnd then 1 else 0)"
  by (cases m) (simp_all add: Let_def split: option.split)

lemma answer_ends_Cons [simp]: "answer_ends (m # ms) = (if m = SinkAnswerEnd then 1 else 0) + answer_ends ms"
  by (simp add: answer_ends_def)

lemma n_ends_Cons: "n_ends (m # ms) = (if m = AnswerEnd then 1 else 0) + n_ends ms"
  by (simp add: n_ends_def)

section \<open>Invariants\<close>

lemma snoc_shuffles_left: "zs \<in> shuffles xs ys \<Longrightarrow> zs @ [z] \<in> shuffles (xs @ [z]) ys"
proof (induction xs ys arbitrary: zs rule: shuffles.induct)
  case (1 ys)
  then show ?case by (induction ys arbitrary: zs) (auto simp: Cons_in_shuffles_iff)
qed (auto simp: Cons_in_shuffles_iff)

lemma snoc_shuffles_right: "zs \<in> shuffles xs ys \<Longrightarrow> zs @ [z] \<in> shuffles xs (ys @ [z])"
  using snoc_shuffles_left shuffles_commutes by metis

lemma n_ends_shuffles: "zs \<in> shuffles xs ys \<Longrightarrow> n_ends zs = n_ends xs + n_ends ys"
  using filter_shuffles [of "\<lambda>m. m = AnswerEnd" xs ys] length_shuffles unfolding n_ends_def by blast

lemma take_Suc_box: "drop n xs = m # box \<Longrightarrow> take (Suc n) xs = take n xs @ [m] \<and> n < length xs"
  by (metis drop_all hd_drop_conv_nth list.discI list.sel(1) not_le take_Suc_conv_app_nth)

lemma prefix_box: "prefix xs ys \<Longrightarrow> drop (length xs) ys = m # box \<Longrightarrow> prefix (xs @ [m]) ys"
  by (auto simp: prefix_def)

text \<open>The n-th text announced is spoken by the n-th synthesis.\<close>

fun speech :: "'e pipe_env \<Rightarrow> nat \<Rightarrow> string list \<Rightarrow> sink_msg list" where
  "speech e n [] = []"
| "speech e n (u # us) = flush_msgs (pe_tts e n u) @ speech e (Suc n) us"

lemma speech_append: "speech e n (us @ vs) = speech e n us @ speech e (n + length us) vs"
  by (induction us arbitrary: n) simp_all

lemma speech_one: "length us \<le> 1 \<Longrightarrow> concat (map (flush_msgs \<circ> pe_tts e n) us) = speech e n us"
  by (cases us) auto

lemma answer_ends_speech [simp]: "answer_ends (speech e n us) = 0"
  by (induction us arbitrary: n) simp_all

text \<open>The channels: what has entered is a prefix of what was sent (for the token channel, a merge of its two
  senders), and no channel holds more than its capacity.\<close>

definition flow_inv :: "pipe \<Rightarrow> bool" where
  "flow_inv s \<longleftrightarrow>
     accepts (llm_ch s) = None \<and> accepts (chunk_out (snd (pt s))) = None
     \<and> prefix (entered (prompt_q s)) (sent (llm_out (snd (pr s))))
     \<and> prefix (entered (chunk_q s)) (sent (chunk_out (snd (pt s))))
     \<and> router_posted s \<le> length (sent (tts_out (snd (pr s)))) \<and> llm_posted s \<le> length (sent (llm_ch s))
     \<and> entered (tok_q s) \<in> shuffles (take (router_posted s) (sent (tts_out (snd (pr s))))) (take (llm_posted s) (sent (llm_ch s)))
     \<and> closed_off (sent (tts_out (snd (pr s)))) \<and> closed_off (sent (llm_ch s))"

definition room_inv :: "pipe \<Rightarrow> bool" where
  "room_inv s \<longleftrightarrow> length (waiting (prompt_q s)) \<le> prompt_room \<and> length (waiting (tok_q s)) \<le> token_room
     \<and> length (waiting (chunk_q s)) \<le> chunk_room"

text \<open>The counts: one answer end per prompt taken, one sink mark per answer end taken; and the sink has
  published what its own model does with the messages it took.\<close>

definition count_inv :: "pipe \<Rightarrow> bool" where
  "count_inv s \<longleftrightarrow>
     n_ends (sent (llm_ch s)) = length (taken (prompt_q s))
     \<and> answer_ends (sent (chunk_out (snd (pt s)))) = n_ends (taken (tok_q s))
     \<and> (sink_live s \<longrightarrow> sink_steps (taken (chunk_q s)) sink_init = (psink s, published s))"

text \<open>After an answer end nothing is held back and the last thing sent is its mark.\<close>

definition text_inv :: "pipe \<Rightarrow> bool" where
  "text_inv s \<longleftrightarrow> (closed_off (taken (tok_q s)) \<longrightarrow> buf (tbuf (fst (pt s))) = []
     \<and> (sent (chunk_out (snd (pt s))) = [] \<or> last (sent (chunk_out (snd (pt s)))) = SinkAnswerEnd))"

text \<open>The audio messages are those of the texts announced.\<close>

definition speech_inv :: "'e pipe_env \<Rightarrow> pipe \<Rightarrow> bool" where
  "speech_inv e s \<longleftrightarrow>
     filter (\<lambda>m. m \<noteq> SinkAnswerEnd) (sent (chunk_out (snd (pt s)))) = speech e 0 (texts (bus (snd (pt s))))"

definition life_inv :: "pipe \<Rightarrow> bool" where
  "life_inv s \<longleftrightarrow>
     (\<not> llm_live s \<longrightarrow> \<not> live (fst (pr s)) \<and> prompt_box s = [] \<and> router_box s = [] \<and> llm_box s = [] \<and> waiting (prompt_q s) = [])
     \<and> (\<not> running (fst (pt s)) \<longrightarrow> \<not> llm_live s \<and> waiting (tok_q s) = [])
     \<and> (\<not> sink_live s \<longrightarrow> \<not> running (fst (pt s)) \<and> chunk_box s = [] \<and> waiting (chunk_q s) = []
          \<and> (\<exists>os. published s = os @ [EvSessionEnded OutOk]))"

lemma llm_reply_alive:
  "accepts (llm_ch s) = None \<Longrightarrow>
     \<exists>ts. llm_reply e p s = (True, (llm_ch s)\<lparr>sent := sent (llm_ch s) @ map Token ts @ [AnswerEnd]\<rparr>)"
  using llm_answer_alive unfolding llm_reply_def by blast

lemma tts_hears_any:
  assumes "accepts (chunk_out (snd (pt s))) = None" "i \<noteq> TCancel"
  shows "accepts (chunk_out (snd (tts_hears e now i s))) = None
    \<and> running (fst (tts_hears e now i s)) = (running (fst (pt s)) \<and> i \<noteq> TClosed)
    \<and> (\<exists>us. texts (bus (snd (tts_hears e now i s))) = texts (bus (snd (pt s))) @ us
         \<and> sent (chunk_out (snd (tts_hears e now i s)))
             = sent (chunk_out (snd (pt s))) @ speech e (length (texts (bus (snd (pt s))))) us
                 @ (if i = TMsg AnswerEnd then [SinkAnswerEnd] else [])
         \<and> (buf (tbuf (fst (pt s))) = [] \<and> (\<forall>t. i \<noteq> TMsg (Token t)) \<longrightarrow> us = []))
    \<and> (i = TMsg AnswerEnd \<or> buf (tbuf (fst (pt s))) = [] \<and> (\<forall>t. i \<noteq> TMsg (Token t)) \<longrightarrow> buf (tbuf (fst (tts_hears e now i s))) = [])
    \<and> (i = TTimer \<and> (\<exists>t. flush_deadline (fst (pt s)) = Some t \<and> t \<le> now) \<longrightarrow> flush_deadline (fst (tts_hears e now i s)) = None)"
  using tts_step_any [OF assms, where st = "fst (pt s)" and now = now and sid = "rd_session (pe_deps e)"
      and synth = "pe_tts e (length (texts (bus (snd (pt s)))))"]
  unfolding tts_hears_def prod.collapse by (metis speech_one)

lemma inner_flow:
  assumes "inner_step e s s'" "flow_inv s"
  shows "flow_inv s'"
  using assms
proof (cases rule: inner_step.cases)
  case (post_prompt p box)
  then show ?thesis using assms(2) by (auto simp: flow_inv_def prompt_box_def intro: prefix_box)
next
  case (post_speech m box)
  then show ?thesis using assms(2) take_Suc_box snoc_shuffles_left by (fastforce simp: flow_inv_def router_box_def)
next
  case (post_token m box)
  then show ?thesis using assms(2) take_Suc_box snoc_shuffles_right by (fastforce simp: flow_inv_def llm_box_def)
next
  case (post_chunk m box)
  then show ?thesis using assms(2) by (auto simp: flow_inv_def chunk_box_def intro: prefix_box)
next
  case (llm_takes p rest)
  have "accepts (llm_ch s) = None" using assms(2) by (simp add: flow_inv_def)
  from llm_reply_alive [OF this, of e p] show ?thesis
    using llm_takes assms(2) by (auto simp: flow_inv_def)
next
  case (tts_takes m rest now)
  have "accepts (chunk_out (snd (pt s))) = None" using assms(2) by (simp add: flow_inv_def)
  from tts_hears_any [OF this, of "TMsg m" e now] show ?thesis
    using tts_takes assms(2) by (fastforce simp: flow_inv_def)
next
  case (tts_flushes t now)
  have "accepts (chunk_out (snd (pt s))) = None" using assms(2) by (simp add: flow_inv_def)
  from tts_hears_any [OF this, of TTimer e now] show ?thesis using tts_flushes assms(2) by (fastforce simp: flow_inv_def)
next
  case (tts_ends now)
  have "accepts (chunk_out (snd (pt s))) = None" using assms(2) by (simp add: flow_inv_def)
  from tts_hears_any [OF this, of TClosed e now] show ?thesis using tts_ends assms(2) by (fastforce simp: flow_inv_def)
next
  case (sink_takes m rest)
  then show ?thesis using assms(2) by (auto simp: flow_inv_def)
qed (simp_all add: flow_inv_def)

lemma inner_room: "inner_step e s s' \<Longrightarrow> room_inv s \<Longrightarrow> room_inv s'"
  by (cases rule: inner_step.cases) (auto simp: room_inv_def)

lemma inner_count:
  assumes "inner_step e s s'" "flow_inv s" "count_inv s"
  shows "count_inv s'"
  using assms(1)
proof (cases rule: inner_step.cases)
  case (llm_takes p rest)
  have "accepts (llm_ch s) = None" using assms(2) by (simp add: flow_inv_def)
  from llm_reply_alive [OF this, of e p] show ?thesis
    using llm_takes assms(3) by (auto simp: count_inv_def n_ends_def)
next
  case (tts_takes m rest now)
  have "accepts (chunk_out (snd (pt s))) = None" using assms(2) by (simp add: flow_inv_def)
  from tts_hears_any [OF this, of "TMsg m" e now] show ?thesis
    using tts_takes assms(3) by (auto simp: count_inv_def n_ends_Cons)
next
  case (tts_flushes t now)
  have "accepts (chunk_out (snd (pt s))) = None" using assms(2) by (simp add: flow_inv_def)
  from tts_hears_any [OF this, of TTimer e now] show ?thesis using tts_flushes assms(3) by (auto simp: count_inv_def)
next
  case (tts_ends now)
  have "accepts (chunk_out (snd (pt s))) = None" using assms(2) by (simp add: flow_inv_def)
  from tts_hears_any [OF this, of TClosed e now] show ?thesis using tts_ends assms(3) by (auto simp: count_inv_def)
next
  case (sink_takes m rest)
  then show ?thesis using assms(3) by (simp add: count_inv_def sink_steps_append split_beta Let_def)
qed (use assms(3) in \<open>simp_all add: count_inv_def\<close>)

lemma inner_text:
  assumes "inner_step e s s'" "flow_inv s" "text_inv s"
  shows "text_inv s'"
  using assms(1)
proof (cases rule: inner_step.cases)
  case (tts_takes m rest now)
  have "accepts (chunk_out (snd (pt s))) = None" using assms(2) by (simp add: flow_inv_def)
  from tts_hears_any [OF this, of "TMsg m" e now] show ?thesis
    using tts_takes by (auto simp: text_inv_def closed_off_def)
next
  case (tts_flushes t now)
  have "accepts (chunk_out (snd (pt s))) = None" using assms(2) by (simp add: flow_inv_def)
  from tts_hears_any [OF this, of TTimer e now] show ?thesis using tts_flushes assms(3) by (auto simp: text_inv_def)
next
  case (tts_ends now)
  have "accepts (chunk_out (snd (pt s))) = None" using assms(2) by (simp add: flow_inv_def)
  from tts_hears_any [OF this, of TClosed e now] show ?thesis using tts_ends assms(3) by (auto simp: text_inv_def)
qed (use assms(3) in \<open>simp_all add: text_inv_def\<close>)

lemma speech_no_end: "filter (\<lambda>m. m \<noteq> SinkAnswerEnd) (speech e n us) = speech e n us"
  using flush_msgs_no_end by (induction us arbitrary: n) (auto simp: filter_id_conv)

lemma tts_hears_speech:
  assumes "accepts (chunk_out (snd (pt s))) = None" "i \<noteq> TCancel" "speech_inv e s"
  shows "speech_inv e (s\<lparr>tok_q := q, pt := tts_hears e now i s\<rparr>)"
  using tts_hears_any [OF assms(1,2), of e now] assms(3)
  by (auto simp: speech_inv_def speech_append speech_no_end)

lemma inner_speech:
  assumes "inner_step e s s'" "flow_inv s" "speech_inv e s"
  shows "speech_inv e s'"
proof -
  have al: "accepts (chunk_out (snd (pt s))) = None" using assms(2) by (simp add: flow_inv_def)
  note sp = tts_hears_speech [OF al _ assms(3)]
  show ?thesis
    using assms(1)
  proof (cases rule: inner_step.cases)
    case (tts_takes m rest now)
    then show ?thesis using sp by simp
  next
    case (tts_flushes t now)
    then show ?thesis using sp [where i = TTimer and q = "tok_q s" and now = now] by (simp add: speech_inv_def)
  next
    case (tts_ends now)
    then show ?thesis using sp [where i = TClosed and q = "tok_q s" and now = now] by (simp add: speech_inv_def)
  qed (use assms(3) in \<open>simp_all add: speech_inv_def\<close>)
qed

lemma inner_life:
  assumes "inner_step e s s'" "flow_inv s" "life_inv s"
  shows "life_inv s'"
proof -
  have al: "accepts (chunk_out (snd (pt s))) = None" "accepts (llm_ch s) = None"
    using assms(2) by (simp_all add: flow_inv_def)
  note any = tts_hears_any [OF al(1), where e = e]
  show ?thesis
    using assms(1)
  proof (cases rule: inner_step.cases)
    case (llm_takes p rest)
    from llm_reply_alive [OF al(2), of e p] show ?thesis
      using llm_takes assms(3) by (auto simp: life_inv_def box_defs)
  next
    case (tts_takes m rest now)
    from any [where i = "TMsg m" and now = now] show ?thesis
      using tts_takes assms(3) by (auto simp: life_inv_def box_defs)
  next
    case (tts_flushes t now)
    from any [where i = TTimer and now = now] show ?thesis
      using tts_flushes assms(3) by (auto simp: life_inv_def box_defs)
  next
    case (tts_ends now)
    from any [where i = TClosed and now = now] show ?thesis
      using tts_ends assms(3) by (auto simp: life_inv_def box_defs)
  qed (use assms(3) in \<open>auto simp: life_inv_def box_defs sink_finish_def entered_def\<close>)
qed

definition pipe_inv :: "'e pipe_env \<Rightarrow> pipe \<Rightarrow> bool" where
  "pipe_inv e s \<longleftrightarrow> router_reach (pe_deps e) (pr s)
     \<and> flow_inv s \<and> room_inv s \<and> count_inv s \<and> text_inv s \<and> speech_inv e s \<and> life_inv s"

lemma inner_router: "inner_step e s s' \<Longrightarrow> pr s' = pr s"
  by (cases rule: inner_step.cases) auto

lemma inner_inv: "inner_step e s s' \<Longrightarrow> pipe_inv e s \<Longrightarrow> pipe_inv e s'"
  unfolding pipe_inv_def using inner_flow inner_room inner_count inner_text inner_speech inner_life inner_router by metis

lemma routed_inv:
  assumes "prompt_box s = []" "router_box s = []" "router_step (pe_deps e) (pr s) r" "pipe_inv e s"
  shows "pipe_inv e (s\<lparr>pr := r\<rparr>)"
proof -
  have "router_inv (pr s)" using assms(4) router_reach_inv unfolding pipe_inv_def by blast
  then have x: "extends (snd (pr s)) (snd r)"
    using router_step_extends [OF assms(3)] by (simp add: router_inv_def)
  have l: "live (fst (pr s))" using assms(3) by (cases rule: router_step.cases) auto
  have flow: "flow_inv (s\<lparr>pr := r\<rparr>)"
    using assms(4) x by (auto simp: pipe_inv_def flow_inv_def extends_def intro: prefix_order.trans)
  have "life_inv (s\<lparr>pr := r\<rparr>)"
    using assms(4) l by (auto simp: pipe_inv_def life_inv_def box_defs)
  moreover have "router_reach (pe_deps e) r"
    using assms(3,4) unfolding pipe_inv_def router_reach_def by (meson rtranclp.rtrancl_into_rtrancl)
  ultimately show ?thesis
    using assms(4) flow by (simp add: pipe_inv_def room_inv_def count_inv_def text_inv_def speech_inv_def)
qed

lemma barged_inv:
  assumes "running (fst (pt s))" "chunk_box s = []" "i \<in> {TBarge, TOther}" "pipe_inv e s"
  shows "pipe_inv e (s\<lparr>pt := tts_hears e now i s\<rparr>)"
proof -
  have al: "accepts (chunk_out (snd (pt s))) = None" using assms(4) by (simp add: pipe_inv_def flow_inv_def)
  have i: "i \<noteq> TCancel" "i \<noteq> TClosed" "\<forall>m. i \<noteq> TMsg m" using assms(3) by auto
  have "speech_inv e (s\<lparr>pt := tts_hears e now i s\<rparr>)"
    using tts_hears_speech [OF al i(1), where e = e and q = "tok_q s" and now = now] assms(4) by (simp add: pipe_inv_def speech_inv_def)
  then show ?thesis
    using tts_hears_any [OF al i(1), of e now] i assms
    by (fastforce simp: pipe_inv_def flow_inv_def room_inv_def count_inv_def text_inv_def life_inv_def box_defs)
qed

lemma pipe_step_inv: "pipe_step e s s' \<Longrightarrow> pipe_inv e s \<Longrightarrow> pipe_inv e s'"
  by (erule pipe_stepE) (auto intro: inner_inv routed_inv barged_inv)

lemma pipe_reach_inv: "pipe_reach e s \<Longrightarrow> pipe_inv e s"
  unfolding pipe_reach_def
proof (induction rule: rtranclp_induct)
  case base
  show ?case
    by (simp add: pipe_inv_def pipe_init_def router_reach_def flow_inv_def room_inv_def count_inv_def text_inv_def
        speech_inv_def life_inv_def tts_init_def sb_new_def)
qed (rule pipe_step_inv)

lemma inner_steps_inv: "(inner_step e)\<^sup>*\<^sup>* s s' \<Longrightarrow> pipe_inv e s \<Longrightarrow> pipe_inv e s'"
  by (induction rule: rtranclp_induct) (auto intro: inner_inv)

section \<open>Accounting from the utterance to the wire\<close>

lemma prefix_split: "prefix xs ys \<Longrightarrow> ys = xs @ drop (length xs) ys"
  by (auto simp: prefix_def)

lemma n_ends_split: "n_ends ms = n_ends (take k ms) + n_ends (drop k ms)"
  by (metis append_take_drop_id n_ends_simps(2))

lemma answered_in_flight:
  assumes "flow_inv s" "count_inv s" "sink_live s"
  shows "answered (snd (pr s)) = n_done (published s) + in_flight s"
proof -
  let ?w = "snd (pr s)"
  have p: "length (sent (llm_out ?w)) = length (taken (prompt_q s)) + length (waiting (prompt_q s)) + length (prompt_box s)"
    using prefix_split [of "entered (prompt_q s)" "sent (llm_out ?w)"] assms(1)
    unfolding flow_inv_def prompt_box_def by (metis add.assoc entered_def length_append)
  have c: "answer_ends (sent (chunk_out (snd (pt s))))
      = answer_ends (taken (chunk_q s)) + answer_ends (waiting (chunk_q s)) + answer_ends (chunk_box s)"
    using prefix_split [of "entered (chunk_q s)" "sent (chunk_out (snd (pt s)))"] assms(1)
    unfolding flow_inv_def chunk_box_def by (metis answer_ends_simps(2) entered_def)
  have "n_ends (entered (tok_q s))
      = n_ends (take (router_posted s) (sent (tts_out ?w))) + n_ends (take (llm_posted s) (sent (llm_ch s)))"
    using assms(1) n_ends_shuffles by (simp add: flow_inv_def)
  then have t: "n_ends (taken (tok_q s)) + n_ends (waiting (tok_q s)) + n_ends (router_box s) + n_ends (llm_box s)
      = n_ends (sent (tts_out ?w)) + n_ends (sent (llm_ch s))"
    using n_ends_split [of "sent (tts_out ?w)" "router_posted s"] n_ends_split [of "sent (llm_ch s)" "llm_posted s"]
    by (simp add: entered_def router_box_def llm_box_def)
  have "n_done (published s) = answer_ends (taken (chunk_q s))"
    using sink_steps_spec(3) [of "taken (chunk_q s)" sink_init] assms(2,3) by (simp add: count_inv_def)
  then show ?thesis
    using assms(2,3) p c t unfolding count_inv_def answered_def in_flight_def by simp
qed

section \<open>Coming to rest\<close>

text \<open>What is left to do, most upstream first: prompts, tasks still to end, tokens and the flush timer, audio.\<close>

definition pipe_ranks :: "(pipe \<Rightarrow> nat) list" where
  "pipe_ranks =
     [\<lambda>s. 2 * length (prompt_box s) + length (waiting (prompt_q s)),
      \<lambda>s. of_bool (llm_live s) + of_bool (running (fst (pt s))),
      \<lambda>s. 3 * (length (router_box s) + length (llm_box s)) + 2 * length (waiting (tok_q s))
           + of_bool (flush_deadline (fst (pt s)) \<noteq> None),
      \<lambda>s. 2 * length (chunk_box s) + length (waiting (chunk_q s)) + of_bool (sink_live s)]"

lemma box_length: "drop n xs = m # box \<Longrightarrow> length xs - n = Suc (length box) \<and> length xs - Suc n = length box"
  by (drule arg_cong [where f = length]) simp

lemma inner_rank:
  assumes "inner_step e s s'" "flow_inv s"
  shows "(s', s) \<in> measures pipe_ranks"
proof -
  have al: "accepts (chunk_out (snd (pt s))) = None" "accepts (llm_ch s) = None"
    using assms(2) by (simp_all add: flow_inv_def)
  note any = tts_hears_any [OF al(1), where e = e]
  show ?thesis
    using assms(1)
  proof (cases rule: inner_step.cases)
    case (post_prompt p box)
    then show ?thesis using box_length [OF post_prompt(2) [unfolded prompt_box_def]]
      by (simp add: pipe_ranks_def box_defs)
  next
    case (post_speech m box)
    then show ?thesis using box_length [OF post_speech(2) [unfolded router_box_def]]
      by (simp add: pipe_ranks_def box_defs)
  next
    case (post_token m box)
    then show ?thesis using box_length [OF post_token(2) [unfolded llm_box_def]]
      by (simp add: pipe_ranks_def box_defs)
  next
    case (post_chunk m box)
    then show ?thesis using box_length [OF post_chunk(2) [unfolded chunk_box_def]]
      by (simp add: pipe_ranks_def box_defs)
  next
    case (llm_takes p rest)
    then show ?thesis by (simp add: pipe_ranks_def box_defs)
  next
    case (tts_takes m rest now)
    then show ?thesis using any [where i = "TMsg m" and now = now] by (simp add: pipe_ranks_def box_defs)
  next
    case (tts_flushes t now)
    then show ?thesis using any [where i = TTimer and now = now] by (simp add: pipe_ranks_def box_defs)
  next
    case (tts_ends now)
    then show ?thesis using any [where i = TClosed and now = now] by (simp add: pipe_ranks_def box_defs)
  qed (simp_all add: pipe_ranks_def box_defs)
qed

lemma inner_wf: "wf {(s', s). pipe_inv e s \<and> inner_step e s s'}"
proof (rule wf_subset [OF wf_measures [of pipe_ranks]])
  show "{(s', s). pipe_inv e s \<and> inner_step e s s'} \<subseteq> measures pipe_ranks"
    using inner_rank by (auto simp: pipe_inv_def)
qed

text \<open>The progress argument, downstream first: whatever waits for the sink can move, so whatever waits for
  the TTS actor can, and so on up to the router.\<close>

lemma can_step_chunks:
  assumes "life_inv s" "waiting (chunk_q s) \<noteq> [] \<or> chunk_box s \<noteq> []"
  shows "\<exists>s'. inner_step e s s'"
proof (cases "waiting (chunk_q s)")
  case Nil
  then obtain m box where "chunk_box s = m # box" using assms(2) by (cases "chunk_box s") auto
  moreover have "length (waiting (chunk_q s)) < chunk_room" using Nil by (simp add: chunk_room_def)
  ultimately show ?thesis by (blast intro: inner_step.post_chunk)
next
  case (Cons m rest)
  then have "sink_live s" using assms(1) by (auto simp: life_inv_def)
  then show ?thesis using Cons by (blast intro: inner_step.sink_takes)
qed

lemma can_step_tokens:
  assumes "life_inv s" "waiting (tok_q s) \<noteq> [] \<or> llm_box s \<noteq> [] \<or> router_box s \<noteq> []"
  shows "\<exists>s'. inner_step e s s'"
proof (cases "waiting (tok_q s)")
  case Nil
  then have room: "length (waiting (tok_q s)) < token_room" by (simp add: token_room_def)
  show ?thesis
  proof (cases "router_box s")
    case Nil': Nil
    then obtain m box where "llm_box s = m # box" using assms(2) Nil by (cases "llm_box s") auto
    then show ?thesis using room by (blast intro: inner_step.post_token)
  next
    case (Cons m box)
    then show ?thesis using room by (blast intro: inner_step.post_speech)
  qed
next
  case (Cons m rest)
  then have r: "running (fst (pt s))" using assms(1) by (auto simp: life_inv_def)
  show ?thesis
  proof (cases "chunk_box s = []")
    case True
    then show ?thesis using Cons r by (blast intro: inner_step.tts_takes)
  qed (use can_step_chunks assms(1) in blast)
qed

lemma can_step_prompts:
  assumes "life_inv s" "waiting (prompt_q s) \<noteq> [] \<or> prompt_box s \<noteq> []"
  shows "\<exists>s'. inner_step e s s'"
proof (cases "waiting (prompt_q s)")
  case Nil
  then obtain m box where "prompt_box s = m # box" using assms(2) by (cases "prompt_box s") auto
  moreover have "length (waiting (prompt_q s)) < prompt_room" using Nil by (simp add: prompt_room_def)
  ultimately show ?thesis by (blast intro: inner_step.post_prompt)
next
  case (Cons p rest)
  then have l: "llm_live s" using assms(1) by (auto simp: life_inv_def)
  show ?thesis
  proof (cases "llm_box s = []")
    case True
    then show ?thesis using Cons l by (blast intro: inner_step.llm_takes)
  qed (use can_step_tokens assms(1) in blast)
qed

lemma can_step_ending:
  assumes "life_inv s" "\<not> live (fst (pr s))" "sink_live s"
  shows "\<exists>s'. inner_step e s s'"
proof (cases "waiting (prompt_q s) = [] \<and> prompt_box s = [] \<and> waiting (tok_q s) = [] \<and> llm_box s = []
    \<and> router_box s = [] \<and> waiting (chunk_q s) = [] \<and> chunk_box s = []")
  case True
  consider "llm_live s" | "\<not> llm_live s" "running (fst (pt s))" | "\<not> running (fst (pt s))" by blast
  then show ?thesis
  proof cases
    case 1
    then show ?thesis using True assms(2) by (blast intro: inner_step.llm_ends)
  next
    case 2
    then show ?thesis using True assms(2) by (blast intro: inner_step.tts_ends)
  next
    case 3
    then show ?thesis using True assms(3) by (blast intro: inner_step.sink_ends)
  qed
next
  case False
  then show ?thesis
    using can_step_prompts [OF assms(1)] can_step_tokens [OF assms(1)] can_step_chunks [OF assms(1)] by blast
qed

lemma rest_or_step:
  assumes "life_inv s" "\<not> at_rest s"
  shows "\<exists>s'. inner_step e s s'"
proof (rule ccontr)
  assume n: "\<nexists>s'. inner_step e s s'"
  then have empty: "prompt_box s = []" "waiting (prompt_q s) = []" "waiting (tok_q s) = []" "llm_box s = []"
    "router_box s = []" "waiting (chunk_q s) = []" "chunk_box s = []"
    using can_step_prompts [OF assms(1), of e] can_step_tokens [OF assms(1), of e] can_step_chunks [OF assms(1), of e]
    by satx+
  have "flush_deadline (fst (pt s)) = None" if "running (fst (pt s))"
  proof (cases "flush_deadline (fst (pt s))")
    case (Some t)
    then show ?thesis using n inner_step.tts_flushes [OF that empty(7) Some order_refl, of e] by blast
  qed
  moreover have "live (fst (pr s)) \<or> \<not> sink_live s" using n can_step_ending [OF assms(1), of e] by satx
  ultimately have "at_rest s" using empty by (simp add: at_rest_def)
  then show False using assms(2) by satx
qed

lemma rest_no_step:
  assumes "life_inv s" "at_rest s"
  shows "\<not> inner_step e s s'"
proof
  assume "inner_step e s s'"
  then show False
    using assms(2)
  proof (cases rule: inner_step.cases)
    case llm_ends
    then show ?thesis using assms by (auto simp: at_rest_def life_inv_def)
  next
    case tts_ends
    then show ?thesis using assms by (auto simp: at_rest_def life_inv_def)
  next
    case sink_ends
    then show ?thesis using assms by (auto simp: at_rest_def life_inv_def)
  qed (simp_all add: at_rest_def)
qed

lemma comes_to_rest:
  assumes "pipe_inv e s"
  shows "\<exists>s'. (inner_step e)\<^sup>*\<^sup>* s s' \<and> at_rest s'"
  using inner_wf [where e = e] assms
proof (induction s rule: wf_induct_rule)
  case (less s)
  show ?case
  proof (cases "at_rest s")
    case False
    then obtain s1 where s1: "inner_step e s s1" using rest_or_step less.prems unfolding pipe_inv_def by blast
    then have "\<exists>s'. (inner_step e)\<^sup>*\<^sup>* s1 s' \<and> at_rest s'"
      using less.IH [of s1] less.prems inner_inv by blast
    then show ?thesis using s1 by (meson converse_rtranclp_into_rtranclp)
  qed blast
qed

lemma closed_off_shuffles: "zs \<in> shuffles xs ys \<Longrightarrow> closed_off xs \<Longrightarrow> closed_off ys \<Longrightarrow> closed_off zs"
proof (induction xs ys arbitrary: zs rule: shuffles.induct)
  case (3 x xs y ys)
  have tl: "closed_off (z # ms) \<Longrightarrow> closed_off ms" for z ms by (auto simp: closed_off_def split: if_splits)
  have cons: "closed_off (z # ms) \<longleftrightarrow> (if ms = [] then z = AnswerEnd else closed_off ms)" for z ms
    by (simp add: closed_off_def)
  from "3.prems"(1) consider zs' where "zs = x # zs'" "zs' \<in> shuffles xs (y # ys)"
    | zs' where "zs = y # zs'" "zs' \<in> shuffles (x # xs) ys" by auto
  then show ?case
    using "3.IH" "3.prems"(2,3) tl cons by cases (metis Nil_in_shuffles list.discI)+
qed auto

lemma at_rest_facts:
  assumes "pipe_inv e s" "at_rest s"
  shows "in_flight s = 0" "buf (tbuf (fst (pt s))) = []"
    "sent (chunk_out (snd (pt s))) = [] \<or> last (sent (chunk_out (snd (pt s)))) = SinkAnswerEnd"
    "taken (chunk_q s) = sent (chunk_out (snd (pt s)))"
proof -
  have e: "prompt_box s = []" "router_box s = []" "llm_box s = []" "chunk_box s = []"
    "waiting (prompt_q s) = []" "waiting (tok_q s) = []" "waiting (chunk_q s) = []"
    using assms(2) by (simp_all add: at_rest_def)
  then show "in_flight s = 0" by (simp add: in_flight_def)
  have f: "flow_inv s" "text_inv s" using assms(1) by (simp_all add: pipe_inv_def)
  have "taken (tok_q s) \<in> shuffles (sent (tts_out (snd (pr s)))) (sent (llm_ch s))"
    using f(1) e by (simp add: flow_inv_def entered_def router_box_def llm_box_def)
  then have "closed_off (taken (tok_q s))"
    using closed_off_shuffles f(1) by (auto simp: flow_inv_def)
  then show "buf (tbuf (fst (pt s))) = []"
    "sent (chunk_out (snd (pt s))) = [] \<or> last (sent (chunk_out (snd (pt s)))) = SinkAnswerEnd"
    using f(2) by (simp_all add: text_inv_def)
  show "taken (chunk_q s) = sent (chunk_out (snd (pt s)))"
    using f(1) e by (auto simp: flow_inv_def entered_def chunk_box_def prefix_def)
qed

section \<open>One turn\<close>

text \<open>A turn that begins at rest: what the router does with the event that answers the current utterance, and
  the text the user is to hear for it.\<close>

inductive turn :: "'e pipe_env \<Rightarrow> pipe \<Rightarrow> router_state \<times> router_world \<Rightarrow> string list \<Rightarrow> bool"
  for e :: "'e pipe_env" and s :: pipe where
  told: "pr s = (st, w) \<Longrightarrow> live st \<Longrightarrow> t \<in> set (tasks st) \<Longrightarrow> dt_epoch t = epoch st \<Longrightarrow> lead_ok u \<Longrightarrow>
     turn e s (handle_outcome (pe_deps e) (dt_epoch t) (dt_skill t) (Inr (Speak u)) (st\<lparr>tasks := remove1 t (tasks st)\<rparr>, w))
       [ensure_sentence_boundary u]"
| asked: "pr s = (st, w) \<Longrightarrow> live st \<Longrightarrow> t \<in> set (tasks st) \<Longrightarrow> dt_epoch t = epoch st \<Longrightarrow>
     turn e s (handle_outcome (pe_deps e) (dt_epoch t) (dt_skill t) (Inr (AskLlm p)) (st\<lparr>tasks := remove1 t (tasks st)\<rparr>, w))
       (spoken (rd_locale (pe_deps e)) (pe_llm e (length (taken (prompt_q s))) p))"
| wordless: "pr s = (st, w) \<Longrightarrow> live st \<Longrightarrow> t \<in> set (tasks st) \<Longrightarrow> dt_epoch t = epoch st \<Longrightarrow>
     \<forall>u. res \<noteq> Inr (Speak u) \<and> res \<noteq> Inr (AskLlm u) \<Longrightarrow>
     turn e s (handle_outcome (pe_deps e) (dt_epoch t) (dt_skill t) res (st\<lparr>tasks := remove1 t (tasks st)\<rparr>, w)) []"
| unmatched: "pr s = (st, w) \<Longrightarrow> live st \<Longrightarrow> \<not> rx_closed st \<Longrightarrow> t_is_final u \<Longrightarrow>
     find_match (rd_matcher (pe_deps e)) (t_text u) (rd_locale (pe_deps e)) rules = None \<Longrightarrow>
     turn e s (on_transcript (pe_deps e) rules u (st, w))
       (spoken (rd_locale (pe_deps e)) (pe_llm e (length (taken (prompt_q s))) (t_text u)))"

definition ink_of :: "tts_msg list \<Rightarrow> string list" where
  "ink_of ms = concat (map (\<lambda>m. concat (map ink (token_of (TMsg m)))) ms)"

lemma ink_of_simps [simp]: "ink_of [] = []" "ink_of (xs @ ys) = ink_of xs @ ink_of ys"
  "ink_of (m # ms) = concat (map ink (token_of (TMsg m))) @ ink_of ms" "ink_of (map Token ts) = concat (map ink ts)"
  by (simp_all add: ink_of_def comp_def)

fun prompts_ink :: "'e pipe_env \<Rightarrow> nat \<Rightarrow> string list \<Rightarrow> string list" where
  "prompts_ink e n [] = []"
| "prompts_ink e n (p # ps) = concat (map ink (spoken (rd_locale (pe_deps e)) (pe_llm e n p))) @ prompts_ink e (Suc n) ps"

text \<open>All the ink of a session, from what has been announced up to the prompts still in the router's hands.\<close>

definition ink_line :: "'e pipe_env \<Rightarrow> pipe \<Rightarrow> string list" where
  "ink_line e s =
     concat (map ink (texts (bus (snd (pt s))))) @ ink (buf (tbuf (fst (pt s)))) @ ink_of (waiting (tok_q s))
     @ ink_of (router_box s) @ ink_of (llm_box s)
     @ prompts_ink e (length (taken (prompt_q s))) (waiting (prompt_q s) @ prompt_box s)"

text \<open>With only one of the two senders of the token channel at work, the order of that line is settled.\<close>

definition one_speaker :: "pipe \<Rightarrow> bool" where
  "one_speaker s \<longleftrightarrow> router_box s = [] \<or> llm_box s = [] \<and> waiting (prompt_q s) = [] \<and> prompt_box s = []"

definition clean_text :: "pipe \<Rightarrow> bool" where
  "clean_text s \<longleftrightarrow> lead_ok (buf (tbuf (fst (pt s))))
     \<and> list_all (\<lambda>m. list_all lead_ok (token_of (TMsg m))) (waiting (tok_q s) @ router_box s @ llm_box s)"

lemma tts_hears_quiet:
  fixes e :: "'e pipe_env" and s :: pipe and i :: tts_input and now :: nat
  assumes "running (fst (pt s))" "accepts (chunk_out (snd (pt s))) = None" "lead_ok (buf (tbuf (fst (pt s))))"
    and "quiet i" "list_all lead_ok (token_of i)"
  defines "r \<equiv> tts_hears e now i s"
  shows "lead_ok (buf (tbuf (fst r)))
    \<and> (\<exists>us. texts (bus (snd r)) = texts (bus (snd (pt s))) @ us
         \<and> concat (map ink us) @ ink (buf (tbuf (fst r))) = ink (buf (tbuf (fst (pt s)))) @ concat (map ink (token_of i)))"
proof -
  have "alive (fst (pt s), snd (pt s))" using assms by (simp add: alive_def)
  from tts_step_quiet [OF this assms(4,5), of "rd_session (pe_deps e)" "pe_tts e (length (texts (bus (snd (pt s)))))" now]
  show ?thesis unfolding r_def tts_hears_def alive_def by auto
qed

lemma inner_ink:
  assumes "inner_step e s s'" "flow_inv s" "life_inv s" "live (fst (pr s))" "clean_text s" "one_speaker s"
    and "\<And>n p. list_all lead_ok (spoken (rd_locale (pe_deps e)) (pe_llm e n p))"
  shows "clean_text s' \<and> one_speaker s' \<and> ink_line e s' = ink_line e s
    \<and> prefix (texts (bus (snd (pt s)))) (texts (bus (snd (pt s'))))"
proof -
  have run: "running (fst (pt s))" "llm_live s" using assms(3,4) by (auto simp: life_inv_def)
  have al: "accepts (chunk_out (snd (pt s))) = None" "accepts (llm_ch s) = None"
    using assms(2) by (simp_all add: flow_inv_def)
  have u: "lead_ok (buf (tbuf (fst (pt s))))" using assms(5) by (simp add: clean_text_def)
  have dr: "drop n xs = m # box \<Longrightarrow> drop (Suc n) xs = box" for n xs m and box :: "'b list"
    by (metis drop_Suc list.sel(3) tl_drop)
  show ?thesis
    using assms(1)
  proof (cases rule: inner_step.cases)
    case (post_prompt p box)
    then show ?thesis using assms(5,6) dr [OF post_prompt(2) [unfolded prompt_box_def]]
      by (simp add: clean_text_def one_speaker_def ink_line_def box_defs)
  next
    case (post_speech m box)
    then show ?thesis using assms(5,6) dr [OF post_speech(2) [unfolded router_box_def]]
      by (simp add: clean_text_def one_speaker_def ink_line_def box_defs)
  next
    case (post_token m box)
    then show ?thesis using assms(5,6) dr [OF post_token(2) [unfolded llm_box_def]]
      by (auto simp: clean_text_def one_speaker_def ink_line_def box_defs)
  next
    case (post_chunk m box)
    then show ?thesis using assms(5,6) by (simp add: clean_text_def one_speaker_def ink_line_def box_defs)
  next
    case (llm_takes p rest)
    let ?ts = "spoken (rd_locale (pe_deps e)) (pe_llm e (length (taken (prompt_q s))) p)"
    have r: "llm_reply e p s = (True, (llm_ch s)\<lparr>sent := sent (llm_ch s) @ map Token ?ts @ [AnswerEnd]\<rparr>)"
      unfolding llm_reply_def by (rule llm_answer_alive [OF al(2)])
    have "length (sent (llm_ch s)) = llm_posted s"
      using llm_takes(3) assms(2) by (simp add: llm_box_def flow_inv_def)
    then have b: "llm_box s' = map Token ?ts @ [AnswerEnd]" using llm_takes r by (simp add: llm_box_def)
    then show ?thesis
      using llm_takes r assms(5,6) assms(7) [of "length (taken (prompt_q s))" p]
      by (auto simp: clean_text_def one_speaker_def ink_line_def box_defs list_all_iff entered_def)
  next
    case (tts_takes m rest now)
    have "list_all lead_ok (token_of (TMsg m))" using assms(5) tts_takes by (simp add: clean_text_def)
    with tts_hears_quiet [OF run(1) al(1) u, of "TMsg m" e now]
    show ?thesis using tts_takes assms(5,6)
      by (auto simp: quiet_def clean_text_def one_speaker_def ink_line_def box_defs)
  next
    case (tts_flushes t now)
    with tts_hears_quiet [OF run(1) al(1) u, of TTimer e now]
    show ?thesis using assms(5,6)
      by (auto simp: quiet_def clean_text_def one_speaker_def ink_line_def box_defs)
  next
    case (sink_takes m rest)
    then show ?thesis using assms(5,6) by (simp add: clean_text_def one_speaker_def ink_line_def box_defs)
  qed (use assms(4) run in auto)
qed

lemma inner_steps_ink:
  assumes "(inner_step e)\<^sup>*\<^sup>* s s'" "pipe_inv e s" "live (fst (pr s))" "clean_text s" "one_speaker s"
    and "\<And>n p. list_all lead_ok (spoken (rd_locale (pe_deps e)) (pe_llm e n p))"
  shows "pr s' = pr s \<and> clean_text s' \<and> one_speaker s' \<and> ink_line e s' = ink_line e s
    \<and> prefix (texts (bus (snd (pt s)))) (texts (bus (snd (pt s'))))"
  using assms(1)
proof (induction rule: rtranclp_induct)
  case base
  show ?case using assms(4,5) by simp
next
  case (step y z)
  have "flow_inv y" "life_inv y" using inner_steps_inv [OF step.hyps(1) assms(2)] by (simp_all add: pipe_inv_def)
  moreover have "pr z = pr y" using step.hyps(2) by (rule inner_router)
  ultimately show ?case
    using inner_ink [OF step.hyps(2)] step.IH assms(3,6) prefix_order.trans by metis
qed

text \<open>What the router does in a turn: one answer, by one sender.\<close>

lemma lead_ok_boundary: "lead_ok u \<Longrightarrow> lead_ok (ensure_sentence_boundary u)"
  by (cases u) (auto simp: ensure_sentence_boundary_def lead_ok_def is_cont_def)

lemma fall_back_alive:
  "listening w \<Longrightarrow> fall_back d u (st, w) =
     (st\<lparr>prior_work := True\<rparr>, (publish (LlmFallback (rd_session d) NoMatch []) w)\<lparr>llm_out := (llm_out w)\<lparr>sent := sent (llm_out w) @ [u]\<rparr>\<rparr>)"
  using prompt_llm_alive [of "publish (LlmFallback (rd_session d) NoMatch []) w" u st] by (simp add: fall_back_def)

lemma turn_sends:
  assumes "turn e s r said" "listening (snd (pr s))"
  shows "router_step (pe_deps e) (pr s) r \<and> live (fst r)
    \<and> (\<exists>ts qs. sent (tts_out (snd r)) = sent (tts_out (snd (pr s))) @ ts
         \<and> sent (llm_out (snd r)) = sent (llm_out (snd (pr s))) @ qs
         \<and> (ts = [] \<or> qs = []) \<and> n_ends ts + length qs = 1
         \<and> list_all (\<lambda>m. list_all lead_ok (token_of (TMsg m))) ts
         \<and> ink_of ts @ prompts_ink e (length (taken (prompt_q s))) qs = concat (map ink said))"
  using assms(1)
proof (cases rule: turn.cases)
  case (told st w t u)
  have "router_step (pe_deps e) (st, w) r" unfolding told(1) by (rule router_step.outcome [OF told(4,5)])
  then show ?thesis
    using told assms(2) lead_ok_boundary
    by (intro conjI) (simp_all add: handle_outcome_def speak_result_def hands_off_to_llm_def Let_def listening_def ink_of_def)
next
  case (asked st w t p)
  have "router_step (pe_deps e) (st, w) r" unfolding asked(1) by (rule router_step.outcome [OF asked(4,5)])
  then show ?thesis
    using asked assms(2)
    by (intro conjI) (simp_all add: handle_outcome_def speak_result_def hands_off_to_llm_def Let_def listening_def)
next
  case (wordless st w t res)
  have "router_step (pe_deps e) (st, w) r" unfolding wordless(1) by (rule router_step.outcome [OF wordless(4,5)])
  then show ?thesis
    using wordless assms(2)
    by (cases res rule: sum.exhaust; cases "projr res" rule: skill_response.exhaust)
      (simp_all add: handle_outcome_def speak_result_def hands_off_to_llm_def Let_def listening_def publish_def)
next
  case (unmatched st w u rules)
  have l: "listening w" using unmatched assms(2) by simp
  obtain st1 w1 where sp: "supersede (pe_deps e) (st\<lparr>epoch := sat_succ (epoch st)\<rparr>, w) = (st1, w1)"
    by (cases "supersede (pe_deps e) (st\<lparr>epoch := sat_succ (epoch st)\<rparr>, w)")
  note sf = supersede_facts [OF sp]
  have "listening w1" using l sf(7,8) by (simp add: listening_def)
  then have r: "r = (st1\<lparr>prior_work := True\<rparr>, (publish (LlmFallback (rd_session (pe_deps e)) NoMatch []) w1)
      \<lparr>llm_out := (llm_out w)\<lparr>sent := sent (llm_out w) @ [t_text u]\<rparr>\<rparr>)"
    using unmatched sp sf(7) by (simp add: on_transcript_def fall_back_alive)
  moreover have "router_step (pe_deps e) (st, w) r"
    using unmatched router_step.transcript by simp
  ultimately show ?thesis using unmatched sf(5,8) by simp
qed

lemma sink_steps_last:
  "ms \<noteq> [] \<Longrightarrow> last ms = SinkAnswerEnd \<Longrightarrow> \<exists>os. snd (sink_steps ms z) = os @ [PubDone]"
  by (cases ms rule: rev_cases) (auto simp: sink_steps_append Let_def split_beta)

lemma audio_of_speech: "speech_inv e s \<Longrightarrow> audio_in (sent (chunk_out (snd (pt s)))) = audio_in (speech e 0 (texts (bus (snd (pt s)))))"
proof -
  have "audio_in (filter (\<lambda>m. m \<noteq> SinkAnswerEnd) ms) = audio_in ms" for ms
    by (induction ms) (auto simp: audio_in_def)
  then show "speech_inv e s \<Longrightarrow> ?thesis" by (metis speech_inv_def)
qed

lemma rest_live_sink: "life_inv s \<Longrightarrow> live (fst (pr s)) \<Longrightarrow> sink_live s"
  by (auto simp: life_inv_def)

section \<open>A session at work\<close>

definition clock_env :: "string pipe_env" where
  "clock_env =
     \<lparr>pe_deps = clock_deps, pe_llm = (\<lambda>_ _. Inr [Inr ''Oui.'']),
      pe_tts = (\<lambda>_ _. Some (S16le, 22050, [SChunk [1]]))\<rparr>"

text \<open>The first utterance matched the clock's rule, and its dispatch is running.\<close>

definition demo_pipe :: pipe where
  "demo_pipe = pipe_init\<lparr>pr := demo_run1\<rparr>"

lemma clock_env_simps [simp]:
  "pe_deps clock_env = clock_deps" "list_all lead_ok (spoken loc (pe_llm clock_env n p))"
  "spoken loc (pe_llm clock_env n p) = [''Oui.'']"
  by (simp_all add: clock_env_def spoken_def failed_def Let_def lead_ok_def is_cont_def)

lemma pipe_init_simps: "pr pipe_init = (router_init, demo_world)" "prompt_box pipe_init = []" "router_box pipe_init = []"
  "pipe_reach e pipe_init"
  by (simp_all add: pipe_init_def demo_world_def box_defs pipe_reach_def)

lemma pipe_reach_step: "pipe_reach e s \<Longrightarrow> pipe_step e s s' \<Longrightarrow> pipe_reach e s'"
  unfolding pipe_reach_def by (rule rtranclp.rtrancl_into_rtrancl)

lemma demo_pipe_reach: "pipe_reach clock_env demo_pipe"
proof -
  have "router_step (pe_deps clock_env) (pr pipe_init) demo_run1"
    unfolding demo_run1_def pipe_init_simps clock_env_simps by (rule on_transcript_step) (simp_all add: router_init_def)
  from pipe_step.routed [OF pipe_init_simps(2,3) this] show ?thesis
    unfolding demo_pipe_def by (rule pipe_reach_step [OF pipe_init_simps(4)])
qed

lemma demo_pipe_rest: "at_rest demo_pipe"
  by (simp add: at_rest_def demo_pipe_def pipe_init_def box_defs demo_run1 demo_world_def router_init_def tts_init_def)

definition clock_task :: dispatch_task where
  "clock_task = hd (tasks (fst demo_run1))"

lemma clock_task: "tasks (fst demo_run1) = [clock_task]" "dt_epoch clock_task = 1" "dt_skill clock_task = ''clock''"
  "epoch (fst demo_run1) = 1"
  by (simp_all add: clock_task_def demo_run1)

section \<open>Properties\<close>



text \<open>C3: the pipeline never stalls: no channel ever holds more than its capacity, the tasks can always take a
  step unless the session is at rest, whatever they do among themselves comes to an end, and once the
  router has stopped the session at rest has published its end.\<close>

theorem pipeline_never_stalls:
  assumes "pipe_reach e s"
  shows "length (waiting (prompt_q s)) \<le> 4 \<and> length (waiting (tok_q s)) \<le> 64 \<and> length (waiting (chunk_q s)) \<le> 64
    \<and> (at_rest s \<longleftrightarrow> \<not> (\<exists>s'. inner_step e s s'))
    \<and> wf {(s2, s1). pipe_reach e s1 \<and> inner_step e s1 s2}
    \<and> (at_rest s \<and> \<not> live (fst (pr s)) \<longrightarrow> (\<exists>os. published s = os @ [EvSessionEnded OutOk]))"
proof -
  have i: "pipe_inv e s" using assms by (rule pipe_reach_inv)
  then have l: "life_inv s" and r: "room_inv s" by (simp_all add: pipe_inv_def)
  have "wf {(s2, s1). pipe_reach e s1 \<and> inner_step e s1 s2}"
    by (rule wf_subset [OF inner_wf [where e = e]]) (auto dest: pipe_reach_inv)
  moreover have "\<exists>os. published s = os @ [EvSessionEnded OutOk]" if "at_rest s" "\<not> live (fst (pr s))"
    using that l by (simp add: at_rest_def life_inv_def)
  ultimately show ?thesis
    using r rest_or_step [OF l, of e] rest_no_step [OF l, of e]
    by (auto simp: room_inv_def prompt_room_def token_room_def chunk_room_def)
qed

theorem pipeline_never_stalls_witness: "\<not> (\<exists>s'. inner_step clock_env demo_pipe s')"
  using pipeline_never_stalls [OF demo_pipe_reach] demo_pipe_rest by blast



section \<open>A superseded prompt is still answered\<close>

text \<open>The user asks something no rule matches, then the time: the second utterance is announced as a
  barge-in, at a moment when nothing has been announced yet, but the prompt of the first is already in the
  LLM's channel. Its answer is spoken and closed although it is superseded.\<close>

lemma superseded_prompt_still_answered:
  "\<exists>s s'. pipe_reach clock_env s \<and> BargeIn 7 NewFinalTranscript \<in> set (r_bus (snd (pr s)))
     \<and> texts (bus (snd (pt s))) = [] \<and> (inner_step clock_env)\<^sup>*\<^sup>* s s' \<and> at_rest s'
     \<and> concat (map ink (texts (bus (snd (pt s'))))) = ink ''Oui.'' \<and> n_done (published s') = 1"
proof -
  define r1 where "r1 = on_transcript clock_deps clock_index (final ''raconte'') (router_init, demo_world)"
  define r2 where "r2 = on_transcript clock_deps clock_index (final ''Heure'') r1"
  have d: "rd_session clock_deps = 7" "rd_locale clock_deps = ''fr''" "rd_dispatcher clock_deps"
    by (simp_all add: clock_deps_def)
  have r1: "r1 = (router_init\<lparr>epoch := 1, prior_work := True\<rparr>,
      (publish (LlmFallback 7 NoMatch []) demo_world)\<lparr>llm_out := \<lparr>sent = [''raconte''], accepts = None\<rparr>\<rparr>)"
    by (simp add: r1_def on_transcript_def final_def clock_match d router_init_def supersede_def Let_def sat_succ_def
        fall_back_def prompt_llm_def demo_world_def new_chan_def publish_def)
  have r2: "snd r2 = publish (IntentMatched 7 \<lparr>ci_name = ''time'', ci_slots = [], ci_confidence = 1\<rparr>)
      (publish (BargeIn 7 NewFinalTranscript) (snd r1))" "live (fst r2)" "live (fst r1)" "\<not> rx_closed (fst r1)"
    "pending (fst r2) \<noteq> None"
    by (simp_all add: r2_def r1 on_transcript_def final_def clock_match d router_init_def supersede_def Let_def
        dispatch_match_def missing_slots_def)
  define s1 where "s1 = pipe_init\<lparr>pr := r1\<rparr>"
  define s2 where "s2 = s1\<lparr>prompt_q := put ''raconte'' (prompt_q s1)\<rparr>"
  define s where "s = s2\<lparr>pr := r2\<rparr>"
  have "router_step (pe_deps clock_env) (pr pipe_init) r1"
    unfolding r1_def pipe_init_simps clock_env_simps by (rule on_transcript_step) (simp_all add: router_init_def)
  from pipe_step.routed [OF pipe_init_simps(2,3) this] have reach1: "pipe_reach clock_env s1"
    unfolding s1_def by (rule pipe_reach_step [OF pipe_init_simps(4)])
  have box1: "prompt_box s1 = [''raconte'']" "length (waiting (prompt_q s1)) < prompt_room"
    by (simp_all add: s1_def r1 pipe_init_def box_defs prompt_room_def)
  have reach2: "pipe_reach clock_env s2"
    unfolding s2_def by (rule pipe_reach_step [OF reach1 pipe_step.inner [OF inner_step.post_prompt [OF box1]]])
  have box2: "prompt_box s2 = []" "router_box s2 = []"
    by (simp_all add: s2_def s1_def r1 pipe_init_def box_defs demo_world_def)
  have "router_step (pe_deps clock_env) (pr s2) r2"
    using r2(3,4) on_transcript_step [of r1] by (simp add: s2_def s1_def r2_def)
  from pipe_step.routed [OF box2 this] have reach: "pipe_reach clock_env s"
    unfolding s_def by (rule pipe_reach_step [OF reach2])
  have i: "pipe_inv clock_env s" using reach by (rule pipe_reach_inv)
  obtain s' where s': "(inner_step clock_env)\<^sup>*\<^sup>* s s'" "at_rest s'" using comes_to_rest [OF i] by blast
  have st: "texts (bus (snd (pt s))) = []" "buf (tbuf (fst (pt s))) = []" "waiting (tok_q s) = []" "router_box s = []"
    "llm_box s = []" "waiting (prompt_q s) = [''raconte'']" "prompt_box s = []" "live (fst (pr s))" "sink_live s"
    using r2(1,2)
    by (simp_all add: s_def s2_def s1_def r1 pipe_init_def box_defs tts_init_def sb_new_def demo_world_def)
  have "clean_text s" "one_speaker s" using st by (simp_all add: clean_text_def one_speaker_def lead_ok_def)
  moreover have "list_all lead_ok (spoken (rd_locale (pe_deps clock_env)) (pe_llm clock_env n p))" for n p
    by (simp add: lead_ok_def is_cont_def)
  ultimately have fin: "pr s' = pr s" "ink_line clock_env s' = ink_line clock_env s"
    using inner_steps_ink [OF s'(1) i st(8)] by blast+
  have i': "pipe_inv clock_env s'" by (rule inner_steps_inv [OF s'(1) i])
  have ink: "concat (map ink (texts (bus (snd (pt s'))))) = ink ''Oui.''"
    using fin(2) st s'(2) at_rest_facts(2) [OF i' s'(2)] by (simp add: ink_line_def at_rest_def)
  have "sink_live s'" using i' fin(1) st(8) rest_live_sink by (simp add: pipe_inv_def)
  then have "answered (snd (pr s)) = n_done (published s')"
    using answered_in_flight [of s'] i' fin(1) at_rest_facts(1) [OF i' s'(2)] by (simp add: pipe_inv_def)
  then have "n_done (published s') = 1"
    using r2(1) by (simp add: s_def answered_def r1 demo_world_def)
  moreover have "BargeIn 7 NewFinalTranscript \<in> set (r_bus (snd (pr s)))" using r2(1) by (simp add: s_def)
  ultimately show ?thesis using reach st(1) s' ink by blast
qed

end
