(* ===== verification/Mic.thy ===== *)
theory Mic
  imports Prelude
begin

text \<open>
  The ESP32 satellite's microphone arithmetic (\<open>satellite-esp32/src/mic.rs\<close>): sample conversion, integer
  RMS, the DC blocker, the end-of-utterance tracker with its adaptive noise floor, and the level meter.
  Every integer has the code's width, so the lemmas about exact values are also proofs that nothing wraps.
\<close>

type_synonym i16 = "16 word"
type_synonym i32 = "32 word"

definition frame_samples :: nat where "frame_samples = 320"
definition frame_raw_bytes :: nat where "frame_raw_bytes = frame_samples * 4"
definition silence_ms :: u32 where "silence_ms = 800"
definition silence_rms :: u32 where "silence_rms = 500"
definition floor_warmup_frames :: u32 where "floor_warmup_frames = 10"

section \<open>Sample conversion\<close>

definition i32_from_le :: "byte \<Rightarrow> byte \<Rightarrow> byte \<Rightarrow> byte \<Rightarrow> i32" where
  "i32_from_le a b c d = ucast a + push_bit 8 (ucast b) + push_bit 16 (ucast c) + push_bit 24 (ucast d)"

definition clamp16 :: "i32 \<Rightarrow> i16" where
  "clamp16 v = word_of_int (max (- 32768) (min 32767 (sint v)))"

fun convert_inmp441 :: "byte list \<Rightarrow> i16 list" where
  "convert_inmp441 (a # b # c # d # raw) = clamp16 (signed_drop_bit 14 (i32_from_le a b c d)) # convert_inmp441 raw"
| "convert_inmp441 _ = []"

section \<open>RMS\<close>

definition div_ceil :: "'a::len word \<Rightarrow> 'a word \<Rightarrow> 'a word" where
  "div_ceil a b = (if a mod b > 0 then a div b + 1 else a div b)"

function isqrt_loop :: "u64 \<Rightarrow> u64 \<Rightarrow> u64 \<Rightarrow> u64" where
  "isqrt_loop n x y = (if y < x then isqrt_loop n y ((y + n div y) div 2) else x)"
  by pat_completeness auto
termination
  by (relation "measure (\<lambda>(n, x, y). unat x)") (auto simp: word_less_nat_alt)

declare isqrt_loop.simps [simp del]

definition isqrt :: "u64 \<Rightarrow> u64" where
  "isqrt n = (if n < 2 then n else isqrt_loop n n (div_ceil n 2))"

definition sum_sq :: "i16 list \<Rightarrow> u64" where
  "sum_sq frame = sum_list (map (\<lambda>s. let w = scast s :: 64 word in w * w) frame)"

definition rms :: "i16 list \<Rightarrow> u32" where
  "rms frame = (if frame = [] then 0 else ucast (isqrt (sum_sq frame div of_nat (length frame))))"

section \<open>DC blocker\<close>

record dc_blocker =
  prev_x :: i32
  y_q8 :: i32

definition dc_new :: dc_blocker where
  "dc_new = \<lparr>prev_x = 0, y_q8 = 0\<rparr>"

fun dc_process :: "i16 list \<Rightarrow> dc_blocker \<Rightarrow> i16 list \<times> dc_blocker" where
  "dc_process [] d = ([], d)"
| "dc_process (s # ss) d =
     (let x = scast s :: i32;
          y = push_bit 8 (x - prev_x d) + y_q8 d - signed_drop_bit 8 (y_q8 d);
          (out, d1) = dc_process ss \<lparr>prev_x = x, y_q8 = y\<rparr>
      in (clamp16 (signed_drop_bit 8 y) # out, d1))"

section \<open>Silence tracker\<close>

record silence_tracker =
  min_threshold :: u32
  st_silence_ms :: u32
  frame_ms :: u32
  run_ms :: u32
  noise_floor :: "u32 option"
  seen_frames :: u32
  speech_started :: bool

definition tracker_new :: "u32 \<Rightarrow> u32 \<Rightarrow> u32 \<Rightarrow> silence_tracker" where
  "tracker_new thr sil frm =
     \<lparr>min_threshold = thr, st_silence_ms = sil, frame_ms = frm, run_ms = 0, noise_floor = None,
      seen_frames = 0, speech_started = False\<rparr>"

definition tracker_reset :: "silence_tracker \<Rightarrow> silence_tracker" where
  "tracker_reset t = t\<lparr>run_ms := 0, speech_started := False\<rparr>"

definition sat_mul :: "'a::len word \<Rightarrow> 'a word \<Rightarrow> 'a word" where
  "sat_mul a b = (if unat a * unat b < 2 ^ LENGTH('a) then a * b else - 1)"

definition threshold :: "silence_tracker \<Rightarrow> u32" where
  "threshold t = max (case noise_floor t of None \<Rightarrow> 0 | Some f \<Rightarrow> sat_mul f 3) (min_threshold t)"

definition next_floor :: "u32 option \<Rightarrow> u32 \<Rightarrow> u32" where
  "next_floor fo r =
     (case fo of
        None \<Rightarrow> max r 1
      | Some f \<Rightarrow> if r < f then f - div_ceil (f - r) 8 else f + max (f div 4096) 1)"

definition update_floor :: "u32 \<Rightarrow> silence_tracker \<Rightarrow> silence_tracker" where
  "update_floor r t =
     (let t1 = t\<lparr>seen_frames := sat_succ (seen_frames t)\<rparr> in
      if seen_frames t1 \<le> floor_warmup_frames then t1
      else t1\<lparr>noise_floor := Some (next_floor (noise_floor t1) r)\<rparr>)"

definition tracker_observe :: "i16 list \<Rightarrow> silence_tracker \<Rightarrow> silence_tracker" where
  "tracker_observe frame t = update_floor (rms frame) t"

definition tracker_push :: "i16 list \<Rightarrow> silence_tracker \<Rightarrow> bool \<times> silence_tracker" where
  "tracker_push frame t =
     (let r = rms frame; thr = threshold t; t1 = update_floor r t in
      if r \<ge> thr then (False, t1\<lparr>speech_started := True, run_ms := 0\<rparr>)
      else if \<not> speech_started t1 then (False, t1)
      else let t2 = t1\<lparr>run_ms := run_ms t1 + frame_ms t1\<rparr> in (run_ms t2 \<ge> st_silence_ms t2, t2))"

section \<open>Level meter\<close>

record level_meter =
  lm_window :: u32
  lm_frames :: u32
  lm_rms_max :: u32
  lm_peak :: "16 word"

definition meter_new :: "u32 \<Rightarrow> level_meter" where
  "meter_new w = \<lparr>lm_window = max w 1, lm_frames = 0, lm_rms_max = 0, lm_peak = 0\<rparr>"

definition unsigned_abs :: "i16 \<Rightarrow> 16 word" where
  "unsigned_abs s = (if sint s < 0 then - s else s)"

definition meter_push :: "i16 list \<Rightarrow> level_meter \<Rightarrow> (u32 \<times> 16 word) option \<times> level_meter" where
  "meter_push frame m =
     (let m1 = m\<lparr>lm_rms_max := max (lm_rms_max m) (rms frame),
                lm_peak := max (lm_peak m) (fold max (map unsigned_abs frame) 0),
                lm_frames := lm_frames m + 1\<rparr>
      in if lm_frames m1 < lm_window m1 then (None, m1)
         else (Some (lm_rms_max m1, lm_peak m1), m1\<lparr>lm_frames := 0, lm_rms_max := 0, lm_peak := 0\<rparr>))"

section \<open>The square root is exact\<close>

lemma four_mult_le: "4 * (a * b) \<le> (a + b)\<^sup>2" for a b :: nat
proof -
  have le: "4 * (c * (c + k)) \<le> (c + (c + k))\<^sup>2" for c k :: nat
    by (simp add: power2_eq_square distrib_left distrib_right)
  show ?thesis
  proof (cases "a \<le> b")
    case True
    then show ?thesis using le [of a "b - a"] by simp
  next
    case False
    then show ?thesis using le [of b "a - b"] by (simp add: mult.commute add.commute)
  qed
qed

lemma newton_above:
  fixes n x :: nat
  assumes "0 < x"
  shows "n < ((x + n div x) div 2 + 1)\<^sup>2"
proof -
  let ?q = "n div x" and ?y = "(x + n div x) div 2"
  have "n < x * (?q + 1)"
  proof -
    have "x * ?q + n mod x = n" by simp
    then show ?thesis using mod_less_divisor [OF assms, of n] by (simp only: distrib_left mult_1_right)
  qed
  moreover have "4 * (x * (?q + 1)) \<le> (x + (?q + 1))\<^sup>2" by (rule four_mult_le)
  moreover have "s \<le> 2 * (s div 2) + 1" for s :: nat by presburger
  from this [of "x + ?q"] have "x + (?q + 1) \<le> 2 * (?y + 1)" by simp
  then have "(x + (?q + 1))\<^sup>2 \<le> (2 * (?y + 1))\<^sup>2" by (rule power_mono) simp
  ultimately show ?thesis by (simp add: power2_eq_square)
qed

lemma newton_no_overflow:
  fixes n x :: nat
  assumes "n < 2 ^ 64" "n < (x + 1)\<^sup>2" "2 \<le> n" "x \<le> 2 ^ 63"
  shows "x + n div x < 2 ^ 64"
proof (cases "x \<le> 2 ^ 62")
  case True
  have "0 < x" using assms(2,3) by (cases x) auto
  have "n \<le> x * (x + 2)" using assms(2) by (simp add: power2_eq_square)
  then have "n div x \<le> x + 2" using \<open>0 < x\<close> by (metis div_le_mono nonzero_mult_div_cancel_left less_numeral_extra(3))
  then show ?thesis using True by simp
next
  case False
  have "n div x \<le> n div 2 ^ 62" using False by (intro div_le_mono2) simp_all
  also have "\<dots> < 4" using assms(1) by (simp add: less_mult_imp_div_less)
  finally show ?thesis using assms(4) by simp
qed

lemma unat_div2: "unat (w div 2) = unat w div 2" for w :: u64
  by (simp add: unat_div)

lemma isqrt_loop_correct:
  assumes "2 \<le> unat n" "unat n < (unat x + 1)\<^sup>2" "unat x \<le> 2 ^ 63"
    "y = (x + n div x) div 2"
  shows "(unat (isqrt_loop n x y))\<^sup>2 \<le> unat n \<and> unat n < (unat (isqrt_loop n x y) + 1)\<^sup>2"
  using assms
proof (induction n x y rule: isqrt_loop.induct)
  case (1 n x y)
  have x: "0 < unat x" using "1.prems"(1,2) by (cases "unat x") auto
  have sum: "unat x + unat n div unat x < 2 ^ 64"
    using newton_no_overflow "1.prems"(1-3) unat_bound [of n] by simp
  then have uy: "unat y = (unat x + unat n div unat x) div 2"
    unfolding "1.prems"(4) unat_div2 by (subst unat_add_lem [THEN iffD1]) (simp_all add: unat_div)
  have above: "unat n < (unat y + 1)\<^sup>2" unfolding uy using newton_above [OF x] .
  show ?case
  proof (cases "y < x")
    case True
    then have "unat y \<le> 2 ^ 63" using "1.prems"(3) by (simp add: word_less_nat_alt)
    from "1.IH" [OF True "1.prems"(1) above this refl] show ?thesis
      using True by (simp add: isqrt_loop.simps [of n x y])
  next
    case False
    then have "unat x \<le> (unat x + unat n div unat x) div 2" using uy by (simp add: word_le_nat_alt not_less)
    then have "unat x \<le> unat n div unat x" by linarith
    then have "unat x * unat x \<le> unat n" using x by (simp add: less_eq_div_iff_mult_less_eq)
    then show ?thesis using False "1.prems"(2) by (simp add: isqrt_loop.simps [of n x y] power2_eq_square)
  qed
qed

lemma isqrt_sqrt: "(unat (isqrt n))\<^sup>2 \<le> unat n \<and> unat n < (unat (isqrt n) + 1)\<^sup>2"
proof (cases "n < 2")
  case True
  then have "unat n = 0 \<or> unat n = 1" by (simp add: word_less_nat_alt, linarith)
  then show ?thesis using True by (auto simp: isqrt_def power2_eq_square)
next
  case False
  then have n: "2 \<le> unat n" by (simp add: word_le_nat_alt not_less)
  let ?y = "div_ceil n 2"
  have uy: "unat ?y = (unat n + 1) div 2"
  proof -
    have m: "unat (n mod 2) = unat n mod 2" by (simp add: unat_mod)
    have "unat (n div 2) + 1 < 2 ^ 64" using unat_bound [of n] unfolding unat_div2 by simp
    then have "unat (n div 2 + 1) = unat n div 2 + 1" by (subst unat_add_lem [THEN iffD1]) (simp_all add: unat_div2)
    then show ?thesis using m unfolding div_ceil_def
      by (cases "n mod 2 > 0") (simp_all add: word_greater_zero_iff word_less_nat_alt unat_div2, presburger+)
  qed
  have lt: "?y < n" using n uy by (simp add: word_less_nat_alt)
  have sq: "unat n < (unat ?y + 1)\<^sup>2"
  proof -
    have "unat n \<le> 2 * unat ?y" using uy by simp
    then show ?thesis by (simp add: power2_eq_square)
  qed
  have "unat ?y \<le> 2 ^ 63" using uy unat_bound [of n] by simp
  from isqrt_loop_correct [OF n sq this refl] show ?thesis
    using False lt by (simp add: isqrt_def isqrt_loop.simps [of n n])
qed

section \<open>RMS of a frame\<close>

lemma sint16_bound: "- 32768 \<le> sint s \<and> sint s \<le> 32767" for s :: i16
  using sint_greater_eq [of s] sint_less [of s] by simp

lemma unat_square: "unat (let w = scast s :: 64 word in w * w) = nat ((sint s)\<^sup>2)" for s :: i16
proof -
  have e: "(let w = scast s :: 64 word in w * w) = word_of_int ((sint s)\<^sup>2)"
    unfolding Let_def scast_eq wi_hom_mult power2_eq_square by (rule refl)
  have "0 \<le> (sint s)\<^sup>2" by simp
  moreover have "(sint s)\<^sup>2 \<le> 32768\<^sup>2"
  proof -
    have "\<bar>sint s\<bar> \<le> 32768" using sint16_bound [of s] by (simp add: abs_le_iff)
    from power_mono [OF this, of 2] show ?thesis by simp
  qed
  then have "(sint s)\<^sup>2 < 2 ^ 64" by simp
  ultimately have "uint (word_of_int ((sint s)\<^sup>2) :: 64 word) = (sint s)\<^sup>2"
    by (simp only: uint_word_of_int_eq take_bit_int_eq_self_iff) simp
  then show ?thesis unfolding e unat_eq_nat_uint by simp
qed

lemma square_le: "nat ((sint s)\<^sup>2) \<le> 2 ^ 30" for s :: i16
proof -
  have "\<bar>sint s\<bar> \<le> 32768" using sint16_bound [of s] by (simp add: abs_le_iff)
  from power_mono [OF this, of 2] show ?thesis by simp
qed

lemma unat_sum_sq:
  "length frame < 2 ^ 33 \<Longrightarrow>
     unat (sum_sq frame) = sum_list (map (\<lambda>s. nat ((sint s)\<^sup>2)) frame) \<and> unat (sum_sq frame) \<le> length frame * 2 ^ 30"
proof (induction frame)
  case (Cons s frame)
  then have IH: "unat (sum_sq frame) = sum_list (map (\<lambda>s. nat ((sint s)\<^sup>2)) frame)"
    "unat (sum_sq frame) \<le> length frame * 2 ^ 30" by simp_all
  have "unat (let w = scast s :: 64 word in w * w) + unat (sum_sq frame) \<le> length (s # frame) * 2 ^ 30"
    using IH(2) square_le [of s] unfolding unat_square by simp
  moreover have "length (s # frame) * 2 ^ 30 < (2 :: nat) ^ 64" using Cons.prems by simp
  moreover have eq: "sum_sq (s # frame) = (let w = scast s :: 64 word in w * w) + sum_sq frame"
    by (simp add: sum_sq_def)
  ultimately show ?case unfolding eq
    by (subst (1 2) unat_add_lem [THEN iffD1]) (simp_all add: IH(1) unat_square)
qed (simp add: sum_sq_def)

definition mean_square :: "i16 list \<Rightarrow> nat" where
  "mean_square frame = sum_list (map (\<lambda>s. nat ((sint s)\<^sup>2)) frame) div length frame"

lemma rms_sqrt:
  assumes "frame \<noteq> []" "length frame < 2 ^ 33"
  shows "(unat (rms frame))\<^sup>2 \<le> mean_square frame \<and> mean_square frame < (unat (rms frame) + 1)\<^sup>2"
    and "unat (rms frame) \<le> 32768"
proof -
  let ?m = "sum_sq frame div of_nat (length frame)"
  have len: "unat (of_nat (length frame) :: 64 word) = length frame"
    using assms(2) by (simp add: unsigned_of_nat take_bit_nat_eq_self)
  have m: "unat ?m = mean_square frame"
    using unat_sum_sq [OF assms(2)] by (simp add: unat_div len mean_square_def)
  have le: "unat ?m \<le> 2 ^ 30"
  proof -
    have "unat (sum_sq frame) div length frame \<le> length frame * 2 ^ 30 div length frame"
      using unat_sum_sq [OF assms(2)] by (intro div_le_mono) blast
    then show ?thesis using assms(1) by (simp add: unat_div len)
  qed
  have small: "unat (isqrt ?m) \<le> 32768"
  proof (rule ccontr)
    assume "\<not> ?thesis"
    then have "(32769 :: nat)\<^sup>2 \<le> (unat (isqrt ?m))\<^sup>2" by (intro power_mono) simp_all
    then show False using isqrt_sqrt [of ?m] le by simp
  qed
  then have r: "unat (rms frame) = unat (isqrt ?m)"
    using assms(1) by (simp add: rms_def unsigned_ucast_eq take_bit_nat_eq_self)
  then show "(unat (rms frame))\<^sup>2 \<le> mean_square frame \<and> mean_square frame < (unat (rms frame) + 1)\<^sup>2"
    using isqrt_sqrt [of ?m] m by simp
  show "unat (rms frame) \<le> 32768" using small r by simp
qed

text \<open>Frame levels are exact: \<open>isqrt\<close> is the integer square root of every 64-bit value (Newton's loop
  terminates and its sums never wrap), and the RMS of a frame is the integer square root of the integer
  mean of its squared samples, at most \<open>32768\<close>; no sum wraps for frames of fewer than \<open>2^33\<close> samples.\<close>

theorem rms_exact:
  assumes "frame \<noteq> []" "length frame < 2 ^ 33"
  shows "(unat (rms frame))\<^sup>2 \<le> mean_square frame \<and> mean_square frame < (unat (rms frame) + 1)\<^sup>2
    \<and> unat (rms frame) \<le> 32768
    \<and> (unat (isqrt n))\<^sup>2 \<le> unat n \<and> unat n < (unat (isqrt n) + 1)\<^sup>2"
  using rms_sqrt [OF assms] isqrt_sqrt [of n] by simp

theorem rms_exact_witness: "unat (rms [3, -4, 0 :: i16]) = 2"
proof -
  have m: "mean_square [3, -4, 0 :: i16] = 8" by (simp add: mean_square_def)
  from rms_exact [of "[3, -4, 0 :: i16]" 0]
  have "(unat (rms [3, -4, 0 :: i16]))\<^sup>2 \<le> 8" "8 < (unat (rms [3, -4, 0 :: i16]) + 1)\<^sup>2" by (simp_all add: m)
  moreover have "r \<le> 1 \<or> r = 2 \<or> 3 \<le> r" for r :: nat by arith
  ultimately show ?thesis
    using power_mono [of 3 "unat (rms [3, -4, 0 :: i16])" 2] power_mono [of "unat (rms [3, -4, 0 :: i16]) + 1" 2 2] by fastforce
qed

section \<open>The DC blocker never wraps\<close>

text \<open>The filter over the integers, and its samples.\<close>

fun dc_spec :: "int list \<Rightarrow> int \<times> int \<Rightarrow> int list \<times> int \<times> int" where
  "dc_spec [] (p, y) = ([], p, y)"
| "dc_spec (x # xs) (p, y) =
     (let y' = 256 * (x - p) + y - y div 256; (out, r) = dc_spec xs (x, y')
      in (max (- 32768) (min 32767 (y' div 256)) # out, r))"

text \<open>What the code keeps bounded is \<open>z = y - 256 x\<close>.\<close>

definition dc_ok :: "int \<times> int \<Rightarrow> bool" where
  "dc_ok py \<longleftrightarrow> \<bar>fst py\<bar> \<le> 32768 \<and> \<bar>snd py - 256 * fst py\<bar> \<le> 8388608"

lemma dc_step_ok:
  assumes "dc_ok (p, y)" "- 32768 \<le> x" "x \<le> 32767"
  shows "dc_ok (x, 256 * (x - p) + y - y div 256)"
proof -
  define z where "z = y - 256 * p"
  have d: "y div 256 = p + z div 256" by (simp add: z_def)
  have z: "- 8388608 \<le> z" "z \<le> 8388608" "- 32768 \<le> p" "p \<le> 32768" using assms(1) by (auto simp: dc_ok_def z_def)
  have e: "256 * (x - p) + y - y div 256 - 256 * x = z - z div 256 - p" by (simp add: d z_def)
  define q where "q = z div 256"
  have q: "256 * q \<le> z" "z < 256 * q + 256" unfolding q_def by simp_all
  have "256 * (z - q) = 255 * z + (z - 256 * q)" by simp
  also have "\<dots> < 256 * 8355841" using q(2) z(2) by simp
  finally have up: "z - q \<le> 8355840" by simp
  have "- (256 * 8355841) < 255 * z + (z - 256 * q)" using q(1) z(1) by simp
  also have "\<dots> = 256 * (z - q)" by simp
  finally have "- 8355841 < z - q" by simp
  with up have "z - z div 256 - p \<le> 8388608 \<and> - 8388608 \<le> z - z div 256 - p"
    using z unfolding q_def [symmetric] by simp
  then show ?thesis using assms(2,3) unfolding dc_ok_def fst_conv snd_conv e by auto
qed

lemma dc_ok_bound: "dc_ok (p, y) \<Longrightarrow> \<bar>y\<bar> \<le> 16777216"
  by (auto simp: dc_ok_def)

lemma sint_word_of_int32: "- (2 ^ 31) \<le> k \<Longrightarrow> k < 2 ^ 31 \<Longrightarrow> sint (word_of_int k :: i32) = k"
  using signed_take_bit_int_eq_self [of 31 k] by (simp add: sint_sbintrunc')

lemma sint_scast16: "sint (scast s :: i32) = sint s" for s :: i16
  unfolding scast_eq using sint16_bound [of s] by (intro sint_word_of_int32) simp_all

lemma dc_word_step:
  fixes x p y :: i32
  assumes "dc_ok (sint p, sint y)" "- 32768 \<le> sint x" "sint x \<le> 32767"
  shows "sint (push_bit 8 (x - p) + y - signed_drop_bit 8 y) = 256 * (sint x - sint p) + sint y - sint y div 256"
proof -
  have sd: "signed_drop_bit 8 y = word_of_int (sint y div 256)"
  proof -
    have "signed_drop_bit 8 y = word_of_int (sint (signed_drop_bit 8 y))"
      using scast_id [of "signed_drop_bit 8 y"] by (simp only: scast_eq)
    then show ?thesis by (simp only: sint_signed_drop_bit_eq drop_bit_eq_div) simp
  qed
  have e: "push_bit 8 (x - p) + y - signed_drop_bit 8 y
      = word_of_int (256 * (sint x - sint p) + sint y - sint y div 256)"
    unfolding sd by (simp add: push_bit_eq_mult wi_homs [symmetric])
  have "\<bar>256 * (sint x - sint p) + sint y - sint y div 256\<bar> \<le> 16777216"
    using dc_ok_bound [OF dc_step_ok [OF assms]] .
  then show ?thesis unfolding e by (intro sint_word_of_int32) (simp_all only: abs_le_iff, simp_all)
qed

lemma clamp16_sint: "sint (clamp16 v) = max (- 32768) (min 32767 (sint v))"
proof -
  let ?k = "max (- 32768) (min 32767 (sint v))"
  have "- (2 ^ 15) \<le> ?k" "?k < 2 ^ 15" by simp_all
  then show ?thesis
    using signed_take_bit_int_eq_self [of 15 ?k] by (simp add: clamp16_def sint_sbintrunc')
qed

lemma dc_spec_ok:
  "dc_ok py \<Longrightarrow> \<forall>x \<in> set xs. - 32768 \<le> x \<and> x \<le> 32767 \<Longrightarrow> dc_ok (snd (dc_spec xs py))"
proof (induction xs py rule: dc_spec.induct)
  case (2 x xs p y)
  have "dc_ok (x, 256 * (x - p) + y - y div 256)" using "2.prems" by (intro dc_step_ok) simp_all
  then show ?case using 2 by (simp add: Let_def split_beta)
qed simp

lemma dc_process_spec:
  assumes "dc_ok (sint (prev_x d), sint (y_q8 d))"
  shows "map sint (fst (dc_process ss d)) = fst (dc_spec (map sint ss) (sint (prev_x d), sint (y_q8 d)))
    \<and> (sint (prev_x (snd (dc_process ss d))), sint (y_q8 (snd (dc_process ss d))))
        = snd (dc_spec (map sint ss) (sint (prev_x d), sint (y_q8 d)))"
  using assms
proof (induction ss arbitrary: d)
  case (Cons s ss)
  let ?x = "scast s :: i32"
  let ?y = "push_bit 8 (?x - prev_x d) + y_q8 d - signed_drop_bit 8 (y_q8 d)"
  let ?d = "\<lparr>prev_x = ?x, y_q8 = ?y\<rparr>"
  have b: "- 32768 \<le> sint ?x" "sint ?x \<le> 32767" using sint16_bound [of s] by (simp_all only: sint_scast16)
  note y = dc_word_step [OF Cons.prems b]
  have ok: "dc_ok (sint (prev_x ?d), sint (y_q8 ?d))"
    using dc_step_ok [OF Cons.prems b] by (simp only: dc_blocker.simps y)
  have c: "sint (clamp16 (signed_drop_bit 8 ?y)) = max (- 32768) (min 32767 (sint ?y div 256))"
    by (simp only: clamp16_sint sint_signed_drop_bit_eq drop_bit_eq_div) simp
  show ?case
    using Cons.IH [OF ok] c y
    by (simp add: Let_def split_beta sint_scast16)
qed simp

text \<open>C29: the DC blocker's 32-bit arithmetic never wraps: over any sequence of samples, frame after frame,
  the filter's words hold exactly the integers of \<open>y[n] = 256 (x[n] - x[n-1]) + y[n-1] - y[n-1] div 256\<close>, the
  samples it emits are \<open>y[n] div 256\<close> clamped to 16 bits, and \<open>y\<close> stays within \<open>2^24\<close>.\<close>

theorem dc_blocker_never_wraps:
  "let r = foldl (\<lambda>(out, d) frame. let (o1, d1) = dc_process frame d in (out @ o1, d1)) ([], dc_new) frames;
       spec = dc_spec (map sint (concat frames)) (0, 0)
   in map sint (fst r) = fst spec \<and> sint (y_q8 (snd r)) = snd (snd spec) \<and> \<bar>sint (y_q8 (snd r))\<bar> \<le> 16777216"
proof -
  have app: "dc_process (xs @ ys) d = (let (o1, d1) = dc_process xs d; (o2, d2) = dc_process ys d1 in (o1 @ o2, d2))" for xs ys d
    by (induction xs arbitrary: d) (simp_all add: Let_def split_beta)
  have fold: "foldl (\<lambda>(out, d) frame. let (o1, d1) = dc_process frame d in (out @ o1, d1)) (out, d) frames
      = (let (o1, d1) = dc_process (concat frames) d in (out @ o1, d1))" for out d
    by (induction frames arbitrary: out d) (simp_all add: Let_def split_beta app)
  have "dc_ok (sint (prev_x dc_new), sint (y_q8 dc_new))" by (simp add: dc_ok_def dc_new_def)
  note spec = dc_process_spec [OF this, of "concat frames"]
  obtain out p y where s: "dc_spec (map sint (concat frames)) (0, 0) = (out, p, y)" by (cases "dc_spec (map sint (concat frames)) (0, 0)")
  have "dc_ok (p, y)"
    using dc_spec_ok [of "(0, 0)" "map sint (concat frames)"] sint16_bound s by (simp add: dc_ok_def)
  then have "\<bar>y\<bar> \<le> 16777216" by (rule dc_ok_bound)
  then show ?thesis
    using spec s unfolding fold by (simp add: Let_def split_beta dc_new_def)
qed

section \<open>End of utterance\<close>

definition tracker_after :: "i16 list list \<Rightarrow> silence_tracker \<Rightarrow> silence_tracker" where
  "tracker_after fs t = fold (\<lambda>f t. snd (tracker_push f t)) fs t"

text \<open>Which frames reached the threshold the room's floor set before them.\<close>

fun louds :: "i16 list list \<Rightarrow> silence_tracker \<Rightarrow> bool list" where
  "louds [] t = []"
| "louds (f # fs) t = (rms f \<ge> threshold t) # louds fs (snd (tracker_push f t))"

definition quiet_run :: "bool list \<Rightarrow> nat" where
  "quiet_run ls = length (takeWhile Not (rev ls))"

lemma louds_snoc: "louds (fs @ [f]) t = louds fs t @ [rms f \<ge> threshold (tracker_after fs t)]"
  by (induction fs arbitrary: t) (simp_all add: tracker_after_def)

lemma quiet_run_snoc [simp]: "quiet_run (ls @ [b]) = (if b then 0 else Suc (quiet_run ls))"
  by (simp add: quiet_run_def)

lemma quiet_run_le: "quiet_run ls \<le> length ls"
  unfolding quiet_run_def using length_takeWhile_le [of Not "rev ls"] by simp

lemma length_louds [simp]: "length (louds fs t) = length fs"
  by (induction fs arbitrary: t) simp_all

lemma update_floor_keeps [simp]:
  "speech_started (update_floor r t) = speech_started t" "run_ms (update_floor r t) = run_ms t"
  "frame_ms (update_floor r t) = frame_ms t" "st_silence_ms (update_floor r t) = st_silence_ms t"
  "min_threshold (update_floor r t) = min_threshold t"
  by (simp_all add: update_floor_def Let_def)

lemma tracker_after_fields:
  assumes "speech_started t = False" "run_ms t = 0"
  shows "frame_ms (tracker_after fs t) = frame_ms t \<and> st_silence_ms (tracker_after fs t) = st_silence_ms t
    \<and> speech_started (tracker_after fs t) = (True \<in> set (louds fs t))
    \<and> run_ms (tracker_after fs t) = (if True \<in> set (louds fs t) then of_nat (quiet_run (louds fs t)) * frame_ms t else 0)"
proof (induction fs rule: rev_induct)
  case Nil
  then show ?case using assms by (simp add: tracker_after_def)
next
  case (snoc f fs)
  have "tracker_after (fs @ [f]) t = snd (tracker_push f (tracker_after fs t))" by (simp add: tracker_after_def)
  then show ?case using snoc
    by (auto simp: tracker_push_def Let_def louds_snoc algebra_simps)
qed

text \<open>An utterance ends after sustained silence, and only then: after a reset, the push of a last frame
  answers true exactly when some frame of the utterance was speech (at or above the threshold set by the
  room's floor before it), the last one was not, and the frames since the last speech frame add up to at
  least the configured silence. Silence before the first speech frame never ends it.\<close>

theorem utterance_ends_after_silence:
  assumes "Suc (length fs) * unat (frame_ms t) < 2 ^ 32" "ls = louds (fs @ [f]) (tracker_reset t)"
  shows "fst (tracker_push f (tracker_after fs (tracker_reset t)))
    \<longleftrightarrow> True \<in> set ls \<and> \<not> last ls \<and> unat (st_silence_ms t) \<le> quiet_run ls * unat (frame_ms t)"
proof -
  let ?t = "tracker_reset t" and ?a = "tracker_after fs (tracker_reset t)"
  let ?l = "louds fs (tracker_reset t)"
  have z: "speech_started ?t = False" "run_ms ?t = 0" "frame_ms ?t = frame_ms t" "st_silence_ms ?t = st_silence_ms t"
    by (simp_all add: tracker_reset_def)
  note a = tracker_after_fields [OF z(1,2), of fs, unfolded z(3,4)]
  have "unat (of_nat (Suc (quiet_run ?l)) * frame_ms t :: 32 word) = Suc (quiet_run ?l) * unat (frame_ms t)"
  proof -
    have "Suc (quiet_run ?l) * unat (frame_ms t) < 2 ^ 32"
      using quiet_run_le [of ?l] assms(1) by (simp) (meson le_less_trans add_le_mono1 add_left_mono mult_le_mono1)
    then have "unat (of_nat (Suc (quiet_run ?l) * unat (frame_ms t)) :: 32 word) = Suc (quiet_run ?l) * unat (frame_ms t)"
      by (intro unat_of_nat_id) simp
    then show ?thesis by (simp add: distrib_right)
  qed
  then have ge: "st_silence_ms t \<le> of_nat (quiet_run ?l) * frame_ms t + frame_ms t
      \<longleftrightarrow> unat (st_silence_ms t) \<le> Suc (quiet_run ?l) * unat (frame_ms t)"
    by (simp add: word_le_nat_alt algebra_simps)
  show ?thesis
    using a ge unfolding assms(2) louds_snoc by (auto simp: tracker_push_def Let_def)
qed

theorem utterance_ends_after_silence_witness:
  "fst (tracker_push [] (tracker_after [[8000], []] (tracker_reset (tracker_new 500 40 20))))"
proof -
  have sq: "rms [8000 :: i16] \<ge> 500"
  proof -
    have "mean_square [8000 :: i16] = 64000000" by (simp add: mean_square_def)
    then have "(500 :: nat)\<^sup>2 < (unat (rms [8000 :: i16]) + 1)\<^sup>2"
      using rms_sqrt(1) [of "[8000 :: i16]"] by simp
    from power_less_imp_less_base [OF this] show ?thesis by (simp add: word_le_nat_alt)
  qed
  have e: "rms [] = 0" by (simp add: rms_def)
  have ls: "louds ([[8000], []] @ [[]]) (tracker_reset (tracker_new 500 40 20)) = [True, False, False]"
    using sq e
    by (simp add: tracker_push_def Let_def threshold_def tracker_reset_def tracker_new_def update_floor_def
        sat_succ_def floor_warmup_frames_def)
  have "Suc (length [[8000 :: i16], []]) * unat (frame_ms (tracker_new 500 40 20)) < 2 ^ 32"
    by (simp add: tracker_new_def)
  from utterance_ends_after_silence [OF this, of _ "[]", unfolded ls, OF refl]
  show ?thesis by (simp add: quiet_run_def tracker_new_def)
qed

section \<open>The noise floor stays in range\<close>

datatype tracker_op = TPush "i16 list" | TObserve "i16 list" | TReset

fun tracker_apply :: "tracker_op \<Rightarrow> silence_tracker \<Rightarrow> silence_tracker" where
  "tracker_apply (TPush f) t = snd (tracker_push f t)"
| "tracker_apply (TObserve f) t = tracker_observe f t"
| "tracker_apply TReset t = tracker_reset t"

definition floor_ok :: "silence_tracker \<Rightarrow> bool" where
  "floor_ok t \<longleftrightarrow> (\<forall>f. noise_floor t = Some f \<longrightarrow> unat f \<le> 32776)"

fun frame_ok :: "tracker_op \<Rightarrow> bool" where
  "frame_ok (TPush f) = (length f < 2 ^ 33)"
| "frame_ok (TObserve f) = (length f < 2 ^ 33)"
| "frame_ok TReset = True"

lemma div_ceil_8: "(if s mod 8 > 0 then s div 8 + 1 else s div 8) = (s + 7) div 8" for s :: nat
proof -
  obtain q r where qr: "s = 8 * q + r" "r < 8" "q = s div 8" "r = s mod 8" by simp
  have m: "s mod 8 = r" "s div 8 = q" using qr(3,4) by simp_all
  show ?thesis
  proof (cases "r > 0")
    case True
    have "(s + 7) div 8 = q + 1" by (rule div_nat_eqI) (use qr(1,2) True in simp_all)
    then show ?thesis unfolding m using True by simp
  next
    case False
    have "(s + 7) div 8 = q" by (rule div_nat_eqI) (use qr(1,2) False in simp_all)
    then show ?thesis unfolding m using False by simp
  qed
qed

lemma next_floor_exact:
  assumes "unat f \<le> 32776"
  shows "r < f \<Longrightarrow> unat (next_floor (Some f) r) = unat f - (unat f - unat r + 7) div 8"
    and "\<not> r < f \<Longrightarrow> unat (next_floor (Some f) r) = unat f + max (unat f div 4096) 1"
proof -
  show "unat (next_floor (Some f) r) = unat f - (unat f - unat r + 7) div 8" if lt: "r < f"
  proof -
    have d: "unat (f - r) = unat f - unat r" using lt by (simp add: unat_sub less_imp_le)
    have c: "unat (div_ceil (f - r) 8) = (unat f - unat r + 7) div 8"
    proof -
      have m: "unat ((f - r) mod 8) = (unat f - unat r) mod 8" "unat ((f - r) div 8) = (unat f - unat r) div 8"
        by (simp_all add: unat_mod unat_div d)
      have "unat ((f - r) div 8) + 1 < 2 ^ 32" using m(2) assms by simp
      then have "unat ((f - r) div 8 + 1) = (unat f - unat r) div 8 + 1"
        by (subst unat_add_lem [THEN iffD1]) (simp_all add: m(2))
      then have "unat (div_ceil (f - r) 8)
          = (if (unat f - unat r) mod 8 > 0 then (unat f - unat r) div 8 + 1 else (unat f - unat r) div 8)"
        unfolding div_ceil_def using m by (simp only: word_less_nat_alt unat_0 split: if_split) blast
      moreover have "(if s mod 8 > 0 then s div 8 + 1 else s div 8) = (s + 7) div 8" for s :: nat by (rule div_ceil_8)
      ultimately show ?thesis by simp
    qed
    have "div_ceil (f - r) 8 \<le> f" using c by (simp add: word_le_nat_alt)
    then show ?thesis using lt c by (simp add: next_floor_def unat_sub)
  qed
  show "unat (next_floor (Some f) r) = unat f + max (unat f div 4096) 1" if "\<not> r < f"
  proof -
    have m: "unat (max (f div 4096) 1) = max (unat f div 4096) 1"
      by (simp add: max_def word_le_nat_alt unat_div)
    have "unat f + unat (max (f div 4096) 1) < 2 ^ 32" using assms unfolding m by simp
    then show ?thesis using that by (simp add: next_floor_def unat_add_lem [THEN iffD1] m)
  qed
qed

lemma update_floor_ok:
  assumes "floor_ok t" "unat r \<le> 32768"
  shows "floor_ok (update_floor r t)"
proof (cases "noise_floor t")
  case None
  then show ?thesis using assms(2)
    by (auto simp: update_floor_def Let_def floor_ok_def next_floor_def max_def)
next
  case (Some f)
  then have f: "unat f \<le> 32776" using assms(1) by (simp add: floor_ok_def)
  have "unat (next_floor (Some f) r) \<le> 32776"
  proof (cases "r < f")
    case True
    then show ?thesis using next_floor_exact(1) [OF f True] f by simp
  next
    case False
    then have "unat f \<le> 32768" using assms(2) by (simp add: word_less_nat_alt)
    then have "max (unat f div 4096) 1 \<le> 8" by simp
    then show ?thesis using next_floor_exact(2) [OF f False] \<open>unat f \<le> 32768\<close> by simp
  qed
  then show ?thesis using assms(1) Some by (simp add: update_floor_def Let_def floor_ok_def)
qed

lemma rms_le: "length f < 2 ^ 33 \<Longrightarrow> unat (rms f) \<le> 32768"
  using rms_sqrt(2) [of f] by (cases "f = []") (simp_all add: rms_def)

lemma tracker_apply_ok [inv_intros]: "floor_ok t \<Longrightarrow> frame_ok op \<Longrightarrow> floor_ok (tracker_apply op t)"
proof (cases op)
  case (TPush f)
  assume "floor_ok t" "frame_ok op"
  then have "floor_ok (update_floor (rms f) t)" using TPush by (simp add: update_floor_ok rms_le)
  then show ?thesis using TPush by (simp add: tracker_push_def Let_def floor_ok_def)
next
  case (TObserve f)
  assume "floor_ok t" "frame_ok op"
  then show ?thesis using TObserve by (simp add: tracker_observe_def update_floor_ok rms_le)
next
  case TReset
  assume "floor_ok t"
  then show ?thesis using TReset by (simp add: tracker_reset_def floor_ok_def)
qed

text \<open>The learned noise floor stays usable: over any history of pushes, observations and resets it never
  exceeds \<open>32776\<close> (the loudest possible RMS plus one creep step), so neither its updates nor the threshold
  \<open>max (3 * floor) min_threshold\<close> ever wrap or saturate.\<close>

theorem noise_floor_bounded:
  assumes "\<forall>op \<in> set ops. frame_ok op" "noise_floor (fold tracker_apply ops (tracker_new thr sil frm)) = Some f"
  shows "unat f \<le> 32776
    \<and> unat (threshold (fold tracker_apply ops (tracker_new thr sil frm)))
        = max (3 * unat f) (unat (min_threshold (fold tracker_apply ops (tracker_new thr sil frm))))"
proof -
  have "floor_ok (fold tracker_apply ops t)" if "floor_ok t" for t
    using that assms(1) by (induction ops arbitrary: t) (simp_all add: tracker_apply_ok)
  moreover have "floor_ok (tracker_new thr sil frm)" by (simp add: floor_ok_def tracker_new_def)
  ultimately have f: "unat f \<le> 32776" using assms(2) by (auto simp: floor_ok_def)
  then have "unat (f * 3) = unat f * 3" by (simp add: unat_mult_lem [THEN iffD1])
  then have "unat (sat_mul f 3) = 3 * unat f" using f by (simp add: sat_mul_def)
  then show ?thesis using f assms(2) by (simp add: threshold_def max_def word_le_nat_alt)
qed

theorem noise_floor_bounded_witness:
  "unat (threshold (fold tracker_apply (replicate 11 (TObserve [])) (tracker_new 500 800 20))) = 500"
proof -
  let ?t = "fold tracker_apply (replicate 11 (TObserve [])) (tracker_new 500 800 20)"
  have f: "noise_floor ?t = Some 1" and m: "min_threshold ?t = 500" by code_simp+
  have "\<forall>op \<in> set (replicate 11 (TObserve [])). frame_ok op" by simp
  from noise_floor_bounded [OF this f] show ?thesis unfolding m by simp
qed

end
