(* ===== verification/Storage.thy ===== *)
theory Storage
  imports Core_Types "HOL-Library.AList" "HOL-Library.Product_Lexorder" "HOL-Library.Multiset"
begin

text \<open>
  The persistence layer (\<open>crates/athena-voice-storage\<close>): the SQLite store (\<open>sqlite.rs\<close>, one list per
  table of \<open>migrations/\<close>), the in-memory store's settings (\<open>lib.rs\<close>) and the temporary key store
  (\<open>tmp/mod.rs\<close>).

  A table is the list of its rows in rowid order; a table with a primary key and upserts is an association
  list. \<open>ORDER BY\<close> is a stable sort (SQLite leaves ties in rowid order; no result below depends on it).
  The clock is an argument of each operation that reads it. I/O failures of the database are not modelled;
  constraint violations are. RFC 3339 text stands for the instant it denotes, and a JSON column for the value.

  Two interfaces are locales: \<open>settings_store\<close>, provided by both stores, and \<open>event_queue\<close>, which the
  scheduler relies on.
\<close>

section \<open>Rows\<close>

datatype store_error = DbError | NotFound string

record session_row =
  se_satellite :: satellite_id
  se_locale :: locale_id
  se_started :: nat
  se_ended :: "nat option"
  se_outcome :: "outcome option"

record event_row =
  er_id :: nat
  er_session :: session_id
  er_event :: event
  er_at :: nat

record error_row =
  xr_id :: nat
  xr_session :: session_id
  xr_stage :: stage
  xr_variant :: string
  xr_message :: string
  xr_at :: nat

record satellite_row =
  sa_hash :: string
  sa_created :: nat
  sa_last_seen :: "nat option"

record scheduled_event =
  sv_id :: nat
  sv_skill :: string
  sv_fires :: int
  sv_topic :: string
  sv_payload :: "byte list"
  sv_created :: int

record setting_row =
  sg_skill :: string
  sg_key :: string
  sg_value :: string
  sg_secret :: bool

record sqlite =
  sessions :: "(session_id \<times> session_row) list"
  events :: "event_row list"
  next_event :: nat
  errors :: "error_row list"
  next_error :: nat
  satellites :: "(satellite_id \<times> satellite_row) list"
  skill_kv :: "((string \<times> string) \<times> (int \<times> byte list)) list"
  scheduled :: "scheduled_event list"
  next_sched :: nat
  settings :: "((string \<times> string) \<times> (string \<times> bool)) list"
  skill_state :: "(string \<times> bool) list"
  admin_auth :: "string option"

definition sqlite_open :: sqlite where
  "sqlite_open = \<lparr>sessions = [], events = [], next_event = 1, errors = [], next_error = 1, satellites = [],
     skill_kv = [], scheduled = [], next_sched = 1, settings = [], skill_state = [], admin_auth = None\<rparr>"

section \<open>Sessions, events, errors, satellites\<close>

definition record_session :: "nat \<Rightarrow> session_id \<Rightarrow> satellite_id \<Rightarrow> locale_id \<Rightarrow> sqlite \<Rightarrow> store_error + sqlite" where
  "record_session now sid sat loc db =
     (if map_of (sessions db) sid \<noteq> None then Inl DbError
      else Inr (db\<lparr>sessions := sessions db @
        [(sid, \<lparr>se_satellite = sat, se_locale = loc, se_started = now, se_ended = None, se_outcome = None\<rparr>)]\<rparr>))"

definition finalize_session :: "nat \<Rightarrow> session_id \<Rightarrow> outcome \<Rightarrow> sqlite \<Rightarrow> store_error + sqlite" where
  "finalize_session now sid oc db =
     (case map_of (sessions db) sid of
        None \<Rightarrow> Inl (NotFound ''session'')
      | Some r \<Rightarrow>
          Inr (db\<lparr>sessions := AList.update sid (r\<lparr>se_ended := Some now, se_outcome := Some oc\<rparr>) (sessions db)\<rparr>))"

definition get_session :: "session_id \<Rightarrow> sqlite \<Rightarrow> session_row option" where
  "get_session sid db = map_of (sessions db) sid"

text \<open>The \<open>session\<close> field of the event's JSON, which not every event has.\<close>

fun event_session :: "event \<Rightarrow> session_id option" where
  "event_session (CircuitOpened _ _) = None"
| "event_session (CircuitClosed _ _) = None"
| "event_session (SkillReloaded _) = None"
| "event_session (SkillReloadFailed _ _) = None"
| "event_session (ScheduledFired _ _) = None"
| "event_session (SessionStarted s _ _) = Some s"
| "event_session (AudioFrameDropped s _) = Some s"
| "event_session (TranscriptPartial s _) = Some s"
| "event_session (TranscriptFinal s _) = Some s"
| "event_session (IntentMatched s _) = Some s"
| "event_session (SkillInvoked s _) = Some s"
| "event_session (SkillPanicked s _ _) = Some s"
| "event_session (LlmFallback s _ _) = Some s"
| "event_session (TtsChunk s _ _) = Some s"
| "event_session (SessionEnded s _) = Some s"
| "event_session (ProviderError s _ _) = Some s"
| "event_session (BargeIn s _) = Some s"
| "event_session (SkillCancelled s _) = Some s"
| "event_session (SkillNotify s _ _) = Some s"
| "event_session (AudioChunk s _ _ _) = Some s"
| "event_session (VolumeChanged s _) = Some s"
| "event_session (TtsText s _) = Some s"

definition append_event :: "nat \<Rightarrow> event \<Rightarrow> sqlite \<Rightarrow> store_error + sqlite" where
  "append_event now e db =
     (case event_session e of
        None \<Rightarrow> Inl (NotFound ''event has no session field'')
      | Some s \<Rightarrow>
          Inr (db\<lparr>events := events db @ [\<lparr>er_id = next_event db, er_session = s, er_event = e, er_at = now\<rparr>],
                 next_event := next_event db + 1\<rparr>))"

definition list_events_by_session :: "session_id \<Rightarrow> u32 \<Rightarrow> sqlite \<Rightarrow> event_row list" where
  "list_events_by_session sid limit db =
     take (unat limit) (sort_key er_id (filter (\<lambda>r. er_session r = sid) (events db)))"

definition append_error :: "nat \<Rightarrow> session_id \<Rightarrow> stage \<Rightarrow> string \<Rightarrow> string \<Rightarrow> sqlite \<Rightarrow> sqlite" where
  "append_error now sid stg variant message db =
     db\<lparr>errors := errors db @ [\<lparr>xr_id = next_error db, xr_session = sid, xr_stage = stg, xr_variant = variant,
                               xr_message = message, xr_at = now\<rparr>],
        next_error := next_error db + 1\<rparr>"

definition provision_satellite :: "nat \<Rightarrow> satellite_id \<Rightarrow> string \<Rightarrow> sqlite \<Rightarrow> sqlite" where
  "provision_satellite now sat h db =
     db\<lparr>satellites := (case map_of (satellites db) sat of
          None \<Rightarrow> satellites db @ [(sat, \<lparr>sa_hash = h, sa_created = now, sa_last_seen = None\<rparr>)]
        | Some r \<Rightarrow> AList.update sat (r\<lparr>sa_hash := h\<rparr>) (satellites db))\<rparr>"

definition find_satellite :: "satellite_id \<Rightarrow> sqlite \<Rightarrow> satellite_row option" where
  "find_satellite sat db = map_of (satellites db) sat"

section \<open>Skill key/value state\<close>

definition skill_kv_get :: "string \<Rightarrow> string \<Rightarrow> sqlite \<Rightarrow> byte list option" where
  "skill_kv_get skill key db = map_option snd (map_of (skill_kv db) (skill, key))"

definition skill_kv_set :: "int \<Rightarrow> string \<Rightarrow> string \<Rightarrow> byte list \<Rightarrow> sqlite \<Rightarrow> sqlite" where
  "skill_kv_set now skill key v db = db\<lparr>skill_kv := AList.update (skill, key) (now, v) (skill_kv db)\<rparr>"

text \<open>The threshold is a \<open>u64\<close> cast to \<open>i64\<close>.\<close>

definition skill_kv_gc :: "string \<Rightarrow> u64 \<Rightarrow> sqlite \<Rightarrow> sqlite" where
  "skill_kv_gc skill t db =
     db\<lparr>skill_kv := filter (\<lambda>((s, k), ts, v). \<not> (s = skill \<and> ts \<le> sint t)) (skill_kv db)\<rparr>"

section \<open>Scheduled events\<close>

definition schedule_event :: "int \<Rightarrow> string \<Rightarrow> int \<Rightarrow> string \<Rightarrow> byte list \<Rightarrow> sqlite \<Rightarrow> nat \<times> sqlite" where
  "schedule_event now skill fires topic payload db =
     (next_sched db,
      db\<lparr>scheduled := scheduled db @
           [\<lparr>sv_id = next_sched db, sv_skill = skill, sv_fires = fires, sv_topic = topic, sv_payload = payload,
             sv_created = now\<rparr>],
         next_sched := next_sched db + 1\<rparr>)"

definition delete_ids :: "nat list \<Rightarrow> scheduled_event list \<Rightarrow> scheduled_event list" where
  "delete_ids ids rows = fold (\<lambda>i. filter (\<lambda>r. sv_id r \<noteq> i)) ids rows"

definition pop_due_events :: "int \<Rightarrow> sqlite \<Rightarrow> scheduled_event list \<times> sqlite" where
  "pop_due_events now db =
     (let rows = sort_key sv_fires (filter (\<lambda>r. sv_fires r \<le> now) (scheduled db))
      in (rows, db\<lparr>scheduled := delete_ids (map sv_id rows) (scheduled db)\<rparr>))"

definition delete_scheduled :: "nat \<Rightarrow> sqlite \<Rightarrow> bool \<times> sqlite" where
  "delete_scheduled i db =
     (list_ex (\<lambda>r. sv_id r = i) (scheduled db), db\<lparr>scheduled := delete_ids [i] (scheduled db)\<rparr>)"

section \<open>Settings, enable flags, admin token\<close>

definition mk_setting :: "(string \<times> string) \<times> (string \<times> bool) \<Rightarrow> setting_row" where
  "mk_setting e = \<lparr>sg_skill = fst (fst e), sg_key = snd (fst e), sg_value = fst (snd e), sg_secret = snd (snd e)\<rparr>"

definition skill_settings_for :: "string \<Rightarrow> sqlite \<Rightarrow> setting_row list" where
  "skill_settings_for skill db =
     map mk_setting (sort_key (\<lambda>e. snd (fst e)) (filter (\<lambda>e. fst (fst e) = skill) (settings db)))"

definition skill_settings_all :: "sqlite \<Rightarrow> setting_row list" where
  "skill_settings_all db = map mk_setting (sort_key fst (settings db))"

definition skill_setting_set :: "string \<Rightarrow> string \<Rightarrow> string \<Rightarrow> bool \<Rightarrow> sqlite \<Rightarrow> sqlite" where
  "skill_setting_set skill key v sec db = db\<lparr>settings := AList.update (skill, key) (v, sec) (settings db)\<rparr>"

definition skill_setting_delete :: "string \<Rightarrow> string \<Rightarrow> sqlite \<Rightarrow> bool \<times> sqlite" where
  "skill_setting_delete skill key db =
     (map_of (settings db) (skill, key) \<noteq> None, db\<lparr>settings := AList.delete (skill, key) (settings db)\<rparr>)"

definition skill_enabled_set :: "string \<Rightarrow> bool \<Rightarrow> sqlite \<Rightarrow> sqlite" where
  "skill_enabled_set skill en db = db\<lparr>skill_state := AList.update skill en (skill_state db)\<rparr>"

definition skills_disabled :: "sqlite \<Rightarrow> string list" where
  "skills_disabled db = sort (map fst (filter (\<lambda>e. \<not> snd e) (skill_state db)))"

definition admin_token_hash :: "sqlite \<Rightarrow> string option" where
  "admin_token_hash db = admin_auth db"

definition admin_token_hash_set :: "string \<Rightarrow> sqlite \<Rightarrow> sqlite" where
  "admin_token_hash_set h db = db\<lparr>admin_auth := Some h\<rparr>"

section \<open>The in-memory store's settings\<close>

text \<open>A \<open>HashMap\<close> from (skill, key) to the row, listed in no particular order and then sorted.\<close>

type_synonym mem_settings = "((string \<times> string) \<times> setting_row) list"

definition mem_settings_for :: "string \<Rightarrow> mem_settings \<Rightarrow> setting_row list" where
  "mem_settings_for skill m = sort_key sg_key (filter (\<lambda>r. sg_skill r = skill) (map snd m))"

definition mem_settings_all :: "mem_settings \<Rightarrow> setting_row list" where
  "mem_settings_all m = sort_key (\<lambda>r. (sg_skill r, sg_key r)) (map snd m)"

definition mem_setting_set :: "string \<Rightarrow> string \<Rightarrow> string \<Rightarrow> bool \<Rightarrow> mem_settings \<Rightarrow> mem_settings" where
  "mem_setting_set skill key v sec m =
     AList.update (skill, key) \<lparr>sg_skill = skill, sg_key = key, sg_value = v, sg_secret = sec\<rparr> m"

definition mem_setting_delete :: "string \<Rightarrow> string \<Rightarrow> mem_settings \<Rightarrow> bool \<times> mem_settings" where
  "mem_setting_delete skill key m = (map_of m (skill, key) \<noteq> None, AList.delete (skill, key) m)"

section \<open>Temporary keys\<close>

type_synonym tmp_store = "((string \<times> string) \<times> (u64 \<times> byte list)) list"

text \<open>\<open>now + expires_sec\<close> wraps in release builds.\<close>

definition tmp_set :: "u64 \<Rightarrow> string \<Rightarrow> string \<Rightarrow> byte list \<Rightarrow> u64 \<Rightarrow> tmp_store \<Rightarrow> tmp_store" where
  "tmp_set now skill key v expires m = AList.update (skill, key) (now + expires, v) m"

definition tmp_get :: "u64 \<Rightarrow> string \<Rightarrow> string \<Rightarrow> tmp_store \<Rightarrow> byte list option \<times> tmp_store" where
  "tmp_get now skill key m =
     (case map_of m (skill, key) of
        None \<Rightarrow> (None, m)
      | Some (ex, v) \<Rightarrow> if now \<ge> ex then (None, AList.delete (skill, key) m) else (Some v, m))"

definition tmp_gc :: "u64 \<Rightarrow> tmp_store \<Rightarrow> tmp_store" where
  "tmp_gc now m = filter (\<lambda>(k, ex, v). ex > now) m"

section \<open>Settings as an interface\<close>

datatype setting_op = SetOp string string string bool | DelOp string string

text \<open>The value an operation sequence leaves under a key: the last write, unless deleted since.\<close>

fun written :: "string \<Rightarrow> string \<Rightarrow> setting_op list \<Rightarrow> (string \<times> bool) option \<Rightarrow> (string \<times> bool) option" where
  "written s k [] acc = acc"
| "written s k (SetOp s' k' v sec # ops) acc = written s k ops (if (s', k') = (s, k) then Some (v, sec) else acc)"
| "written s k (DelOp s' k' # ops) acc = written s k ops (if (s', k') = (s, k) then None else acc)"

definition rows_map :: "setting_row list \<Rightarrow> string \<Rightarrow> (string \<times> bool) option" where
  "rows_map rows = map_of (map (\<lambda>r. (sg_key r, (sg_value r, sg_secret r))) rows)"

definition rows_ok :: "string \<Rightarrow> setting_row list \<Rightarrow> bool" where
  "rows_ok skill rows \<longleftrightarrow> sorted_wrt (<) (map sg_key rows) \<and> (\<forall>r \<in> set rows. sg_skill r = skill)"

lemma strict_sorted_map_of_eq:
  fixes xs ys :: "('a::linorder \<times> 'b) list"
  assumes "sorted_wrt (<) (map fst xs)" "sorted_wrt (<) (map fst ys)" "map_of xs = map_of ys"
  shows "xs = ys"
proof -
  have "set (map fst xs) = set (map fst ys)" using assms(3) by (metis dom_map_of_conv_image_fst list.set_map)
  then have keys: "map fst xs = map fst ys"
    using assms(1,2) by (intro sorted_distinct_set_unique) (simp_all add: strict_sorted_iff)
  have d: "distinct (map fst xs)" "distinct (map fst ys)" using assms(1,2) by (simp_all add: strict_sorted_iff)
  have "map_of zs (fst (zs ! i)) = Some (snd (zs ! i))" if "distinct (map fst zs)" "i < length zs" for zs :: "('a \<times> 'b) list" and i
    using that by (simp add: map_of_eq_Some_iff)
  then show ?thesis
    using keys d assms(3) by (intro nth_equalityI) (metis length_map, metis length_map nth_map option.inject prod_eqI)
qed

lemma rows_determined:
  assumes "rows_ok skill a" "rows_ok skill b" "rows_map a = rows_map b"
  shows "a = b"
proof -
  let ?f = "\<lambda>r. (sg_key r, (sg_value r, sg_secret r))"
  have "map ?f a = map ?f b"
    using assms by (intro strict_sorted_map_of_eq) (simp_all add: rows_ok_def rows_map_def comp_def)
  moreover have "inj_on ?f (set a \<union> set b)"
    using assms(1,2) by (auto simp: inj_on_def rows_ok_def intro!: setting_row.equality)
  ultimately show ?thesis using inj_on_map_eq_map by blast
qed

locale settings_store =
  fixes ss_set :: "string \<Rightarrow> string \<Rightarrow> string \<Rightarrow> bool \<Rightarrow> 'db \<Rightarrow> 'db"
    and ss_del :: "string \<Rightarrow> string \<Rightarrow> 'db \<Rightarrow> bool \<times> 'db"
    and ss_for :: "string \<Rightarrow> 'db \<Rightarrow> setting_row list"
    and ss_ok :: "'db \<Rightarrow> bool"
  assumes set_ok: "ss_ok db \<Longrightarrow> ss_ok (ss_set s k v sec db)"
    and del_ok: "ss_ok db \<Longrightarrow> ss_ok (snd (ss_del s k db))"
    and for_ok: "ss_ok db \<Longrightarrow> rows_ok s (ss_for s db)"
    and for_set: "ss_ok db \<Longrightarrow> rows_map (ss_for s' (ss_set s k v sec db)) k'
                    = (if (s', k') = (s, k) then Some (v, sec) else rows_map (ss_for s' db) k')"
    and for_del: "ss_ok db \<Longrightarrow> rows_map (ss_for s' (snd (ss_del s k db))) k'
                    = (if (s', k') = (s, k) then None else rows_map (ss_for s' db) k')"
    and del_found: "ss_ok db \<Longrightarrow> fst (ss_del s k db) \<longleftrightarrow> rows_map (ss_for s db) k \<noteq> None"
begin

fun apply_op :: "setting_op \<Rightarrow> 'db \<Rightarrow> 'db" where
  "apply_op (SetOp s k v sec) db = ss_set s k v sec db"
| "apply_op (DelOp s k) db = snd (ss_del s k db)"

lemma apply_op_ok: "ss_ok db \<Longrightarrow> ss_ok (apply_op op db)"
  by (cases op) (simp_all add: set_ok del_ok)

lemma run_ok: "ss_ok db \<Longrightarrow> ss_ok (fold apply_op ops db)"
  by (induction ops arbitrary: db) (simp_all add: apply_op_ok)

lemma last_write_wins:
  "ss_ok db \<Longrightarrow> rows_map (ss_for s (fold apply_op ops db)) k = written s k ops (rows_map (ss_for s db) k)"
proof (induction ops arbitrary: db)
  case (Cons op ops)
  from Cons.IH [OF apply_op_ok [OF Cons.prems, of op]] show ?case
    using Cons.prems by (cases op) (auto simp: for_set for_del)
qed simp

end

subsection \<open>Both stores provide it\<close>

lemma sort_key_strict:
  "distinct (map K xs) \<Longrightarrow> sorted_wrt (<) (map K (sort_key K xs))" for K :: "'a \<Rightarrow> 'k::linorder"
proof -
  assume d: "distinct (map K xs)"
  have "mset (map K (sort_key K xs)) = mset (map K xs)" by simp
  then have "distinct (map K (sort_key K xs))" using d mset_eq_imp_distinct_iff by blast
  then show ?thesis by (simp add: strict_sorted_iff)
qed

lemma map_of_sort_key:
  fixes K :: "'a \<Rightarrow> 'k::linorder"
  assumes "distinct (map K xs)"
  shows "map_of (map (\<lambda>x. (K x, V x)) (sort_key K xs)) = map_of (map (\<lambda>x. (K x, V x)) xs)"
proof -
  have "distinct (map K (sort_key K xs))" using sort_key_strict [OF assms] by (simp add: strict_sorted_iff)
  then show ?thesis using assms
    by (subst map_of_inject_set) (simp_all add: comp_def)
qed

definition settings_ok :: "sqlite \<Rightarrow> bool" where
  "settings_ok db \<longleftrightarrow> distinct (map fst (settings db))"

lemma distinct_skill_keys:
  "distinct (map fst xs) \<Longrightarrow> distinct (map (\<lambda>e. snd (fst e)) (filter (\<lambda>e. fst (fst e) = s) xs))"
proof -
  assume d: "distinct (map fst xs)"
  let ?L = "filter (\<lambda>e. fst (fst e) = s) xs"
  have "distinct (map fst ?L)" using d by (simp add: distinct_map_filter)
  moreover have "inj_on snd (set (map fst ?L))" by (auto simp: inj_on_def)
  ultimately have "distinct (map snd (map fst ?L))" by (simp only: distinct_map)
  then show ?thesis by (simp add: comp_def)
qed

lemma map_of_skill_keys:
  "map_of (map (\<lambda>e. (snd (fst e), V e)) (filter (\<lambda>e. fst (fst e) = s) xs)) k = map_option (\<lambda>v. V ((s, k), v)) (map_of xs (s, k))"
  by (induction xs) auto

lemma sqlite_settings_map:
  assumes "settings_ok db"
  shows "rows_map (skill_settings_for s db) k = map_of (settings db) (s, k)"
proof -
  let ?L = "filter (\<lambda>e. fst (fst e) = s) (settings db)"
  have "rows_map (skill_settings_for s db)
      = map_of (map (\<lambda>e. (snd (fst e), snd e)) (sort_key (\<lambda>e. snd (fst e)) ?L))"
    by (simp add: rows_map_def skill_settings_for_def mk_setting_def comp_def)
  also have "\<dots> = map_of (map (\<lambda>e. (snd (fst e), snd e)) ?L)"
    using assms by (intro map_of_sort_key distinct_skill_keys) (simp add: settings_ok_def)
  finally show ?thesis using map_of_skill_keys [of snd s "settings db" k] by (simp add: option.map_ident)
qed

lemma sqlite_rows_ok: "settings_ok db \<Longrightarrow> rows_ok s (skill_settings_for s db)"
  using sort_key_strict [OF distinct_skill_keys [of "settings db" s]]
  by (auto simp: rows_ok_def settings_ok_def skill_settings_for_def mk_setting_def comp_def)

interpretation sq: settings_store skill_setting_set skill_setting_delete skill_settings_for settings_ok
proof
  fix db :: sqlite and s k v s' k' :: string and sec :: bool
  assume ok: "settings_ok db"
  show 1: "settings_ok (skill_setting_set s k v sec db)"
    using ok by (simp add: settings_ok_def skill_setting_set_def distinct_update)
  show 2: "settings_ok (snd (skill_setting_delete s k db))"
    using ok by (simp add: settings_ok_def skill_setting_delete_def distinct_delete)
  show "rows_ok s (skill_settings_for s db)" using ok by (rule sqlite_rows_ok)
  show "rows_map (skill_settings_for s' (skill_setting_set s k v sec db)) k'
      = (if (s', k') = (s, k) then Some (v, sec) else rows_map (skill_settings_for s' db) k')"
    using sqlite_settings_map [OF 1] sqlite_settings_map [OF ok] by (simp add: skill_setting_set_def update_conv')
  show "rows_map (skill_settings_for s' (snd (skill_setting_delete s k db))) k'
      = (if (s', k') = (s, k) then None else rows_map (skill_settings_for s' db) k')"
    using sqlite_settings_map [OF 2] sqlite_settings_map [OF ok] by (auto simp: skill_setting_delete_def delete_conv')
  show "fst (skill_setting_delete s k db) \<longleftrightarrow> rows_map (skill_settings_for s db) k \<noteq> None"
    using sqlite_settings_map [OF ok] by (simp add: skill_setting_delete_def)
qed

definition mem_ok :: "mem_settings \<Rightarrow> bool" where
  "mem_ok m \<longleftrightarrow> distinct (map fst m) \<and> (\<forall>(p, r) \<in> set m. p = (sg_skill r, sg_key r))"

lemma mem_values:
  assumes "mem_ok m"
  shows "filter (\<lambda>r. sg_skill r = s) (map snd m) = map snd (filter (\<lambda>e. fst (fst e) = s) m)"
    "map sg_key (map snd (filter (\<lambda>e. fst (fst e) = s) m)) = map (\<lambda>e. snd (fst e)) (filter (\<lambda>e. fst (fst e) = s) m)"
proof -
  have eq: "fst (fst e) = sg_skill (snd e) \<and> snd (fst e) = sg_key (snd e)" if "e \<in> set m" for e
    using that assms by (auto simp: mem_ok_def)
  show "filter (\<lambda>r. sg_skill r = s) (map snd m) = map snd (filter (\<lambda>e. fst (fst e) = s) m)"
    unfolding filter_map using eq by (intro arg_cong [where f = "map snd"] filter_cong) (simp_all add: comp_def)
  show "map sg_key (map snd (filter (\<lambda>e. fst (fst e) = s) m)) = map (\<lambda>e. snd (fst e)) (filter (\<lambda>e. fst (fst e) = s) m)"
    using eq by (simp add: comp_def)
qed

lemma mem_keys_distinct: "mem_ok m \<Longrightarrow> distinct (map sg_key (filter (\<lambda>r. sg_skill r = s) (map snd m)))"
  using mem_values [of m s] distinct_skill_keys [of m s] by (simp add: mem_ok_def del: map_map)

lemma mem_settings_map:
  assumes "mem_ok m"
  shows "rows_map (mem_settings_for s m) k = map_option (\<lambda>r. (sg_value r, sg_secret r)) (map_of m (s, k))"
proof -
  let ?L = "filter (\<lambda>r. sg_skill r = s) (map snd m)" and ?E = "filter (\<lambda>e. fst (fst e) = s) m"
  have "rows_map (mem_settings_for s m) = map_of (map (\<lambda>r. (sg_key r, (sg_value r, sg_secret r))) ?L)"
    unfolding rows_map_def mem_settings_for_def using mem_keys_distinct [OF assms] by (rule map_of_sort_key)
  also have "map (\<lambda>r. (sg_key r, (sg_value r, sg_secret r))) ?L
      = map (\<lambda>e. (snd (fst e), (sg_value (snd e), sg_secret (snd e)))) ?E"
    unfolding mem_values(1) [OF assms] using assms by (auto simp: mem_ok_def)
  finally show ?thesis
    using map_of_skill_keys [of "\<lambda>e. (sg_value (snd e), sg_secret (snd e))" s m k] by simp
qed

lemma set_alist_update: "set (AList.update k v m) \<subseteq> insert (k, v) (set m)"
  by (induction m) auto

lemma set_alist_delete: "set (AList.delete k m) \<subseteq> set m"
  by (auto simp: AList.delete_eq)

interpretation mem: settings_store mem_setting_set mem_setting_delete mem_settings_for mem_ok
proof
  fix m :: mem_settings and s k v s' k' :: string and sec :: bool
  assume ok: "mem_ok m"
  show 1: "mem_ok (mem_setting_set s k v sec m)"
    using ok set_alist_update [of "(s, k)" "\<lparr>sg_skill = s, sg_key = k, sg_value = v, sg_secret = sec\<rparr>" m]
    by (auto simp: mem_ok_def mem_setting_set_def distinct_update)
  show 2: "mem_ok (snd (mem_setting_delete s k m))"
    using ok set_alist_delete [of "(s, k)" m] by (auto simp: mem_ok_def mem_setting_delete_def distinct_delete)
  show "rows_ok s (mem_settings_for s m)"
    using sort_key_strict [OF mem_keys_distinct [OF ok, of s]] by (auto simp: rows_ok_def mem_settings_for_def)
  show "rows_map (mem_settings_for s' (mem_setting_set s k v sec m)) k'
      = (if (s', k') = (s, k) then Some (v, sec) else rows_map (mem_settings_for s' m) k')"
    using mem_settings_map [OF 1] mem_settings_map [OF ok] by (simp add: mem_setting_set_def update_conv')
  show "rows_map (mem_settings_for s' (snd (mem_setting_delete s k m))) k'
      = (if (s', k') = (s, k) then None else rows_map (mem_settings_for s' m) k')"
    using mem_settings_map [OF 2] mem_settings_map [OF ok] by (auto simp: mem_setting_delete_def delete_conv')
  show "fst (mem_setting_delete s k m) \<longleftrightarrow> rows_map (mem_settings_for s m) k \<noteq> None"
    using mem_settings_map [OF ok] by (simp add: mem_setting_delete_def)
qed

fun sqlite_op :: "setting_op \<Rightarrow> sqlite \<Rightarrow> sqlite" where
  "sqlite_op (SetOp s k v sec) db = skill_setting_set s k v sec db"
| "sqlite_op (DelOp s k) db = snd (skill_setting_delete s k db)"

fun mem_op :: "setting_op \<Rightarrow> mem_settings \<Rightarrow> mem_settings" where
  "mem_op (SetOp s k v sec) m = mem_setting_set s k v sec m"
| "mem_op (DelOp s k) m = snd (mem_setting_delete s k m)"

lemma op_eqs: "sqlite_op = sq.apply_op" "mem_op = mem.apply_op"
  by (intro ext, rename_tac op db, case_tac op, simp_all)+

text \<open>The settings store is a last-write-wins map, whichever backend holds it: after any sequence of
  writes and deletions, a skill's settings are listed in increasing key order, hold for each key exactly the
  value last written and not deleted since, and the in-memory store lists exactly what the SQLite store does.\<close>

theorem settings_backends_agree:
  "sorted_wrt (<) (map sg_key (skill_settings_for s (fold sqlite_op ops sqlite_open)))
   \<and> rows_map (skill_settings_for s (fold sqlite_op ops sqlite_open)) k = written s k ops None
   \<and> mem_settings_for s (fold mem_op ops []) = skill_settings_for s (fold sqlite_op ops sqlite_open)"
proof -
  have ok: "settings_ok sqlite_open" "mem_ok []" by (simp_all add: settings_ok_def sqlite_open_def mem_ok_def)
  have none: "rows_map (skill_settings_for s sqlite_open) k = None" "rows_map (mem_settings_for s []) k = None" for k
    by (simp_all add: rows_map_def skill_settings_for_def sqlite_open_def mem_settings_for_def)
  have rows: "rows_ok s (skill_settings_for s (fold sqlite_op ops sqlite_open))" "rows_ok s (mem_settings_for s (fold mem_op ops []))"
    unfolding op_eqs using sq.for_ok [OF sq.run_ok [OF ok(1)]] mem.for_ok [OF mem.run_ok [OF ok(2)]] by simp_all
  have w: "rows_map (skill_settings_for s (fold sqlite_op ops sqlite_open)) k = written s k ops None"
    "rows_map (mem_settings_for s (fold mem_op ops [])) k = written s k ops None" for k
    unfolding op_eqs using sq.last_write_wins [OF ok(1)] mem.last_write_wins [OF ok(2)] none by simp_all
  then have "rows_map (mem_settings_for s (fold mem_op ops [])) = rows_map (skill_settings_for s (fold sqlite_op ops sqlite_open))"
    by (intro ext) simp
  from rows_determined [OF rows(2,1) this] rows(1) w(1) show ?thesis by (simp add: rows_ok_def)
qed

section \<open>Temporary keys expire\<close>

lemma fst_tmp_get:
  "fst (tmp_get now s k m)
     = (case map_of m (s, k) of None \<Rightarrow> None | Some (ex, v) \<Rightarrow> if ex \<le> now then None else Some v)"
  by (simp add: tmp_get_def split: option.split)

text \<open>Temporary keys live exactly as long as asked: if the expiry does not overflow the 64-bit clock, a
  key just set is read back until \<open>now + expires\<close> and not from then on, other keys read as before, and
  collecting garbage at a time no later than the read changes no answer.\<close>

theorem tmp_get_after_set:
  assumes "unat now + unat expires < 2 ^ 64" "distinct (map fst m)" "gc \<le> later"
  shows "fst (tmp_get later s k (tmp_set now s k v expires m))
      = (if unat later < unat now + unat expires then Some v else None)
    \<and> ((s', k') \<noteq> (s, k) \<longrightarrow> fst (tmp_get later s' k' (tmp_set now s k v expires m)) = fst (tmp_get later s' k' m))
    \<and> fst (tmp_get later s' k' (tmp_gc gc m)) = fst (tmp_get later s' k' m)"
proof -
  have "unat (now + expires) = unat now + unat expires" using assms(1) by (simp add: unat_add_lem [THEN iffD1])
  then have le: "now + expires \<le> later \<longleftrightarrow> \<not> unat later < unat now + unat expires"
    by (auto simp: word_le_nat_alt)
  have "map_of (tmp_gc gc m) p = (case map_of m p of Some (ex, v) \<Rightarrow> if ex > gc then Some (ex, v) else None | None \<Rightarrow> None)" for p
    using assms(2) unfolding tmp_gc_def
  proof (induction m)
    case (Cons e m)
    obtain q ex v where e: "e = (q, ex, v)" by (cases e)
    have "q \<notin> fst ` set m" using Cons.prems e by simp
    then have "map_of m q = None" by (simp add: map_of_eq_None_iff)
    then show ?case using Cons e by auto
  qed simp
  then have "fst (tmp_get later s' k' (tmp_gc gc m)) = fst (tmp_get later s' k' m)"
    using assms(3) by (auto simp: fst_tmp_get split: option.split)
  then show ?thesis using le by (simp add: fst_tmp_get tmp_set_def update_conv')
qed

theorem tmp_get_after_set_witness:
  "fst (tmp_get 105 ''timer'' ''k'' (tmp_set 100 ''timer'' ''k'' [1] 10 [])) = Some [1]"
  using tmp_get_after_set [of 100 10 "[]" 0 105 "''timer''" "''k''" "[1]" "''x''" "''y''"] by simp

end
