(* ===== verification/Scheduler.thy ===== *)
theory Scheduler
  imports Storage Speech
begin

text \<open>
  The scheduler task (\<open>crates/athena-voice-runtime/src/wasm/scheduler.rs\<close>) over the store's
  \<open>scheduled_events\<close> table, and the overlay of web-edited settings on a skill's configuration
  (\<open>wasm/settings.rs\<close>).

  What the scheduler needs of its store is the locale \<open>event_queue\<close>; it is interpreted on the SQLite
  store's operations, and the properties of the task follow from the locale's lemmas. JSON decoding of the
  timer payload and of the allowlist row is \<open>serde_json\<close>'s and is an argument.
\<close>

section \<open>The event queue interface\<close>

datatype 'a queue_op = QAdd 'a | QDrop nat | QTick int

locale event_queue =
  fixes add :: "'a \<Rightarrow> 'db \<Rightarrow> 'db"
    and made :: "'a \<Rightarrow> 'db \<Rightarrow> 'e"
    and discard :: "nat \<Rightarrow> 'db \<Rightarrow> 'db"
    and pop :: "int \<Rightarrow> 'db \<Rightarrow> 'e list \<times> 'db"
    and waiting :: "'db \<Rightarrow> 'e multiset"
    and due :: "'e \<Rightarrow> int"
    and q_ok :: "'db \<Rightarrow> bool"
  assumes add_ok: "q_ok db \<Longrightarrow> q_ok (add a db)"
    and discard_ok: "q_ok db \<Longrightarrow> q_ok (discard i db)"
    and pop_ok: "q_ok db \<Longrightarrow> q_ok (snd (pop now db))"
    and add_waiting: "q_ok db \<Longrightarrow> waiting (add a db) = add_mset (made a db) (waiting db)"
    and discard_waiting: "q_ok db \<Longrightarrow> waiting (discard i db) \<subseteq># waiting db"
    and pop_fired: "q_ok db \<Longrightarrow> mset (fst (pop now db)) = filter_mset (\<lambda>e. due e \<le> now) (waiting db)"
    and pop_left: "q_ok db \<Longrightarrow> waiting (snd (pop now db)) = filter_mset (\<lambda>e. \<not> due e \<le> now) (waiting db)"
    and pop_sorted: "sorted (map due (fst (pop now db)))"
begin

text \<open>A history: the store, what fired and when, what was deleted unfired, and all that was scheduled.\<close>

fun qstep :: "'a queue_op \<Rightarrow> 'db \<times> (int \<times> 'e) list \<times> 'e multiset \<times> 'e multiset
    \<Rightarrow> 'db \<times> (int \<times> 'e) list \<times> 'e multiset \<times> 'e multiset" where
  "qstep (QAdd a) (db, f, d, ad) = (add a db, f, d, add_mset (made a db) ad)"
| "qstep (QDrop i) (db, f, d, ad) = (discard i db, f, d + (waiting db - waiting (discard i db)), ad)"
| "qstep (QTick t) (db, f, d, ad) = (snd (pop t db), f @ map (Pair t) (fst (pop t db)), d, ad)"

definition accounted :: "'db \<times> (int \<times> 'e) list \<times> 'e multiset \<times> 'e multiset \<Rightarrow> bool" where
  "accounted h \<longleftrightarrow>
     (let (db, f, d, ad) = h in
      q_ok db \<and> mset (map snd f) + d + waiting db = ad \<and> (\<forall>(t, e) \<in> set f. due e \<le> t))"

lemma qstep_accounted: "accounted h \<Longrightarrow> accounted (qstep op h)"
proof (cases "(op, h)" rule: qstep.cases)
  case (1 a db f d ad)
  assume "accounted h"
  then show ?thesis using 1 by (auto simp: accounted_def add_ok add_waiting)
next
  case (2 i db f d ad)
  assume a: "accounted h"
  then have "waiting db - waiting (discard i db) + waiting (discard i db) = waiting db"
    using 2 by (simp add: accounted_def discard_waiting)
  then have "mset (map snd f) + (d + (waiting db - waiting (discard i db))) + waiting (discard i db)
      = mset (map snd f) + d + waiting db"
    by (simp only: add.assoc)
  also have "\<dots> = ad" using a 2 by (simp add: accounted_def)
  finally have "mset (map snd f) + (d + (waiting db - waiting (discard i db))) + waiting (discard i db) = ad" .
  then show ?thesis using a 2 by (simp add: accounted_def discard_ok del: mset_map)
next
  case (3 t db f d ad)
  assume a: "accounted h"
  then have ok: "q_ok db" and eq: "mset (map snd f) + d + waiting db = ad" using 3 by (simp_all add: accounted_def)
  have "waiting db = mset (fst (pop t db)) + waiting (snd (pop t db))"
    using multiset_partition [of "waiting db" "\<lambda>e. due e \<le> t"] pop_fired [OF ok] pop_left [OF ok] by simp
  then have "mset (map snd (f @ map (Pair t) (fst (pop t db)))) + d + waiting (snd (pop t db)) = ad"
    using eq by (simp add: multiset.map_comp comp_def ac_simps)
  moreover have "due e \<le> t" if "e \<in> set (fst (pop t db))" for e
  proof -
    have "e \<in># mset (fst (pop t db))" using that by simp
    then show ?thesis unfolding pop_fired [OF ok] by simp
  qed
  ultimately show ?thesis using a 3 ok by (auto simp: accounted_def pop_ok simp del: mset_map)
qed

lemma run_accounted: "accounted h \<Longrightarrow> accounted (fold qstep ops h)"
  by (induction ops arbitrary: h) (simp_all add: qstep_accounted)

lemma tick_leaves_none_due:
  "q_ok db \<Longrightarrow> e \<in># waiting (fst (qstep (QTick t) (db, f, d, ad))) \<Longrightarrow> t < due e"
  by (simp add: pop_left)

end

section \<open>The SQLite store provides it\<close>

type_synonym sched_request = "int \<times> string \<times> int \<times> string \<times> byte list"

definition sq_add :: "sched_request \<Rightarrow> sqlite \<Rightarrow> sqlite" where
  "sq_add r db = (case r of (now, skill, fires, topic, payload) \<Rightarrow> snd (schedule_event now skill fires topic payload db))"

definition sq_made :: "sched_request \<Rightarrow> sqlite \<Rightarrow> scheduled_event" where
  "sq_made r db =
     (case r of (now, skill, fires, topic, payload) \<Rightarrow>
        \<lparr>sv_id = next_sched db, sv_skill = skill, sv_fires = fires, sv_topic = topic, sv_payload = payload, sv_created = now\<rparr>)"

definition sched_ok :: "sqlite \<Rightarrow> bool" where
  "sched_ok db \<longleftrightarrow> distinct (map sv_id (scheduled db)) \<and> (\<forall>r \<in> set (scheduled db). sv_id r < next_sched db)"

lemma delete_ids_filter: "delete_ids ids rows = filter (\<lambda>r. sv_id r \<notin> set ids) rows"
  unfolding delete_ids_def
  by (induction ids arbitrary: rows) (auto simp: conj_commute intro: filter_cong)

lemma pop_due_left:
  assumes "distinct (map sv_id rows)"
  shows "delete_ids (map sv_id (sort_key sv_fires (filter (\<lambda>r. sv_fires r \<le> now) rows))) rows
           = filter (\<lambda>r. \<not> sv_fires r \<le> now) rows"
  unfolding delete_ids_filter
proof (rule filter_cong)
  fix r assume r: "r \<in> set rows"
  show "sv_id r \<notin> set (map sv_id (sort_key sv_fires (filter (\<lambda>r. sv_fires r \<le> now) rows))) \<longleftrightarrow> \<not> sv_fires r \<le> now"
    using r assms by (auto simp: distinct_map inj_on_def)
qed simp

lemma sched_ok_filter: "sched_ok db \<Longrightarrow> sched_ok (db\<lparr>scheduled := filter P (scheduled db)\<rparr>)"
  by (auto simp: sched_ok_def distinct_map_filter)

interpretation eq: event_queue sq_add sq_made "\<lambda>i db. snd (delete_scheduled i db)" pop_due_events
  "\<lambda>db. mset (scheduled db)" sv_fires sched_ok
proof
  fix db :: sqlite and a :: sched_request and i :: nat and now :: int
  show "sorted (map sv_fires (fst (pop_due_events now db)))"
    by (simp add: pop_due_events_def Let_def)
  assume ok: "sched_ok db"
  obtain n skill fires topic payload where a: "a = (n, skill, fires, topic, payload)" by (cases a)
  show "sched_ok (sq_add a db)"
    using ok by (auto simp: sched_ok_def sq_add_def a schedule_event_def less_Suc_eq)
  show "mset (scheduled (sq_add a db)) = add_mset (sq_made a db) (mset (scheduled db))"
    by (simp add: sq_add_def sq_made_def a schedule_event_def)
  show "sched_ok (snd (delete_scheduled i db))"
    using sched_ok_filter [OF ok] by (simp add: delete_scheduled_def delete_ids_filter)
  show "mset (scheduled (snd (delete_scheduled i db))) \<subseteq># mset (scheduled db)"
    by (simp add: delete_scheduled_def delete_ids_filter mset_filter)
  show "sched_ok (snd (pop_due_events now db))"
    using sched_ok_filter [OF ok] by (simp add: pop_due_events_def Let_def delete_ids_filter)
  have "distinct (map sv_id (scheduled db))" using ok by (simp add: sched_ok_def)
  note left = pop_due_left [OF this]
  show "mset (fst (pop_due_events now db)) = filter_mset (\<lambda>e. sv_fires e \<le> now) (mset (scheduled db))"
    by (simp add: pop_due_events_def Let_def mset_filter)
  show "mset (scheduled (snd (pop_due_events now db))) = filter_mset (\<lambda>e. \<not> sv_fires e \<le> now) (mset (scheduled db))"
    by (simp add: pop_due_events_def Let_def left mset_filter)
qed

section \<open>The scheduler task\<close>

datatype sched_out = SchedPublish string "byte list" | SchedFired string nat | SchedNotify string

definition timer_expiration_text :: "(byte list \<Rightarrow> u64 option) \<Rightarrow> byte list \<Rightarrow> string" where
  "timer_expiration_text secs payload =
     ''le minuteur de '' @ show_nat (case secs payload of None \<Rightarrow> 0 | Some n \<Rightarrow> unat n)
       @ '' secondes est termin'' @ e_acute @ ''.''"

definition fire_event :: "(byte list \<Rightarrow> u64 option) \<Rightarrow> scheduled_event \<Rightarrow> sched_out list" where
  "fire_event secs ev =
     [SchedPublish (sv_topic ev) (sv_payload ev), SchedFired (sv_skill ev) (sv_id ev)]
     @ (if sv_skill ev = ''timer'' then [SchedNotify (timer_expiration_text secs (sv_payload ev))] else [])"

definition scheduler_tick :: "(byte list \<Rightarrow> u64 option) \<Rightarrow> int \<Rightarrow> sqlite \<Rightarrow> sched_out list \<times> sqlite" where
  "scheduler_tick secs now db =
     (let (evs, db1) = pop_due_events now db in (concat (map (fire_event secs) evs), db1))"

text \<open>The forwarder: each notification is a whole utterance towards the TTS stage.\<close>

fun notify_forward :: "sched_out list \<Rightarrow> tts_msg list" where
  "notify_forward [] = []"
| "notify_forward (SchedNotify t # os) = [Token t, AnswerEnd] @ notify_forward os"
| "notify_forward (_ # os) = notify_forward os"

text \<open>The task interleaved with the skills' scheduling and deletions: what it sent so far, what fired when,
  what was deleted, what was ever scheduled.\<close>

record sched_hist =
  h_db :: sqlite
  h_out :: "sched_out list"
  h_fired :: "(int \<times> scheduled_event) list"
  h_deleted :: "scheduled_event multiset"
  h_scheduled :: "scheduled_event multiset"

definition hist_init :: sched_hist where
  "hist_init = \<lparr>h_db = sqlite_open, h_out = [], h_fired = [], h_deleted = {#}, h_scheduled = {#}\<rparr>"

fun hist_step :: "(byte list \<Rightarrow> u64 option) \<Rightarrow> sched_request queue_op \<Rightarrow> sched_hist \<Rightarrow> sched_hist" where
  "hist_step secs (QAdd r) h =
     h\<lparr>h_db := sq_add r (h_db h), h_scheduled := add_mset (sq_made r (h_db h)) (h_scheduled h)\<rparr>"
| "hist_step secs (QDrop i) h =
     h\<lparr>h_db := snd (delete_scheduled i (h_db h)),
       h_deleted := h_deleted h + (mset (scheduled (h_db h)) - mset (scheduled (snd (delete_scheduled i (h_db h)))))\<rparr>"
| "hist_step secs (QTick now) h =
     h\<lparr>h_db := snd (scheduler_tick secs now (h_db h)), h_out := h_out h @ fst (scheduler_tick secs now (h_db h)),
       h_fired := h_fired h @ map (Pair now) (fst (pop_due_events now (h_db h)))\<rparr>"

definition view :: "sched_hist \<Rightarrow> sqlite \<times> (int \<times> scheduled_event) list \<times> scheduled_event multiset \<times> scheduled_event multiset" where
  "view h = (h_db h, h_fired h, h_deleted h, h_scheduled h)"

lemma view_step: "view (hist_step secs op h) = eq.qstep op (view h)"
  by (cases op) (simp_all add: view_def scheduler_tick_def split_beta)

lemma view_run: "view (fold (hist_step secs) ops h) = fold eq.qstep ops (view h)"
  by (induction ops arbitrary: h) (simp_all add: view_step)

lemma out_step:
  "\<exists>fs. h_fired (hist_step secs op h) = h_fired h @ fs
     \<and> h_out (hist_step secs op h) = h_out h @ concat (map (\<lambda>(t, e). fire_event secs e) fs)"
proof (cases op)
  case (QTick now)
  then show ?thesis
    by (intro exI [of _ "map (Pair now) (fst (pop_due_events now (h_db h)))"])
       (simp add: scheduler_tick_def split_beta comp_def)
qed simp_all

lemma out_run:
  "\<exists>fs. h_fired (fold (hist_step secs) ops h) = h_fired h @ fs
     \<and> h_out (fold (hist_step secs) ops h) = h_out h @ concat (map (\<lambda>(t, e). fire_event secs e) fs)"
proof (induction ops arbitrary: h)
  case (Cons op ops)
  obtain fs where "h_fired (hist_step secs op h) = h_fired h @ fs"
    "h_out (hist_step secs op h) = h_out h @ concat (map (\<lambda>(t, e). fire_event secs e) fs)"
    using out_step by blast
  with Cons.IH [of "hist_step secs op h"] show ?case by auto
qed simp

lemma scheduled_ids:
  "image_mset sv_id (h_scheduled h) = mset_set {1 ..< next_sched (h_db h)} \<Longrightarrow> 1 \<le> next_sched (h_db h) \<Longrightarrow>
     image_mset sv_id (h_scheduled (fold (hist_step secs) ops h)) = mset_set {1 ..< next_sched (h_db (fold (hist_step secs) ops h))}"
proof (induction ops arbitrary: h)
  case (Cons op ops)
  have "image_mset sv_id (h_scheduled (hist_step secs op h)) = mset_set {1 ..< next_sched (h_db (hist_step secs op h))}
      \<and> 1 \<le> next_sched (h_db (hist_step secs op h))"
    using Cons.prems
    by (cases op) (auto simp: sq_add_def sq_made_def schedule_event_def delete_scheduled_def scheduler_tick_def
        pop_due_events_def Let_def atLeastLessThanSuc split: prod.split)
  with Cons.IH show ?case by simp
qed simp

lemma distinct_submset:
  assumes "mset xs \<subseteq># mset_set A"
  shows "distinct xs"
proof -
  have "count (mset_set A) a \<le> 1" for a by (simp add: count_mset_set')
  then have "count (mset xs) a \<le> 1" for a
    using mset_subset_eq_count [OF assms, of a] order_trans by blast
  then show ?thesis
    by (metis One_nat_def count_mset_0_iff distinct_count_atmost_1 le_0_eq le_Suc_eq)
qed

text \<open>C30: scheduled events fire exactly once and never early: over any interleaving of scheduling, deletion
  and ticks, every event ever scheduled has fired, been deleted, or is still waiting, exactly one of the
  three; each fired at a tick no earlier than its time; what the task sent is, for each fired event in
  firing order, its publish and its \<open>ScheduledFired\<close> event (and the spoken notification of a timer); and
  after a tick nothing that was due is left waiting.\<close>

theorem scheduled_events_fire_once:
  "let h = fold (hist_step secs) ops hist_init in
     mset (map snd (h_fired h)) + h_deleted h + mset (scheduled (h_db h)) = h_scheduled h
     \<and> distinct (map (sv_id \<circ> snd) (h_fired h))
     \<and> (\<forall>(t, e) \<in> set (h_fired h). sv_fires e \<le> t)
     \<and> h_out h = concat (map (\<lambda>(t, e). fire_event secs e) (h_fired h))
     \<and> (\<forall>now. \<forall>e \<in> set (scheduled (h_db (hist_step secs (QTick now) h))). now < sv_fires e)"
proof -
  let ?h = "fold (hist_step secs) ops hist_init"
  have "eq.accounted (view hist_init)"
    by (simp add: eq.accounted_def view_def hist_init_def sched_ok_def sqlite_open_def)
  then have acc: "eq.accounted (view ?h)" unfolding view_run by (rule eq.run_accounted)
  then have ok: "sched_ok (h_db ?h)"
    and split: "mset (map snd (h_fired ?h)) + h_deleted ?h + mset (scheduled (h_db ?h)) = h_scheduled ?h"
    and time: "\<forall>(t, e) \<in> set (h_fired ?h). sv_fires e \<le> t"
    by (simp_all add: eq.accounted_def view_def)
  have "image_mset sv_id (h_scheduled ?h) = mset_set {1 ..< next_sched (h_db ?h)}"
    by (rule scheduled_ids) (simp_all add: hist_init_def sqlite_open_def)
  then have "mset (map (sv_id \<circ> snd) (h_fired ?h)) \<subseteq># mset_set {1 ..< next_sched (h_db ?h)}"
    unfolding split [symmetric] by (simp add: multiset.map_comp) (metis mset_subset_eq_add_left union_assoc)
  then have "distinct (map (sv_id \<circ> snd) (h_fired ?h))" by (rule distinct_submset)
  moreover have "h_out ?h = concat (map (\<lambda>(t, e). fire_event secs e) (h_fired ?h))"
    using out_run [of secs ops hist_init] by (auto simp: hist_init_def)
  moreover have "now < sv_fires e" if "e \<in> set (scheduled (h_db (hist_step secs (QTick now) ?h)))" for now e
    using that eq.tick_leaves_none_due [OF ok, of e now] by (simp add: scheduler_tick_def split_beta)
  ultimately show ?thesis using split time by (simp add: Let_def)
qed

theorem scheduled_events_fire_once_witness:
  "let h = fold (hist_step (\<lambda>_. None))
       [QAdd (0, ''timer'', 5000, ''t'', []), QAdd (0, ''jeedom'', 9000, ''u'', []), QTick 5000] hist_init in
     mset (map snd (h_fired h)) + h_deleted h + mset (scheduled (h_db h)) = h_scheduled h
     \<and> distinct (map (sv_id \<circ> snd) (h_fired h))
     \<and> map (\<lambda>(t, e). (t, sv_id e)) (h_fired h) = [(5000, 1)]"
proof -
  let ?h = "fold (hist_step (\<lambda>_. None))
       [QAdd (0, ''timer'', 5000, ''t'', []), QAdd (0, ''jeedom'', 9000, ''u'', []), QTick 5000] hist_init"
  have "map (\<lambda>(t, e). (t, sv_id e)) (h_fired ?h) = [(5000, 1)]"
    by (simp add: hist_init_def sqlite_open_def sq_add_def sq_made_def schedule_event_def scheduler_tick_def
        pop_due_events_def Let_def)
  then show ?thesis
    using scheduled_events_fire_once
      [of "\<lambda>_. None" "[QAdd (0, ''timer'', 5000, ''t'', []), QAdd (0, ''jeedom'', 9000, ''u'', []), QTick 5000]"]
    by (simp only: Let_def)
qed

section \<open>Web-edited settings over the file configuration\<close>

record skill_config =
  sc_http_allowlist :: "string list"
  sc_mqtt_allowlist :: "string list"
  sc_config :: "string \<Rightarrow> string option"
  sc_retention :: "u64 option"
  sc_config_file :: "string option"

definition http_allowlist_key :: string where
  "http_allowlist_key = ''$http_allowlist''"

fun apply_row :: "(string \<Rightarrow> string list option) \<Rightarrow> string \<times> string \<Rightarrow> skill_config \<Rightarrow> skill_config" where
  "apply_row parse (key, value) out =
     (if key = http_allowlist_key then
        (case parse value of Some hosts \<Rightarrow> out\<lparr>sc_http_allowlist := hosts\<rparr> | None \<Rightarrow> out)
      else out\<lparr>sc_config := (sc_config out)(key \<mapsto> value)\<rparr>)"

definition apply_settings :: "(string \<Rightarrow> string list option) \<Rightarrow> skill_config \<Rightarrow> (string \<times> string) list \<Rightarrow> skill_config" where
  "apply_settings parse base rows = fold (apply_row parse) rows base"

lemma apply_settings_Nil [simp]: "apply_settings parse base [] = base"
  by (simp add: apply_settings_def)

lemma apply_settings_snoc [simp]: "apply_settings parse base (rows @ [r]) = apply_row parse r (apply_settings parse base rows)"
  by (simp add: apply_settings_def)

definition last_row :: "(string \<times> string) list \<Rightarrow> string \<Rightarrow> string option" where
  "last_row rows k = map_of (rev rows) k"

lemma apply_settings_config:
  "sc_config (apply_settings parse base rows) k =
     (if k = http_allowlist_key then sc_config base k
      else case last_row rows k of Some v \<Rightarrow> Some v | None \<Rightarrow> sc_config base k)"
  by (induction rows rule: rev_induct) (auto simp: last_row_def split: option.splits)

lemma apply_settings_rest:
  "sc_mqtt_allowlist (apply_settings parse base rows) = sc_mqtt_allowlist base
   \<and> sc_retention (apply_settings parse base rows) = sc_retention base
   \<and> sc_config_file (apply_settings parse base rows) = sc_config_file base"
  by (induction rows rule: rev_induct) (auto split: option.splits)

definition host_rows :: "(string \<Rightarrow> string list option) \<Rightarrow> (string \<times> string) list \<Rightarrow> string list list" where
  "host_rows parse rows = List.map_filter (\<lambda>(k, v). if k = http_allowlist_key then parse v else None) rows"

lemma host_rows_snoc:
  "host_rows parse (rows @ [(k, v)]) = host_rows parse rows
     @ (if k = http_allowlist_key then case parse v of Some hosts \<Rightarrow> [hosts] | None \<Rightarrow> [] else [])"
  by (simp add: host_rows_def List.map_filter_def split: option.split)

lemma apply_settings_hosts:
  "sc_http_allowlist (apply_settings parse base rows) =
     (if host_rows parse rows = [] then sc_http_allowlist base else last (host_rows parse rows))"
proof (induction rows rule: rev_induct)
  case (snoc r rows)
  obtain k v where r: "r = (k, v)" by (cases r)
  show ?case
  proof (cases "k = http_allowlist_key")
    case True
    then show ?thesis using snoc by (cases "parse v") (simp_all add: r host_rows_snoc)
  qed (use snoc in \<open>simp add: r host_rows_snoc\<close>)
qed (simp add: host_rows_def map_filter_simps)

text \<open>The effective configuration is the file's with the database winning key by key: a key's value is its
  last row, else the file's; the reserved allowlist key never enters the configuration; the allowlist is the
  last row of it that parses, else the file's, so an unreadable row is ignored; everything else is the
  file's; and the same rows applied again change nothing.\<close>

theorem settings_overlay:
  "let out = apply_settings parse base rows in
     (\<forall>k. sc_config out k =
        (if k = http_allowlist_key then sc_config base k
         else case last_row rows k of Some v \<Rightarrow> Some v | None \<Rightarrow> sc_config base k))
     \<and> sc_http_allowlist out = (if host_rows parse rows = [] then sc_http_allowlist base else last (host_rows parse rows))
     \<and> sc_mqtt_allowlist out = sc_mqtt_allowlist base \<and> sc_retention out = sc_retention base
     \<and> apply_settings parse out rows = out"
proof -
  have "apply_settings parse (apply_settings parse base rows) rows = apply_settings parse base rows"
    by (rule skill_config.equality)
       (auto simp: apply_settings_config apply_settings_hosts apply_settings_rest fun_eq_iff split: option.splits)
  then show ?thesis
    unfolding Let_def using apply_settings_config apply_settings_hosts apply_settings_rest by blast
qed

end
