(* ===== verification/Host_Fns.thy ===== *)
theory Host_Fns
  imports Scheduler Intent
begin

text \<open>
  The host functions a WASM skill may call (\<open>crates/athena-voice-runtime/src/wasm/host_fns.rs\<close>): the MQTT
  and HTTP access checks, state, scheduling, audio and temporary keys. A call runs in the skill's context
  over the host's world and yields what the guest reads back, or traps.

  URL parsing is the \<open>url\<close> crate's, the HTTP exchange is \<open>reqwest\<close>'s and JSON is \<open>serde_json\<close>'s: they are
  the record \<open>web\<close>. Whether the store, the broker and the bus answer is part of the environment of a call.
\<close>

section \<open>Topic access\<close>

definition mqtt_topic_prefix :: "string \<Rightarrow> string" where
  "mqtt_topic_prefix skill = ''athena/skills/'' @ skill @ ''/''"

definition mqtt_topic_allowed :: "string \<Rightarrow> string \<Rightarrow> bool" where
  "mqtt_topic_allowed skill topic = prefix (mqtt_topic_prefix skill) topic"

fun match_levels :: "nat \<Rightarrow> string list \<Rightarrow> nat \<Rightarrow> string list \<Rightarrow> bool" where
  "match_levels n ts i [] = (n = length ts)"
| "match_levels n ts i (p # ps) =
     (if p = ''#'' then i + 1 = n
      else if length ts \<le> i then False
      else if p = ''+'' then match_levels n ts (i + 1) ps
      else if p \<noteq> ts ! i then False
      else match_levels n ts (i + 1) ps)"

definition mqtt_topic_matches :: "string \<Rightarrow> string \<Rightarrow> bool" where
  "mqtt_topic_matches pattern topic =
     (let ps = split_on (CHR ''/'') pattern; ts = split_on (CHR ''/'') topic in match_levels (length ps) ts 0 ps)"

definition mqtt_publish_allowed :: "string \<Rightarrow> string \<Rightarrow> string list \<Rightarrow> bool" where
  "mqtt_publish_allowed skill topic allowlist =
     (if mqtt_topic_allowed skill topic then True else list_ex (\<lambda>p. mqtt_topic_matches p topic) allowlist)"

section \<open>HTTP access\<close>

datatype host_fn_error = HttpBadUrl string | HttpBadScheme string | HttpHostNotAllowed string | HttpFailure string

definition host_fn_error_text :: "host_fn_error \<Rightarrow> string" where
  "host_fn_error_text e =
     (case e of
        HttpBadUrl m \<Rightarrow> ''http url could not be parsed: '' @ m
      | HttpBadScheme m \<Rightarrow> ''http scheme not allowed: '' @ m
      | HttpHostNotAllowed m \<Rightarrow> ''http host not on allowlist: '' @ m
      | HttpFailure m \<Rightarrow> ''http request failed: '' @ m)"

datatype http_reply = SendFailed string | BadStatus string | BodyFailed string | Body "byte list"

record 'u web =
  u_parse :: "string \<Rightarrow> string + 'u"
  u_scheme :: "'u \<Rightarrow> string"
  u_host :: "'u \<Rightarrow> string option"
  u_query :: "'u \<Rightarrow> string option"
  w_get :: "'u \<Rightarrow> http_reply"
  w_json :: "byte list \<Rightarrow> json option"
  w_lossy :: "byte list \<Rightarrow> string"

definition http_url_allowed :: "'u web \<Rightarrow> string list \<Rightarrow> string \<Rightarrow> host_fn_error + 'u" where
  "http_url_allowed wb allowlist s =
     (case u_parse wb s of
        Inl e \<Rightarrow> Inl (HttpBadUrl e)
      | Inr u \<Rightarrow>
          if u_scheme wb u \<notin> {''http'', ''https''} then Inl (HttpBadScheme (u_scheme wb u))
          else case u_host wb u of
              None \<Rightarrow> Inl (HttpBadUrl ''missing host'')
            | Some h \<Rightarrow> if list_ex (\<lambda>a. a = h) allowlist then Inr u else Inl (HttpHostNotAllowed h))"

text \<open>\<open>str::replace\<close> with a non-empty pattern: occurrences from the left, not overlapping.\<close>

function replace_all :: "string \<Rightarrow> string \<Rightarrow> string \<Rightarrow> string" where
  "replace_all v r s =
     (if v = [] then s
      else case s of
          [] \<Rightarrow> []
        | c # cs \<Rightarrow> if prefix v s then r @ replace_all v r (drop (length v) s) else c # replace_all v r cs)"
  by pat_completeness auto
termination
  by (relation "measure (\<lambda>(v, r, s). length s)") (auto simp: Suc_diff_le)

declare replace_all.simps [simp del]

definition redacted :: string where
  "redacted = ''REDACTED''"

text \<open>The value of a query pair, after its first equals sign.\<close>

definition pair_value :: "string \<Rightarrow> string option" where
  "pair_value p =
     (case find_str ''='' p of None \<Rightarrow> None | Some i \<Rightarrow> if drop (i + 1) p = [] then None else Some (drop (i + 1) p))"

definition redact_value :: "string \<Rightarrow> string \<Rightarrow> string" where
  "redact_value p out = (case pair_value p of None \<Rightarrow> out | Some v \<Rightarrow> replace_all v redacted out)"

definition redact_query_values :: "'u web \<Rightarrow> string \<Rightarrow> 'u \<Rightarrow> string" where
  "redact_query_values wb txt u =
     (case u_query wb u of None \<Rightarrow> txt | Some q \<Rightarrow> fold redact_value (split_on (CHR ''&'') q) txt)"

definition fetch_json :: "'u web \<Rightarrow> 'u \<Rightarrow> host_fn_error + json" where
  "fetch_json wb u =
     (case w_get wb u of
        SendFailed e \<Rightarrow> Inl (HttpFailure (redact_query_values wb e u))
      | BadStatus st \<Rightarrow> Inl (HttpFailure (''status '' @ st))
      | BodyFailed e \<Rightarrow> Inl (HttpFailure (redact_query_values wb e u))
      | Body bs \<Rightarrow> Inr (case w_json wb bs of Some v \<Rightarrow> v | None \<Rightarrow> JStr (trim (w_lossy wb bs))))"

section \<open>The calls\<close>

record skill_ctx =
  sk_name :: string
  sk_http_allowlist :: "string list"
  sk_mqtt_allowlist :: "string list"
  sk_config :: "string \<Rightarrow> string option"
  sk_retention :: "u64 option"
  sk_config_file :: "string option"

record 'u host_world =
  hw_db :: sqlite
  hw_tmp :: tmp_store
  hw_mqtt :: "(string \<times> byte list) list"
  hw_http :: "'u list"
  hw_bus :: "event list"

record host_env =
  e_now_ms :: int
  e_now_sec :: u64
  e_store_up :: bool
  e_mqtt_up :: bool
  e_receivers :: nat
  e_session :: session_id
  e_offset_sec :: int
  e_read_file :: "string \<Rightarrow> byte list option"
  e_config_json :: "(string \<Rightarrow> string option) \<Rightarrow> byte list"

datatype host_ret = Trap string | Nothing | Bytes "byte list" | Code int | JsonOut json | LocalTime int int

datatype log_level = LError | LWarn | LInfo | LDebug | LTrace

definition log_line :: "string \<Rightarrow> log_level" where
  "log_line level =
     (let l = ascii_lower level in
      if l = ''error'' then LError else if l = ''warn'' then LWarn else if l = ''debug'' then LDebug
      else if l = ''trace'' then LTrace else LInfo)"

definition mqtt_ok :: int where "mqtt_ok = 0"
definition mqtt_err_acl :: int where "mqtt_err_acl = 1"
definition mqtt_err_client :: int where "mqtt_err_client = 2"
definition sched_err_acl :: int where "sched_err_acl = - 1"
definition sched_err_store :: int where "sched_err_store = - 2"

type_synonym 'u host_fn = "'u host_world \<Rightarrow> host_ret \<times> 'u host_world"

definition host_config_get :: "skill_ctx \<Rightarrow> host_env \<Rightarrow> 'u host_fn" where
  "host_config_get ctx en w =
     (Bytes (case sk_config_file ctx of
               Some path \<Rightarrow> (case e_read_file en path of Some bs \<Rightarrow> bs | None \<Rightarrow> [])
             | None \<Rightarrow> e_config_json en (sk_config ctx)), w)"

definition host_local_time :: "host_env \<Rightarrow> 'u host_fn" where
  "host_local_time en w = (LocalTime (e_now_ms en) (e_offset_sec en), w)"

definition host_state_get :: "skill_ctx \<Rightarrow> host_env \<Rightarrow> string \<Rightarrow> 'u host_fn" where
  "host_state_get ctx en key w =
     (if \<not> e_store_up en then (Trap ''skill_kv_get failed'', w)
      else (Bytes (case skill_kv_get (sk_name ctx) key (hw_db w) of Some v \<Rightarrow> v | None \<Rightarrow> []), w))"

text \<open>\<open>saturating_sub\<close> on \<open>u64\<close>.\<close>

definition sat_sub64 :: "u64 \<Rightarrow> u64 \<Rightarrow> u64" where
  "sat_sub64 a b = (if b \<le> a then a - b else 0)"

text \<open>The row is stamped with the database's clock, in whole seconds.\<close>

definition host_state_set :: "skill_ctx \<Rightarrow> host_env \<Rightarrow> string \<Rightarrow> byte list \<Rightarrow> 'u host_fn" where
  "host_state_set ctx en key v w =
     (if \<not> e_store_up en then (Trap ''skill_kv_set failed'', w)
      else
        (let db1 = skill_kv_set (e_now_ms en div 1000) (sk_name ctx) key v (hw_db w);
             db2 = (case sk_retention ctx of
                      None \<Rightarrow> db1
                    | Some ttl \<Rightarrow> skill_kv_gc (sk_name ctx) (sat_sub64 (e_now_sec en) ttl) db1)
         in (Nothing, w\<lparr>hw_db := db2\<rparr>)))"

definition host_mqtt_publish :: "skill_ctx \<Rightarrow> host_env \<Rightarrow> string \<Rightarrow> byte list \<Rightarrow> 'u host_fn" where
  "host_mqtt_publish ctx en topic payload w =
     (if mqtt_publish_allowed (sk_name ctx) topic (sk_mqtt_allowlist ctx) then
        (if e_mqtt_up en then (Code mqtt_ok, w\<lparr>hw_mqtt := hw_mqtt w @ [(topic, payload)]\<rparr>)
         else (Code mqtt_err_client, w))
      else (Code mqtt_err_acl, w))"

definition host_http_get_json :: "'u web \<Rightarrow> skill_ctx \<Rightarrow> string \<Rightarrow> 'u host_fn" where
  "host_http_get_json wb ctx s w =
     (let (response, w1) =
        (case http_url_allowed wb (sk_http_allowlist ctx) s of
           Inr u \<Rightarrow> (fetch_json wb u, w\<lparr>hw_http := hw_http w @ [u]\<rparr>)
         | Inl e \<Rightarrow> (Inl e, w))
      in (JsonOut (case response of Inr v \<Rightarrow> v | Inl e \<Rightarrow> JObj [(''error'', JStr (host_fn_error_text e))]), w1))"

definition host_schedule_mqtt :: "skill_ctx \<Rightarrow> host_env \<Rightarrow> byte list \<Rightarrow> string \<Rightarrow> byte list \<Rightarrow> 'u host_fn" where
  "host_schedule_mqtt ctx en fires topic payload w =
     (if length fires \<noteq> 8 then (Trap ''fires_at_ms must be 8 bytes'', w)
      else if mqtt_topic_allowed (sk_name ctx) topic then
        (if e_store_up en then
           (let (i, db) = schedule_event (e_now_ms en) (sk_name ctx) (sint (word_rcat (rev fires) :: i64)) topic payload (hw_db w)
            in (Code (int i), w\<lparr>hw_db := db\<rparr>))
         else (Code sched_err_store, w))
      else (Code sched_err_acl, w))"

text \<open>\<open>chunks_exact(4)\<close>: samples are the 4-byte groups, kept as their bits.\<close>

fun samples_of :: "byte list \<Rightarrow> u32 list" where
  "samples_of (a # b # c # d # bs) = from_le32 [a, b, c, d] # samples_of bs"
| "samples_of _ = []"

definition emit_audio :: "host_env \<Rightarrow> event \<Rightarrow> 'u host_fn" where
  "emit_audio en ev w = (Nothing, if e_receivers en > 0 then w\<lparr>hw_bus := hw_bus w @ [ev]\<rparr> else w)"

definition host_play_pcm :: "host_env \<Rightarrow> u32 \<Rightarrow> byte list \<Rightarrow> 'u host_fn" where
  "host_play_pcm en rate bs =
     emit_audio en (AudioChunk (e_session en) F32le rate (concat (map le_bytes32 (samples_of bs))))"

definition host_play_opus :: "host_env \<Rightarrow> byte list \<Rightarrow> 'u host_fn" where
  "host_play_opus en frames = emit_audio en (AudioChunk (e_session en) Opus 48000 frames)"

definition host_tmp_set :: "host_env \<Rightarrow> string \<Rightarrow> string \<Rightarrow> byte list \<Rightarrow> u64 \<Rightarrow> 'u host_fn" where
  "host_tmp_set en skill key v expires w =
     (Nothing, w\<lparr>hw_tmp := tmp_set (e_now_sec en) skill key v expires (hw_tmp w)\<rparr>)"

definition host_tmp_get :: "host_env \<Rightarrow> string \<Rightarrow> string \<Rightarrow> 'u host_fn" where
  "host_tmp_get en skill key w =
     (let (r, m) = tmp_get (e_now_sec en) skill key (hw_tmp w)
      in (Bytes (case r of Some v \<Rightarrow> v | None \<Rightarrow> []), w\<lparr>hw_tmp := m\<rparr>))"

datatype host_call =
    CLog string string
  | CConfigGet
  | CLocalTime
  | CStateGet string
  | CStateSet string "byte list"
  | CMqttPublish string "byte list"
  | CHttpGetJson string
  | CScheduleMqtt "byte list" string "byte list"
  | CPlayPcm u32 "byte list"
  | CPlayOpus "byte list"
  | CTmpSet string string "byte list" u64
  | CTmpGet string string

fun host_function :: "'u web \<Rightarrow> skill_ctx \<Rightarrow> host_env \<Rightarrow> host_call \<Rightarrow> 'u host_fn" where
  "host_function wb ctx en (CLog level msg) w = (Nothing, w)"
| "host_function wb ctx en CConfigGet w = host_config_get ctx en w"
| "host_function wb ctx en CLocalTime w = host_local_time en w"
| "host_function wb ctx en (CStateGet key) w = host_state_get ctx en key w"
| "host_function wb ctx en (CStateSet key v) w = host_state_set ctx en key v w"
| "host_function wb ctx en (CMqttPublish topic p) w = host_mqtt_publish ctx en topic p w"
| "host_function wb ctx en (CHttpGetJson s) w = host_http_get_json wb ctx s w"
| "host_function wb ctx en (CScheduleMqtt fires topic p) w = host_schedule_mqtt ctx en fires topic p w"
| "host_function wb ctx en (CPlayPcm rate bs) w = host_play_pcm en rate bs w"
| "host_function wb ctx en (CPlayOpus bs) w = host_play_opus en bs w"
| "host_function wb ctx en (CTmpSet skill key v expires) w = host_tmp_set en skill key v expires w"
| "host_function wb ctx en (CTmpGet skill key) w = host_tmp_get en skill key w"

text \<open>A guest's run: its calls, each in the environment it meets.\<close>

definition guest_run :: "'u web \<Rightarrow> skill_ctx \<Rightarrow> (host_env \<times> host_call) list \<Rightarrow> 'u host_world \<Rightarrow> 'u host_world" where
  "guest_run wb ctx calls w = fold (\<lambda>(en, c) w. snd (host_function wb ctx en c w)) calls w"

section \<open>Topic filters\<close>

text \<open>The MQTT rule: the levels before a final \<open>#\<close> cover a prefix of the topic's levels, else all of them;
  a level is covered by itself or by \<open>+\<close>; a \<open>#\<close> anywhere else covers nothing.\<close>

definition covers :: "string \<Rightarrow> string \<Rightarrow> bool" where
  "covers p t \<longleftrightarrow> p \<noteq> ''#'' \<and> (p = ''+'' \<or> p = t)"

definition filter_covers :: "string \<Rightarrow> string \<Rightarrow> bool" where
  "filter_covers pattern topic \<longleftrightarrow>
     (let ps = split_on (CHR ''/'') pattern; ts = split_on (CHR ''/'') topic in
      if last ps = ''#'' then list_all2 covers (butlast ps) (take (length ps - 1) ts)
      else list_all2 covers ps ts)"

lemma match_levels_spec:
  assumes "n = i + length ps" "i \<le> length ts" "ps \<noteq> [] \<or> n = length ts \<or> True"
  shows "match_levels n ts i ps \<longleftrightarrow>
    (if ps \<noteq> [] \<and> last ps = ''#'' then list_all2 covers (butlast ps) (take (length ps - 1) (drop i ts))
     else list_all2 covers ps (drop i ts))"
  using assms
proof (induction n ts i ps rule: match_levels.induct)
  case (1 n ts i)
  then show ?case by auto
next
  case (2 n ts i p ps)
  show ?case
  proof (cases "p = ''#''")
    case True
    then show ?thesis using 2(3) by (cases ps) (auto simp: covers_def list_all2_Cons1)
  next
    case p: False
    show ?thesis
    proof (cases "length ts \<le> i")
      case True
      then show ?thesis using p by (cases ps) auto
    next
      case False
      then have d: "drop i ts = ts ! i # drop (Suc i) ts" by (simp add: Cons_nth_drop_Suc)
      have c: "covers p (ts ! i) \<longleftrightarrow> p = ''+'' \<or> p = ts ! i" using p by (simp add: covers_def)
      have IH: "match_levels n ts (i + 1) ps \<longleftrightarrow>
          (if ps \<noteq> [] \<and> last ps = ''#'' then list_all2 covers (butlast ps) (take (length ps - 1) (drop (Suc i) ts))
           else list_all2 covers ps (drop (Suc i) ts))" if "covers p (ts ! i)"
        using 2 p False that c by (cases "p = ''+''") auto
      show ?thesis
        using p False c IH d by (cases ps) (auto simp: covers_def)
    qed
  qed
qed

lemma mqtt_topic_matches_iff: "mqtt_topic_matches pattern topic \<longleftrightarrow> filter_covers pattern topic"
  using match_levels_spec [of "length (split_on (CHR ''/'') pattern)" 0 "split_on (CHR ''/'') pattern" "split_on (CHR ''/'') topic"]
  by (simp add: mqtt_topic_matches_def filter_covers_def Let_def)


text \<open>C33: publish access is exactly the skill's own namespace plus the topics its allowlist's MQTT filters cover:
  the level-by-level loop agrees with the MQTT rule on every filter and topic, an empty allowlist grants
  nothing beyond the namespace, and the namespaces of two different skills share no topic.\<close>

theorem publish_access_exact:
  assumes "CHR ''/'' \<notin> set s" "CHR ''/'' \<notin> set s'"
  shows "(mqtt_publish_allowed s topic al \<longleftrightarrow>
       (\<exists>rest. topic = ''athena/skills/'' @ s @ ''/'' @ rest) \<or> (\<exists>p \<in> set al. filter_covers p topic))
    \<and> (mqtt_publish_allowed s topic [] \<and> mqtt_publish_allowed s' topic [] \<longrightarrow> s = s')"
proof
  show "mqtt_publish_allowed s topic al \<longleftrightarrow>
       (\<exists>rest. topic = ''athena/skills/'' @ s @ ''/'' @ rest) \<or> (\<exists>p \<in> set al. filter_covers p topic)"
    by (auto simp: mqtt_publish_allowed_def mqtt_topic_allowed_def mqtt_topic_prefix_def mqtt_topic_matches_iff
        list_ex_iff prefix_def)
  show "mqtt_publish_allowed s topic [] \<and> mqtt_publish_allowed s' topic [] \<longrightarrow> s = s'"
    using assms split_on_append [of "CHR ''/''" s] split_on_append [of "CHR ''/''" s']
    by (auto simp: mqtt_publish_allowed_def mqtt_topic_allowed_def mqtt_topic_prefix_def prefix_def)
       (metis list.inject)
qed

theorem publish_access_exact_witness:
  "mqtt_publish_allowed ''home'' ''zb/salon/set'' [''zb/+/set''] \<and> \<not> mqtt_publish_allowed ''home'' ''zb/salon/get'' [''zb/+/set'']
   \<and> \<not> mqtt_publish_allowed ''home'' ''athena/skills/timer/x'' []"
proof -
  have "filter_covers ''zb/+/set'' ''zb/salon/set''" "\<not> filter_covers ''zb/+/set'' ''zb/salon/get''"
    by (simp_all add: filter_covers_def covers_def Let_def)
  then show ?thesis
    using publish_access_exact [of "''home''" "''timer''" "''zb/salon/set''" "[''zb/+/set'']"]
      publish_access_exact [of "''home''" "''timer''" "''zb/salon/get''" "[''zb/+/set'']"]
      publish_access_exact [of "''home''" "''timer''" "''athena/skills/timer/x''" "[]"]
    by (simp add: set_eq_subset)
qed

section \<open>What a guest can reach\<close>

definition reachable_url :: "'u web \<Rightarrow> string list \<Rightarrow> 'u \<Rightarrow> bool" where
  "reachable_url wb al u \<longleftrightarrow> u_scheme wb u \<in> {''http'', ''https''} \<and> (\<exists>h \<in> set al. u_host wb u = Some h)"

definition sqlite_rest :: "sqlite \<Rightarrow> sqlite" where
  "sqlite_rest db = db\<lparr>skill_kv := [], scheduled := [], next_sched := 0\<rparr>"

definition others :: "string \<Rightarrow> sqlite \<Rightarrow> ((string \<times> string) \<times> (int \<times> byte list)) list" where
  "others n db = filter (\<lambda>((s, k), _). s \<noteq> n) (skill_kv db)"

definition confined :: "'u web \<Rightarrow> skill_ctx \<Rightarrow> 'u host_world \<Rightarrow> 'u host_world \<Rightarrow> bool" where
  "confined wb ctx w w' \<longleftrightarrow>
     (\<exists>ms us evs.
        hw_mqtt w' = hw_mqtt w @ ms \<and> (\<forall>(t, p) \<in> set ms. mqtt_publish_allowed (sk_name ctx) t (sk_mqtt_allowlist ctx))
        \<and> hw_http w' = hw_http w @ us \<and> (\<forall>u \<in> set us. reachable_url wb (sk_http_allowlist ctx) u)
        \<and> scheduled (hw_db w') = scheduled (hw_db w) @ evs
        \<and> (\<forall>e \<in> set evs. sv_skill e = sk_name ctx \<and> mqtt_topic_allowed (sk_name ctx) (sv_topic e)))
     \<and> others (sk_name ctx) (hw_db w') = others (sk_name ctx) (hw_db w)
     \<and> sqlite_rest (hw_db w') = sqlite_rest (hw_db w)"

lemma confined_refl [intro]: "confined wb ctx w w"
  unfolding confined_def by (intro conjI exI [of _ "[]"]) simp_all

lemma confined_trans:
  assumes "confined wb ctx w1 w2" "confined wb ctx w2 w3"
  shows "confined wb ctx w1 w3"
proof -
  obtain ms us evs where a: "hw_mqtt w2 = hw_mqtt w1 @ ms" "hw_http w2 = hw_http w1 @ us"
      "scheduled (hw_db w2) = scheduled (hw_db w1) @ evs"
      "\<forall>(t, p) \<in> set ms. mqtt_publish_allowed (sk_name ctx) t (sk_mqtt_allowlist ctx)"
      "\<forall>u \<in> set us. reachable_url wb (sk_http_allowlist ctx) u"
      "\<forall>e \<in> set evs. sv_skill e = sk_name ctx \<and> mqtt_topic_allowed (sk_name ctx) (sv_topic e)"
    using assms(1) unfolding confined_def by blast
  obtain ms' us' evs' where b: "hw_mqtt w3 = hw_mqtt w2 @ ms'" "hw_http w3 = hw_http w2 @ us'"
      "scheduled (hw_db w3) = scheduled (hw_db w2) @ evs'"
      "\<forall>(t, p) \<in> set ms'. mqtt_publish_allowed (sk_name ctx) t (sk_mqtt_allowlist ctx)"
      "\<forall>u \<in> set us'. reachable_url wb (sk_http_allowlist ctx) u"
      "\<forall>e \<in> set evs'. sv_skill e = sk_name ctx \<and> mqtt_topic_allowed (sk_name ctx) (sv_topic e)"
    using assms(2) unfolding confined_def by blast
  have kv: "others (sk_name ctx) (hw_db w3) = others (sk_name ctx) (hw_db w1)"
    using assms unfolding confined_def by simp
  have rest: "sqlite_rest (hw_db w3) = sqlite_rest (hw_db w1)"
    using assms unfolding confined_def by simp
  show ?thesis
    unfolding confined_def
    by (intro conjI exI [of _ "ms @ ms'"] exI [of _ "us @ us'"] exI [of _ "evs @ evs'"])
       (use a b kv rest in auto)
qed

lemma filter_update_other: "\<not> P (k, v) \<Longrightarrow> (\<And>v'. \<not> P (k, v')) \<Longrightarrow> filter P (AList.update k v xs) = filter P xs"
  by (induction xs) auto

lemma kv_set_other [simp]: "others n (skill_kv_set t n key v db) = others n db"
  unfolding others_def skill_kv_set_def by (simp add: filter_update_other)

lemma kv_gc_other [simp]: "others n (skill_kv_gc n t db) = others n db"
  unfolding others_def skill_kv_gc_def by (auto intro!: filter_cong)

lemma http_url_allowed_Inr: "http_url_allowed wb al s = Inr u \<Longrightarrow> u_parse wb s = Inr u \<and> reachable_url wb al u"
  by (auto simp: http_url_allowed_def reachable_url_def list_ex_iff split: sum.splits if_splits option.splits)

lemma confined_db:
  assumes "hw_mqtt w' = hw_mqtt w" "hw_http w' = hw_http w" "scheduled (hw_db w') = scheduled (hw_db w)"
    "sqlite_rest (hw_db w') = sqlite_rest (hw_db w)"
    "others (sk_name ctx) (hw_db w') = others (sk_name ctx) (hw_db w)"
  shows "confined wb ctx w w'"
  unfolding confined_def
  by (intro conjI exI [of _ "[]"]) (use assms in simp_all)

lemma state_set_confined: "confined wb ctx w (snd (host_state_set ctx en key v w))"
proof (rule confined_db)
  show "others (sk_name ctx) (hw_db (snd (host_state_set ctx en key v w))) = others (sk_name ctx) (hw_db w)"
    by (simp add: host_state_set_def Let_def split: option.split)
qed (auto simp: host_state_set_def Let_def sqlite_rest_def skill_kv_set_def skill_kv_gc_def split: option.split)

lemma publish_confined: "confined wb ctx w (snd (host_mqtt_publish ctx en topic p w))"
proof (cases "mqtt_publish_allowed (sk_name ctx) topic (sk_mqtt_allowlist ctx) \<and> e_mqtt_up en")
  case True
  then show ?thesis
    unfolding confined_def
    by (intro conjI exI [of _ "[(topic, p)]"] exI [of _ "[]"]) (simp_all add: host_mqtt_publish_def)
qed (auto simp: host_mqtt_publish_def)

lemma http_confined: "confined wb ctx w (snd (host_http_get_json wb ctx s w))"
proof (cases "http_url_allowed wb (sk_http_allowlist ctx) s")
  case (Inr u)
  then show ?thesis
    using http_url_allowed_Inr [OF Inr] unfolding confined_def
    by (intro conjI exI [of _ "[u]"] exI [of _ "[]"]) (simp_all add: host_http_get_json_def)
qed (auto simp: host_http_get_json_def)

lemma schedule_confined: "confined wb ctx w (snd (host_schedule_mqtt ctx en fires topic p w))"
proof (cases "length fires = 8 \<and> mqtt_topic_allowed (sk_name ctx) topic \<and> e_store_up en")
  case True
  show ?thesis
    unfolding confined_def
    by (intro conjI exI [of _ "[]"] exI [of _ "drop (length (scheduled (hw_db w)))
          (scheduled (hw_db (snd (host_schedule_mqtt ctx en fires topic p w))))"])
       (use True in \<open>simp_all add: host_schedule_mqtt_def schedule_event_def sqlite_rest_def others_def\<close>)
qed (auto simp: host_schedule_mqtt_def)

lemmas call_defs = host_config_get_def host_local_time_def host_state_get_def host_play_pcm_def host_play_opus_def
  emit_audio_def host_tmp_set_def host_tmp_get_def

lemma call_confined: "confined wb ctx w (snd (host_function wb ctx en c w))"
proof (cases c)
  case (CStateSet key v) then show ?thesis by (simp add: state_set_confined)
next
  case (CMqttPublish t p) then show ?thesis by (simp add: publish_confined)
next
  case (CHttpGetJson s) then show ?thesis by (simp add: http_confined)
next
  case (CScheduleMqtt f t p) then show ?thesis by (simp add: schedule_confined)
qed (auto simp: call_defs split_beta intro: confined_db)

lemma guest_run_confined: "confined wb ctx w (guest_run wb ctx calls w)"
proof (induction calls arbitrary: w)
  case (Cons c calls)
  then show ?case
    using call_confined confined_trans by (cases c) (fastforce simp: guest_run_def)
qed (auto simp: guest_run_def)


section \<open>Redaction\<close>

text \<open>A value overlaps the marker when an occurrence of it could use letters of the marker.\<close>

definition overlaps_marker :: "string \<Rightarrow> bool" where
  "overlaps_marker v \<longleftrightarrow> sublist v redacted \<or> sublist redacted v
     \<or> list_ex (\<lambda>i. prefix (drop i redacted) v \<or> suffix (take (i + 1) redacted) v) [0 ..< 8]"

lemma marker_suffix: "suffix x redacted \<Longrightarrow> x \<noteq> [] \<Longrightarrow> prefix x v \<Longrightarrow> overlaps_marker v"
proof -
  assume x: "suffix x redacted" "x \<noteq> []" "prefix x v"
  then obtain zs where zs: "redacted = zs @ x" by (auto simp: suffix_def)
  have "length zs + length x = 8" using arg_cong [OF zs, of length] by (simp add: redacted_def)
  then have "length zs \<in> set [0 ..< 8]" using x(2) by (cases x) auto
  moreover have "prefix (drop (length zs) redacted) v" using x(3) by (simp add: zs)
  ultimately show ?thesis unfolding overlaps_marker_def list_ex_iff by blast
qed

lemma marker_prefix: "prefix x redacted \<Longrightarrow> x \<noteq> [] \<Longrightarrow> suffix x v \<Longrightarrow> overlaps_marker v"
proof -
  assume x: "prefix x redacted" "x \<noteq> []" "suffix x v"
  then obtain zs where zs: "redacted = x @ zs" by (auto simp: prefix_def)
  have "length x + length zs = 8" using arg_cong [OF zs, of length] by (simp add: redacted_def)
  then have "length x - 1 \<in> set [0 ..< 8]" "length x - 1 + 1 = length x" using x(2) by (cases x; simp)+
  moreover have "suffix (take (length x) redacted) v" using x(3) by (simp add: zs)
  ultimately show ?thesis unfolding overlaps_marker_def list_ex_iff by metis
qed

lemma sublist_around_marker:
  assumes "\<not> overlaps_marker v" "sublist v (a @ redacted @ b)"
  shows "sublist v a \<or> sublist v b"
proof -
  have no: "\<not> sublist v redacted" "\<not> sublist redacted v" using assms(1) by (auto simp: overlaps_marker_def)
  consider "sublist v a" | "sublist v (redacted @ b)"
    | v1 v2 where "v = v1 @ v2" "suffix v1 a" "prefix v2 (redacted @ b)"
    using assms(2) by (auto simp: sublist_append)
  then show ?thesis
  proof cases
    case 2
    then consider "sublist v b" | v1 v2 where "v = v1 @ v2" "suffix v1 redacted" "prefix v2 b"
      using no by (auto simp: sublist_append)
    then show ?thesis
    proof cases
      case 2
      moreover from 2 have "prefix v1 v" by simp
      ultimately have "v1 = []" using marker_suffix [of v1 v] assms(1) by blast
      then show ?thesis using 2 by (simp add: prefix_imp_sublist)
    qed simp
  next
    case (3 v1 v2)
    show ?thesis
    proof (cases "prefix v2 redacted")
      case True
      moreover have "suffix v2 v" using 3(1) by (simp add: suffix_def)
      ultimately have "v2 = []" using marker_prefix [of v2 v] assms(1) by blast
      then show ?thesis using 3 by (simp add: suffix_imp_sublist)
    next
      case False
      then have "prefix redacted v2" using 3(3) by (auto simp: prefix_append)
      then show ?thesis using no 3(1) by (auto simp: prefix_def sublist_def)
    qed
  qed simp
qed

lemma sublist_join_marker:
  "\<not> overlaps_marker v \<Longrightarrow> sublist v (join redacted segs) \<Longrightarrow> segs \<noteq> [] \<Longrightarrow> \<exists>g \<in> set segs. sublist v g"
proof (induction segs)
  case (Cons w ws)
  then show ?case using sublist_around_marker [of v w "join redacted ws"] by (cases ws) auto
qed simp

lemma seg_in_join: "g \<in> set segs \<Longrightarrow> sublist g (join u segs)"
proof (induction segs)
  case (Cons w ws)
  show ?case
  proof (cases "ws = []")
    case False
    then have "join u (w # ws) = (w @ u) @ join u ws" "join u (w # ws) = [] @ w @ (u @ join u ws)" by (cases ws; simp)+
    then show ?thesis using Cons sublist_order.order.trans by (metis set_ConsD sublist_append_leftI sublist_appendI)
  qed (use Cons in simp)
qed simp

lemma join_Cons_head: "join u ((c # g) # gs) = c # join u (g # gs)"
  by (cases gs) simp_all

lemma replace_all_segments:
  assumes "u \<noteq> []"
  shows "\<exists>segs. segs \<noteq> [] \<and> s = join u segs \<and> replace_all u r s = join r segs \<and> (\<forall>g \<in> set segs. \<not> sublist u g)"
proof (induction s rule: length_induct)
  case (1 s)
  show ?case
  proof (cases s)
    case Nil
    then show ?thesis using assms by (intro exI [of _ "[[]]"]) (simp add: replace_all.simps)
  next
    case (Cons c cs)
    show ?thesis
    proof (cases "prefix u s")
      case True
      then have "length (drop (length u) s) < length s" using assms Cons by simp
      with 1 obtain segs where segs: "segs \<noteq> []" "drop (length u) s = join u segs"
        "replace_all u r (drop (length u) s) = join r segs" "\<forall>g \<in> set segs. \<not> sublist u g" by blast
      have eq: "s = u @ drop (length u) s" using True by (auto simp: prefix_def)
      have "replace_all u r s = r @ replace_all u r (drop (length u) s)"
        using True assms Cons by (subst replace_all.simps) simp
      moreover obtain g gs where "segs = g # gs" using segs(1) by (cases segs) auto
      ultimately have "s = join u ([] # segs)" "replace_all u r s = join r ([] # segs)"
        using segs eq by simp_all
      moreover have "\<forall>g \<in> set ([] # segs). \<not> sublist u g" using segs(4) assms by simp
      ultimately show ?thesis by blast
    next
      case False
      have "length cs < length s" using Cons by simp
      with 1 obtain segs where segs: "segs \<noteq> []" "cs = join u segs" "replace_all u r cs = join r segs"
        "\<forall>g \<in> set segs. \<not> sublist u g" by blast
      obtain g gs where gs: "segs = g # gs" using segs(1) by (cases segs) auto
      have "replace_all u r s = c # replace_all u r cs"
        using False assms Cons by (subst replace_all.simps) simp
      then have s: "s = join u ((c # g) # gs)" "replace_all u r s = join r ((c # g) # gs)"
        using segs(2,3) Cons gs by (simp_all add: join_Cons_head)
      have "prefix (c # g) s" unfolding s(1) by (cases gs) simp_all
      then have "\<not> prefix u (c # g)" using False prefix_order.trans by blast
      then have "\<forall>g \<in> set ((c # g) # gs). \<not> sublist u g" using segs(4) gs by (auto simp: sublist_Cons_right)
      then show ?thesis using s by blast
    qed
  qed
qed

lemma replace_all_hides:
  assumes "u \<noteq> []" "\<not> overlaps_marker v" "v = u \<or> \<not> sublist v s"
  shows "\<not> sublist v (replace_all u redacted s)"
proof
  assume "sublist v (replace_all u redacted s)"
  with replace_all_segments [OF assms(1), of s redacted]
  obtain segs where segs: "segs \<noteq> []" "s = join u segs" "sublist v (join redacted segs)" "\<forall>g \<in> set segs. \<not> sublist u g"
    by metis
  from sublist_join_marker [OF assms(2) this(3,1)] obtain g where "g \<in> set segs" "sublist v g" by blast
  then show False using assms(3) segs seg_in_join [of g segs u] sublist_order.order.trans by blast
qed

lemma pair_value_ne: "pair_value p = Some v \<Longrightarrow> v \<noteq> []"
  by (auto simp: pair_value_def split: option.splits if_splits)

lemma redact_keeps_hidden:
  "\<not> overlaps_marker v \<Longrightarrow> \<not> sublist v out \<Longrightarrow> \<not> sublist v (fold redact_value ps out)"
  by (induction ps arbitrary: out) (auto simp: redact_value_def replace_all_hides pair_value_ne split: option.split)

lemma redact_hides:
  "p \<in> set ps \<Longrightarrow> pair_value p = Some v \<Longrightarrow> \<not> overlaps_marker v \<Longrightarrow> \<not> sublist v (fold redact_value ps out)"
proof (induction ps arbitrary: out)
  case (Cons p' ps)
  show ?case
  proof (cases "p = p'")
    case True
    then have "\<not> sublist v (redact_value p' out)"
      using Cons.prems replace_all_hides [of v v out] pair_value_ne by (simp add: redact_value_def)
    then show ?thesis using redact_keeps_hidden Cons.prems by simp
  qed (use Cons in simp)
qed simp

text \<open>C34: secrets in a request's query string do not leak through transport errors: whatever the HTTP client's
  error text, what the guest is given back contains no non-empty value of a query parameter, unless the
  value overlaps the marker that replaces it.\<close>

theorem errors_hide_query_values:
  assumes "w_get wb u \<in> {SendFailed e, BodyFailed e}" "u_query wb u = Some q"
    and "p \<in> set (split_on (CHR ''&'') q)" "pair_value p = Some v" "\<not> overlaps_marker v"
  shows "\<exists>m. fetch_json wb u = Inl (HttpFailure m) \<and> \<not> sublist v m"
  using assms redact_hides [of p "split_on (CHR ''&'') q" v e]
  by (auto simp: fetch_json_def redact_query_values_def)

definition demo_web :: "string web" where
  "demo_web = \<lparr>u_parse = Inr, u_scheme = (\<lambda>_. ''http''), u_host = (\<lambda>_. Some ''box''),
     u_query = (\<lambda>_. Some ''apikey=k9Zq&id=''), w_get = (\<lambda>u. SendFailed (''no route to '' @ u)),
     w_json = (\<lambda>_. None), w_lossy = (\<lambda>_. [])\<rparr>"

theorem errors_hide_query_values_witness:
  "\<exists>m. fetch_json demo_web ''http://box/?apikey=k9Zq&id='' = Inl (HttpFailure m) \<and> \<not> sublist ''k9Zq'' m"
proof (rule errors_hide_query_values)
  show "w_get demo_web ''http://box/?apikey=k9Zq&id=''
      \<in> {SendFailed ''no route to http://box/?apikey=k9Zq&id='', BodyFailed ''no route to http://box/?apikey=k9Zq&id=''}"
    by (simp add: demo_web_def)
  show "u_query demo_web ''http://box/?apikey=k9Zq&id='' = Some ''apikey=k9Zq&id=''" by (simp add: demo_web_def)
  show "''apikey=k9Zq'' \<in> set (split_on (CHR ''&'') ''apikey=k9Zq&id='')" by simp
  show "pair_value ''apikey=k9Zq'' = Some ''k9Zq''" by (simp add: pair_value_def)
  show "\<not> overlaps_marker ''k9Zq''"
    by (simp add: overlaps_marker_def redacted_def sublist_Cons_right suffix_def upt_rec Cons_eq_append_conv)
qed

section \<open>State and retention\<close>

lemma sint_u64: "sint x = (if uint x < 2 ^ 63 then uint x else uint x - 2 ^ 64)" for x :: u64
proof -
  have b: "0 \<le> uint x" "uint x < 2 ^ 64" using uint_lt2p [of x] by simp_all
  have s: "sint x = (uint x + 2 ^ 63) mod 2 ^ 64 - 2 ^ 63"
    by (simp add: sint_uint signed_take_bit_eq_take_bit_shift take_bit_eq_mod)
  show ?thesis
  proof (cases "uint x < 2 ^ 63")
    case False
    then have "(uint x + 2 ^ 63) mod 2 ^ 64 = uint x + 2 ^ 63 - 2 ^ 64"
      using b by (simp add: mod_pos_geq mod_pos_pos_trivial)
    then show ?thesis using s False by simp
  qed (use b s in \<open>simp add: mod_pos_pos_trivial\<close>)
qed

lemma sweep_spares:
  assumes "0 < sint now"
  shows "sint now \<le> sint (sat_sub64 now ttl) \<longleftrightarrow> ttl = 0"
proof -
  have small: "uint now < 2 ^ 63" and pos: "0 < uint now"
    using assms uint_lt2p [of now] by (auto simp: sint_u64 split: if_splits)
  have sub: "uint (sat_sub64 now ttl) = (if uint ttl \<le> uint now then uint now - uint ttl else 0)"
    by (simp add: sat_sub64_def word_le_def uint_sub_if')
  have "uint (sat_sub64 now ttl) \<le> uint now" by (simp add: sub)
  then have eq: "sint (sat_sub64 now ttl) = uint (sat_sub64 now ttl)" "sint now = uint now"
    using small by (simp_all add: sint_u64)
  have "uint ttl = 0 \<longleftrightarrow> ttl = 0" "0 \<le> uint ttl" by (simp_all add: uint_0_iff)
  then show ?thesis unfolding eq sub using pos by (auto split: if_splits)
qed

lemma map_of_filter_none: "k \<notin> fst ` set xs \<Longrightarrow> map_of (filter P xs) k = None"
  by (auto simp: map_of_eq_None_iff)

lemma map_of_filter_update:
  assumes "distinct (map fst xs)"
  shows "map_of (filter P (AList.update k v xs)) k = (if P (k, v) then Some v else None)"
  using assms by (induction xs) (auto simp: map_of_filter_none)

text \<open>State just written reads back, unless the skill's retention is configured as zero seconds, in which
  case the sweep that follows the write deletes the key at once; the sweep touches only keys older than
  the retention period.\<close>

theorem state_set_get:
  assumes "e_store_up en" "sint (e_now_sec en) = e_now_ms en div 1000" "0 < e_now_ms en div 1000"
    and "distinct (map fst (skill_kv (hw_db w)))"
  shows "fst (host_state_get ctx en k (snd (host_state_set ctx en k v w)))
     = Bytes (if sk_retention ctx = Some 0 then [] else v)"
proof (cases "sk_retention ctx")
  case None
  then show ?thesis
    using assms(1) by (simp add: host_state_set_def host_state_get_def skill_kv_get_def skill_kv_set_def update_conv')
next
  case (Some ttl)
  have "skill_kv_get (sk_name ctx) k (skill_kv_gc (sk_name ctx) (sat_sub64 (e_now_sec en) ttl)
      (skill_kv_set (e_now_ms en div 1000) (sk_name ctx) k v (hw_db w))) = (if ttl = 0 then None else Some v)"
    using sweep_spares [of "e_now_sec en" ttl] assms
    by (auto simp: skill_kv_get_def skill_kv_gc_def skill_kv_set_def map_of_filter_update)
  then show ?thesis
    using Some assms(1) by (simp add: host_state_set_def host_state_get_def Let_def)
qed

definition demo_ctx :: "u64 option \<Rightarrow> skill_ctx" where
  "demo_ctx r = \<lparr>sk_name = ''home'', sk_http_allowlist = [''box''], sk_mqtt_allowlist = [''zb/+/set''], sk_config = (\<lambda>_. None),
     sk_retention = r, sk_config_file = None\<rparr>"

definition demo_env :: host_env where
  "demo_env = \<lparr>e_now_ms = 5000, e_now_sec = 5, e_store_up = True, e_mqtt_up = True, e_receivers = 1, e_session = 0,
     e_offset_sec = 3600, e_read_file = (\<lambda>_. None), e_config_json = (\<lambda>_. [])\<rparr>"

definition demo_hosts :: "string host_world" where
  "demo_hosts = \<lparr>hw_db = sqlite_open, hw_tmp = [], hw_mqtt = [], hw_http = [], hw_bus = []\<rparr>"

theorem state_set_get_witness:
  "fst (host_state_get (demo_ctx None) demo_env ''k'' (snd (host_state_set (demo_ctx None) demo_env ''k'' [1] demo_hosts))) = Bytes [1]
   \<and> fst (host_state_get (demo_ctx (Some 0)) demo_env ''k'' (snd (host_state_set (demo_ctx (Some 0)) demo_env ''k'' [1] demo_hosts)))
       = Bytes []"
proof -
  have "e_store_up demo_env" "sint (e_now_sec demo_env) = e_now_ms demo_env div 1000" "0 < e_now_ms demo_env div 1000"
    "distinct (map fst (skill_kv (hw_db demo_hosts)))"
    by (simp_all add: demo_env_def demo_hosts_def sqlite_open_def)
  note at = state_set_get [OF this]
  show ?thesis unfolding at by (simp add: demo_ctx_def)
qed

end
