(* ===== verification/Skill_Types.thy ===== *)
theory Skill_Types
  imports Intent
begin

text \<open>
  The types of the skill SDK a guest exports (\<open>crates/athena-voice-skill-sdk/src/skill.rs\<close>, \<open>schema.rs\<close>): match
  rules and their host-side form, and configuration schemas.
\<close>

section \<open>Match rules\<close>

datatype slot_kind = SkString | SkNumber | SkOneOf "string list"

record slot_spec =
  ss_name :: string
  ss_kind :: slot_kind

record pattern_rule =
  pr_intent :: string
  pr_phrases :: "string list"
  pr_slots :: "slot_spec list"

fun host_kind :: "slot_kind \<Rightarrow> host_slot_kind" where
  "host_kind SkString = KString"
| "host_kind SkNumber = KNumber"
| "host_kind (SkOneOf v) = KOneOf v"

definition host_slot :: "slot_spec \<Rightarrow> host_slot_spec" where
  "host_slot s = \<lparr>slot_name = ss_name s, slot_kind = host_kind (ss_kind s)\<rparr>"

definition host_rule :: "pattern_rule \<Rightarrow> host_pattern_rule" where
  "host_rule r = \<lparr>r_intent = pr_intent r, r_phrases = pr_phrases r, r_slots = map host_slot (pr_slots r)\<rparr>"

section \<open>Configuration schemas\<close>

datatype field_kind = FkString | FkNumber | FkSecret | FkUrl | FkHost | FkList | FkBool

record item_field =
  if_key :: string
  if_kind :: field_kind
  if_required :: bool

record config_field =
  cf_key :: string
  cf_label :: string
  cf_kind :: field_kind
  cf_required :: bool
  cf_help :: string
  cf_default :: string
  cf_item_fields :: "item_field list"

type_synonym config_schema = "config_field list"

definition is_secret :: "config_field \<Rightarrow> bool" where
  "is_secret f = (cf_kind f = FkSecret)"

definition item :: "string \<Rightarrow> field_kind \<Rightarrow> bool \<Rightarrow> item_field" where
  "item k kind req = \<lparr>if_key = k, if_kind = kind, if_required = req\<rparr>"

definition field :: "string \<Rightarrow> string \<Rightarrow> field_kind \<Rightarrow> bool \<Rightarrow> string \<Rightarrow> item_field list \<Rightarrow> config_field" where
  "field k label kind req help items =
     \<lparr>cf_key = k, cf_label = label, cf_kind = kind, cf_required = req, cf_help = help, cf_default = [], cf_item_fields = items\<rparr>"

end
