(* ===== verification/Registry.thy ===== *)
theory Registry
  imports Host_Fns Skill_Types
begin

text \<open>
  The skill registry (\<open>crates/athena-voice-runtime/src/wasm/registry.rs\<close>), the hot-reload task over it
  (\<open>wasm/mod.rs\<close>, \<open>wasm/watcher.rs\<close>) and the dispatcher that calls into it (\<open>wasm/dispatcher.rs\<close>).

  A plugin is guest code: its three exports are the record \<open>plugin_ops\<close> over an arbitrary plugin state, with
  failing and panicking calls as values, and building one from a file is Extism's, an argument. A plugin's
  mutex is its slot's \<open>poisoned\<close> flag. \<open>HashMap\<close>s are association lists; where the code iterates one, the
  order is an argument \<open>ord\<close>, of which only that it permutes is assumed.
\<close>

section \<open>State\<close>

datatype registry_error =
    RIo string string
  | RNoStem string
  | RBuild string string
  | RPatterns string string string

definition registry_error_text :: "registry_error \<Rightarrow> string" where
  "registry_error_text e =
     (case e of
        RIo dir src \<Rightarrow> ''io error while reading skills dir '' @ dir @ '': '' @ src
      | RNoStem path \<Rightarrow> ''skill file has no filename stem: '' @ path
      | RBuild skill src \<Rightarrow> ''failed to build skill '' @ skill @ '': '' @ src
      | RPatterns skill loc src \<Rightarrow> ''skill '' @ skill @ '' pattern_rules('' @ loc @ '') failed: '' @ src)"

text \<open>\<open>g_handle\<close> yields \<open>Inl\<close> when the call panics, else the guest's result.\<close>

record 'p plugin_ops =
  g_rules :: "'p \<Rightarrow> string \<Rightarrow> (string + pattern_rule list) \<times> 'p"
  g_schema :: "'p \<Rightarrow> config_schema option \<times> 'p"
  g_handle :: "'p \<Rightarrow> intent \<Rightarrow> (string + (skill_error + skill_response)) \<times> 'p"

record 'p slot =
  sl_plugin :: 'p
  sl_ctx :: "skill_ctx option"
  sl_poisoned :: bool

type_synonym plugin_rules = "(string \<times> host_pattern_rule list) list"

record 'p registry =
  plugins :: "(string \<times> 'p slot) list"
  rules_map :: "(string \<times> plugin_rules) list"
  patterns :: rule_index
  schemas :: "(string \<times> config_schema) list"

type_synonym rules_order = "(string \<times> plugin_rules) list \<Rightarrow> (string \<times> plugin_rules) list"

definition registry_new :: "'p registry" where
  "registry_new = \<lparr>plugins = [], rules_map = [], patterns = ri_new, schemas = []\<rparr>"

definition skill_names :: "'p registry \<Rightarrow> string list" where
  "skill_names r = map fst (plugins r)"

definition registry_schema :: "string \<Rightarrow> 'p registry \<Rightarrow> config_schema option" where
  "registry_schema name r = map_of (schemas r) name"

definition skill_rules :: "string \<Rightarrow> string \<Rightarrow> 'p registry \<Rightarrow> host_pattern_rule list option" where
  "skill_rules name loc r =
     map_option (\<lambda>per. case map_of per loc of None \<Rightarrow> [] | Some rs \<Rightarrow> rs) (map_of (rules_map r) name)"

section \<open>Operations\<close>

fun add_skill_rules :: "string \<times> plugin_rules \<Rightarrow> rule_index \<Rightarrow> rule_index" where
  "add_skill_rules (skill, per) idx =
     fold (\<lambda>(loc, rules). fold (\<lambda>rule. ri_insert loc rule skill) rules) per idx"

definition rebuild_index :: "rules_order \<Rightarrow> 'p registry \<Rightarrow> 'p registry" where
  "rebuild_index ord r = r\<lparr>patterns := fold add_skill_rules (ord (rules_map r)) ri_new\<rparr>"

fun query_rules :: "'p plugin_ops \<Rightarrow> string \<Rightarrow> string list \<Rightarrow> 'p \<Rightarrow> plugin_rules \<Rightarrow> (registry_error + plugin_rules) \<times> 'p" where
  "query_rules ops name [] p acc = (Inr acc, p)"
| "query_rules ops name (loc # locs) p acc =
     (case g_rules ops p loc of
        (Inl e, p1) \<Rightarrow> (Inl (RPatterns name loc e), p1)
      | (Inr rules, p1) \<Rightarrow> query_rules ops name locs p1 (AList.update loc (map host_rule rules) acc))"

definition install ::
  "'p plugin_ops \<Rightarrow> rules_order \<Rightarrow> string list \<Rightarrow> string \<Rightarrow> 'p slot \<Rightarrow> 'p registry \<Rightarrow> (registry_error + unit) \<times> 'p registry" where
  "install ops ord locales name sl r =
     (case query_rules ops name locales (sl_plugin sl) [] of
        (Inl e, _) \<Rightarrow> (Inl e, r)
      | (Inr this_rules, p1) \<Rightarrow>
          (let (schema, p2) = g_schema ops p1;
               r1 = r\<lparr>plugins := AList.update name (sl\<lparr>sl_plugin := p2\<rparr>) (plugins r),
                      rules_map := AList.update name this_rules (rules_map r),
                      schemas := (case schema of Some s \<Rightarrow> AList.update name s (schemas r)
                                  | None \<Rightarrow> AList.delete name (schemas r))\<rparr>
           in (Inr (), rebuild_index ord r1)))"

definition remove_skill :: "rules_order \<Rightarrow> string \<Rightarrow> 'p registry \<Rightarrow> bool \<times> 'p registry" where
  "remove_skill ord name r =
     (let existed = map_of (plugins r) name \<noteq> None;
          r1 = r\<lparr>plugins := AList.delete name (plugins r), rules_map := AList.delete name (rules_map r),
                 schemas := AList.delete name (schemas r)\<rparr>
      in (existed, if existed then rebuild_index ord r1 else r1))"

record skill_file =
  sf_path :: string
  sf_stem :: "string option"
  sf_ext :: "string option"

record skill_deps =
  sd_locales :: "string list"
  sd_per_skill :: "string \<Rightarrow> skill_config option"

definition default_config :: skill_config where
  "default_config = \<lparr>sc_http_allowlist = [], sc_mqtt_allowlist = [], sc_config = (\<lambda>_. None), sc_retention = None,
     sc_config_file = None\<rparr>"

type_synonym 'p builder = "skill_file \<Rightarrow> skill_ctx \<Rightarrow> string + 'p"

definition build_plugin_from_file ::
  "'p builder \<Rightarrow> skill_deps \<Rightarrow> skill_file \<Rightarrow> registry_error + (string \<times> 'p slot)" where
  "build_plugin_from_file build deps f =
     (case sf_stem f of
        None \<Rightarrow> Inl (RNoStem (sf_path f))
      | Some name \<Rightarrow>
          (let cfg = (case sd_per_skill deps name of Some c \<Rightarrow> c | None \<Rightarrow> default_config);
               ctx = \<lparr>sk_name = name, sk_http_allowlist = sc_http_allowlist cfg,
                      sk_mqtt_allowlist = sc_mqtt_allowlist cfg, sk_config = sc_config cfg,
                      sk_retention = sc_retention cfg, sk_config_file = sc_config_file cfg\<rparr>
           in case build f ctx of
                Inl e \<Rightarrow> Inl (RBuild name e)
              | Inr p \<Rightarrow> Inr (name, \<lparr>sl_plugin = p, sl_ctx = Some ctx, sl_poisoned = False\<rparr>)))"

text \<open>The directory scan: an entry may fail to be read; a build failure skips the file, a rules failure does
  not.\<close>

fun load_entries ::
  "'p plugin_ops \<Rightarrow> rules_order \<Rightarrow> 'p builder \<Rightarrow> skill_deps \<Rightarrow> string \<Rightarrow> (string + skill_file) list \<Rightarrow> 'p registry
     \<Rightarrow> registry_error + 'p registry" where
  "load_entries ops ord build deps dir [] r = Inr r"
| "load_entries ops ord build deps dir (Inl e # es) r = Inl (RIo dir e)"
| "load_entries ops ord build deps dir (Inr f # es) r =
     (if sf_ext f \<noteq> Some ''wasm'' then load_entries ops ord build deps dir es r
      else case build_plugin_from_file build deps f of
          Inl e \<Rightarrow> load_entries ops ord build deps dir es r
        | Inr (name, sl) \<Rightarrow>
            (case install ops ord (sd_locales deps) name sl r of
               (Inl e, _) \<Rightarrow> Inl e
             | (Inr _, r1) \<Rightarrow> load_entries ops ord build deps dir es r1))"

definition load_dir ::
  "'p plugin_ops \<Rightarrow> rules_order \<Rightarrow> 'p builder \<Rightarrow> skill_deps \<Rightarrow> string \<Rightarrow> string + (string + skill_file) list
     \<Rightarrow> registry_error + 'p registry" where
  "load_dir ops ord build deps dir read =
     (case read of
        Inl e \<Rightarrow> Inl (RIo dir e)
      | Inr es \<Rightarrow> load_entries ops ord build deps dir es registry_new)"

definition reload_path ::
  "'p plugin_ops \<Rightarrow> rules_order \<Rightarrow> 'p builder \<Rightarrow> skill_deps \<Rightarrow> skill_file \<Rightarrow> 'p registry
     \<Rightarrow> (registry_error + string) \<times> event list \<times> 'p registry" where
  "reload_path ops ord build deps f r =
     (let (res, r1) =
        (case build_plugin_from_file build deps f of
           Inl e \<Rightarrow> (Inl e, r)
         | Inr (name, sl) \<Rightarrow>
             (case install ops ord (sd_locales deps) name sl r of
                (Inl e, r1) \<Rightarrow> (Inl e, r1)
              | (Inr _, r1) \<Rightarrow> (Inr name, r1)))
      in case res of
           Inr name \<Rightarrow> (Inr name, [SkillReloaded name], r1)
         | Inl e \<Rightarrow>
             (Inl e, [SkillReloadFailed (case sf_stem f of Some n \<Rightarrow> n | None \<Rightarrow> ''<unknown>'') (registry_error_text e)], r1))"

text \<open>A dispatch returns or panics; the retention sweeps it spawns are listed. \<open>now_sec - gc_sec\<close> wraps in
  release builds.\<close>

definition poison_panic :: string where
  "poison_panic = ''called `Result::unwrap()` on an `Err` value: PoisonError { .. }''"

definition gc_jobs :: "u64 \<Rightarrow> string \<Rightarrow> 'p slot \<Rightarrow> (string \<times> u64) list" where
  "gc_jobs now skill sl =
     (case sl_ctx sl of
        None \<Rightarrow> []
      | Some ctx \<Rightarrow> (case sk_retention ctx of
            None \<Rightarrow> []
          | Some gc_sec \<Rightarrow> if 0 < gc_sec then [(skill, now - gc_sec)] else []))"

definition dispatch ::
  "'p plugin_ops \<Rightarrow> u64 \<Rightarrow> string \<Rightarrow> intent \<Rightarrow> 'p registry
     \<Rightarrow> (string + (skill_error + skill_response)) \<times> (string \<times> u64) list \<times> 'p registry" where
  "dispatch ops now skill i r =
     (case map_of (plugins r) skill of
        None \<Rightarrow> (Inr (Inl (Custom (''unknown skill: '' @ skill))), [], r)
      | Some sl \<Rightarrow>
          if sl_poisoned sl then (Inl poison_panic, [], r)
          else (case g_handle ops (sl_plugin sl) i of
              (Inl reason, p) \<Rightarrow>
                (Inl reason, gc_jobs now skill sl,
                 r\<lparr>plugins := AList.update skill (sl\<lparr>sl_plugin := p, sl_poisoned := True\<rparr>) (plugins r)\<rparr>)
            | (Inr res, p) \<Rightarrow>
                (Inr res, gc_jobs now skill sl, r\<lparr>plugins := AList.update skill (sl\<lparr>sl_plugin := p\<rparr>) (plugins r)\<rparr>)))"

section \<open>Hot reload\<close>

datatype watch_kind = Added | Modified | Removed

datatype fs_kind = FsCreate | FsModify | FsRemove | FsOther

fun classify_path :: "fs_kind \<Rightarrow> (skill_file \<Rightarrow> bool) \<Rightarrow> skill_file \<Rightarrow> (skill_file \<times> watch_kind) list" where
  "classify_path k present f =
     (if sf_ext f \<noteq> Some ''wasm'' then []
      else case k of
          FsCreate \<Rightarrow> [(f, Added)]
        | FsModify \<Rightarrow> [(f, if present f then Modified else Removed)]
        | FsRemove \<Rightarrow> [(f, Removed)]
        | FsOther \<Rightarrow> [])"

definition classify :: "fs_kind \<Rightarrow> (skill_file \<Rightarrow> bool) \<Rightarrow> skill_file list \<Rightarrow> (skill_file \<times> watch_kind) list" where
  "classify k present paths = concat (map (classify_path k present) paths)"

fun hot_reload ::
  "'p plugin_ops \<Rightarrow> rules_order \<Rightarrow> 'p builder \<Rightarrow> skill_deps \<Rightarrow> skill_file \<times> watch_kind \<Rightarrow> 'p registry \<Rightarrow> event list \<times> 'p registry" where
  "hot_reload ops ord build deps (f, Removed) r =
     (case sf_stem f of None \<Rightarrow> ([], r) | Some name \<Rightarrow> ([], snd (remove_skill ord name r)))"
| "hot_reload ops ord build deps (f, _) r = snd (reload_path ops ord build deps f r)"

section \<open>The dispatcher\<close>

record dispatch_request =
  dr_session :: session_id
  dr_skill :: string
  dr_intent :: intent
  dr_reply :: bool

text \<open>\<open>aborted\<close> is the runtime's reason for a blocking task that never ran.\<close>

definition handle_one ::
  "'p plugin_ops \<Rightarrow> u64 \<Rightarrow> string option \<Rightarrow> dispatch_request \<Rightarrow> 'p registry
     \<Rightarrow> event list \<times> (skill_error + skill_response) option \<times> (string \<times> u64) list \<times> 'p registry" where
  "handle_one ops now aborted req r =
     (let invoked = [SkillInvoked (dr_session req) (dr_skill req)];
          (evs, out, gc, r1) =
            (case aborted of
               Some e \<Rightarrow> ([], Inl (Custom (''dispatch cancelled: '' @ e)), [], r)
             | None \<Rightarrow>
                 (case dispatch ops now (dr_skill req) (dr_intent req) r of
                    (Inr res, gc, r1) \<Rightarrow> ([], res, gc, r1)
                  | (Inl reason, gc, r1) \<Rightarrow>
                      ([SkillPanicked (dr_session req) (dr_skill req) reason],
                       Inl (Custom (''skill panicked: '' @ reason)), gc, r1)))
      in (invoked @ evs, if dr_reply req then Some out else None, gc, r1))"

section \<open>The index follows the loaded skills\<close>

definition entries :: "rule_index \<Rightarrow> string \<Rightarrow> rule_entry list" where
  "entries idx loc = (case ri_for_locale idx loc of None \<Rightarrow> [] | Some es \<Rightarrow> es)"

definition rules_at :: "plugin_rules \<Rightarrow> string \<Rightarrow> host_pattern_rule list" where
  "rules_at per loc = (case map_of per loc of None \<Rightarrow> [] | Some rs \<Rightarrow> rs)"

lemma entries_new [simp]: "entries ri_new loc = []"
  by (simp add: entries_def ri_for_locale_def ri_new_def)

lemma entries_insert [simp]:
  "entries (ri_insert loc rule skill idx) l = entries idx l @ (if l = loc then [(rule, skill)] else [])"
  by (simp add: entries_def)

lemma entries_rules:
  "entries (fold (\<lambda>rule. ri_insert loc rule skill) rules idx) l =
     entries idx l @ (if l = loc then map (\<lambda>r. (r, skill)) rules else [])"
  by (induction rules arbitrary: idx) simp_all

lemma entries_add_skill [simp]:
  "distinct (map fst per) \<Longrightarrow>
     entries (add_skill_rules (skill, per) idx) l = entries idx l @ map (\<lambda>r. (r, skill)) (rules_at per l)"
proof (induction per arbitrary: idx)
  case (Cons e per)
  obtain loc rules where e: "e = (loc, rules)" by (cases e)
  have "map_of per loc = None" using Cons.prems e by (simp add: map_of_eq_None_iff)
  then have "rules_at per loc = []" by (simp add: rules_at_def)
  with Cons e show ?case by (auto simp: entries_rules rules_at_def)
qed (simp add: rules_at_def)

lemma entries_rebuild:
  "\<forall>(s, per) \<in> set rm. distinct (map fst per) \<Longrightarrow>
     entries (fold add_skill_rules rm idx) l = entries idx l @ concat (map (\<lambda>(s, per). map (\<lambda>r. (r, s)) (rules_at per l)) rm)"
  by (induction rm arbitrary: idx) (auto simp del: add_skill_rules.simps)

lemma filter_skill_entries:
  "distinct (map fst rm) \<Longrightarrow>
     filter (\<lambda>e. snd e = s) (concat (map (\<lambda>(s, per). map (\<lambda>r. (r, s)) (rules_at per l)) rm)) =
       (case map_of rm s of None \<Rightarrow> [] | Some per \<Rightarrow> map (\<lambda>r. (r, s)) (rules_at per l))"
proof (induction rm)
  case (Cons e rm)
  obtain n per where e: "e = (n, per)" by (cases e)
  have "filter (\<lambda>e. snd e = s) (map (\<lambda>r. (r, n)) rs) = (if n = s then map (\<lambda>r. (r, n)) rs else [])"
    for rs :: "host_pattern_rule list" by (induction rs) auto
  moreover have "map_of rm n = None" using Cons.prems e by (auto simp: map_of_eq_None_iff)
  ultimately show ?case using Cons e by auto
qed simp

definition order_ok :: "rules_order \<Rightarrow> bool" where
  "order_ok ord \<longleftrightarrow> (\<forall>xs. mset (ord xs) = mset xs)"

lemma order_okD:
  assumes "order_ok ord"
  shows "set (ord xs) = set xs" "distinct (map fst xs) \<Longrightarrow> distinct (map fst (ord xs))"
    "distinct (map fst xs) \<Longrightarrow> map_of (ord xs) = map_of xs"
proof -
  have m: "mset (ord xs) = mset xs" using assms by (simp add: order_ok_def)
  then show s: "set (ord xs) = set xs" by (rule mset_eq_setD)
  have "mset (map fst (ord xs)) = mset (map fst xs)" using m by simp
  then show d: "distinct (map fst xs) \<Longrightarrow> distinct (map fst (ord xs))" using mset_eq_imp_distinct_iff by blast
  then show "distinct (map fst xs) \<Longrightarrow> map_of (ord xs) = map_of xs"
    using s by (simp add: map_of_inject_set)
qed

definition maps_ok :: "'p registry \<Rightarrow> bool" where
  "maps_ok r \<longleftrightarrow> distinct (map fst (plugins r)) \<and> distinct (map fst (rules_map r)) \<and> distinct (map fst (schemas r))
     \<and> (\<forall>(s, per) \<in> set (rules_map r). distinct (map fst per))
     \<and> fst ` set (plugins r) = fst ` set (rules_map r) \<and> fst ` set (schemas r) \<subseteq> fst ` set (plugins r)"

lemma maps_ok_patterns [simp]: "maps_ok (r\<lparr>patterns := idx\<rparr>) = maps_ok r"
  by (simp add: maps_ok_def)

lemma maps_okD:
  assumes "maps_ok r"
  shows "distinct (map fst (plugins r))" "distinct (map fst (rules_map r))" "distinct (map fst (schemas r))"
    "\<And>s per. (s, per) \<in> set (rules_map r) \<Longrightarrow> distinct (map fst per)"
    "fst ` set (plugins r) = fst ` set (rules_map r)" "fst ` set (schemas r) \<subseteq> fst ` set (plugins r)"
  using assms unfolding maps_ok_def by blast+

definition index_ok :: "'p registry \<Rightarrow> bool" where
  "index_ok r \<longleftrightarrow>
     (\<forall>s l. filter (\<lambda>e. snd e = s) (entries (patterns r) l) =
        (case skill_rules s l r of None \<Rightarrow> [] | Some rs \<Rightarrow> map (\<lambda>x. (x, s)) rs))"

definition registry_ok :: "'p registry \<Rightarrow> bool" where
  "registry_ok r \<longleftrightarrow> maps_ok r \<and> index_ok r"

lemma skill_rules_at: "skill_rules s l r = map_option (\<lambda>per. rules_at per l) (map_of (rules_map r) s)"
  by (simp add: skill_rules_def rules_at_def)

lemma rebuild_ok:
  assumes "order_ok ord" "maps_ok r"
  shows "registry_ok (rebuild_index ord r)"
proof -
  have d: "distinct (map fst (rules_map r))" and per: "\<forall>(s, per) \<in> set (ord (rules_map r)). distinct (map fst per)"
    using assms order_okD(1) [OF assms(1)] by (auto simp: maps_ok_def)
  have "filter (\<lambda>e. snd e = s) (entries (patterns (rebuild_index ord r)) l) =
      (case skill_rules s l r of None \<Rightarrow> [] | Some rs \<Rightarrow> map (\<lambda>x. (x, s)) rs)" for s l
    using filter_skill_entries [OF order_okD(2) [OF assms(1) d], of s l] order_okD(3) [OF assms(1) d]
    by (simp add: rebuild_index_def entries_rebuild [OF per] skill_rules_at split: option.split)
  moreover have "skill_rules s l (rebuild_index ord r) = skill_rules s l r" "maps_ok (rebuild_index ord r)" for s l
    using assms(2) by (simp_all add: skill_rules_def rebuild_index_def)
  ultimately show ?thesis by (simp add: registry_ok_def index_ok_def)
qed

lemma query_rules_distinct:
  "query_rules ops name locs p acc = (Inr rules, p1) \<Longrightarrow> distinct (map fst acc) \<Longrightarrow> distinct (map fst rules)"
  by (induction ops name locs p acc rule: query_rules.induct)
     (auto simp: distinct_update split: prod.splits sum.splits)

lemma ballI2: "(\<And>a b. (a, b) \<in> S \<Longrightarrow> P a b) \<Longrightarrow> \<forall>(a, b) \<in> S. P a b"
  by blast

lemma update_keys_fst [simp]: "fst ` set (AList.update k v xs) = insert k (fst ` set xs)"
  by (induction xs) auto

lemma delete_keys_fst [simp]: "fst ` set (AList.delete k xs) = fst ` set xs - {k}"
  by (induction xs) auto

lemma set_update_subset: "set (AList.update k v xs) \<subseteq> insert (k, v) (set xs)"
  by (induction xs) auto

lemma set_delete_subset: "set (AList.delete k xs) \<subseteq> set xs"
  by (induction xs) auto

lemma install_ok:
  assumes "order_ok ord" "registry_ok r"
  shows "registry_ok (snd (install ops ord locales name sl r))"
proof (cases "query_rules ops name locales (sl_plugin sl) []")
  case (Pair res p1)
  show ?thesis
  proof (cases res)
    case (Inr rules)
    obtain schema p2 where g: "g_schema ops p1 = (schema, p2)" by (cases "g_schema ops p1")
    have d: "distinct (map fst rules)" using query_rules_distinct Pair Inr by fastforce
    have m: "maps_ok r" using assms(2) by (simp add: registry_ok_def)
    let ?r1 = "r\<lparr>plugins := AList.update name (sl\<lparr>sl_plugin := p2\<rparr>) (plugins r),
                rules_map := AList.update name rules (rules_map r),
                schemas := (case schema of Some s \<Rightarrow> AList.update name s (schemas r)
                            | None \<Rightarrow> AList.delete name (schemas r))\<rparr>"
    have "maps_ok ?r1"
      unfolding maps_ok_def
    proof (intro conjI ballI2)
      fix s per assume "(s, per) \<in> set (rules_map ?r1)"
      then show "distinct (map fst per)"
        using d maps_okD(4) [OF m] set_update_subset [of name rules "rules_map r"] by auto
    next
      show "fst ` set (schemas ?r1) \<subseteq> fst ` set (plugins ?r1)"
        using maps_okD(6) [OF m] by (cases schema) auto
    qed (use maps_okD(1,2,3,5) [OF m] in \<open>simp_all add: distinct_update distinct_delete split: option.split\<close>)
    then show ?thesis using rebuild_ok [OF assms(1)] Pair Inr g by (simp add: install_def)
  qed (use Pair assms in \<open>simp add: install_def\<close>)
qed

lemma remove_ok:
  assumes "order_ok ord" "registry_ok r"
  shows "registry_ok (snd (remove_skill ord name r))"
proof -
  have m: "maps_ok r" and ix: "index_ok r" using assms(2) by (simp_all add: registry_ok_def)
  let ?r1 = "r\<lparr>plugins := AList.delete name (plugins r), rules_map := AList.delete name (rules_map r),
                schemas := AList.delete name (schemas r)\<rparr>"
  have m1: "maps_ok ?r1"
    unfolding maps_ok_def
  proof (intro conjI ballI2)
    fix s per assume "(s, per) \<in> set (rules_map ?r1)"
    then show "distinct (map fst per)"
      using maps_okD(4) [OF m] set_delete_subset [of name "rules_map r"] by auto
  next
    show "fst ` set (schemas ?r1) \<subseteq> fst ` set (plugins ?r1)"
      using maps_okD(6) [OF m] by auto
  qed (use maps_okD(1,2,3,5) [OF m] in \<open>simp_all add: distinct_delete\<close>)
  show ?thesis
  proof (cases "map_of (plugins r) name")
    case None
    then have "name \<notin> fst ` set (rules_map r)" using maps_okD(5) [OF m] by (simp add: map_of_eq_None_iff)
    then have "AList.delete name (rules_map r) = rules_map r" by (rule delete_id)
    then have "index_ok ?r1" using ix by (simp add: index_ok_def skill_rules_def)
    then show ?thesis using None m1 by (simp add: remove_skill_def registry_ok_def Let_def)
  qed (use rebuild_ok [OF assms(1) m1] in \<open>simp add: remove_skill_def Let_def\<close>)
qed

lemma touch_plugin_ok:
  assumes "registry_ok r" "map_of (plugins r) skill \<noteq> None"
  shows "registry_ok (r\<lparr>plugins := AList.update skill sl (plugins r)\<rparr>)"
proof -
  have m: "maps_ok r" and ix: "index_ok r" using assms(1) by (simp_all add: registry_ok_def)
  have "insert skill (fst ` set (plugins r)) = fst ` set (plugins r)"
    using assms(2) by (auto simp: map_of_eq_None_iff)
  then have "maps_ok (r\<lparr>plugins := AList.update skill sl (plugins r)\<rparr>)"
    unfolding maps_ok_def using maps_okD [OF m]
    by (intro conjI ballI2) (simp_all add: distinct_update)
  then show ?thesis using ix by (simp add: registry_ok_def index_ok_def skill_rules_def)
qed

lemma dispatch_ok: "registry_ok r \<Longrightarrow> registry_ok (snd (snd (dispatch ops now skill i r)))"
  by (auto simp: dispatch_def touch_plugin_ok split: option.split sum.split prod.split)

lemma reload_ok: "order_ok ord \<Longrightarrow> registry_ok r \<Longrightarrow> registry_ok (snd (snd (reload_path ops ord build deps f r)))"
  using install_ok [of ord r ops "sd_locales deps"]
  by (auto simp: reload_path_def Let_def split: sum.split prod.split) (metis snd_conv)+

section \<open>Any history of the registry\<close>

datatype 'p registry_op =
    OpInstall string "'p slot"
  | OpRemove string
  | OpWatch "skill_file \<times> watch_kind"
  | OpDispatch u64 string intent

fun registry_apply ::
  "'p plugin_ops \<Rightarrow> rules_order \<Rightarrow> 'p builder \<Rightarrow> skill_deps \<Rightarrow> 'p registry_op \<Rightarrow> 'p registry \<Rightarrow> 'p registry" where
  "registry_apply ops ord build deps (OpInstall name sl) r = snd (install ops ord (sd_locales deps) name sl r)"
| "registry_apply ops ord build deps (OpRemove name) r = snd (remove_skill ord name r)"
| "registry_apply ops ord build deps (OpWatch e) r = snd (hot_reload ops ord build deps e r)"
| "registry_apply ops ord build deps (OpDispatch now skill i) r = snd (snd (dispatch ops now skill i r))"

lemma watch_ok: "order_ok ord \<Longrightarrow> registry_ok r \<Longrightarrow> registry_ok (snd (hot_reload ops ord build deps e r))"
  by (cases "(ops, ord, build, deps, e, r)" rule: hot_reload.cases)
     (auto simp: remove_ok reload_ok split: option.split)

lemma apply_ok: "order_ok ord \<Longrightarrow> registry_ok r \<Longrightarrow> registry_ok (registry_apply ops ord build deps op r)"
  by (cases op) (simp_all add: install_ok remove_ok watch_ok dispatch_ok)

lemma history_ok: "order_ok ord \<Longrightarrow> registry_ok r \<Longrightarrow> registry_ok (fold (registry_apply ops ord build deps) h r)"
  by (induction h arbitrary: r) (simp_all add: apply_ok)

lemma load_entries_ok:
  "order_ok ord \<Longrightarrow> registry_ok r \<Longrightarrow> load_entries ops ord build deps dir es r = Inr r1 \<Longrightarrow> registry_ok r1"
proof (induction ops ord build deps dir es r rule: load_entries.induct)
  case (3 ops ord build deps dir f es r)
  show ?case
  proof (cases "sf_ext f \<noteq> Some ''wasm''")
    case False
    show ?thesis
    proof (cases "build_plugin_from_file build deps f")
      case (Inr b)
      obtain name sl where b: "b = (name, sl)" by (cases b)
      obtain res r2 where i: "install ops ord (sd_locales deps) name sl r = (res, r2)" by fastforce
      then have "registry_ok r2" using install_ok [OF 3(4,5), of ops "sd_locales deps" name sl] by simp
      then show ?thesis using 3 False Inr b i by (cases res) auto
    qed (use 3 False in auto)
  qed (use 3 in auto)
qed simp_all

lemma new_ok [simp]: "registry_ok registry_new"
  by (simp add: registry_ok_def maps_ok_def index_ok_def registry_new_def skill_rules_def)

lemma load_dir_ok: "order_ok ord \<Longrightarrow> load_dir ops ord build deps dir read = Inr r \<Longrightarrow> registry_ok r"
  by (auto simp: load_dir_def intro: load_entries_ok [OF _ new_ok] split: sum.splits)

text \<open>C36: what the router matches against is always exactly what the loaded skills exported: after the startup
  scan and any history of installs, removals, file events and dispatches, in whatever order the maps are
  walked, the published index holds for each loaded skill and locale that skill's rules in its own order,
  and nothing of a skill that is not loaded; rules, schemas and plugins are held for the same skills.\<close>

theorem index_follows_skills:
  assumes "order_ok ord" "load_dir ops ord build deps dir read = Inr r0"
  shows "let r = fold (registry_apply ops ord build deps) h r0 in
     (\<forall>s l. filter (\<lambda>e. snd e = s) (entries (patterns r) l) =
        (if s \<in> set (skill_names r) then map (\<lambda>x. (x, s)) (the (skill_rules s l r)) else []))
     \<and> (\<forall>s l. skill_rules s l r \<noteq> None \<longleftrightarrow> s \<in> set (skill_names r))
     \<and> distinct (skill_names r) \<and> fst ` set (schemas r) \<subseteq> set (skill_names r)"
proof -
  let ?r = "fold (registry_apply ops ord build deps) h r0"
  have ok: "registry_ok ?r" using assms load_dir_ok history_ok by blast
  then have m: "maps_ok ?r" and ix: "index_ok ?r" by (simp_all add: registry_ok_def)
  have n: "set (skill_names ?r) = fst ` set (rules_map ?r)"
    using maps_okD(5) [OF m] by (simp add: skill_names_def)
  have some: "skill_rules s l ?r \<noteq> None \<longleftrightarrow> s \<in> set (skill_names ?r)" for s l
    unfolding n by (simp add: skill_rules_def map_of_eq_None_iff)
  have "filter (\<lambda>e. snd e = s) (entries (patterns ?r) l) =
      (if s \<in> set (skill_names ?r) then map (\<lambda>x. (x, s)) (the (skill_rules s l ?r)) else [])" for s l
    using ix some [of s l] by (auto simp: index_ok_def split: option.split)
  moreover have "distinct (skill_names ?r)" "fst ` set (schemas ?r) \<subseteq> set (skill_names ?r)"
    using maps_okD(1,6) [OF m] by (simp_all add: skill_names_def)
  ultimately show ?thesis unfolding Let_def using some by blast
qed

text \<open>A plugin for the witnesses: it answers \<open>light.on\<close> in French only, and panics on the intent \<open>boom\<close>.\<close>

definition demo_plugin :: "nat plugin_ops" where
  "demo_plugin = \<lparr>g_rules = (\<lambda>p loc. (if p = 9 then Inl ''trap'' else
       Inr (if loc = ''fr'' then [\<lparr>pr_intent = ''light.on'', pr_phrases = [''allume''], pr_slots = []\<rparr>] else []), p)),
     g_schema = (\<lambda>p. (None, p)),
     g_handle = (\<lambda>p i. (if i_name i = ''boom'' then Inl ''index out of bounds'' else Inr (Inr (Speak ''ok'')), Suc p))\<rparr>"

definition demo_deps :: skill_deps where
  "demo_deps = \<lparr>sd_locales = [''fr'', ''en''], sd_per_skill = (\<lambda>_. None)\<rparr>"

definition demo_file :: "string \<Rightarrow> skill_file" where
  "demo_file n = \<lparr>sf_path = n @ ''.wasm'', sf_stem = Some n, sf_ext = Some ''wasm''\<rparr>"

definition demo_build :: "nat builder" where
  "demo_build f ctx = (if sf_stem f = Some ''bad'' then Inl ''not wasm'' else if sf_stem f = Some ''trap'' then Inr 9 else Inr 0)"

lemmas demo_defs = demo_plugin_def demo_deps_def demo_file_def demo_build_def

theorem index_follows_skills_witness:
  "\<exists>r0. load_dir demo_plugin rev demo_build demo_deps ''d'' (Inr [Inr (demo_file ''bad''), Inr (demo_file ''home'')]) = Inr r0
     \<and> skill_names r0 = [''home''] \<and> distinct (skill_names r0)"
proof -
  let ?read = "Inr [Inr (demo_file ''bad''), Inr (demo_file ''home'')]"
  obtain r0 where r0: "load_dir demo_plugin rev demo_build demo_deps ''d'' ?read = Inr r0" "skill_names r0 = [''home'']"
    by (simp add: load_dir_def demo_defs build_plugin_from_file_def install_def Let_def rebuild_index_def registry_new_def
        skill_names_def)
  have "order_ok rev" by (simp add: order_ok_def)
  from index_follows_skills [OF this r0(1), of "[]"] show ?thesis using r0 by (simp add: Let_def)
qed

section \<open>Reloading and dispatching\<close>

lemma rules_of_install:
  assumes "install ops ord locales name sl r = (Inr u, r1)" "n \<noteq> name"
  shows "skill_rules n l r1 = skill_rules n l r" "map_of (plugins r1) n = map_of (plugins r) n"
    "registry_schema n r1 = registry_schema n r"
  using assms
  by (auto simp: install_def Let_def rebuild_index_def skill_rules_def registry_schema_def update_conv' delete_conv'
      split: sum.splits prod.splits option.splits)

lemma install_failed: "install ops ord locales name sl r = (Inl e, r1) \<Longrightarrow> r1 = r"
  by (auto simp: install_def split: sum.splits prod.splits)

lemma install_live: "install ops ord locales name sl r = (Inr u, r1) \<Longrightarrow> name \<in> set (skill_names r1)"
  by (auto simp: install_def rebuild_index_def skill_names_def split: sum.splits prod.splits)

text \<open>A reload is all or nothing: it either reports failure on the bus, under the file's stem, and leaves the
  registry, index included, exactly as it was, so the running version of the skill stays; or it reports success,
  the skill is loaded, and no other skill's plugin, rules or schema changed.\<close>

theorem reload_all_or_nothing:
  "case reload_path ops ord build deps f r of
     (Inl e, evs, r1) \<Rightarrow>
       r1 = r \<and> evs = [SkillReloadFailed (case sf_stem f of Some n \<Rightarrow> n | None \<Rightarrow> ''<unknown>'') (registry_error_text e)]
   | (Inr name, evs, r1) \<Rightarrow>
       evs = [SkillReloaded name] \<and> sf_stem f = Some name \<and> name \<in> set (skill_names r1)
       \<and> (n = name \<or> (map_of (plugins r1) n = map_of (plugins r) n \<and> skill_rules n l r1 = skill_rules n l r
            \<and> registry_schema n r1 = registry_schema n r))"
proof (cases "build_plugin_from_file build deps f")
  case (Inl e)
  then show ?thesis by (simp add: reload_path_def)
next
  case (Inr b)
  obtain name sl where b: "b = (name, sl)" by (cases b)
  then have stem: "sf_stem f = Some name"
    using Inr by (auto simp: build_plugin_from_file_def Let_def split: option.splits sum.splits)
  obtain res r1 where i: "install ops ord (sd_locales deps) name sl r = (res, r1)" by fastforce
  show ?thesis
  proof (cases res)
    case (Inl e)
    then show ?thesis using Inr b i stem install_failed by (simp add: reload_path_def)
  next
    case R: (Inr u)
    then have i2: "install ops ord (sd_locales deps) name sl r = (Inr u, r1)" using i by simp
    have "reload_path ops ord build deps f r = (Inr name, [SkillReloaded name], r1)"
      using Inr b i2 by (simp add: reload_path_def)
    then show ?thesis
      using stem install_live [OF i2] rules_of_install [OF i2, of n] by (cases "n = name") simp_all
  qed
qed

text \<open>The dispatcher contains its guests' failures: every request is announced first and answered exactly when it
  asks to be; a guest that panics yields one \<open>SkillPanicked\<close> and an error answer, and from then on each call to that
  skill is answered the same way until it is installed again; the index and every other skill stay untouched.\<close>

theorem dispatcher_contains_panics:
  assumes "handle_one ops now None req r = (evs, out, gc, r1)"
    and "dr_reply req" "map_of (plugins r) (dr_skill req) = Some sl" "\<not> sl_poisoned sl"
    and "fst (g_handle ops (sl_plugin sl) (dr_intent req)) = Inl reason"
  shows "evs = [SkillInvoked (dr_session req) (dr_skill req), SkillPanicked (dr_session req) (dr_skill req) reason]
     \<and> out = Some (Inl (Custom (''skill panicked: '' @ reason)))
     \<and> patterns r1 = patterns r \<and> rules_map r1 = rules_map r \<and> schemas r1 = schemas r
     \<and> (n = dr_skill req \<or> map_of (plugins r1) n = map_of (plugins r) n)
     \<and> (dr_skill req2 \<noteq> dr_skill req
        \<or> handle_one ops now2 None req2 r1
            = ([SkillInvoked (dr_session req2) (dr_skill req2), SkillPanicked (dr_session req2) (dr_skill req2) poison_panic],
               if dr_reply req2 then Some (Inl (Custom (''skill panicked: '' @ poison_panic))) else None, [], r1))"
proof -
  obtain p where h: "g_handle ops (sl_plugin sl) (dr_intent req) = (Inl reason, p)"
    using assms(5) by (cases "g_handle ops (sl_plugin sl) (dr_intent req)") simp
  then have d: "dispatch ops now (dr_skill req) (dr_intent req) r = (Inl reason, gc_jobs now (dr_skill req) sl,
      r\<lparr>plugins := AList.update (dr_skill req) (sl\<lparr>sl_plugin := p, sl_poisoned := True\<rparr>) (plugins r)\<rparr>)"
    using assms(3,4) by (simp add: dispatch_def)
  let ?r1 = "r\<lparr>plugins := AList.update (dr_skill req) (sl\<lparr>sl_plugin := p, sl_poisoned := True\<rparr>) (plugins r)\<rparr>"
  have first: "evs = [SkillInvoked (dr_session req) (dr_skill req), SkillPanicked (dr_session req) (dr_skill req) reason]"
    "out = Some (Inl (Custom (''skill panicked: '' @ reason)))" "r1 = ?r1"
    using assms(1,2) by (simp_all add: handle_one_def d)
  have "dispatch ops now2 (dr_skill req) i r1 = (Inl poison_panic, [], r1)" for i
    by (simp add: first(3) dispatch_def update_conv')
  then have "dr_skill req2 \<noteq> dr_skill req
        \<or> handle_one ops now2 None req2 r1
            = ([SkillInvoked (dr_session req2) (dr_skill req2), SkillPanicked (dr_session req2) (dr_skill req2) poison_panic],
               if dr_reply req2 then Some (Inl (Custom (''skill panicked: '' @ poison_panic))) else None, [], r1)"
    by (auto simp: handle_one_def)
  moreover have "n = dr_skill req \<or> map_of (plugins r1) n = map_of (plugins r) n"
    by (simp add: first(3) update_conv')
  ultimately show ?thesis by (simp add: first)
qed

theorem dispatcher_contains_panics_witness:
  "\<exists>evs out gc r1. handle_one demo_plugin 5 None \<lparr>dr_session = 1, dr_skill = ''home'', dr_intent = \<lparr>i_name = ''boom'', i_slots = [], i_locale = ''fr''\<rparr>, dr_reply = True\<rparr>
      (registry_new\<lparr>plugins := [(''home'', \<lparr>sl_plugin = 0, sl_ctx = None, sl_poisoned = False\<rparr>)]\<rparr>) = (evs, out, gc, r1)
    \<and> out = Some (Inl (Custom (''skill panicked: '' @ ''index out of bounds'')))"
proof -
  let ?req = "\<lparr>dr_session = 1, dr_skill = ''home'', dr_intent = \<lparr>i_name = ''boom'', i_slots = [], i_locale = ''fr''\<rparr>, dr_reply = True\<rparr>"
  let ?r = "registry_new\<lparr>plugins := [(''home'', \<lparr>sl_plugin = 0, sl_ctx = None, sl_poisoned = False\<rparr>)]\<rparr>"
  obtain evs out gc r1 where eq: "handle_one demo_plugin 5 None ?req ?r = (evs, out, gc, r1)" by (metis prod_cases4)
  have "out = Some (Inl (Custom (''skill panicked: '' @ ''index out of bounds'')))"
    using dispatcher_contains_panics [OF eq, of "\<lparr>sl_plugin = 0, sl_ctx = None, sl_poisoned = False\<rparr>" "''index out of bounds''"]
    by (simp add: demo_plugin_def)
  then show ?thesis using eq by blast
qed

end
