(* ===== verification/Satellite_Session.thy ===== *)
theory Satellite_Session
  imports Topics
begin

text \<open>
  The ESP32 satellite's session state machine (\<open>satellite-esp32/src/session.rs\<close>) and the length check of
  its baked-in configuration (\<open>config.rs\<close>): inputs in, commands out.

  A trigger brings the text of the fresh random UUID it draws. Clock values are unbounded naturals: the
  code adds at most 30 s to a 64-bit millisecond uptime. JSON parsing is \<open>serde_json\<close>'s and is an argument.
\<close>

section \<open>The machine\<close>

definition utterance_max_ms :: nat where "utterance_max_ms = 10000"
definition reply_timeout_ms :: nat where "reply_timeout_ms = 30000"

datatype sat_input =
    Trigger string
  | MicFrame "byte list"
  | SilenceDetected
  | Inbound string "byte list"
  | Tick

datatype command =
    Publish string "byte list"
  | ConfigureSpeaker u32
  | Play "byte list"
  | ShowTranscript string bool
  | ShowAnswer string
  | CmdSessionEnded

datatype sat_state = Idle | Streaming | AwaitingReply | Playing

record sat_session =
  s_root :: string
  s_sat :: string
  s_locale :: string
  s_state :: sat_state
  s_sid :: "string option"
  s_deadline :: "nat option"

definition session_new :: "string \<Rightarrow> string \<Rightarrow> string \<Rightarrow> sat_session" where
  "session_new rt sat loc =
     \<lparr>s_root = rt, s_sat = sat, s_locale = loc, s_state = Idle, s_sid = None, s_deadline = None\<rparr>"

definition subscriptions :: "string \<Rightarrow> string \<Rightarrow> string list" where
  "subscriptions rt sat =
     (let base = rt @ ''/sat/'' @ sat @ ''/session/+''
      in map (\<lambda>s. base @ s) [''/transcript'', ''/tts'', ''/tts/meta'', ''/tts/text'', ''/done''])"

definition bytes_of :: "string \<Rightarrow> byte list" where
  "bytes_of s = map of_char s"

definition s_topic :: "sat_session \<Rightarrow> string \<Rightarrow> string" where
  "s_topic s suff =
     s_root s @ ''/sat/'' @ s_sat s @ ''/session/'' @ (case s_sid s of None \<Rightarrow> [] | Some u \<Rightarrow> u) @ ''/'' @ suff"

definition finish :: "sat_session \<Rightarrow> sat_session \<times> command list" where
  "finish s = (s\<lparr>s_state := Idle, s_sid := None, s_deadline := None\<rparr>, [CmdSessionEnded])"

definition on_trigger :: "string \<Rightarrow> nat \<Rightarrow> sat_session \<Rightarrow> sat_session \<times> command list" where
  "on_trigger uuid now s =
     (if s_state s \<noteq> Idle then (s, [])
      else let s1 = s\<lparr>s_sid := Some uuid, s_state := Streaming, s_deadline := Some (now + utterance_max_ms)\<rparr> in
        (s1, [Publish (s_topic s1 ''start'')
                (bytes_of ([CHR 0x7B, CHR 0x22] @ ''locale'' @ [CHR 0x22, CHR 0x3A, CHR 0x22] @ s_locale s
                           @ [CHR 0x22, CHR 0x7D]))]))"

definition on_mic_frame :: "byte list \<Rightarrow> sat_session \<Rightarrow> sat_session \<times> command list" where
  "on_mic_frame bs s = (if s_state s \<noteq> Streaming then (s, []) else (s, [Publish (s_topic s ''audio'') bs]))"

definition end_utterance :: "nat \<Rightarrow> sat_session \<Rightarrow> sat_session \<times> command list" where
  "end_utterance now s =
     (if s_state s \<noteq> Streaming then (s, [])
      else let s1 = s\<lparr>s_state := AwaitingReply, s_deadline := Some (now + reply_timeout_ms)\<rparr> in
        (s1, [Publish (s_topic s1 ''audio'') []]))"

definition as_u64 :: "json \<Rightarrow> u64 option" where
  "as_u64 v = (case v of JNum (PosInt n) \<Rightarrow> Some n | _ \<Rightarrow> None)"

definition as_bool :: "json \<Rightarrow> bool option" where
  "as_bool v = (case v of JBool b \<Rightarrow> Some b | _ \<Rightarrow> None)"

text \<open>\<open>v.get(k)\<close> and a typed read, and \<open>u32::try_from\<close>.\<close>

definition field :: "(json \<Rightarrow> 'a option) \<Rightarrow> string \<Rightarrow> json option \<Rightarrow> 'a option" where
  "field rd k v = Option.bind (Option.bind v (json_get k)) rd"

definition to_u32 :: "u64 \<Rightarrow> u32 option" where
  "to_u32 n = (if unat n < 2 ^ 32 then Some (ucast n) else None)"

definition on_inbound ::
  "(byte list \<Rightarrow> json option) \<Rightarrow> string \<Rightarrow> byte list \<Rightarrow> sat_session \<Rightarrow> sat_session \<times> command list" where
  "on_inbound pj topic payload s =
     (if s_state s \<noteq> AwaitingReply \<and> s_state s \<noteq> Playing then (s, [])
      else case s_sid s of
        None \<Rightarrow> (s, [])
      | Some sid \<Rightarrow>
          (case strip_prefix (s_root s @ ''/sat/'' @ s_sat s @ ''/session/'' @ sid @ ''/'') topic of
             None \<Rightarrow> (s, [])
           | Some suff \<Rightarrow>
               if suff = ''tts/meta'' then
                 (s\<lparr>s_state := Playing\<rparr>,
                  (case Option.bind (field as_u64 ''sample_rate'' (pj payload)) to_u32 of
                     Some r \<Rightarrow> [ConfigureSpeaker r]
                   | None \<Rightarrow> []))
               else if suff = ''tts'' then (s\<lparr>s_state := Playing\<rparr>, [Play payload])
               else if suff = ''done'' then finish s
               else if suff = ''transcript'' then
                 (s, (case field as_str ''text'' (pj payload) of
                        None \<Rightarrow> []
                      | Some t \<Rightarrow>
                          [ShowTranscript t
                             (case field as_bool ''is_final'' (pj payload) of None \<Rightarrow> False | Some b \<Rightarrow> b)]))
               else if suff = ''tts/text'' then
                 (s, (case field as_str ''text'' (pj payload) of None \<Rightarrow> [] | Some t \<Rightarrow> [ShowAnswer t]))
               else (s, [])))"

definition on_tick :: "nat \<Rightarrow> sat_session \<Rightarrow> sat_session \<times> command list" where
  "on_tick now s =
     (if \<not> (case s_deadline s of None \<Rightarrow> False | Some d \<Rightarrow> now > d) then (s, [])
      else case s_state s of
        Idle \<Rightarrow> (s, [])
      | Streaming \<Rightarrow> end_utterance now s
      | AwaitingReply \<Rightarrow> finish s
      | Playing \<Rightarrow> finish s)"

fun sat_handle ::
  "(byte list \<Rightarrow> json option) \<Rightarrow> nat \<times> sat_input \<Rightarrow> sat_session \<Rightarrow> sat_session \<times> command list" where
  "sat_handle pj (now, Trigger uuid) s = on_trigger uuid now s"
| "sat_handle pj (now, MicFrame bs) s = on_mic_frame bs s"
| "sat_handle pj (now, SilenceDetected) s = end_utterance now s"
| "sat_handle pj (now, Inbound topic payload) s = on_inbound pj topic payload s"
| "sat_handle pj (now, Tick) s = on_tick now s"

fun sat_run ::
  "(byte list \<Rightarrow> json option) \<Rightarrow> (nat \<times> sat_input) list \<Rightarrow> sat_session \<Rightarrow> sat_session \<times> command list" where
  "sat_run pj [] s = (s, [])"
| "sat_run pj (i # is) s =
     (let (s1, c1) = sat_handle pj i s; (s2, c2) = sat_run pj is s1 in (s2, c1 @ c2))"

text \<open>\<open>config::checked\<close>, on the reported length of the constant and the constant itself.\<close>

definition max_len :: nat where "max_len = 512"

definition checked :: "string \<Rightarrow> string \<Rightarrow> string" where
  "checked v fallback = (if length v > max_len then fallback else v)"

lemmas sat_defs = on_trigger_def on_mic_frame_def end_utterance_def on_inbound_def on_tick_def finish_def Let_def

section \<open>Invariant\<close>

definition sat_inv :: "sat_session \<Rightarrow> bool" where
  "sat_inv s \<longleftrightarrow> (s_state s = Idle \<longleftrightarrow> s_sid s = None) \<and> (s_state s = Idle \<longleftrightarrow> s_deadline s = None)"

lemma sat_inv_new [simp]: "sat_inv (session_new rt sat loc)"
  by (simp add: sat_inv_def session_new_def)

lemma on_inbound_cases:
  "fst (on_inbound pj topic payload s) = s
   \<or> (s_state s = AwaitingReply \<or> s_state s = Playing)
      \<and> (fst (on_inbound pj topic payload s) = s\<lparr>s_state := Playing\<rparr>
         \<or> fst (on_inbound pj topic payload s) = fst (finish s))"
  by (cases "s_state s"; cases "s_sid s";
      cases "strip_prefix (s_root s @ ''/sat/'' @ s_sat s @ ''/session/'' @ the (s_sid s) @ ''/'') topic")
     (simp_all add: on_inbound_def del: strip_prefix_Some)

lemma sat_handle_cases:
  "fst (sat_handle pj (now, i) s) = s
   \<or> (s_state s = Idle \<and> (\<exists>u. i = Trigger u \<and> fst (sat_handle pj (now, i) s)
         = s\<lparr>s_sid := Some u, s_state := Streaming, s_deadline := Some (now + utterance_max_ms)\<rparr>))
   \<or> (s_state s = Streaming
         \<and> fst (sat_handle pj (now, i) s) = s\<lparr>s_state := AwaitingReply, s_deadline := Some (now + reply_timeout_ms)\<rparr>)
   \<or> (s_state s = AwaitingReply \<or> s_state s = Playing)
      \<and> (fst (sat_handle pj (now, i) s) = s\<lparr>s_state := Playing\<rparr> \<or> fst (sat_handle pj (now, i) s) = fst (finish s))"
proof (cases i)
  case (Inbound topic payload)
  then show ?thesis using on_inbound_cases [of pj topic payload s] by auto
next
  case (Trigger u)
  then show ?thesis by (auto simp: on_trigger_def Let_def)
next
  case Tick
  then show ?thesis
    by (cases "s_state s") (simp_all add: on_tick_def end_utterance_def Let_def)
qed (auto simp: on_mic_frame_def end_utterance_def Let_def)

lemma sat_handle_fixed:
  "s_root (fst (sat_handle pj i s)) = s_root s \<and> s_sat (fst (sat_handle pj i s)) = s_sat s
   \<and> s_locale (fst (sat_handle pj i s)) = s_locale s"
  using sat_handle_cases [of pj "fst i" "snd i" s] by (auto simp: finish_def)

lemma sat_handle_inv [inv_intros]: "sat_inv s \<Longrightarrow> sat_inv (fst (sat_handle pj i s))"
  using sat_handle_cases [of pj "fst i" "snd i" s] by (auto simp: finish_def sat_inv_def)

lemma sat_run_fixed:
  "s_root (fst (sat_run pj is s)) = s_root s \<and> s_sat (fst (sat_run pj is s)) = s_sat s
   \<and> s_locale (fst (sat_run pj is s)) = s_locale s"
  by (induction "is" arbitrary: s) (simp_all add: Let_def split_beta sat_handle_fixed)

lemma sat_run_inv: "sat_inv s \<Longrightarrow> sat_inv (fst (sat_run pj is s))"
  by (induction "is" arbitrary: s) (simp_all add: Let_def split_beta sat_handle_inv)

lemma sat_run_append:
  "sat_run pj (is @ js) s =
     (let (s1, c1) = sat_run pj is s; (s2, c2) = sat_run pj js s1 in (s2, c1 @ c2))"
  by (induction "is" arbitrary: s) (simp_all add: Let_def split_beta)

section \<open>Re-arming\<close>

fun rank :: "sat_state \<Rightarrow> nat" where
  "rank Idle = 0" | "rank Streaming = 2" | "rank AwaitingReply = 1" | "rank Playing = 1"

lemma rank_0 [simp]: "rank st = 0 \<longleftrightarrow> st = Idle"
  by (cases st) simp_all

lemma handle_keeps_deadline:
  assumes "s_state s \<noteq> Idle" "r = fst (sat_handle pj (now, i) s)"
  shows "s_state r = Idle
    \<or> rank (s_state r) = rank (s_state s) \<and> s_deadline r = s_deadline s
    \<or> rank (s_state s) = 2 \<and> rank (s_state r) = 1 \<and> s_deadline r = Some (now + reply_timeout_ms)"
  using assms(1) sat_handle_cases [of pj now i s] unfolding assms(2) by (auto simp: finish_def)

lemma tick_expires:
  assumes "sat_inv s" "s_state s \<noteq> Idle" "s_deadline s = Some d" "d < now"
  shows "rank (s_state (fst (sat_handle pj (now, Tick) s))) < rank (s_state s)"
  using assms by (cases "s_state s") (auto simp: sat_defs)

text \<open>The first state at which the machine is idle again, if any.\<close>

definition idle_reached :: "(byte list \<Rightarrow> json option) \<Rightarrow> (nat \<times> sat_input) list \<Rightarrow> sat_session \<Rightarrow> bool" where
  "idle_reached pj is s \<longleftrightarrow> (\<exists>k \<le> length is. s_state (fst (sat_run pj (take k is) s)) = Idle)"

lemma idle_reached_Nil [simp]: "idle_reached pj [] s \<longleftrightarrow> s_state s = Idle"
  by (simp add: idle_reached_def)

lemma idle_reached_Cons:
  "idle_reached pj (i # is) s \<longleftrightarrow> s_state s = Idle \<or> idle_reached pj is (fst (sat_handle pj i s))"
proof -
  have "fst (sat_run pj (take (Suc k) (i # is)) s) = fst (sat_run pj (take k is) (fst (sat_handle pj i s)))" for k
    by (simp add: Let_def split_beta)
  then show ?thesis unfolding idle_reached_def
    by (metis (no_types, lifting) Suc_le_mono fst_conv le0 length_Cons not0_implies_Suc sat_run.simps(1) take0)
qed

lemma idle_reached_append:
  "idle_reached pj (is @ js) s \<longleftrightarrow> idle_reached pj is s \<or> idle_reached pj js (fst (sat_run pj is s))"
  by (induction "is" arbitrary: s) (auto simp: idle_reached_Cons Let_def split_beta, cases js, auto simp: idle_reached_Cons)

lemma awaiting_kept:
  assumes "sat_inv s" "rank (s_state s) = 1" "\<not> idle_reached pj is s"
  shows "rank (s_state (fst (sat_run pj is s))) = 1 \<and> s_deadline (fst (sat_run pj is s)) = s_deadline s"
  using assms
proof (induction "is" arbitrary: s)
  case (Cons i "is")
  obtain now x where i: "i = (now, x)" by (cases i)
  let ?s1 = "fst (sat_handle pj i s)"
  have n: "s_state s \<noteq> Idle" "s_state ?s1 \<noteq> Idle"
    using Cons.prems by (auto simp: idle_reached_Cons) (cases "is", auto simp: idle_reached_Cons)
  have "rank (s_state ?s1) = 1 \<and> s_deadline ?s1 = s_deadline s"
    using handle_keeps_deadline [OF n(1) refl, of pj now x] n(2) Cons.prems(2) i by auto
  moreover have "\<not> idle_reached pj is ?s1" "sat_inv ?s1"
    using Cons.prems by (simp_all add: idle_reached_Cons sat_handle_inv)
  ultimately show ?case using Cons.IH [of ?s1] by (simp add: Let_def split_beta)
qed simp

lemma awaiting_expires:
  assumes "sat_inv s" "rank (s_state s) = 1" "s_deadline s = Some d" "d < t"
  shows "idle_reached pj (is @ [(t, Tick)]) s"
proof (rule ccontr)
  assume a: "\<not> ?thesis"
  then have "\<not> idle_reached pj is s" by (simp add: idle_reached_append)
  note k = awaiting_kept [OF assms(1,2) this]
  let ?e = "fst (sat_run pj is s)"
  have "s_state ?e \<noteq> Idle" using k by auto
  from tick_expires [OF sat_run_inv [OF assms(1)] this, of d t] k assms(3,4)
  have "s_state (fst (sat_handle pj (t, Tick) ?e)) = Idle" by simp
  then show False using a by (simp add: idle_reached_append idle_reached_Cons)
qed

lemma streaming_kept:
  assumes "sat_inv s" "s_state s = Streaming" "s_deadline s = Some d" "\<not> idle_reached pj is s"
    "\<forall>(t, i) \<in> set is. t \<le> T"
  shows "s_state (fst (sat_run pj is s)) = Streaming \<and> s_deadline (fst (sat_run pj is s)) = Some d
    \<or> rank (s_state (fst (sat_run pj is s))) = 1
      \<and> (\<exists>t \<le> T. s_deadline (fst (sat_run pj is s)) = Some (t + reply_timeout_ms))"
  using assms
proof (induction "is" arbitrary: s)
  case (Cons i "is")
  obtain now x where i: "i = (now, x)" by (cases i)
  let ?s1 = "fst (sat_handle pj i s)"
  have n: "s_state s \<noteq> Idle" "s_state ?s1 \<noteq> Idle"
    using Cons.prems by (auto simp: idle_reached_Cons) (cases "is", auto simp: idle_reached_Cons)
  have rest: "\<not> idle_reached pj is ?s1" "sat_inv ?s1" "now \<le> T" "\<forall>(t, i) \<in> set is. t \<le> T"
    using Cons.prems i by (auto simp add: idle_reached_Cons sat_handle_inv)
  have run: "fst (sat_run pj (i # is) s) = fst (sat_run pj is ?s1)" by (simp add: Let_def split_beta)
  from handle_keeps_deadline [OF n(1) refl, of pj now x] n(2)
  consider "rank (s_state ?s1) = 2" "s_deadline ?s1 = Some d"
    | "rank (s_state ?s1) = 1" "s_deadline ?s1 = Some (now + reply_timeout_ms)"
    using Cons.prems(2,3) i by auto
  then show ?case
  proof cases
    case 1
    then have "s_state ?s1 = Streaming" by (cases "s_state ?s1") simp_all
    from Cons.IH [OF rest(2) this 1(2) rest(1,4)] show ?thesis unfolding run .
  next
    case 2
    with awaiting_kept [OF rest(2) 2(1) rest(1)] show ?thesis unfolding run using rest(3) by auto
  qed
qed simp



section \<open>Agreement with the runtime's topics\<close>

definition triggers :: "(nat \<times> sat_input) list \<Rightarrow> string set" where
  "triggers is = {u. \<exists>t. (t, Trigger u) \<in> set is}"

lemma handle_sid:
  "s_sid (fst (sat_handle pj i s)) = Some u \<Longrightarrow> s_sid s = Some u \<or> u \<in> triggers [i]"
proof -
  obtain now x where i: "i = (now, x)" by (cases i)
  show "s_sid (fst (sat_handle pj i s)) = Some u \<Longrightarrow> ?thesis"
    using sat_handle_cases [of pj now x s] unfolding i
    by (cases x) (auto simp: finish_def triggers_def on_trigger_def Let_def)
qed

lemma on_inbound_silent: "Publish t p \<notin> set (snd (on_inbound pj topic payload s))"
  by (cases "s_state s"; cases "s_sid s";
      cases "strip_prefix (s_root s @ ''/sat/'' @ s_sat s @ ''/session/'' @ the (s_sid s) @ ''/'') topic")
     (auto simp: on_inbound_def finish_def simp del: strip_prefix_Some split: option.splits)

lemma handle_publishes:
  assumes "Publish t p \<in> set (snd (sat_handle pj i s))" "sat_inv s"
  shows "\<exists>u \<in> {u. s_sid s = Some u} \<union> triggers [i]. \<exists>v \<in> {''start'', ''audio''}.
           t = s_root s @ ''/sat/'' @ s_sat s @ ''/session/'' @ u @ ''/'' @ v"
proof -
  obtain now x where i: "i = (now, x)" by (cases i)
  show ?thesis
  proof (cases x)
    case (Trigger u)
    then show ?thesis using assms i
      by (auto simp: on_trigger_def Let_def s_topic_def triggers_def split: if_splits)
  next
    case (MicFrame bs)
    then show ?thesis using assms i
      by (auto simp: on_mic_frame_def s_topic_def sat_inv_def split: if_splits)
  next
    case SilenceDetected
    then show ?thesis using assms i
      by (auto simp: end_utterance_def Let_def s_topic_def sat_inv_def split: if_splits)
  next
    case (Inbound topic payload)
    then show ?thesis using assms i on_inbound_silent by auto
  next
    case Tick
    then show ?thesis using assms i
      by (cases "s_state s") (auto simp: on_tick_def finish_def end_utterance_def Let_def s_topic_def sat_inv_def split: if_splits option.splits)
  qed
qed

lemma run_publishes:
  assumes "Publish t p \<in> set (snd (sat_run pj is s))" "sat_inv s"
  shows "\<exists>u \<in> {u. s_sid s = Some u} \<union> triggers is. \<exists>v \<in> {''start'', ''audio''}.
           t = s_root s @ ''/sat/'' @ s_sat s @ ''/session/'' @ u @ ''/'' @ v"
  using assms
proof (induction "is" arbitrary: s)
  case (Cons i "is")
  let ?s1 = "fst (sat_handle pj i s)"
  have T: "triggers (i # is) = triggers [i] \<union> triggers is" by (auto simp: triggers_def)
  from Cons.prems(1) consider "Publish t p \<in> set (snd (sat_handle pj i s))" | "Publish t p \<in> set (snd (sat_run pj is ?s1))"
    by (auto simp: Let_def split_beta)
  then show ?case
  proof cases
    case 1
    from handle_publishes [OF this Cons.prems(2)] show ?thesis unfolding T by blast
  next
    case 2
    from Cons.IH [OF this sat_handle_inv [OF Cons.prems(2)]] handle_sid [of pj i s] show ?thesis
      unfolding T using sat_handle_fixed [of pj i s] by auto
  qed
qed simp

text \<open>The device speaks the runtime's protocol: everything a satellite with a valid id ever publishes,
  over any inputs, is a topic the runtime parses as the start or the audio of a session of this satellite,
  one of the sessions its own triggers opened.\<close>

theorem device_publishes_parse:
  assumes "CHR ''/'' \<notin> set rt" "valid_satellite sat"
    and "\<forall>u \<in> triggers is. CHR ''/'' \<notin> set u \<and> puuid u \<noteq> None"
    and "Publish t p \<in> set (snd (sat_run pj is (session_new rt sat loc)))"
  shows "\<exists>u \<in> triggers is. \<exists>sid. puuid u = Some sid
    \<and> parse_satellite_topic puuid rt t \<in> {Some (PStart sat sid), Some (PAudio sat sid)}"
proof -
  from run_publishes [OF assms(4)] obtain u v where
    u: "u \<in> triggers is" and v: "v \<in> {''start'', ''audio''}"
    and t: "t = rt @ ''/sat/'' @ sat @ ''/session/'' @ u @ ''/'' @ v"
    by (auto simp: session_new_def sat_inv_def)
  obtain sid where s: "puuid u = Some sid" "CHR ''/'' \<notin> set u" using assms(3) u by auto
  have "CHR ''/'' \<notin> set v" using v by auto
  from parse_satellite_topic_six [where puuid = puuid, OF assms(1,2) s(2,1) this] v u s t
  show ?thesis by (intro bexI [of _ u] exI [of _ sid]) auto
qed

theorem device_publishes_parse_witness:
  "\<exists>u \<in> triggers [(0, Trigger ''0a''), (20, MicFrame [7])]. \<exists>sid. (if u = ''0a'' then Some 10 else None) = Some sid
     \<and> parse_satellite_topic (\<lambda>u. if u = ''0a'' then Some 10 else None) ''assist'' ''assist/sat/esp32/session/0a/audio''
         \<in> {Some (PStart ''esp32'' sid), Some (PAudio ''esp32'' sid)}"
proof -
  have t: "triggers [(0, Trigger ''0a''), (20, MicFrame [7])] = {''0a''}" by (auto simp: triggers_def)
  have "CHR ''/'' \<notin> set ''assist''" "valid_satellite ''esp32''"
    by (simp_all add: valid_satellite_def satellite_new_def is_ascii_lowercase_def is_ascii_digit_def)
  moreover have "\<forall>u \<in> triggers [(0, Trigger ''0a''), (20, MicFrame [7])].
      CHR ''/'' \<notin> set u \<and> (\<lambda>u. if u = ''0a'' then Some (10 :: session_id) else None) u \<noteq> None"
    unfolding t by simp
  moreover have "Publish ''assist/sat/esp32/session/0a/audio'' [7]
      \<in> set (snd (sat_run (\<lambda>_. None) [(0, Trigger ''0a''), (20, MicFrame [7])] (session_new ''assist'' ''esp32'' ''fr'')))"
    by (simp add: session_new_def on_trigger_def on_mic_frame_def Let_def s_topic_def)
  ultimately show ?thesis by (rule device_publishes_parse)
qed

lemma strip_session_topic:
  assumes "CHR ''/'' \<notin> set u" "CHR ''/'' \<notin> set u'"
  shows "strip_prefix (pre @ u @ ''/'') (pre @ u' @ ''/'' @ v) = (if u = u' then Some v else None)"
proof (cases "u = u'")
  case False
  have "\<not> prefix (u @ ''/'') (u' @ ''/'' @ v)"
  proof
    assume "prefix (u @ ''/'') (u' @ ''/'' @ v)"
    then obtain r where "u' @ ''/'' @ v = u @ ''/'' @ r" by (auto simp: prefix_def)
    then have "split_on (CHR ''/'') (u' @ CHR ''/'' # v) = split_on (CHR ''/'') (u @ CHR ''/'' # r)" by simp
    then show False using False assms by (simp add: split_on_append)
  qed
  then show ?thesis using False by (simp add: strip_prefix_def same_prefix_prefix)
qed (simp add: strip_prefix_def)

text \<open>The device understands the runtime: while it waits for or plays a reply, the runtime's audio
  topic of its session is played, the \<open>done\<close> topic ends the session, and the reply topics of any other
  session, whose printed id differs, are ignored.\<close>

theorem device_understands_runtime:
  assumes "s_state s \<in> {AwaitingReply, Playing}" "s_sid s = Some (fmt sid)"
    and "\<forall>x. CHR ''/'' \<notin> set (fmt x)" "s_root s = rt" "s_sat s = sat"
  shows "on_inbound pj (session_tts fmt rt sat sid) p s = (s\<lparr>s_state := Playing\<rparr>, [Play p])
    \<and> on_inbound pj (session_done fmt rt sat sid) p s
           = (s\<lparr>s_state := Idle, s_sid := None, s_deadline := None\<rparr>, [CmdSessionEnded])
    \<and> (\<forall>sid' f. fmt sid' \<noteq> fmt sid \<longrightarrow>
         f \<in> {session_tts, session_tts_meta, session_tts_text, session_done, session_transcript} \<longrightarrow>
         on_inbound pj (f fmt rt sat sid') p s = (s, []))"
proof -
  have st: "(s_state s \<noteq> AwaitingReply \<and> s_state s \<noteq> Playing) = False" using assms(1) by auto
  let ?pre = "rt @ ''/sat/'' @ sat @ ''/session/''"
  have sp: "strip_prefix (rt @ ''/sat/'' @ sat @ ''/session/'' @ fmt sid @ ''/'')
      (rt @ ''/sat/'' @ sat @ ''/session/'' @ fmt x @ ''/'' @ v) = (if fmt sid = fmt x then Some v else None)" for x v
    using strip_session_topic [of "fmt sid" "fmt x" ?pre v] assms(3) by simp
  note unf = on_inbound_def st assms(2,4,5) option.case if_False
  have t: "session_tts fmt rt sat sid = rt @ ''/sat/'' @ sat @ ''/session/'' @ fmt sid @ ''/'' @ ''tts''"
    "session_done fmt rt sat sid = rt @ ''/sat/'' @ sat @ ''/session/'' @ fmt sid @ ''/'' @ ''done''"
    by (simp_all add: session_tts_def session_done_def session_base_def)
  have "on_inbound pj (session_tts fmt rt sat sid) p s = (s\<lparr>s_state := Playing\<rparr>, [Play p])"
    unfolding unf t sp by simp
  moreover have "on_inbound pj (session_done fmt rt sat sid) p s
           = (s\<lparr>s_state := Idle, s_sid := None, s_deadline := None\<rparr>, [CmdSessionEnded])"
    unfolding unf t sp by (simp add: finish_def)
  moreover have "on_inbound pj (f fmt rt sat sid') p s = (s, [])"
    if ne: "fmt sid' \<noteq> fmt sid"
      and f: "f \<in> {session_tts, session_tts_meta, session_tts_text, session_done, session_transcript}" for sid' f
  proof -
    obtain v where v: "f fmt rt sat sid' = rt @ ''/sat/'' @ sat @ ''/session/'' @ fmt sid' @ ''/'' @ v"
      using f by (auto simp: session_tts_def session_tts_meta_def session_tts_text_def session_done_def
          session_transcript_def session_base_def)
    show ?thesis unfolding unf v sp using ne by simp
  qed
  ultimately show ?thesis by blast
qed

theorem device_understands_runtime_witness:
  "on_inbound (\<lambda>_. None) ''assist/sat/esp32/session/x/tts'' [1, 2]
     \<lparr>s_root = ''assist'', s_sat = ''esp32'', s_locale = ''fr'', s_state = AwaitingReply, s_sid = Some ''x'', s_deadline = Some 9\<rparr>
   = (\<lparr>s_root = ''assist'', s_sat = ''esp32'', s_locale = ''fr'', s_state = Playing, s_sid = Some ''x'', s_deadline = Some 9\<rparr>,
      [Play [1, 2]])"
proof -
  let ?s = "\<lparr>s_root = ''assist'', s_sat = ''esp32'', s_locale = ''fr'', s_state = AwaitingReply, s_sid = Some ''x'', s_deadline = Some 9\<rparr>"
  have "s_state ?s \<in> {AwaitingReply, Playing}" "s_sid ?s = Some ((\<lambda>_. ''x'') (0 :: session_id))"
    "\<forall>x. CHR ''/'' \<notin> set ((\<lambda>_. ''x'') (x :: session_id))" "s_root ?s = ''assist''" "s_sat ?s = ''esp32''"
    by simp_all
  from device_understands_runtime [OF this, where pj = "\<lambda>_. None" and p = "[1, 2]"]
  show ?thesis by (simp add: session_tts_def session_base_def)
qed

end
