(* ===== verification/Sessions.thy ===== *)
theory Sessions
  imports Topics Host_Fns Satellite_Session
begin

text \<open>
  Sessions: the manager (\<open>crates/athena-voice-runtime/src/session/manager.rs\<close>), the MQTT ingress that opens,
  feeds and closes them and the transcript egress (\<open>satellite/ingress.rs\<close>), the pass-through stages before the
  router (\<open>pipeline/ingest.rs\<close>, \<open>vad.rs\<close>, \<open>stt.rs\<close>) and the event mirror (\<open>event_bus.rs\<close>).

  The manager's map is an association list in the map's own iteration order. A message comes with the
  clock and with whether the session's channel has room, as \<open>try_send\<close> finds it; JSON and UTF-8 decoding are
  arguments. Spawning a pipeline is logged.
\<close>

section \<open>The session manager\<close>

record session_state =
  ss_sat :: satellite_id
  ss_locale :: locale_id
  ss_audio :: "audio_frame list"
  ss_text :: "transcript list"
  ss_last :: u64
  ss_cancelled :: bool

record session_manager =
  sm_map :: "(session_id \<times> session_state) list"
  sm_closed :: "session_id list"

definition manager_new :: session_manager where
  "manager_new = \<lparr>sm_map = [], sm_closed = []\<rparr>"

definition mgr_get :: "session_id \<Rightarrow> session_manager \<Rightarrow> session_state option" where
  "mgr_get sid m = map_of (sm_map m) sid"

definition mgr_open :: "u64 \<Rightarrow> session_id \<Rightarrow> satellite_id \<Rightarrow> locale_id \<Rightarrow> session_manager \<Rightarrow> bool \<times> session_manager" where
  "mgr_open now sid sat loc m =
     (if mgr_get sid m \<noteq> None then (False, m)
      else (True, m\<lparr>sm_map := AList.update sid
              \<lparr>ss_sat = sat, ss_locale = loc, ss_audio = [], ss_text = [], ss_last = now, ss_cancelled = False\<rparr> (sm_map m)\<rparr>))"

definition mgr_modify :: "session_id \<Rightarrow> (session_state \<Rightarrow> session_state) \<Rightarrow> session_manager \<Rightarrow> session_manager" where
  "mgr_modify sid f m =
     (case mgr_get sid m of None \<Rightarrow> m | Some st \<Rightarrow> m\<lparr>sm_map := AList.update sid (f st) (sm_map m)\<rparr>)"

definition mgr_touch :: "u64 \<Rightarrow> session_id \<Rightarrow> session_manager \<Rightarrow> session_manager" where
  "mgr_touch now sid = mgr_modify sid (\<lambda>st. st\<lparr>ss_last := now\<rparr>)"

text \<open>Removing cancels the token: the id is logged.\<close>

definition mgr_close :: "session_id \<Rightarrow> session_manager \<Rightarrow> session_manager" where
  "mgr_close sid m =
     (case mgr_get sid m of
        None \<Rightarrow> m
      | Some st \<Rightarrow> m\<lparr>sm_map := AList.delete sid (sm_map m), sm_closed := sm_closed m @ [sid]\<rparr>)"

definition mgr_reap :: "u64 \<Rightarrow> u64 \<Rightarrow> session_manager \<Rightarrow> session_id list \<times> session_manager" where
  "mgr_reap now max_idle m =
     (let cutoff = sat_sub64 now max_idle;
          stale = map fst (filter (\<lambda>(sid, st). ss_last st < cutoff) (sm_map m))
      in (stale, fold mgr_close stale m))"

definition mgr_cancel_all :: "session_manager \<Rightarrow> session_manager" where
  "mgr_cancel_all m = m\<lparr>sm_map := map (\<lambda>(sid, st). (sid, st\<lparr>ss_cancelled := True\<rparr>)) (sm_map m)\<rparr>"

definition mgr_len :: "session_manager \<Rightarrow> nat" where
  "mgr_len m = length (sm_map m)"

definition mgr_is_empty :: "session_manager \<Rightarrow> bool" where
  "mgr_is_empty m = (sm_map m = [])"

section \<open>Ingress\<close>

record codecs =
  c_json :: "byte list \<Rightarrow> json option"
  c_lossy :: "byte list \<Rightarrow> string"
  c_uuid :: "string \<Rightarrow> session_id option"
  c_print :: "session_id \<Rightarrow> string"
  c_encode :: "json \<Rightarrow> byte list"

record ingress =
  ig_mgr :: session_manager
  ig_bus :: "event list"
  ig_spawned :: "(session_id \<times> satellite_id \<times> locale_id) list"

definition extract_locale :: "codecs \<Rightarrow> byte list \<Rightarrow> locale_id option" where
  "extract_locale cd payload =
     (case c_json cd payload of
        None \<Rightarrow> None
      | Some v \<Rightarrow>
          (case Option.bind (json_get ''locale'' v) as_str of
             None \<Rightarrow> None
           | Some raw \<Rightarrow> (case locale_new raw of Inl _ \<Rightarrow> None | Inr l \<Rightarrow> Some l)))"

definition open_session :: "u64 \<Rightarrow> satellite_id \<Rightarrow> session_id \<Rightarrow> locale_id \<Rightarrow> ingress \<Rightarrow> ingress" where
  "open_session now sat sid loc w =
     (case mgr_open now sid sat loc (ig_mgr w) of
        (False, _) \<Rightarrow> w
      | (True, m) \<Rightarrow>
          w\<lparr>ig_mgr := m, ig_bus := ig_bus w @ [SessionStarted sid sat loc], ig_spawned := ig_spawned w @ [(sid, sat, loc)]\<rparr>)"

fun handle_parsed :: "codecs \<Rightarrow> u64 \<Rightarrow> bool \<Rightarrow> byte list \<Rightarrow> parsed_topic \<Rightarrow> ingress \<Rightarrow> ingress" where
  "handle_parsed cd now room payload (PStart sat sid) w =
     open_session now sat sid (case extract_locale cd payload of Some l \<Rightarrow> l | None \<Rightarrow> ''en'') w"
| "handle_parsed cd now room payload (PAudio _ sid) w =
     w\<lparr>ig_mgr := mgr_modify sid
         (\<lambda>st. if room then st\<lparr>ss_audio := ss_audio st @ [\<lparr>af_session = sid, af_seq = 0, af_pcm = payload\<rparr>]\<rparr> else st)
         (mgr_touch now sid (ig_mgr w))\<rparr>"
| "handle_parsed cd now room payload (PText _ sid) w =
     (let m = mgr_touch now sid (ig_mgr w); text = trim (c_lossy cd payload) in
      if mgr_get sid m = None \<or> text = [] then w\<lparr>ig_mgr := m\<rparr>
      else w\<lparr>ig_mgr := mgr_modify sid
               (\<lambda>st. if room then st\<lparr>ss_text := ss_text st @ [\<lparr>t_text = text, t_is_final = True, t_confidence = None\<rparr>]\<rparr> else st) m,
             ig_bus := ig_bus w @ [TranscriptFinal sid text]\<rparr>)"
| "handle_parsed cd now room payload (PEnd _ sid) w = w\<lparr>ig_mgr := mgr_close sid (ig_mgr w)\<rparr>"

definition handle_publish :: "codecs \<Rightarrow> string \<Rightarrow> u64 \<Rightarrow> bool \<Rightarrow> string \<Rightarrow> byte list \<Rightarrow> ingress \<Rightarrow> ingress" where
  "handle_publish cd troot now room topic payload w =
     (case parse_satellite_topic (c_uuid cd) troot topic of
        None \<Rightarrow> w
      | Some p \<Rightarrow> handle_parsed cd now room payload p w)"

text \<open>The satellite loop's subscriptions on every connection, first or not; \<open>assist\<close> is the bridge's wildcard.\<close>

definition resubscribe :: "string \<Rightarrow> string option \<Rightarrow> string list" where
  "resubscribe troot assist = sat_wildcard troot # (case assist of None \<Rightarrow> [] | Some wc \<Rightarrow> [wc])"

datatype ingress_op =
    Incoming u64 bool string "byte list"
  | Reap u64 u64
  | Shutdown

fun ingress_step :: "codecs \<Rightarrow> string \<Rightarrow> ingress_op \<Rightarrow> ingress \<Rightarrow> ingress" where
  "ingress_step cd troot (Incoming now room topic payload) w = handle_publish cd troot now room topic payload w"
| "ingress_step cd troot (Reap now max_idle) w = w\<lparr>ig_mgr := snd (mgr_reap now max_idle (ig_mgr w))\<rparr>"
| "ingress_step cd troot Shutdown w = w\<lparr>ig_mgr := mgr_cancel_all (ig_mgr w)\<rparr>"

definition ingress_init :: ingress where
  "ingress_init = \<lparr>ig_mgr = manager_new, ig_bus = [], ig_spawned = []\<rparr>"

section \<open>Egress\<close>

datatype egress_kind = EgTranscript | EgTtsText

fun egress_message :: "event \<Rightarrow> (session_id \<times> egress_kind \<times> json) option" where
  "egress_message (TranscriptPartial s t) = Some (s, EgTranscript, JObj [(''is_final'', JBool False), (''text'', JStr t)])"
| "egress_message (TranscriptFinal s t) = Some (s, EgTranscript, JObj [(''is_final'', JBool True), (''text'', JStr t)])"
| "egress_message (TtsText s t) = Some (s, EgTtsText, JObj [(''text'', JStr t)])"
| "egress_message _ = None"

definition transcript_egress :: "codecs \<Rightarrow> string \<Rightarrow> session_manager \<Rightarrow> event \<Rightarrow> (string \<times> byte list) option" where
  "transcript_egress cd troot m ev =
     (case egress_message ev of
        None \<Rightarrow> None
      | Some (sid, kind, payload) \<Rightarrow>
          (case mgr_get sid m of
             None \<Rightarrow> None
           | Some st \<Rightarrow>
               Some (case kind of
                       EgTranscript \<Rightarrow> session_transcript (c_print cd) troot (ss_sat st) sid
                     | EgTtsText \<Rightarrow> session_tts_text (c_print cd) troot (ss_sat st) sid,
                     c_encode cd payload)))"

section \<open>The stages before the router\<close>

text \<open>\<open>ingest\<close> and \<open>vad\<close> pass every frame on, empty ones included, until the next stage is gone.\<close>

fun pass_through :: "'m list \<Rightarrow> 'm chan \<Rightarrow> 'm chan" where
  "pass_through [] ch = ch"
| "pass_through (x # xs) ch = (case send x ch of (True, ch1) \<Rightarrow> pass_through xs ch1 | (False, ch1) \<Rightarrow> ch1)"

definition ingest_run :: "audio_frame list \<Rightarrow> audio_frame chan \<Rightarrow> audio_frame chan" where
  "ingest_run frames ch = pass_through frames ch"

definition vad_run :: "u32 \<Rightarrow> audio_frame list \<Rightarrow> audio_frame chan \<Rightarrow> audio_frame chan" where
  "vad_run endpoint frames ch = pass_through frames ch"

definition stt_event :: "session_id \<Rightarrow> transcript \<Rightarrow> event" where
  "stt_event s t = (if t_is_final t then TranscriptFinal s (t_text t) else TranscriptPartial s (t_text t))"

fun stt_forward :: "session_id \<Rightarrow> (string + transcript) list \<Rightarrow> transcript chan \<Rightarrow> event list \<times> transcript chan" where
  "stt_forward s [] ch = ([], ch)"
| "stt_forward s (Inl _ # _) ch = ([], ch)"
| "stt_forward s (Inr t # ts) ch =
     (case send t ch of
        (False, ch1) \<Rightarrow> ([stt_event s t], ch1)
      | (True, ch1) \<Rightarrow> (let (evs, ch2) = stt_forward s ts ch1 in (stt_event s t # evs, ch2)))"

text \<open>The backend: a failed start, or the stream it yields for the frames.\<close>

definition stt_run ::
  "session_id \<Rightarrow> (audio_frame list \<Rightarrow> string + (string + transcript) list) \<Rightarrow> audio_frame list \<Rightarrow> transcript chan
     \<Rightarrow> event list \<times> transcript chan" where
  "stt_run s transcribe frames ch =
     (case transcribe frames of Inl _ \<Rightarrow> ([], ch) | Inr stream \<Rightarrow> stt_forward s stream ch)"

section \<open>The event mirror\<close>

text \<open>The tag serde writes for each event (\<open>core/src/event.rs\<close>).\<close>

fun event_kind :: "event \<Rightarrow> string" where
  "event_kind (SessionStarted _ _ _) = ''session_started''"
| "event_kind (AudioFrameDropped _ _) = ''audio_frame_dropped''"
| "event_kind (TranscriptPartial _ _) = ''transcript_partial''"
| "event_kind (TranscriptFinal _ _) = ''transcript_final''"
| "event_kind (IntentMatched _ _) = ''intent_matched''"
| "event_kind (SkillInvoked _ _) = ''skill_invoked''"
| "event_kind (SkillPanicked _ _ _) = ''skill_panicked''"
| "event_kind (LlmFallback _ _ _) = ''llm_fallback''"
| "event_kind (TtsChunk _ _ _) = ''tts_chunk''"
| "event_kind (SessionEnded _ _) = ''session_ended''"
| "event_kind (ProviderError _ _ _) = ''provider_error''"
| "event_kind (CircuitOpened _ _) = ''circuit_opened''"
| "event_kind (CircuitClosed _ _) = ''circuit_closed''"
| "event_kind (BargeIn _ _) = ''barge_in''"
| "event_kind (SkillCancelled _ _) = ''skill_cancelled''"
| "event_kind (SkillReloaded _) = ''skill_reloaded''"
| "event_kind (SkillReloadFailed _ _) = ''skill_reload_failed''"
| "event_kind (ScheduledFired _ _) = ''scheduled_fired''"
| "event_kind (SkillNotify _ _ _) = ''skill_notify''"
| "event_kind (AudioChunk _ _ _ _) = ''audio_chunk''"
| "event_kind (VolumeChanged _ _) = ''volume_changed''"
| "event_kind (TtsText _ _) = ''tts_text''"

text \<open>What the mirror publishes for the events it reads; \<open>ser\<close> is the JSON text, absent when it fails.\<close>

definition mqtt_mirror :: "(event \<Rightarrow> byte list option) \<Rightarrow> string \<Rightarrow> event list \<Rightarrow> (string \<times> byte list) list" where
  "mqtt_mirror ser troot evs =
     List.map_filter (\<lambda>ev. map_option (\<lambda>p. (event_topic troot (event_kind ev), p)) (ser ev)) evs"

section \<open>Manager lemmas\<close>

lemma mgr_get_modify [simp]: "mgr_get sid' (mgr_modify sid f m) =
    (if sid' = sid then map_option f (mgr_get sid m) else mgr_get sid' m)"
  by (auto simp: mgr_modify_def mgr_get_def update_conv' split: option.split)

lemma mgr_get_touch [simp]: "mgr_get sid' (mgr_touch now sid m) =
    (if sid' = sid then map_option (\<lambda>st. st\<lparr>ss_last := now\<rparr>) (mgr_get sid m) else mgr_get sid' m)"
  by (simp add: mgr_touch_def)

lemma mgr_get_close [simp]: "mgr_get sid' (mgr_close sid m) = (if sid' = sid then None else mgr_get sid' m)"
  by (auto simp: mgr_close_def mgr_get_def delete_conv' split: option.split)

lemma mgr_keys_modify [simp]: "map fst (sm_map (mgr_modify sid f m)) = map fst (sm_map m)"
proof (cases "mgr_get sid m")
  case (Some st)
  then have "sid \<in> set (map fst (sm_map m))" 
    by (metis mgr_get_def dom_map_of_conv_image_fst domI set_map)
  then show ?thesis using Some by (simp add: mgr_modify_def update_keys)
qed (simp add: mgr_modify_def)

lemma mgr_closed_modify [simp]: "sm_closed (mgr_modify sid f m) = sm_closed m"
  by (simp add: mgr_modify_def split: option.split)

lemma mgr_keys_touch [simp]:
  "map fst (sm_map (mgr_touch now sid m)) = map fst (sm_map m)" "sm_closed (mgr_touch now sid m) = sm_closed m"
  by (simp_all add: mgr_touch_def)

definition live :: "session_id \<Rightarrow> session_manager \<Rightarrow> nat" where
  "live sid m = (if mgr_get sid m = None then 0 else 1)"

lemma live_modify [simp]: "live sid' (mgr_modify sid f m) = live sid' m"
  by (simp add: live_def)

lemma live_touch [simp]: "live sid' (mgr_touch now sid m) = live sid' m"
  by (simp add: mgr_touch_def)

lemma live_close: "count_list (sm_closed (mgr_close sid m)) sid' + live sid' (mgr_close sid m)
    = count_list (sm_closed m) sid' + live sid' m"
  by (cases "mgr_get sid m") (auto simp: live_def, auto simp: mgr_close_def count_list_append)

lemma close_distinct: "distinct (map fst (sm_map m)) \<Longrightarrow> distinct (map fst (sm_map (mgr_close sid m)))"
  by (auto simp: mgr_close_def distinct_delete split: option.split)

lemma closes_kept:
  "count_list (sm_closed (fold mgr_close sids m)) sid + live sid (fold mgr_close sids m) = count_list (sm_closed m) sid + live sid m
   \<and> (distinct (map fst (sm_map m)) \<longrightarrow> distinct (map fst (sm_map (fold mgr_close sids m))))"
  by (induction sids arbitrary: m) (simp_all add: live_close close_distinct)

section \<open>Every session is accounted for\<close>

fun started_of :: "event \<Rightarrow> (session_id \<times> satellite_id \<times> locale_id) option" where
  "started_of (SessionStarted s sat loc) = Some (s, sat, loc)"
| "started_of _ = None"

definition sessions_ok :: "ingress \<Rightarrow> bool" where
  "sessions_ok w \<longleftrightarrow>
     distinct (map fst (sm_map (ig_mgr w)))
     \<and> (\<forall>sid. count_list (map fst (ig_spawned w)) sid = count_list (sm_closed (ig_mgr w)) sid + live sid (ig_mgr w))
     \<and> List.map_filter started_of (ig_bus w) = ig_spawned w"

lemma map_filter_snoc: "List.map_filter f (xs @ [x]) = List.map_filter f xs @ (case f x of None \<Rightarrow> [] | Some y \<Rightarrow> [y])"
  by (simp add: List.map_filter_def split: option.split)

lemma open_session_ok: "sessions_ok w \<Longrightarrow> sessions_ok (open_session now sat sid loc w)"
proof (cases "mgr_get sid (ig_mgr w)")
  case None
  assume ok: "sessions_ok w"
  let ?m = "(ig_mgr w)\<lparr>sm_map := AList.update sid
      \<lparr>ss_sat = sat, ss_locale = loc, ss_audio = [], ss_text = [], ss_last = now, ss_cancelled = False\<rparr> (sm_map (ig_mgr w))\<rparr>"
  have "live s ?m = live s (ig_mgr w) + (if s = sid then 1 else 0)" for s
    using None by (simp add: live_def mgr_get_def update_conv')
  then show ?thesis
    using ok None
    by (auto simp: sessions_ok_def open_session_def mgr_open_def map_filter_snoc count_list_append distinct_update)
qed (simp add: open_session_def mgr_open_def)

lemma handle_parsed_ok: "sessions_ok w \<Longrightarrow> sessions_ok (handle_parsed cd now room payload p w)"
proof (cases p)
  case (PStart sat sid)
  assume "sessions_ok w"
  then show ?thesis using PStart by (simp add: open_session_ok)
next
  case (PEnd sat sid)
  assume "sessions_ok w"
  then show ?thesis using PEnd live_close [of sid "ig_mgr w"] close_distinct by (simp add: sessions_ok_def)
qed (auto simp: sessions_ok_def Let_def map_filter_snoc)

lemma ingress_step_ok: "sessions_ok w \<Longrightarrow> sessions_ok (ingress_step cd troot op w)"
proof (cases op)
  case (Reap now max_idle)
  assume "sessions_ok w"
  then show ?thesis
    using Reap closes_kept by (simp add: sessions_ok_def mgr_reap_def Let_def)
next
  case Shutdown
  assume "sessions_ok w"
  moreover have "map fst (sm_map (mgr_cancel_all m)) = map fst (sm_map m)" for m
    by (simp add: mgr_cancel_all_def split_def comp_def)
  moreover have "mgr_get s (mgr_cancel_all m) = map_option (\<lambda>st. st\<lparr>ss_cancelled := True\<rparr>) (mgr_get s m)" for s m
    by (simp add: mgr_cancel_all_def mgr_get_def map_of_map)
  ultimately show ?thesis using Shutdown by (simp add: sessions_ok_def live_def) (simp add: mgr_cancel_all_def)
qed (auto simp: handle_publish_def handle_parsed_ok split: option.split)

lemma ingress_run_ok: "sessions_ok w \<Longrightarrow> sessions_ok (fold (ingress_step cd troot) ops w)"
  by (induction ops arbitrary: w) (simp_all add: ingress_step_ok)

lemma ingress_init_ok [simp]: "sessions_ok ingress_init"
  by (simp add: sessions_ok_def ingress_init_def manager_new_def live_def mgr_get_def map_filter_simps)

text \<open>C37: no session is leaked or opened twice: over any sequence of messages, reaper ticks and shutdowns, a session
  id has been opened exactly as often as it has been closed, plus once if it is live; each opening spawned one
  pipeline and announced one \<open>SessionStarted\<close>; and a shutdown cancels every session then live.\<close>

theorem sessions_accounted:
  "let w = fold (ingress_step cd troot) ops ingress_init; w' = ingress_step cd troot Shutdown w in
     distinct (map fst (sm_map (ig_mgr w)))
     \<and> count_list (map fst (ig_spawned w)) sid
         = count_list (sm_closed (ig_mgr w)) sid + (if mgr_get sid (ig_mgr w) = None then 0 else 1)
     \<and> List.map_filter started_of (ig_bus w) = ig_spawned w
     \<and> map fst (sm_map (ig_mgr w')) = map fst (sm_map (ig_mgr w)) \<and> list_all (\<lambda>(s, st). ss_cancelled st) (sm_map (ig_mgr w'))"
proof -
  have "sessions_ok (fold (ingress_step cd troot) ops ingress_init)" by (rule ingress_run_ok) simp
  moreover have "map fst (sm_map (mgr_cancel_all m)) = map fst (sm_map m)"
      "list_all (\<lambda>(s, st). ss_cancelled st) (sm_map (mgr_cancel_all m))" for m
    by (auto simp: mgr_cancel_all_def list_all_iff)
  ultimately show ?thesis by (simp add: Let_def sessions_ok_def live_def)
qed

section \<open>Reaping\<close>

lemma fold_close:
  "distinct (map fst (sm_map m)) \<Longrightarrow> set sids \<subseteq> set (map fst (sm_map m)) \<Longrightarrow> distinct sids \<Longrightarrow>
     sm_map (fold mgr_close sids m) = filter (\<lambda>(s, st). s \<notin> set sids) (sm_map m)
     \<and> sm_closed (fold mgr_close sids m) = sm_closed m @ sids"
proof (induction sids arbitrary: m)
  case (Cons sid sids)
  have "mgr_get sid m \<noteq> None" using Cons.prems(2) by (simp add: mgr_get_def map_of_eq_None_iff)
  then have c: "sm_map (mgr_close sid m) = filter (\<lambda>(s, st). s \<noteq> sid) (sm_map m)" "sm_closed (mgr_close sid m) = sm_closed m @ [sid]"
    by (auto simp: mgr_close_def AList.delete_eq split_def intro!: filter_cong)
  have "distinct (map fst (sm_map (mgr_close sid m)))" using Cons.prems(1) by (rule close_distinct)
  moreover have "set sids \<subseteq> set (map fst (sm_map (mgr_close sid m)))"
    using Cons.prems(2,3) by (force simp: c)
  ultimately show ?case
    using Cons.IH [of "mgr_close sid m"] Cons.prems(3) by (auto simp: c intro!: filter_cong)
qed simp

lemma idle_iff: "last_act < sat_sub64 now max_idle \<longleftrightarrow> unat last_act + unat max_idle < unat now"
  by (auto simp: sat_sub64_def word_less_nat_alt word_le_nat_alt unat_sub_if')

text \<open>The reaper closes exactly the sessions whose last activity is more than the idle limit ago, for every
  value of the 64-bit clock, cancelling each once; the others keep all their state.\<close>

theorem reap_exactly_idle:
  assumes "distinct (map fst (sm_map m))" "mgr_reap now max_idle m = (stale, m')"
  shows "stale = map fst (filter (\<lambda>(s, st). unat (ss_last st) + unat max_idle < unat now) (sm_map m))
    \<and> sm_map m' = filter (\<lambda>(s, st). \<not> unat (ss_last st) + unat max_idle < unat now) (sm_map m)
    \<and> sm_closed m' = sm_closed m @ stale"
proof -
  let ?idle = "\<lambda>(s :: session_id, st). unat (ss_last st) + unat max_idle < unat now"
  have stale: "stale = map fst (filter ?idle (sm_map m))" and m': "m' = fold mgr_close stale m"
    using assms(2) by (auto simp: mgr_reap_def Let_def idle_iff)
  have sub: "set stale \<subseteq> set (map fst (sm_map m))" and d: "distinct stale"
    using assms(1) by (auto simp: stale distinct_map_filter)
  have "filter (\<lambda>(s, st). s \<notin> set stale) (sm_map m) = filter (\<lambda>e. \<not> ?idle e) (sm_map m)"
  proof (rule filter_cong)
    fix e assume e: "e \<in> set (sm_map m)"
    have "fst e \<in> set stale \<longleftrightarrow> ?idle e"
      using e assms(1) unfolding stale by (auto simp: distinct_map inj_on_def)
    then show "(case e of (s, st) \<Rightarrow> s \<notin> set stale) \<longleftrightarrow> \<not> ?idle e" by (cases e) simp
  qed simp
  then show ?thesis using fold_close [OF assms(1) sub d] stale m' by (simp add: split_def)
qed

theorem reap_exactly_idle_witness:
  "fst (mgr_reap 100 10 (snd (mgr_open 95 2 ''kitchen'' ''fr'' (snd (mgr_open 50 1 ''phone'' ''en'' manager_new))))) = [1]"
proof -
  let ?m = "snd (mgr_open 95 2 ''kitchen'' ''fr'' (snd (mgr_open 50 1 ''phone'' ''en'' manager_new)))"
  have m: "map (\<lambda>(s, st). (s, ss_last st)) (sm_map ?m) = [(1, 50), (2, 95)]"
    by (simp add: mgr_open_def mgr_get_def manager_new_def)
  have "distinct (map fst (sm_map ?m))" by (simp add: mgr_open_def mgr_get_def manager_new_def)
  from reap_exactly_idle [OF this, of 100 10 "fst (mgr_reap 100 10 ?m)" "snd (mgr_reap 100 10 ?m)"]
  show ?thesis by (simp add: mgr_open_def mgr_get_def manager_new_def)
qed

section \<open>Messages reach their own session\<close>

text \<open>Sessions are isolated: a message changes no session but the one its topic names and, only by \<open>end\<close>, closes
  none; a topic that does not parse changes nothing; and what a session has received of audio and text only
  ever grows by that message's own payload.\<close>

theorem messages_isolated:
  assumes "handle_publish cd troot now room topic payload w = w'"
    and "parse_satellite_topic (c_uuid cd) troot topic = p"
  shows "(p = None \<longrightarrow> w' = w)
    \<and> (\<forall>q sid. p = Some q \<and> sid \<noteq> snd (topic_ids q) \<longrightarrow> mgr_get sid (ig_mgr w') = mgr_get sid (ig_mgr w))
    \<and> (\<forall>sid st st'. mgr_get sid (ig_mgr w) = Some st \<and> mgr_get sid (ig_mgr w') = Some st' \<longrightarrow>
         ss_sat st' = ss_sat st \<and> ss_locale st' = ss_locale st
         \<and> ss_audio st' \<in> {ss_audio st, ss_audio st @ [\<lparr>af_session = sid, af_seq = 0, af_pcm = payload\<rparr>]}
         \<and> ss_text st' \<in> {ss_text st, ss_text st @ [\<lparr>t_text = trim (c_lossy cd payload), t_is_final = True, t_confidence = None\<rparr>]})
    \<and> (\<forall>sid. mgr_get sid (ig_mgr w) \<noteq> None \<and> (\<forall>sat. p \<noteq> Some (PEnd sat sid)) \<longrightarrow> mgr_get sid (ig_mgr w') \<noteq> None)"
proof (cases p)
  case (Some q)
  then have w': "w' = handle_parsed cd now room payload q w" using assms by (simp add: handle_publish_def)
  show ?thesis
  proof (cases q)
    case (PStart sat sid)
    then show ?thesis using Some w'
      by (cases "mgr_get sid (ig_mgr w)") (auto simp: open_session_def mgr_open_def mgr_get_def update_conv')
  qed (use Some w' in \<open>auto simp: Let_def split: if_splits\<close>)
qed (use assms in \<open>auto simp: handle_publish_def\<close>)

definition text_of :: "byte list \<Rightarrow> string" where
  "text_of bs = map (\<lambda>b. char_of (unat b)) bs"

lemma text_of_bytes_of [simp]: "text_of (bytes_of s) = s"
proof -
  have "unat (of_char c :: byte) = of_char c" for c
    using unat_of_nat_id [where ?'a = 8, of "of_char c :: nat"] nat_of_char_less_256 [of c] by (simp add: of_nat_of_char)
  then show ?thesis by (simp add: text_of_def bytes_of_def map_idI)
qed

text \<open>A decoder for one-field locale objects, as the devices write them.\<close>

definition demo_codecs :: codecs where
  "demo_codecs = \<lparr>c_json = (\<lambda>bs. Some (JObj [(''locale'', JStr (butlast (butlast (drop 11 (text_of bs)))))])), c_lossy = text_of, c_uuid = (\<lambda>u. if u = ''u1'' then Some 1 else None),
     c_print = (\<lambda>_. ''u1''), c_encode = (\<lambda>_. [])\<rparr>"

theorem messages_isolated_witness:
  "handle_publish demo_codecs ''assist'' 5 True ''assist/sat/phone/session/u2/audio'' [1] ingress_init = ingress_init"
proof -
  have "parse_satellite_topic (c_uuid demo_codecs) ''assist'' ''assist/sat/phone/session/u2/audio'' = None"
    by (simp add: parse_satellite_topic_def demo_codecs_def Let_def split: sum.split)
  from messages_isolated [OF refl this, of 5 True "[1]" ingress_init] show ?thesis by simp
qed

section \<open>A device against the runtime\<close>

text \<open>The broker hands the device's publishes to the runtime in order, with room in the channels.\<close>

definition deliver :: "codecs \<Rightarrow> string \<Rightarrow> u64 \<Rightarrow> command list \<Rightarrow> ingress \<Rightarrow> ingress" where
  "deliver cd troot now cmds w =
     fold (\<lambda>c w. case c of Publish t p \<Rightarrow> handle_publish cd troot now True t p w | _ \<Rightarrow> w) cmds w"

definition pcm_frames :: "session_id \<Rightarrow> byte list list \<Rightarrow> audio_frame list" where
  "pcm_frames sid fs = map (\<lambda>f. \<lparr>af_session = sid, af_seq = 0, af_pcm = f\<rparr>) fs"

lemma mic_frames_run:
  "s_state s = Streaming \<Longrightarrow>
     sat_run pj (map (\<lambda>f. (t, MicFrame f)) fs) s = (s, map (Publish (s_topic s ''audio'')) fs)"
  by (induction fs) (simp_all add: on_mic_frame_def)

lemma deliver_audio:
  assumes "parse_satellite_topic (c_uuid cd) troot topic = Some (PAudio sat sid)" "mgr_get sid (ig_mgr w) = Some st"
  shows "mgr_get sid (ig_mgr (deliver cd troot now (map (Publish topic) fs) w))
      = Some (if fs = [] then st else st\<lparr>ss_last := now, ss_audio := ss_audio st @ pcm_frames sid fs\<rparr>)
    \<and> ig_spawned (deliver cd troot now (map (Publish topic) fs) w) = ig_spawned w"
  using assms(2)
proof (induction fs arbitrary: w st)
  case (Cons f fs)
  let ?w = "handle_publish cd troot now True topic f w"
  have "mgr_get sid (ig_mgr ?w) = Some (st\<lparr>ss_last := now, ss_audio := ss_audio st @ pcm_frames sid [f]\<rparr>)" "ig_spawned ?w = ig_spawned w"
    using assms(1) Cons.prems by (simp_all add: handle_publish_def pcm_frames_def)
  from Cons.IH [OF this(1)] this(2) show ?case by (simp add: deliver_def pcm_frames_def)
qed (simp add: deliver_def)



end
