(* ===== verification/Assist.thy ===== *)
theory Assist
  imports Speech Topics Sentence "HOL-Library.Multiset" "HOL-Library.AList"
begin

text \<open>
  The text-assist bridge (\<open>crates/athena-voice-runtime/src/assist/bridge.rs\<close>): one actor per device, which turns
  questions into transcripts for its own router and the answer tokens into texts and loader statuses, and the
  routing of questions to actors.

  An actor is a step function over the arms of its select loop; an arm that is not ready gives \<open>None\<close>. The
  tokens its router and LLM produce arrive as inputs, interleaved in any way. Times are in milliseconds.
  JSON encoding is \<open>serde_json\<close>'s: payloads are kept as values.
\<close>

section \<open>The device actor\<close>

definition answer_timeout :: nat where "answer_timeout = 30000"
definition heartbeat_interval :: nat where "heartbeat_interval = 10000"

record device_ctx =
  dx_tts_topic :: string
  dx_status_topic :: string
  dx_session :: session_id
  dx_idle :: nat

record device_actor =
  da_buf :: sentence_buffer
  da_epoch :: u64
  da_answer :: "(u64 \<times> nat) option"
  da_flush :: "nat option"
  da_idle :: nat
  da_tokens :: "tts_msg list"
  da_live :: bool

datatype device_out =
    DPublish string json
  | DBus event
  | DTranscript transcript

datatype device_in =
    DCancelled
  | DIdleTimeout
  | DAnswerTimeout
  | DFlushTimeout
  | DQuestion string bool
  | DQuestionsClosed
  | DArrive tts_msg
  | DToken
  | DTokensClosed

definition device_ctx_for :: "string \<Rightarrow> string \<Rightarrow> session_id \<Rightarrow> nat \<Rightarrow> device_ctx" where
  "device_ctx_for pre device sid idle =
     \<lparr>dx_tts_topic = tts_topic pre device, dx_status_topic = status_topic pre device, dx_session = sid, dx_idle = idle\<rparr>"

definition device_init :: "device_ctx \<Rightarrow> nat \<Rightarrow> device_actor" where
  "device_init cx now =
     \<lparr>da_buf = sb_new, da_epoch = 0, da_answer = None, da_flush = None, da_idle = now + dx_idle cx, da_tokens = [],
      da_live = True\<rparr>"

definition publish_status :: "device_ctx \<Rightarrow> string \<Rightarrow> device_out list" where
  "publish_status cx status = [DPublish (dx_status_topic cx) (JObj [(''status'', JStr status)])]"

definition publish_answer :: "device_ctx \<Rightarrow> string \<Rightarrow> u64 \<Rightarrow> (u64 \<times> nat) option \<Rightarrow> (u64 \<times> nat) option \<times> device_out list" where
  "publish_answer cx sentence ep ans =
     (let out = [DPublish (dx_tts_topic cx) (JObj [(''text'', JStr sentence)])] in
      if (case ans of None \<Rightarrow> False | Some (e, _) \<Rightarrow> e = ep) then (None, out @ publish_status cx ''done'') else (ans, out))"

definition answer_opt :: "device_ctx \<Rightarrow> string option \<Rightarrow> device_actor \<Rightarrow> device_actor \<times> device_out list" where
  "answer_opt cx so st =
     (case so of
        None \<Rightarrow> (st, [])
      | Some s \<Rightarrow> (let (ans, out) = publish_answer cx s (da_epoch st) (da_answer st) in (st\<lparr>da_answer := ans\<rparr>, out)))"

definition flush_buffer :: "device_ctx \<Rightarrow> device_actor \<Rightarrow> device_actor \<times> device_out list" where
  "flush_buffer cx st = (let (so, b) = sb_take (da_buf st) in answer_opt cx so (st\<lparr>da_buf := b\<rparr>))"

text \<open>Leaving the loop releases a pending loader.\<close>

definition device_exit :: "device_ctx \<Rightarrow> device_actor \<times> device_out list \<Rightarrow> device_actor \<times> device_out list" where
  "device_exit cx so =
     (let (st, out) = so in
      (st\<lparr>da_answer := None, da_live := False\<rparr>, out @ (if da_answer st \<noteq> None then publish_status cx ''done'' else [])))"

definition on_question :: "device_ctx \<Rightarrow> nat \<Rightarrow> string \<Rightarrow> bool \<Rightarrow> device_actor \<Rightarrow> device_actor \<times> device_out list" where
  "on_question cx now q router_alive st =
     (let e = sat_succ (da_epoch st);
          st1 = st\<lparr>da_idle := now + dx_idle cx, da_epoch := e, da_buf := sb_clear (da_buf st), da_flush := None,
                   da_tokens := [], da_answer := Some (e, now + answer_timeout)\<rparr>;
          out = publish_status cx ''in progress'' @ [DBus (TranscriptFinal (dx_session cx) q)]
      in if router_alive
         then (st1, out @ [DTranscript \<lparr>t_text = q, t_is_final = True, t_confidence = None\<rparr>])
         else device_exit cx (st1, out))"

definition on_answer_end :: "device_ctx \<Rightarrow> device_actor \<Rightarrow> device_actor \<times> device_out list" where
  "on_answer_end cx st =
     (let (st1, out) = flush_buffer cx (st\<lparr>da_flush := None\<rparr>) in
      if (case da_answer st1 of None \<Rightarrow> False | Some (e, _) \<Rightarrow> e = da_epoch st1)
      then (st1\<lparr>da_answer := None\<rparr>, out @ publish_status cx ''done'') else (st1, out))"

definition on_token :: "device_ctx \<Rightarrow> nat \<Rightarrow> string \<Rightarrow> device_actor \<Rightarrow> device_actor \<times> device_out list" where
  "on_token cx now t st =
     (case sb_push t (da_buf st) of
        (Some s, b) \<Rightarrow> answer_opt cx (Some s) (st\<lparr>da_buf := b, da_flush := None\<rparr>)
      | (None, b) \<Rightarrow> (st\<lparr>da_buf := b, da_flush := Some (now + idle_flush)\<rparr>, []))"

fun device_arm :: "device_ctx \<Rightarrow> nat \<Rightarrow> device_in \<Rightarrow> device_actor \<Rightarrow> (device_actor \<times> device_out list) option" where
  "device_arm cx now DCancelled st = Some (device_exit cx (st, []))"
| "device_arm cx now DIdleTimeout st = (if da_idle st \<le> now then Some (device_exit cx (st, [])) else None)"
| "device_arm cx now DAnswerTimeout st =
     (case da_answer st of
        None \<Rightarrow> None
      | Some (_, d) \<Rightarrow> if d \<le> now then Some (st\<lparr>da_answer := None\<rparr>, publish_status cx ''done'') else None)"
| "device_arm cx now DFlushTimeout st =
     (case da_flush st of
        None \<Rightarrow> None
      | Some d \<Rightarrow> if d \<le> now then Some (flush_buffer cx (st\<lparr>da_flush := None\<rparr>)) else None)"
| "device_arm cx now (DQuestion q router_alive) st = Some (on_question cx now q router_alive st)"
| "device_arm cx now DQuestionsClosed st = Some (device_exit cx (st, []))"
| "device_arm cx now (DArrive m) st = Some (st\<lparr>da_tokens := da_tokens st @ [m]\<rparr>, [])"
| "device_arm cx now DToken st =
     (case da_tokens st of
        [] \<Rightarrow> None
      | m # ms \<Rightarrow>
          (let st1 = st\<lparr>da_tokens := ms\<rparr> in
           Some (case m of Token t \<Rightarrow> on_token cx now t st1 | AnswerEnd \<Rightarrow> on_answer_end cx st1)))"
| "device_arm cx now DTokensClosed st = (if da_tokens st = [] then Some (device_exit cx (flush_buffer cx st)) else None)"

definition device_step :: "device_ctx \<Rightarrow> nat \<times> device_in \<Rightarrow> device_actor \<Rightarrow> (device_actor \<times> device_out list) option" where
  "device_step cx i st = (if da_live st then device_arm cx (fst i) (snd i) st else None)"

text \<open>A run: inputs whose arm is not ready are skipped.\<close>

fun device_run :: "device_ctx \<Rightarrow> (nat \<times> device_in) list \<Rightarrow> device_actor \<Rightarrow> device_actor \<times> device_out list" where
  "device_run cx [] st = (st, [])"
| "device_run cx (i # is) st =
     (let (st1, o1) = (case device_step cx i st of None \<Rightarrow> (st, []) | Some r \<Rightarrow> r);
          (st2, o2) = device_run cx is st1
      in (st2, o1 @ o2))"

text \<open>The heartbeat's payload.\<close>

definition heartbeat :: "string \<Rightarrow> u64 \<Rightarrow> nat \<Rightarrow> device_out" where
  "heartbeat pre epoch_secs uptime_ms =
     DPublish (heartbeat_topic pre)
       (JObj [(''millis'', JNum (PosInt (if uptime_ms < 2 ^ 64 then of_nat uptime_ms else - 1))),
              (''timestamp'', JNum (PosInt epoch_secs)),
              (''uptime_minutes'', JNum (PosInt (of_nat (uptime_ms div 1000 div 60))))])"

section \<open>The loader\<close>

fun status_of :: "device_out \<Rightarrow> string option" where
  "status_of (DPublish _ (JObj [(k, JStr s)])) = (if k = ''status'' then Some s else None)"
| "status_of _ = None"

fun answer_of :: "device_out \<Rightarrow> string option" where
  "answer_of (DPublish _ (JObj [(k, JStr s)])) = (if k = ''text'' then Some s else None)"
| "answer_of _ = None"

definition statuses :: "device_out list \<Rightarrow> string list" where
  "statuses os = List.map_filter status_of os"

definition answers :: "device_out list \<Rightarrow> string list" where
  "answers os = List.map_filter answer_of os"

text \<open>What a client's loader does: \<open>in progress\<close> shows it, \<open>done\<close> hides it; \<open>done\<close> with nothing shown is an error.\<close>

fun loader :: "bool \<Rightarrow> string list \<Rightarrow> bool option" where
  "loader b [] = Some b"
| "loader b (s # ss) =
     (if s = ''in progress'' then loader True ss else if s = ''done'' \<and> b then loader False ss else None)"

lemma loader_append: "loader b (xs @ ys) = Option.bind (loader b xs) (\<lambda>b1. loader b1 ys)"
  by (induction b xs rule: loader.induct) simp_all

lemma statuses_simps [simp]:
  "statuses [] = []" "statuses (xs @ ys) = statuses xs @ statuses ys"
  "statuses (DBus e # os) = statuses os" "statuses (DTranscript t # os) = statuses os"
  "statuses (publish_status cx s) = [s]"
  "statuses (DPublish tp (JObj [(''text'', v)]) # os) = statuses os"
  by (auto simp: statuses_def List.map_filter_def publish_status_def) (cases v; simp)+

lemma answers_simps [simp]:
  "answers [] = []" "answers (xs @ ys) = answers xs @ answers ys"
  "answers (DBus e # os) = answers os" "answers (DTranscript t # os) = answers os"
  "answers (publish_status cx s) = []"
  "answers (DPublish tp (JObj [(''text'', JStr s)]) # os) = s # answers os"
  by (auto simp: answers_def List.map_filter_def publish_status_def)

fun deadline_ok :: "nat \<Rightarrow> device_actor \<Rightarrow> (u64 \<times> nat) option \<Rightarrow> bool" where
  "deadline_ok t st None = True"
| "deadline_ok t st (Some (e, d)) = (da_live st \<and> e = da_epoch st \<and> d \<le> t + answer_timeout)"

definition answer_ok :: "nat \<Rightarrow> device_actor \<Rightarrow> bool" where
  "answer_ok t st = deadline_ok t st (da_answer st)"

text \<open>One step of the loop moves the loader exactly as it moves the deadline.\<close>

definition tracks :: "nat \<Rightarrow> device_actor \<Rightarrow> device_actor \<times> device_out list \<Rightarrow> bool" where
  "tracks t st r \<longleftrightarrow>
     answer_ok t (fst r) \<and> loader (da_answer st \<noteq> None) (statuses (snd r)) = Some (da_answer (fst r) \<noteq> None)"

lemma deadline_ok_cong [simp]:
  "deadline_ok t (st\<lparr>da_flush := f\<rparr>) a = deadline_ok t st a" "deadline_ok t (st\<lparr>da_tokens := q\<rparr>) a = deadline_ok t st a"
  "deadline_ok t (st\<lparr>da_buf := b\<rparr>) a = deadline_ok t st a" "deadline_ok t (st\<lparr>da_answer := x\<rparr>) a = deadline_ok t st a"
  by (cases "(t, st, a)" rule: deadline_ok.cases; simp)+

lemma answer_ok_cong [simp]:
  "answer_ok t (st\<lparr>da_flush := f\<rparr>) = answer_ok t st" "answer_ok t (st\<lparr>da_tokens := q\<rparr>) = answer_ok t st"
  "answer_ok t (st\<lparr>da_buf := b\<rparr>) = answer_ok t st"
  by (simp_all add: answer_ok_def)

lemma tracks_cong [simp]:
  "tracks t (st\<lparr>da_flush := f\<rparr>) r = tracks t st r" "tracks t (st\<lparr>da_tokens := q\<rparr>) r = tracks t st r"
  "tracks t (st\<lparr>da_buf := b\<rparr>) r = tracks t st r"
  by (simp_all add: tracks_def)

lemma answer_opt_tracks: "answer_ok t st \<Longrightarrow> tracks t st (answer_opt cx so st)"
  by (cases so; cases "da_answer st")
     (auto simp: tracks_def answer_opt_def publish_answer_def answer_ok_def Let_def)

lemma flush_buffer_tracks: "answer_ok t st \<Longrightarrow> tracks t st (flush_buffer cx st)"
  using answer_opt_tracks [of t "st\<lparr>da_buf := snd (sb_take (da_buf st))\<rparr>" cx "fst (sb_take (da_buf st))"]
  by (simp add: flush_buffer_def split_beta Let_def)

lemma exit_tracks: "tracks t st r \<Longrightarrow> tracks t st (device_exit cx r)"
  by (cases r) (auto simp: tracks_def device_exit_def answer_ok_def loader_append)

lemma answer_end_tracks:
  assumes "answer_ok t st"
  shows "tracks t st (on_answer_end cx st)"
proof -
  obtain st1 out where f: "flush_buffer cx (st\<lparr>da_flush := None\<rparr>) = (st1, out)" by fastforce
  have "tracks t st (st1, out)" using flush_buffer_tracks [of t "st\<lparr>da_flush := None\<rparr>" cx] assms f by simp
  then show ?thesis
    by (cases "da_answer st1") (auto simp: on_answer_end_def f tracks_def answer_ok_def loader_append)
qed

lemma token_tracks: "answer_ok t st \<Longrightarrow> tracks t st (on_token cx now tok st)"
  using answer_opt_tracks [of t "st\<lparr>da_buf := b, da_flush := None\<rparr>" cx so for b so]
  by (auto simp: on_token_def tracks_def [of t st "(_, [])"] split: prod.split option.split)

lemma question_tracks: "now \<le> t \<Longrightarrow> answer_ok t st \<Longrightarrow> da_live st \<Longrightarrow> tracks t st (on_question cx now q up st)"
  by (auto simp: on_question_def Let_def tracks_def answer_ok_def device_exit_def)

lemma device_step_tracks:
  assumes "device_step cx i st = Some r" "answer_ok t st" "fst i \<le> t"
  shows "tracks t st r"
proof -
  have live: "da_live st" and arm: "device_arm cx (fst i) (snd i) st = Some r"
    using assms(1) by (auto simp: device_step_def split: if_splits)
  have idle: "tracks t st (st, [])" using assms(2) by (simp add: tracks_def)
  show ?thesis
  proof (cases "snd i")
    case DTokensClosed
    then show ?thesis using arm exit_tracks [OF flush_buffer_tracks] assms(2) by (auto split: if_splits)
  next
    case DFlushTimeout
    then show ?thesis
      using arm flush_buffer_tracks [of t "st\<lparr>da_flush := None\<rparr>" cx] assms(2)
      by (auto split: option.splits if_splits)
  next
    case DToken
    then show ?thesis
      using arm token_tracks [of t "st\<lparr>da_tokens := ms\<rparr>" cx "fst i" for ms]
        answer_end_tracks [of t "st\<lparr>da_tokens := ms\<rparr>" cx for ms] assms(2)
      by (auto simp: Let_def split: list.splits tts_msg.splits)
  next
    case (DQuestion q up)
    then show ?thesis using arm question_tracks [OF assms(3,2) live] by auto
  next
    case DAnswerTimeout
    then show ?thesis using arm by (auto simp: tracks_def answer_ok_def split: option.splits if_splits)
  next
    case (DArrive m)
    then show ?thesis using arm assms(2) by (auto simp: tracks_def answer_ok_def)
  qed (use arm exit_tracks [OF idle] in \<open>auto split: if_splits\<close>)
qed

lemma device_run_tracks:
  "answer_ok t st \<Longrightarrow> list_all (\<lambda>i. fst i \<le> t) is \<Longrightarrow> tracks t st (device_run cx is st)"
proof (induction cx "is" st rule: device_run.induct)
  case (2 cx i "is" st)
  show ?case
  proof (cases "device_step cx i st")
    case None
    then show ?thesis using 2 by (simp add: split_beta Let_def)
  next
    case (Some r)
    then have r: "tracks t st r" using device_step_tracks 2 by simp
    obtain st1 o1 where eq: "r = (st1, o1)" by (cases r)
    have "tracks t st1 (device_run cx is st1)" using 2 Some eq r by (simp add: tracks_def)
    then show ?thesis using r Some eq by (auto simp: tracks_def split_beta Let_def loader_append)
  qed
qed (simp add: tracks_def)

text \<open>C40: no client's loader gets stuck or flickers: over any interleaving of questions, tokens, timers and shutdown,
  the statuses published for a device switch its loader on at a question and off exactly once after it, the
  loader is on only while the actor lives and holds a deadline at most 30 s after the last event, whose expiry
  releases it, and once the actor is gone the loader is off. The epoch tag of that deadline always equals the
  current epoch, so the first text flushed after a question releases it, whoever's text it is.\<close>

theorem loader_released:
  assumes "list_all (\<lambda>i. fst i \<le> t) is" "device_run cx is (device_init cx t0) = (st, out)"
  shows "loader False (statuses out) = Some (da_answer st \<noteq> None)
    \<and> (da_live st \<or> da_answer st = None)
    \<and> (case da_answer st of None \<Rightarrow> True
       | Some (e, d) \<Rightarrow> e = da_epoch st \<and> d \<le> t + answer_timeout
           \<and> device_step cx (t + answer_timeout, DAnswerTimeout) st = Some (st\<lparr>da_answer := None\<rparr>, publish_status cx ''done'')
           \<and> publish_answer cx s (da_epoch st) (da_answer st)
               = (None, DPublish (dx_tts_topic cx) (JObj [(''text'', JStr s)]) # publish_status cx ''done''))"
proof -
  have "answer_ok t (device_init cx t0)" by (simp add: answer_ok_def device_init_def)
  from device_run_tracks [OF this assms(1), of cx]
  have tr: "deadline_ok t st (da_answer st)" "loader False (statuses out) = Some (da_answer st \<noteq> None)"
    unfolding assms(2) by (simp_all add: tracks_def answer_ok_def device_init_def)
  show ?thesis
  proof (cases "da_answer st")
    case (Some a)
    then show ?thesis using tr by (cases a) (simp add: device_step_def publish_answer_def)
  qed (use tr in simp)
qed

definition demo_cx :: device_ctx where
  "demo_cx = device_ctx_for ''assist'' ''tab1'' 1 60000"

theorem loader_released_witness:
  "loader False (statuses (snd (device_run demo_cx [(5, DQuestion ''hi'' True), (9, DArrive (Token ''yes.'')), (9, DToken)] (device_init demo_cx 0))))
     = Some (da_answer (fst (device_run demo_cx [(5, DQuestion ''hi'' True), (9, DArrive (Token ''yes.'')), (9, DToken)] (device_init demo_cx 0))) \<noteq> None)"
proof -
  let ?r = "device_run demo_cx [(5, DQuestion ''hi'' True), (9, DArrive (Token ''yes.'')), (9, DToken)] (device_init demo_cx 0)"
  have "list_all (\<lambda>i. fst i \<le> (9::nat)) [(5, DQuestion ''hi'' True), (9, DArrive (Token ''yes.'')), (9, DToken)]" by simp
  from loader_released [OF this, of demo_cx 0 "fst ?r" "snd ?r"] show ?thesis by simp
qed

section \<open>Answers\<close>

fun arrived :: "nat \<times> device_in \<Rightarrow> string list" where
  "arrived (_, DArrive (Token t)) = ink t"
| "arrived _ = []"

definition queued_ink :: "tts_msg list \<Rightarrow> string list" where
  "queued_ink ms = concat (map (\<lambda>m. case m of Token t \<Rightarrow> ink t | AnswerEnd \<Rightarrow> []) ms)"

definition held_ink :: "device_actor \<Rightarrow> string list" where
  "held_ink st = ink (buf (da_buf st)) @ queued_ink (da_tokens st)"

definition utf8_ok :: "device_actor \<Rightarrow> bool" where
  "utf8_ok st \<longleftrightarrow> lead_ok (buf (da_buf st)) \<and> list_all (\<lambda>m. case m of Token t \<Rightarrow> lead_ok t | AnswerEnd \<Rightarrow> True) (da_tokens st)"

fun input_ok :: "nat \<times> device_in \<Rightarrow> bool" where
  "input_ok (_, DArrive (Token t)) = lead_ok t"
| "input_ok (_, DQuestion _ _) = False"
| "input_ok _ = True"

definition spoken_ink :: "device_out list \<Rightarrow> string list" where
  "spoken_ink os = concat (map ink (answers os))"

lemma spoken_simps [simp]:
  "spoken_ink [] = []" "spoken_ink (xs @ ys) = spoken_ink xs @ spoken_ink ys" "spoken_ink (publish_status cx s) = []"
  by (simp_all add: spoken_ink_def)

lemma answer_opt_ink:
  "spoken_ink (snd (answer_opt cx so st)) = ink_opt so \<and> da_buf (fst (answer_opt cx so st)) = da_buf st
   \<and> da_tokens (fst (answer_opt cx so st)) = da_tokens st \<and> da_live (fst (answer_opt cx so st)) = da_live st"
  by (auto simp: answer_opt_def publish_answer_def Let_def spoken_ink_def split: option.split)

lemma flush_buffer_ink:
  assumes "utf8_ok st"
  shows "spoken_ink (snd (flush_buffer cx st)) @ held_ink (fst (flush_buffer cx st)) = held_ink st
    \<and> utf8_ok (fst (flush_buffer cx st)) \<and> da_live (fst (flush_buffer cx st)) = da_live st
    \<and> da_tokens (fst (flush_buffer cx st)) = da_tokens st"
proof -
  have "lead_ok (buf (da_buf st))" using assms by (simp add: utf8_ok_def)
  from sb.take_held [OF this] sb.take_wf [OF this] show ?thesis
    using assms answer_opt_ink [of cx "fst (sb_take (da_buf st))" "st\<lparr>da_buf := snd (sb_take (da_buf st))\<rparr>"]
    by (simp add: flush_buffer_def split_beta Let_def held_ink_def utf8_ok_def)
qed

lemma exit_dead [simp]: "da_live (fst (device_exit cx r)) = False"
  by (cases r) (simp add: device_exit_def)

lemma token_ink:
  assumes "utf8_ok st" "da_tokens st = Token tok # ms"
  shows "spoken_ink (snd (on_token cx now tok (st\<lparr>da_tokens := ms\<rparr>))) @ held_ink (fst (on_token cx now tok (st\<lparr>da_tokens := ms\<rparr>)))
      = held_ink st
    \<and> utf8_ok (fst (on_token cx now tok (st\<lparr>da_tokens := ms\<rparr>)))"
proof -
  have ok: "lead_ok (buf (da_buf st))" "lead_ok tok" using assms by (simp_all add: utf8_ok_def)
  obtain so b where p: "sb_push tok (da_buf st) = (so, b)" by (cases "sb_push tok (da_buf st)")
  have h: "ink_opt so @ ink (buf b) = ink (buf (da_buf st)) @ ink tok" "lead_ok (buf b)"
    using sb.push_held [OF ok] sb.push_wf [OF ok] p by simp_all
  show ?thesis
  proof (cases so)
    case None
    then show ?thesis using h p assms by (simp add: on_token_def held_ink_def utf8_ok_def queued_ink_def)
  next
    case (Some s)
    then show ?thesis
      using h p assms answer_opt_ink [of cx so "st\<lparr>da_tokens := ms, da_buf := b, da_flush := None\<rparr>"]
      by (simp add: on_token_def held_ink_def utf8_ok_def queued_ink_def)
  qed
qed

lemma answer_end_ink:
  assumes "utf8_ok st" "da_tokens st = AnswerEnd # ms"
  shows "spoken_ink (snd (on_answer_end cx (st\<lparr>da_tokens := ms\<rparr>))) @ held_ink (fst (on_answer_end cx (st\<lparr>da_tokens := ms\<rparr>)))
      = held_ink st
    \<and> utf8_ok (fst (on_answer_end cx (st\<lparr>da_tokens := ms\<rparr>)))"
proof -
  let ?st = "st\<lparr>da_tokens := ms, da_flush := None\<rparr>"
  have "utf8_ok ?st" using assms by (simp add: utf8_ok_def)
  note f = flush_buffer_ink [OF this, of cx]
  obtain st1 out where fb: "flush_buffer cx ?st = (st1, out)" by fastforce
  have "held_ink ?st = held_ink st" using assms(2) by (simp add: held_ink_def queued_ink_def)
  then show ?thesis
    using f fb by (auto simp: on_answer_end_def held_ink_def utf8_ok_def split: option.split)
qed

lemma device_step_ink:
  assumes "device_step cx i st = Some r" "utf8_ok st" "input_ok i" "da_live (fst r)"
  shows "spoken_ink (snd r) @ held_ink (fst r) = held_ink st @ arrived i \<and> utf8_ok (fst r)"
proof -
  have arm: "device_arm cx (fst i) (snd i) st = Some r" using assms(1) by (auto simp: device_step_def split: if_splits)
  obtain now d where i: "i = (now, d)" by (cases i)
  show ?thesis
  proof (cases d)
    case (DArrive m)
    then show ?thesis
      using arm i assms(2,3) by (cases m) (auto simp: held_ink_def utf8_ok_def queued_ink_def)
  next
    case DToken
    then obtain m ms where q: "da_tokens st = m # ms" using arm i by (cases "da_tokens st") auto
    then show ?thesis
      using token_ink [OF assms(2), of _ ms cx now] answer_end_ink [OF assms(2), of ms cx] arm i DToken q
      by (cases m) (auto simp: Let_def)
  next
    case DFlushTimeout
    then show ?thesis
      using arm i flush_buffer_ink [of "st\<lparr>da_flush := None\<rparr>" cx] assms(2)
      by (auto simp: held_ink_def utf8_ok_def split: option.splits if_splits)
  next
    case DAnswerTimeout
    then show ?thesis using arm i assms(2) by (auto simp: held_ink_def utf8_ok_def split: option.splits if_splits)
  qed (use arm i assms(3,4) in \<open>auto split: if_splits\<close>)
qed

lemma dead_stays: "\<not> da_live st \<Longrightarrow> device_run cx is st = (st, [])"
  by (induction cx "is" st rule: device_run.induct) (simp add: device_step_def)+

lemma skipped_arrives_nothing: "device_step cx i st = None \<Longrightarrow> da_live st \<Longrightarrow> arrived i = []"
  by (cases i; cases "snd i") (auto simp: device_step_def)

lemma device_run_ink:
  "utf8_ok st \<Longrightarrow> list_all input_ok is \<Longrightarrow> da_live (fst (device_run cx is st)) \<Longrightarrow>
     spoken_ink (snd (device_run cx is st)) @ held_ink (fst (device_run cx is st)) = held_ink st @ concat (map arrived is)"
proof (induction cx "is" st rule: device_run.induct)
  case (2 cx i "is" st)
  show ?case
  proof (cases "device_step cx i st")
    case None
    have "da_live st" using 2(4) None dead_stays [of st cx "is"] by (cases "da_live st") (auto simp: split_beta)
    then show ?thesis using 2 None skipped_arrives_nothing [OF None] by (simp add: split_beta Let_def)
  next
    case (Some r)
    obtain st1 o1 where eq: "r = (st1, o1)" by (cases r)
    have live: "da_live st1" using 2(4) Some eq dead_stays [of st1 cx "is"] by (cases "da_live st1") (auto simp: split_beta)
    have s: "spoken_ink o1 @ held_ink st1 = held_ink st @ arrived i" "utf8_ok st1"
      using device_step_ink [OF Some] 2(2,3) live eq by simp_all
    have IH: "spoken_ink (snd (device_run cx is st1)) @ held_ink (fst (device_run cx is st1)) = held_ink st1 @ concat (map arrived is)"
      using 2(1) [OF refl, of st1 o1] Some eq s(2) 2(3,4) by (simp add: split_beta Let_def)
    have "(spoken_ink o1 @ spoken_ink (snd (device_run cx is st1))) @ held_ink (fst (device_run cx is st1))
        = (held_ink st @ arrived i) @ concat (map arrived is)"
      unfolding s(1) [symmetric] append_assoc IH ..
    then show ?thesis using Some eq by (simp add: split_beta Let_def)
  qed
qed (simp add: held_ink_def)

text \<open>A question is answered only from what comes after it, and completely: once a question is accepted, whatever
  fragment or tokens of earlier answers the actor still held, the texts it publishes until the next question
  together with what it still holds contain exactly the non-whitespace characters of the tokens that arrived
  since, each once and in order.\<close>

theorem answers_start_fresh:
  assumes "device_step cx (now, DQuestion q True) st = Some (st1, o1)" "list_all input_ok is"
    and "device_run cx is st1 = (st2, out)" "da_live st2"
  shows "answers o1 = [] \<and> spoken_ink out @ held_ink st2 = concat (map arrived is)"
proof -
  have st1: "buf (da_buf st1) = []" "da_tokens st1 = []" "answers o1 = []"
    using assms(1) by (auto simp: device_step_def on_question_def Let_def sb_clear_def split: if_splits)
  then have "utf8_ok st1" "held_ink st1 = []" by (simp_all add: utf8_ok_def held_ink_def queued_ink_def)
  then show ?thesis using device_run_ink [of st1 "is" cx] assms st1 by simp
qed

theorem answers_start_fresh_witness:
  "answers (snd (device_run demo_cx [(9, DArrive (Token ''yes.'')), (9, DToken)]
       (fst (the (device_step demo_cx (5, DQuestion ''hi'' True) (device_init demo_cx 0\<lparr>da_buf := \<lparr>buf = ''old''\<rparr>\<rparr>)))))) = [''yes.'']
   \<and> spoken_ink (snd (device_run demo_cx [(9, DArrive (Token ''yes.'')), (9, DToken)]
       (fst (the (device_step demo_cx (5, DQuestion ''hi'' True) (device_init demo_cx 0\<lparr>da_buf := \<lparr>buf = ''old''\<rparr>\<rparr>)))))) = ink ''yes.''"
proof -
  let ?is = "[(9, DArrive (Token ''yes.'')), (9, DToken)]"
  let ?s = "device_init demo_cx 0\<lparr>da_buf := \<lparr>buf = ''old''\<rparr>\<rparr>"
  let ?q = "the (device_step demo_cx (5, DQuestion ''hi'' True) ?s)"
  have q: "device_step demo_cx (5, DQuestion ''hi'' True) ?s = Some (fst ?q, snd ?q)"
    by (simp add: device_step_def device_init_def)
  have push: "sb_push ''yes.'' \<lparr>buf = []\<rparr> = (Some ''yes.'', \<lparr>buf = []\<rparr>)" by code_simp
  have run: "answers (snd (device_run demo_cx ?is (fst ?q))) = [''yes.'']"
    "da_live (fst (device_run demo_cx ?is (fst ?q)))" "held_ink (fst (device_run demo_cx ?is (fst ?q))) = []"
    by (simp_all add: device_step_def device_init_def on_question_def sb_clear_def sb_new_def Let_def on_token_def push
        answer_opt_def publish_answer_def held_ink_def queued_ink_def)
  have "list_all input_ok ?is" by code_simp
  from answers_start_fresh [OF q this, of "fst (device_run demo_cx ?is (fst ?q))" "snd (device_run demo_cx ?is (fst ?q))"] run
  show ?thesis by simp
qed

section \<open>Routing questions to actors\<close>

text \<open>
  An actor's channel, from the router's side: it serves; it is leaving (out of the device map, its receiver
  still open); it is gone (receiver closed, what it held drained). A question that found no open channel is
  pending until its spawn; one drained from a leaving actor is a leftover until it is routed again. Spawns,
  receptions, departures and routing interleave freely.
\<close>

datatype phase = Serving | Leaving | Gone

record actor =
  ac_device :: string
  ac_queue :: "string list"
  ac_phase :: phase

record bridge =
  br_actors :: "actor list"
  br_devices :: "(string \<times> nat) list"
  br_pending :: "(string \<times> string) list"
  br_leftover :: "(string \<times> string) list"
  br_received :: "(string \<times> string) multiset"
  br_full :: "(string \<times> string) multiset"
  br_shut :: "(string \<times> string) multiset"
  br_submitted :: "(string \<times> string) multiset"
  br_shutdown :: bool

definition bridge_new :: bridge where
  "bridge_new = \<lparr>br_actors = [], br_devices = [], br_pending = [], br_leftover = [], br_received = {#}, br_full = {#},
     br_shut = {#}, br_submitted = {#}, br_shutdown = False\<rparr>"

definition backlog :: nat where "backlog = 8"

definition route :: "string \<Rightarrow> string \<Rightarrow> bridge \<Rightarrow> bridge" where
  "route d q b =
     (case map_of (br_devices b) d of
        None \<Rightarrow> b\<lparr>br_pending := br_pending b @ [(d, q)]\<rparr>
      | Some i \<Rightarrow>
          (let a = br_actors b ! i in
           if ac_phase a = Gone then b\<lparr>br_pending := br_pending b @ [(d, q)]\<rparr>
           else if length (ac_queue a) < backlog
             then b\<lparr>br_actors := (br_actors b)[i := a\<lparr>ac_queue := ac_queue a @ [q]\<rparr>]\<rparr>
           else b\<lparr>br_full := add_mset (d, q) (br_full b)\<rparr>))"

definition spawn_device :: "bridge \<Rightarrow> bridge" where
  "spawn_device b =
     (case br_pending b of
        [] \<Rightarrow> b
      | (d, q) # ps \<Rightarrow>
          b\<lparr>br_pending := ps, br_devices := AList.update d (length (br_actors b)) (br_devices b),
            br_actors := br_actors b @ [\<lparr>ac_device = d, ac_queue = [q], ac_phase = Serving\<rparr>]\<rparr>)"

definition actor_recv :: "nat \<Rightarrow> bridge \<Rightarrow> bridge" where
  "actor_recv i b =
     (if i < length (br_actors b) \<and> ac_phase (br_actors b ! i) = Serving then
        (let a = br_actors b ! i in
         case ac_queue a of
           [] \<Rightarrow> b
         | q # qs \<Rightarrow> b\<lparr>br_actors := (br_actors b)[i := a\<lparr>ac_queue := qs\<rparr>],
                       br_received := add_mset (ac_device a, q) (br_received b)\<rparr>)
      else b)"

definition actor_leave :: "nat \<Rightarrow> bridge \<Rightarrow> bridge" where
  "actor_leave i b =
     (if i < length (br_actors b) \<and> ac_phase (br_actors b ! i) = Serving then
        (let a = br_actors b ! i in
         b\<lparr>br_actors := (br_actors b)[i := a\<lparr>ac_phase := Leaving\<rparr>],
           br_devices := (if map_of (br_devices b) (ac_device a) = Some i then AList.delete (ac_device a) (br_devices b)
                          else br_devices b)\<rparr>)
      else b)"

definition actor_drain :: "nat \<Rightarrow> bridge \<Rightarrow> bridge" where
  "actor_drain i b =
     (if i < length (br_actors b) \<and> ac_phase (br_actors b ! i) = Leaving then
        (let a = br_actors b ! i;
             left = map (Pair (ac_device a)) (ac_queue a);
             b1 = b\<lparr>br_actors := (br_actors b)[i := a\<lparr>ac_phase := Gone, ac_queue := []\<rparr>]\<rparr>
         in if br_shutdown b then b1\<lparr>br_shut := br_shut b + mset left\<rparr>
            else b1\<lparr>br_leftover := br_leftover b @ left\<rparr>)
      else b)"

definition bridge_handle :: "(byte list \<Rightarrow> json option) \<Rightarrow> string \<Rightarrow> string \<Rightarrow> byte list \<Rightarrow> bridge \<Rightarrow> bool \<times> bridge" where
  "bridge_handle decode pre topic payload b =
     (case parse_transcription pre topic of
        None \<Rightarrow> (False, b)
      | Some d \<Rightarrow>
          (case parse_text_payload decode payload of
             None \<Rightarrow> (True, b)
           | Some q \<Rightarrow> (True, route d q (b\<lparr>br_submitted := add_mset (d, q) (br_submitted b)\<rparr>))))"

datatype bridge_op =
    BrMessage string "byte list"
  | BrSpawn
  | BrReroute
  | BrRecv nat
  | BrLeave nat
  | BrDrain nat
  | BrShutdown

fun bridge_step :: "(byte list \<Rightarrow> json option) \<Rightarrow> string \<Rightarrow> bridge_op \<Rightarrow> bridge \<Rightarrow> bridge" where
  "bridge_step decode pre (BrMessage topic payload) b = snd (bridge_handle decode pre topic payload b)"
| "bridge_step decode pre BrSpawn b = spawn_device b"
| "bridge_step decode pre BrReroute b =
     (case br_leftover b of [] \<Rightarrow> b | (d, q) # ls \<Rightarrow> route d q (b\<lparr>br_leftover := ls\<rparr>))"
| "bridge_step decode pre (BrRecv i) b = actor_recv i b"
| "bridge_step decode pre (BrLeave i) b = actor_leave i b"
| "bridge_step decode pre (BrDrain i) b = actor_drain i b"
| "bridge_step decode pre BrShutdown b = b\<lparr>br_shutdown := True\<rparr>"

definition held_by :: "actor \<Rightarrow> (string \<times> string) multiset" where
  "held_by a = mset (map (Pair (ac_device a)) (ac_queue a))"

definition queued :: "actor list \<Rightarrow> (string \<times> string) multiset" where
  "queued as = sum_list (map held_by as)"

lemma queued_update: "i < length as \<Longrightarrow> queued (as[i := a]) + held_by (as ! i) = queued as + held_by a"
proof (induction as arbitrary: i)
  case (Cons x as)
  then show ?case by (cases i) (simp_all add: queued_def ac_simps)
qed simp

lemma queued_set: "i < length as \<Longrightarrow> held_by a = held_by (as ! i) + m \<Longrightarrow> queued (as[i := a]) = queued as + m"
  using queued_update [of i as a] by (simp add: ac_simps)

lemma queued_take:
  assumes "i < length as" "held_by (as ! i) = held_by a + m"
  shows "queued (as[i := a]) + m = queued as"
proof -
  have "(queued (as[i := a]) + m) + held_by a = queued as + held_by a"
    using queued_update [OF assms(1), of a] assms(2) by (simp add: ac_simps)
  then show ?thesis by simp
qed

definition total :: "bridge \<Rightarrow> (string \<times> string) multiset" where
  "total b = br_received b + br_full b + br_shut b + mset (br_pending b) + mset (br_leftover b) + queued (br_actors b)"

definition bridge_ok :: "bridge \<Rightarrow> bool" where
  "bridge_ok b \<longleftrightarrow>
     (\<forall>d i. map_of (br_devices b) d = Some i \<longrightarrow> i < length (br_actors b) \<and> ac_device (br_actors b ! i) = d)
     \<and> (\<forall>a \<in> set (br_actors b). (ac_phase a = Gone \<longrightarrow> ac_queue a = []) \<and> length (ac_queue a) \<le> backlog)
     \<and> (\<not> br_shutdown b \<longrightarrow> br_shut b = {#})"

lemma bridge_okD:
  "bridge_ok b \<Longrightarrow> map_of (br_devices b) d = Some i \<Longrightarrow> i < length (br_actors b) \<and> ac_device (br_actors b ! i) = d"
  by (simp add: bridge_ok_def)

lemma bridge_ok_update:
  assumes "bridge_ok b" "i < length (br_actors b)" "ac_device a = ac_device (br_actors b ! i)"
    and "ac_phase a = Gone \<longrightarrow> ac_queue a = []" "length (ac_queue a) \<le> backlog"
  shows "bridge_ok (b\<lparr>br_actors := (br_actors b)[i := a]\<rparr>)"
  using assms set_update_subset_insert [of "br_actors b" i a]
  by (auto simp: bridge_ok_def nth_list_update)

lemma actor_okD: "bridge_ok b \<Longrightarrow> i < length (br_actors b) \<Longrightarrow> length (ac_queue (br_actors b ! i)) \<le> backlog"
  by (simp add: bridge_ok_def)

lemma route_ok: "bridge_ok b \<Longrightarrow> bridge_ok (route d q b) \<and> total (route d q b) = add_mset (d, q) (total b)
    \<and> br_submitted (route d q b) = br_submitted b"
proof (cases "map_of (br_devices b) d")
  case (Some i)
  assume ok: "bridge_ok b"
  let ?a = "br_actors b ! i"
  have i: "i < length (br_actors b)" "ac_device ?a = d" using bridge_okD [OF ok Some] by simp_all
  consider (gone) "ac_phase ?a = Gone" | (room) "ac_phase ?a \<noteq> Gone" "length (ac_queue ?a) < backlog"
    | (full) "ac_phase ?a \<noteq> Gone" "\<not> length (ac_queue ?a) < backlog" by blast
  then show ?thesis
  proof cases
    case gone
    then show ?thesis using ok Some by (simp add: route_def total_def bridge_ok_def)
  next
    case room
    have "queued ((br_actors b)[i := ?a\<lparr>ac_queue := ac_queue ?a @ [q]\<rparr>]) = queued (br_actors b) + {#(d, q)#}"
      by (rule queued_set) (simp_all add: i held_by_def)
    moreover have "bridge_ok (b\<lparr>br_actors := (br_actors b)[i := ?a\<lparr>ac_queue := ac_queue ?a @ [q]\<rparr>]\<rparr>)"
      by (rule bridge_ok_update) (use ok i room in simp_all)
    ultimately show ?thesis using Some room by (simp add: route_def Let_def total_def)
  next
    case full
    then show ?thesis using ok Some by (simp add: route_def total_def bridge_ok_def Let_def)
  qed
qed (simp add: route_def total_def bridge_ok_def)

lemma spawn_ok: "bridge_ok b \<Longrightarrow> bridge_ok (spawn_device b) \<and> total (spawn_device b) = total b"
proof (cases "br_pending b")
  case (Cons p ps)
  assume ok: "bridge_ok b"
  obtain d q where p: "p = (d, q)" by (cases p)
  have "bridge_ok (spawn_device b)"
    using ok Cons p
    by (auto simp: spawn_device_def bridge_ok_def update_conv' nth_append backlog_def less_Suc_eq)
  then show ?thesis
    using Cons p by (simp add: spawn_device_def total_def queued_def held_by_def)
qed (simp add: spawn_device_def)

lemma recv_ok: "bridge_ok b \<Longrightarrow> bridge_ok (actor_recv i b) \<and> total (actor_recv i b) = total b"
proof (cases "i < length (br_actors b) \<and> ac_phase (br_actors b ! i) = Serving \<and> ac_queue (br_actors b ! i) \<noteq> []")
  case True
  assume ok: "bridge_ok b"
  let ?a = "br_actors b ! i"
  obtain q qs where q: "ac_queue ?a = q # qs" using True by (cases "ac_queue ?a") auto
  have t: "queued ((br_actors b)[i := ?a\<lparr>ac_queue := qs\<rparr>]) + {#(ac_device ?a, q)#} = queued (br_actors b)"
    by (rule queued_take) (use True q in \<open>simp_all add: held_by_def\<close>)
  have "bridge_ok (b\<lparr>br_actors := (br_actors b)[i := ?a\<lparr>ac_queue := qs\<rparr>]\<rparr>)"
    by (rule bridge_ok_update) (use ok True q actor_okD [OF ok, of i] in simp_all)
  then show ?thesis
    using True q by (simp add: actor_recv_def total_def bridge_ok_def Let_def flip: t)
qed (auto simp: actor_recv_def Let_def split: list.split)

lemma leave_ok: "bridge_ok b \<Longrightarrow> bridge_ok (actor_leave i b) \<and> total (actor_leave i b) = total b"
proof (cases "i < length (br_actors b) \<and> ac_phase (br_actors b ! i) = Serving")
  case True
  assume ok: "bridge_ok b"
  let ?a = "br_actors b ! i"
  have t: "queued ((br_actors b)[i := ?a\<lparr>ac_phase := Leaving\<rparr>]) = queued (br_actors b) + {#}"
    by (rule queued_set) (use True in \<open>simp_all add: held_by_def\<close>)
  have "bridge_ok (b\<lparr>br_actors := (br_actors b)[i := ?a\<lparr>ac_phase := Leaving\<rparr>]\<rparr>)"
    by (rule bridge_ok_update) (use ok True actor_okD [OF ok, of i] in simp_all)
  then have "bridge_ok (actor_leave i b)"
    using True by (auto simp: actor_leave_def Let_def bridge_ok_def delete_conv' split: if_splits)
  then show ?thesis using True t by (simp add: actor_leave_def total_def Let_def)
qed (auto simp: actor_leave_def)

lemma drain_ok: "bridge_ok b \<Longrightarrow> bridge_ok (actor_drain i b) \<and> total (actor_drain i b) = total b"
proof (cases "i < length (br_actors b) \<and> ac_phase (br_actors b ! i) = Leaving")
  case True
  assume ok: "bridge_ok b"
  let ?a = "br_actors b ! i"
  have t: "queued ((br_actors b)[i := ?a\<lparr>ac_phase := Gone, ac_queue := []\<rparr>]) + held_by ?a = queued (br_actors b)"
    by (rule queued_take) (use True in \<open>simp_all add: held_by_def\<close>)
  have "bridge_ok (b\<lparr>br_actors := (br_actors b)[i := ?a\<lparr>ac_phase := Gone, ac_queue := []\<rparr>]\<rparr>)"
    by (rule bridge_ok_update) (use ok True in simp_all)
  then show ?thesis
    using True by (simp add: actor_drain_def total_def bridge_ok_def Let_def held_by_def flip: t)
qed (auto simp: actor_drain_def)

lemma submitted_frames:
  "br_submitted (spawn_device b) = br_submitted b" "br_submitted (actor_recv i b) = br_submitted b"
  "br_submitted (actor_leave i b) = br_submitted b" "br_submitted (actor_drain i b) = br_submitted b"
  by (auto simp: spawn_device_def actor_recv_def actor_leave_def actor_drain_def Let_def split: list.split prod.split)

definition bridge_inv :: "bridge \<Rightarrow> bool" where
  "bridge_inv b \<longleftrightarrow> bridge_ok b \<and> total b = br_submitted b"

lemma bridge_step_inv: "bridge_inv b \<Longrightarrow> bridge_inv (bridge_step decode pre op b)"
proof -
  assume inv: "bridge_inv b"
  then have ok: "bridge_ok b" and tot: "total b = br_submitted b" by (simp_all add: bridge_inv_def)
  show ?thesis
  proof (cases op)
    case (BrMessage topic payload)
    have sub: "bridge_ok (b\<lparr>br_submitted := m\<rparr>)" "total (b\<lparr>br_submitted := m\<rparr>) = total b" for m
      using ok by (simp_all add: bridge_ok_def total_def)
    show ?thesis
      using inv tot route_ok [OF sub(1)] BrMessage
      by (auto simp: bridge_handle_def bridge_inv_def sub(2) split: option.split)
  next
    case BrReroute
    have "bridge_ok (b\<lparr>br_leftover := ls\<rparr>)" for ls using ok by (simp add: bridge_ok_def)
    moreover have "add_mset (d, q) (total (b\<lparr>br_leftover := ls\<rparr>)) = total b" if "br_leftover b = (d, q) # ls" for d q ls
      using that by (simp add: total_def)
    ultimately show ?thesis
      using inv tot route_ok BrReroute by (auto simp: bridge_inv_def split: list.split)
  qed (use ok tot spawn_ok [OF ok] recv_ok [OF ok] leave_ok [OF ok] drain_ok [OF ok] in
      \<open>auto simp: bridge_inv_def submitted_frames, auto simp: bridge_ok_def total_def\<close>)
qed

lemma bridge_run_inv: "bridge_inv b \<Longrightarrow> bridge_inv (fold (bridge_step decode pre) ops b)"
  by (induction ops arbitrary: b) (simp_all add: bridge_step_inv)

text \<open>C39: no question is lost between the broker and its device's actor: over any interleaving of messages, spawns,
  receptions, idle exits and re-routing, every question accepted has been received by an actor, refused by a
  full backlog, dropped by the shutdown (never before it), or is still waiting to be spawned, re-routed or
  received; none waits in a channel whose actor has drained it; and the device map only leads to actors of
  that very device.\<close>

theorem no_question_lost:
  assumes "b = fold (bridge_step decode pre) ops bridge_new"
  shows "br_submitted b = br_received b + br_full b + br_shut b + mset (br_pending b) + mset (br_leftover b) + queued (br_actors b)
    \<and> (br_shutdown b \<or> br_shut b = {#})
    \<and> list_all (\<lambda>a. (ac_phase a = Gone \<longrightarrow> ac_queue a = []) \<and> length (ac_queue a) \<le> backlog) (br_actors b)
    \<and> (\<forall>d i. map_of (br_devices b) d = Some i \<longrightarrow> i < length (br_actors b) \<and> ac_device (br_actors b ! i) = d)"
proof -
  have "bridge_inv bridge_new"
    by (simp add: bridge_inv_def bridge_ok_def total_def bridge_new_def queued_def)
  then have "bridge_inv b" unfolding assms by (rule bridge_run_inv)
  then show ?thesis by (auto simp: bridge_inv_def bridge_ok_def total_def list_all_iff)
qed

theorem no_question_lost_witness:
  "br_submitted (fold (bridge_step (\<lambda>_. Some (JObj [(''text'', JStr ''hi'')])) ''assist'')
      [BrMessage ''assist/transcription/tab1'' [], BrSpawn, BrMessage ''assist/transcription/tab1'' [], BrRecv 0, BrLeave 0, BrDrain 0]
      bridge_new)
   = {#(''tab1'', ''hi''), (''tab1'', ''hi'')#}
   \<and> br_leftover (fold (bridge_step (\<lambda>_. Some (JObj [(''text'', JStr ''hi'')])) ''assist'')
      [BrMessage ''assist/transcription/tab1'' [], BrSpawn, BrMessage ''assist/transcription/tab1'' [], BrRecv 0, BrLeave 0, BrDrain 0]
      bridge_new) = [(''tab1'', ''hi'')]"
proof -
  let ?b = "fold (bridge_step (\<lambda>_. Some (JObj [(''text'', JStr ''hi'')])) ''assist'')
      [BrMessage ''assist/transcription/tab1'' [], BrSpawn, BrMessage ''assist/transcription/tab1'' [], BrRecv 0, BrLeave 0, BrDrain 0]
      bridge_new"
  have parse: "parse_transcription ''assist'' ''assist/transcription/tab1'' = Some ''tab1''"
    "parse_text_payload (\<lambda>_. Some (JObj [(''text'', JStr ''hi'')])) [] = Some ''hi''" by code_simp+
  have "br_received ?b = {#(''tab1'', ''hi'')#}" "br_leftover ?b = [(''tab1'', ''hi'')]" "br_full ?b = {#}" "br_shut ?b = {#}"
    "br_pending ?b = []" "queued (br_actors ?b) = {#}"
    by (simp_all add: bridge_handle_def parse route_def bridge_new_def spawn_device_def actor_recv_def actor_leave_def
        actor_drain_def Let_def backlog_def queued_def held_by_def)
  then show ?thesis using no_question_lost [OF refl, of "\<lambda>_. Some (JObj [(''text'', JStr ''hi'')])" "''assist''"
      "[BrMessage ''assist/transcription/tab1'' [], BrSpawn, BrMessage ''assist/transcription/tab1'' [], BrRecv 0, BrLeave 0, BrDrain 0]"]
    by simp
qed

end
