(* ===== verification/Skill_Sdk.thy ===== *)
theory Skill_Sdk
  imports Host_Fns Skill_Types "HOL-Library.State_Monad" "HOL-Library.Signed_Division"
begin

text \<open>
  The guest side of the host functions (\<open>crates/athena-voice-skill-sdk/src/host.rs\<close>):
  what a skill calls, over the host functions of \<open>Host_Fns\<close>. A skill's code is a computation in the state monad
  over the guest's state: the host's world, the environment the n-th host call will meet, the calls made so far
  and the plugin's own statics. Triples over that monad carry the skills' proofs.
\<close>

section \<open>Spoken text\<close>

text \<open>The characters of the spoken phrases outside ASCII, as UTF-8, and the apostrophe.\<close>

definition apos :: string where "apos = [CHR 0x27]"
definition rsquo :: string where "rsquo = [CHR 0xE2, CHR 0x80, CHR 0x99]"
definition a_grave_cap :: string where "a_grave_cap = [CHR 0xC3, CHR 0x80]"
definition c_cedil :: string where "c_cedil = [CHR 0xC3, CHR 0xA7]"
definition em_dash :: string where "em_dash = [CHR 0xE2, CHR 0x80, CHR 0x94]"
definition arrow :: string where "arrow = [CHR 0xE2, CHR 0x86, CHR 0x92]"

section \<open>The guest's monad\<close>

record ('u, 'm) guest =
  gs_world :: "'u host_world"
  gs_env :: "nat \<Rightarrow> host_env"
  gs_trace :: "host_call list"
  gs_memory :: 'm

text \<open>\<open>HostCtx\<close>: its skill name, with the plugin instance it runs in.\<close>

record 'u host_ctx =
  hc_skill_name :: string
  hc_web :: "'u web"
  hc_ctx :: skill_ctx

definition for_testing :: "'u web \<Rightarrow> skill_ctx \<Rightarrow> 'u host_ctx" where
  "for_testing wb ctx = \<lparr>hc_skill_name = [], hc_web = wb, hc_ctx = ctx\<rparr>"

definition for_guest :: "'u web \<Rightarrow> skill_ctx \<Rightarrow> string \<Rightarrow> 'u host_ctx" where
  "for_guest wb ctx nm = \<lparr>hc_skill_name = nm, hc_web = wb, hc_ctx = ctx\<rparr>"

definition env_now :: "('u, 'm) guest \<Rightarrow> host_env" where
  "env_now g = gs_env g (length (gs_trace g))"

definition invoke :: "'u host_ctx \<Rightarrow> host_call \<Rightarrow> (('u, 'm) guest, host_ret) state" where
  "invoke hc c = State (\<lambda>g.
     let (r, w) = host_function (hc_web hc) (hc_ctx hc) (env_now g) c (gs_world g)
     in (r, g\<lparr>gs_world := w, gs_trace := gs_trace g @ [c]\<rparr>))"

abbreviation ret :: "'a \<Rightarrow> ('s, 'a) state" where
  "ret \<equiv> State_Monad.return"

definition memory :: "(('u, 'm) guest, 'm) state" where
  "memory = State (\<lambda>g. (gs_memory g, g))"

definition set_memory :: "'m \<Rightarrow> (('u, 'm) guest, unit) state" where
  "set_memory m = State (\<lambda>g. ((), g\<lparr>gs_memory := m\<rparr>))"

section \<open>The bindings\<close>

text \<open>A reply of another kind cannot occur: \<open>host_function\<close> answers each call with the kind read here.\<close>

definition ret_bytes :: "host_ret \<Rightarrow> string + byte list" where
  "ret_bytes r = (case r of Bytes bs \<Rightarrow> Inr bs | Trap e \<Rightarrow> Inl e | _ \<Rightarrow> Inl [])"

definition ret_code :: "host_ret \<Rightarrow> string + int" where
  "ret_code r = (case r of Code c \<Rightarrow> Inr c | Trap e \<Rightarrow> Inl e | _ \<Rightarrow> Inl [])"

definition ret_unit :: "host_ret \<Rightarrow> string + unit" where
  "ret_unit r = (case r of Trap e \<Rightarrow> Inl e | _ \<Rightarrow> Inr ())"

definition map_err :: "('e \<Rightarrow> 'f) \<Rightarrow> 'e + 'a \<Rightarrow> 'f + 'a" where
  "map_err f r = (case r of Inl e \<Rightarrow> Inl (f e) | Inr a \<Rightarrow> Inr a)"

definition non_empty :: "'a list \<Rightarrow> 'a list option" where
  "non_empty bs = (if bs = [] then None else Some bs)"

definition log_msg :: "'u host_ctx \<Rightarrow> string \<Rightarrow> string \<Rightarrow> (('u, 'm) guest, unit) state" where
  "log_msg hc level msg = do { _ \<leftarrow> invoke hc (CLog level msg); ret () }"

definition config_get :: "'u host_ctx \<Rightarrow> (('u, 'm) guest, skill_error + byte list option) state" where
  "config_get hc = do {
     r \<leftarrow> invoke hc CConfigGet;
     ret (case map_err ConfigError (ret_bytes r) of Inl e \<Rightarrow> Inl e | Inr bs \<Rightarrow> Inr (non_empty bs)) }"

definition config_get_toml :: "'u host_ctx \<Rightarrow> string \<Rightarrow> (('u, 'm) guest, string option) state" where
  "config_get_toml hc key = do {
     r \<leftarrow> invoke hc CConfigGet;
     ret (case ret_bytes r of
            Inl _ \<Rightarrow> None
          | Inr bs \<Rightarrow> Option.bind (w_json (hc_web hc) bs) (\<lambda>v. Option.bind (json_get key v) as_str)) }"

definition local_time :: "'u host_ctx \<Rightarrow> (('u, 'm) guest, skill_error + int \<times> int) state" where
  "local_time hc = do {
     r \<leftarrow> invoke hc CLocalTime;
     ret (case r of LocalTime ms off \<Rightarrow> Inr (ms, off) | Trap e \<Rightarrow> Inl (HostFn e) | _ \<Rightarrow> Inl (HostFn [])) }"

definition state_get :: "'u host_ctx \<Rightarrow> string \<Rightarrow> (('u, 'm) guest, skill_error + byte list option) state" where
  "state_get hc key = do {
     r \<leftarrow> invoke hc (CStateGet key);
     ret (case map_err StateError (ret_bytes r) of Inl e \<Rightarrow> Inl e | Inr bs \<Rightarrow> Inr (non_empty bs)) }"

definition state_set :: "'u host_ctx \<Rightarrow> string \<Rightarrow> byte list \<Rightarrow> (('u, 'm) guest, skill_error + unit) state" where
  "state_set hc key v = do { r \<leftarrow> invoke hc (CStateSet key v); ret (map_err StateError (ret_unit r)) }"

definition show_int :: "int \<Rightarrow> string" where
  "show_int i = (if i < 0 then ''-'' @ show_nat (nat (- i)) else show_nat (nat i))"

definition outside_acl :: "string \<Rightarrow> skill_error" where
  "outside_acl topic = MqttFailed (''topic '' @ topic @ '' outside skill ACL namespace'')"

definition mqtt_publish :: "'u host_ctx \<Rightarrow> string \<Rightarrow> byte list \<Rightarrow> (('u, 'm) guest, skill_error + unit) state" where
  "mqtt_publish hc topic payload = do {
     r \<leftarrow> invoke hc (CMqttPublish topic payload);
     ret (case map_err MqttFailed (ret_code r) of
            Inl e \<Rightarrow> Inl e
          | Inr c \<Rightarrow>
              if c = mqtt_ok then Inr ()
              else if c = mqtt_err_acl then Inl (outside_acl topic)
              else if c = mqtt_err_client then Inl (MqttFailed ''mqtt client error'')
              else Inl (MqttFailed (''unknown mqtt result code '' @ show_int c))) }"

definition le_bytes64 :: "u64 \<Rightarrow> byte list" where
  "le_bytes64 x = map (\<lambda>i. ucast (drop_bit (8 * i) x)) [0, 1, 2, 3, 4, 5, 6, 7]"

definition schedule_mqtt :: "'u host_ctx \<Rightarrow> i64 \<Rightarrow> string \<Rightarrow> byte list \<Rightarrow> (('u, 'm) guest, skill_error + int) state" where
  "schedule_mqtt hc fires_at_ms topic payload = do {
     r \<leftarrow> invoke hc (CScheduleMqtt (le_bytes64 fires_at_ms) topic payload);
     ret (case map_err MqttFailed (ret_code r) of
            Inl e \<Rightarrow> Inl e
          | Inr c \<Rightarrow>
              if c = sched_err_acl then Inl (outside_acl topic)
              else if c = sched_err_store then Inl (MqttFailed ''scheduler store error'')
              else if c \<ge> 0 then Inr c
              else Inl (MqttFailed (''unknown schedule_mqtt result code '' @ show_int c))) }"

definition play_pcm :: "'u host_ctx \<Rightarrow> u32 \<Rightarrow> u32 list \<Rightarrow> (('u, 'm) guest, skill_error + unit) state" where
  "play_pcm hc rate samples = do {
     r \<leftarrow> invoke hc (CPlayPcm rate (concat (map le_bytes32 samples)));
     ret (map_err HostFn (ret_unit r)) }"

definition play_opus :: "'u host_ctx \<Rightarrow> byte list \<Rightarrow> (('u, 'm) guest, skill_error + unit) state" where
  "play_opus hc frames = do { r \<leftarrow> invoke hc (CPlayOpus frames); ret (map_err HostFn (ret_unit r)) }"

definition ctx_tmp_set :: "'u host_ctx \<Rightarrow> string \<Rightarrow> byte list \<Rightarrow> u64 \<Rightarrow> (('u, 'm) guest, skill_error + unit) state" where
  "ctx_tmp_set hc key v expires_sec = do {
     r \<leftarrow> invoke hc (CTmpSet (hc_skill_name hc) key v expires_sec);
     ret (map_err HostFn (ret_unit r)) }"

definition ctx_tmp_get :: "'u host_ctx \<Rightarrow> string \<Rightarrow> (('u, 'm) guest, skill_error + byte list option) state" where
  "ctx_tmp_get hc key = do {
     r \<leftarrow> invoke hc (CTmpGet (hc_skill_name hc) key);
     ret (case map_err HostFn (ret_bytes r) of Inl e \<Rightarrow> Inl e | Inr bs \<Rightarrow> Inr (non_empty bs)) }"

text \<open>The reply is the JSON text the host wrote; an object with a string \<open>error\<close> is the host's error envelope.\<close>

definition http_get_json :: "'u host_ctx \<Rightarrow> string \<Rightarrow> (('u, 'm) guest, skill_error + json) state" where
  "http_get_json hc url = do {
     r \<leftarrow> invoke hc (CHttpGetJson url);
     ret (case r of
            JsonOut v \<Rightarrow>
              (case Option.bind (json_get ''error'' v) as_str of
                 Some e \<Rightarrow> Inl (HttpFailed e)
               | None \<Rightarrow> Inr v)
          | Trap e \<Rightarrow> Inl (HttpFailed e)
          | _ \<Rightarrow> Inl (HttpFailed [])) }"

text \<open>\<open>LocalTime\<close>: Rust's \<open>/\<close> truncates, \<open>rem_euclid\<close> is HOL's \<open>mod\<close>.\<close>

definition local_secs :: "int \<times> int \<Rightarrow> int" where
  "local_secs t = fst t sdiv 1000 + snd t"

definition local_hour :: "int \<times> int \<Rightarrow> int" where
  "local_hour t = (local_secs t mod 86400) sdiv 3600"

definition local_minute :: "int \<times> int \<Rightarrow> int" where
  "local_minute t = (local_secs t mod 3600) sdiv 60"

section \<open>Triples\<close>

definition triple :: "('s \<Rightarrow> bool) \<Rightarrow> ('s, 'a) state \<Rightarrow> ('a \<Rightarrow> 's \<Rightarrow> bool) \<Rightarrow> bool" where
  "triple P m Q \<longleftrightarrow> (\<forall>s. P s \<longrightarrow> Q (fst (run_state m s)) (snd (run_state m s)))"

named_theorems triple_intros \<open>rules of the guest's program logic\<close>

lemma tripleD: "triple P m Q \<Longrightarrow> P s \<Longrightarrow> run_state m s = (a, t) \<Longrightarrow> Q a t"
  by (auto simp: triple_def)

lemma tripleI: "(\<And>s a t. P s \<Longrightarrow> run_state m s = (a, t) \<Longrightarrow> Q a t) \<Longrightarrow> triple P m Q"
  by (auto simp: triple_def)

lemma triple_weaken: "triple P m Q \<Longrightarrow> (\<And>a s. Q a s \<Longrightarrow> R a s) \<Longrightarrow> triple P m R"
  by (auto simp: triple_def)

lemma triple_strengthen: "triple P m Q \<Longrightarrow> (\<And>s. R s \<Longrightarrow> P s) \<Longrightarrow> triple R m Q"
  by (auto simp: triple_def)

lemma triple_return [triple_intros]: "(\<And>s. P s \<Longrightarrow> Q a s) \<Longrightarrow> triple P (ret a) Q"
  by (auto simp: triple_def)

lemma triple_bind: "triple P m Q \<Longrightarrow> (\<And>a. triple (Q a) (f a) R) \<Longrightarrow> triple P (m \<bind> f) R"
  by (fastforce simp: triple_def split: prod.split)

lemma triple_traverse:
  assumes "\<And>x. x \<in> set xs \<Longrightarrow> triple I (f x) (\<lambda>_. I)"
  shows "triple I (State_Monad.traverse_list f xs) (\<lambda>_. I)"
  using assms
proof (induction xs)
  case (Cons x xs)
  have "triple I (State_Monad.traverse_list f xs) (\<lambda>_. I)" using Cons by simp
  then show ?case using Cons.prems [of x] by (auto simp: triple_def split: prod.splits)
qed (simp add: triple_return)

lemma triple_pre: "(P1 \<Longrightarrow> triple P2 m Q) \<Longrightarrow> triple (\<lambda>s. P1 \<and> P2 s) m Q"
  by (auto simp: triple_def)

text \<open>The calls made since a point of the run all satisfy a predicate, and the statics stay as they are.\<close>

definition since :: "host_call list \<Rightarrow> 'm \<Rightarrow> (host_call \<Rightarrow> bool) \<Rightarrow> ('u, 'm) guest \<Rightarrow> bool" where
  "since tr m A g \<longleftrightarrow> gs_memory g = m \<and> (\<exists>cs. gs_trace g = tr @ cs \<and> list_all A cs)"

lemma since_refl [simp]: "since (gs_trace g) (gs_memory g) A g"
  by (simp add: since_def)

lemma triple_memory [triple_intros]: "triple (since tr m A) memory (\<lambda>r s. r = m \<and> since tr m A s)"
  by (simp add: triple_def memory_def since_def)

lemma triple_invoke: "A c \<Longrightarrow> triple (since tr m A) (invoke hc c) (\<lambda>_. since tr m A)"
  by (auto simp: triple_def invoke_def since_def split_beta Let_def)

lemma triple_seq:
  "triple I m (\<lambda>_. I) \<Longrightarrow> (\<And>a. triple I (f a) (\<lambda>_. I)) \<Longrightarrow> triple I (m \<bind> f) (\<lambda>_. I)"
  by (rule triple_bind)

lemma triple_seq_with:
  "triple I m (\<lambda>a s. F a \<and> I s) \<Longrightarrow> (\<And>a. F a \<Longrightarrow> triple I (f a) (\<lambda>_. I)) \<Longrightarrow> triple I (m \<bind> f) (\<lambda>_. I)"
  by (fastforce simp: triple_def split: prod.split)

lemma triple_ret_inv [simp, intro]: "triple I (ret a) (\<lambda>_. I)"
  by (simp add: triple_def)

lemma triple_log: "A (CLog level msg) \<Longrightarrow> triple (since tr m A) (log_msg hc level msg) (\<lambda>_. since tr m A)"
  unfolding log_msg_def by (intro triple_seq triple_invoke triple_ret_inv)

lemma triple_config: "A CConfigGet \<Longrightarrow> triple (since tr m A) (config_get_toml hc key) (\<lambda>_. since tr m A)"
  unfolding config_get_toml_def by (intro triple_seq triple_invoke triple_ret_inv)

lemma triple_http: "A (CHttpGetJson url) \<Longrightarrow> triple (since tr m A) (http_get_json hc url) (\<lambda>_. since tr m A)"
  unfolding http_get_json_def by (intro triple_seq triple_invoke triple_ret_inv)

lemma triple_tmp_set:
  "A (CTmpSet (hc_skill_name hc) key v e) \<Longrightarrow> triple (since tr m A) (ctx_tmp_set hc key v e) (\<lambda>_. since tr m A)"
  unfolding ctx_tmp_set_def by (intro triple_seq triple_invoke triple_ret_inv)

lemma triple_tmp_get:
  "A (CTmpGet (hc_skill_name hc) key) \<Longrightarrow> triple (since tr m A) (ctx_tmp_get hc key) (\<lambda>_. since tr m A)"
  unfolding ctx_tmp_get_def by (intro triple_seq triple_invoke triple_ret_inv)

lemma run_invoke:
  "run_state (invoke hc c) g =
     (let (r, w) = host_function (hc_web hc) (hc_ctx hc) (env_now g) c (gs_world g)
      in (r, g\<lparr>gs_world := w, gs_trace := gs_trace g @ [c]\<rparr>))"
  by (simp add: invoke_def)

lemmas sdk_runs = run_invoke memory_def set_memory_def log_msg_def config_get_toml_def ctx_tmp_set_def ctx_tmp_get_def
  http_get_json_def schedule_mqtt_def mqtt_publish_def state_get_def state_set_def

section \<open>Eight little-endian bytes\<close>

lemma digit_chain:
  fixes q r :: "nat \<Rightarrow> int"
  assumes "\<And>i. q i = r i + 256 * q (Suc i)" "q 8 = 0"
  shows "horner_sum id 256 (map r [0, 1, 2, 3, 4, 5, 6, 7]) = q 0"
proof -
  have "q 0 = r 0 + 256 * q 1" "q 1 = r 1 + 256 * q 2" "q 2 = r 2 + 256 * q 3" "q 3 = r 3 + 256 * q 4"
    "q 4 = r 4 + 256 * q 5" "q 5 = r 5 + 256 * q 6" "q 6 = r 6 + 256 * q 7" "q 7 = r 7"
    using assms(1) [of 0] assms(1) [of 1] assms(1) [of 2] assms(1) [of 3] assms(1) [of 4] assms(1) [of 5] assms(1) [of 6]
      assms(1) [of 7] assms(2)
    by (simp_all add: eval_nat_numeral)
  then show ?thesis by simp
qed

lemma bytes_sum:
  fixes n :: int
  assumes "0 \<le> n" "n < 2 ^ 64"
  shows "horner_sum id 256 (map (\<lambda>i. (n div 2 ^ (8 * i)) mod 256) [0, 1, 2, 3, 4, 5, 6, 7]) = n"
proof -
  have s: "n div 2 ^ (8 * i) = (n div 2 ^ (8 * i)) mod 256 + 256 * (n div 2 ^ (8 * Suc i))" for i
  proof -
    have "(2 :: int) ^ (8 * Suc i) = 2 ^ (8 * i) * 256" by (simp add: power_add)
    then have "n div 2 ^ (8 * Suc i) = n div 2 ^ (8 * i) div 256" by (simp only: zdiv_zmult2_eq)
    then show ?thesis by simp
  qed
  have z: "n div 2 ^ (8 * 8) = 0" using assms by simp
  have "n div 2 ^ (8 * 0) = n" by simp
  with digit_chain [of "\<lambda>i. n div 2 ^ (8 * i)" "\<lambda>i. (n div 2 ^ (8 * i)) mod 256", OF s z]
  show ?thesis by simp
qed

lemma rcat_le_bytes64 [simp]: "(word_rcat (rev (le_bytes64 x)) :: 64 word) = x"
proof -
  have b: "uint (ucast (drop_bit (8 * i) x) :: byte) = (uint x div 2 ^ (8 * i)) mod 256" for i
    using mod_pos_pos_trivial [OF _ uint_lt2p [of x]]
    by (simp add: unsigned_ucast_eq unsigned_drop_bit_eq take_bit_eq_mod drop_bit_eq_div [where 'a = int] del: drop_bit_eq_div)
  have "map uint (le_bytes64 x) = map (\<lambda>i. (uint x div 2 ^ (8 * i)) mod 256) [0, 1, 2, 3, 4, 5, 6, 7]"
    unfolding le_bytes64_def list.map_comp comp_def b by simp
  moreover have "horner_sum uint 256 bs = horner_sum id 256 (map uint bs)" for bs :: "byte list"
    by (induction bs) simp_all
  ultimately have "horner_sum uint 256 (le_bytes64 x) = uint x"
    using bytes_sum [of "uint x"] uint_lt2p [of x] by simp
  then show ?thesis by (simp add: word_rcat_def)
qed

end
