(* ===== verification/Jeedom_Rules.thy ===== *)
theory Jeedom_Rules
  imports Skill_Sdk "HOL-Library.List_Lexorder" "HOL-Library.Char_ord"
begin

text \<open>
  The Jeedom skill's configuration and match rules (\<open>skills-jeedom/src/lib.rs\<close>): sensors, on/off devices and
  roller shutters, the cleaning of their spoken names, and the phrases generated from them. Parsing the
  configured JSON is \<open>serde_json\<close>'s; lower-casing, alphanumeric tests and the similarity of two names are in
  \<open>text_fns\<close>.
\<close>

section \<open>Configured entities\<close>

definition fuzzy_threshold :: rat where "fuzzy_threshold = 3 / 4"

record sensor =
  se_name :: string
  se_id :: u64
  se_unit :: string
  se_room :: string
  se_kind :: string
  se_on_label :: string
  se_off_label :: string
  se_prefix :: string

record action_device =
  ad_name :: string
  ad_room :: string
  ad_prefix :: string
  ad_on_id :: u64
  ad_off_id :: u64
  ad_confirm :: bool

record shutter =
  sh_name :: string
  sh_room :: string
  sh_prefix :: string
  sh_up_id :: u64
  sh_down_id :: u64
  sh_stop_id :: u64
  sh_slider_id :: u64
  sh_confirm :: bool

fun clean_go :: "(string \<Rightarrow> bool) \<Rightarrow> string list \<Rightarrow> string \<Rightarrow> bool \<Rightarrow> string" where
  "clean_go keep [] out pending_space = out"
| "clean_go keep (c # cs) out pending_space =
     (if keep c \<or> c = apos \<or> c = ''-''
      then clean_go keep cs ((if pending_space \<and> out \<noteq> [] then out @ '' '' else out) @ c) False
      else clean_go keep cs out True)"

definition clean_spoken :: "text_fns \<Rightarrow> string \<Rightarrow> string" where
  "clean_spoken tf s = clean_go (alnum tf) (uchars s) [] False"

definition parse_sensors :: "text_fns \<Rightarrow> (string \<Rightarrow> sensor list option) \<Rightarrow> string \<Rightarrow> sensor list" where
  "parse_sensors tf from_str raw =
     (case from_str raw of
        None \<Rightarrow> []
      | Some v \<Rightarrow>
          map (\<lambda>s. s\<lparr>se_name := clean_spoken tf (se_name s), se_room := clean_spoken tf (se_room s),
                     se_on_label := clean_spoken tf (se_on_label s), se_off_label := clean_spoken tf (se_off_label s),
                     se_prefix := clean_spoken tf (replace_all rsquo apos (se_prefix s))\<rparr>) v)"

definition parse_actions :: "text_fns \<Rightarrow> (string \<Rightarrow> action_device list option) \<Rightarrow> string \<Rightarrow> action_device list" where
  "parse_actions tf from_str raw =
     (case from_str raw of
        None \<Rightarrow> []
      | Some v \<Rightarrow>
          map (\<lambda>d. d\<lparr>ad_name := clean_spoken tf (ad_name d), ad_room := clean_spoken tf (ad_room d),
                     ad_prefix := clean_spoken tf (replace_all rsquo apos (ad_prefix d))\<rparr>) v)"

definition parse_shutters :: "text_fns \<Rightarrow> (string \<Rightarrow> shutter list option) \<Rightarrow> string \<Rightarrow> shutter list" where
  "parse_shutters tf from_str raw =
     (case from_str raw of
        None \<Rightarrow> []
      | Some v \<Rightarrow>
          map (\<lambda>s. s\<lparr>sh_name := clean_spoken tf (sh_name s), sh_room := clean_spoken tf (sh_room s),
                     sh_prefix := clean_spoken tf (replace_all rsquo apos (sh_prefix s))\<rparr>) v)"

section \<open>Words of a sensor\<close>

text \<open>\<open>find_map\<close> over the articles, in the code's order.\<close>

fun strip_article :: "string list \<Rightarrow> string \<Rightarrow> string" where
  "strip_article [] head = head"
| "strip_article (a # as) head = (case strip_suffix a head of Some h \<Rightarrow> h | None \<Rightarrow> strip_article as head)"

definition articles :: "string list" where
  "articles = [''du'',
               ''de la'',
               ''de l'' @ rsquo,
               ''de l'' @ apos,
               ''de'',
               ''dans le'',
               ''dans la'']"

definition metric_of :: "text_fns \<Rightarrow> sensor \<Rightarrow> string" where
  "metric_of tf s =
     (let name = lower tf (trim (se_name s)); room = lower tf (trim (se_room s)) in
      if room = [] \<or> \<not> suffix room name then name
      else
        (let head = trim_end (take (length name - length room) name);
             pre = lower tf (trim (se_prefix s));
             head2 = (if pre \<noteq> [] \<and> suffix pre head then trim_end (take (length head - length pre) head)
                      else trim_end (strip_article articles head))
         in if head2 = [] then name else head2))"

text \<open>\<open>max_by\<close> keeps the last of several maxima.\<close>

definition resolve_in :: "text_fns \<Rightarrow> sensor list \<Rightarrow> string \<Rightarrow> sensor option" where
  "resolve_in tf list asked =
     map_option snd
       (fold (\<lambda>c best. case best of None \<Rightarrow> Some c | Some b \<Rightarrow> if fst b \<le> fst c then Some c else Some b)
         (filter (\<lambda>c. fst c \<ge> fuzzy_threshold)
            (map (\<lambda>s. (similarity tf (lower tf (se_name s)) (lower tf asked), s)) list)) None)"

definition join_prefix :: "string \<Rightarrow> string \<Rightarrow> string" where
  "join_prefix pre room =
     (if suffix apos pre \<or> suffix rsquo pre then pre @ room else pre @ '' '' @ room)"

definition dans_article :: "string \<Rightarrow> string option" where
  "dans_article pre =
     (let p = trim pre in
      if p = ''du'' then Some ''le''
      else if p = ''de la'' then Some ''la''
      else if p = ''de l'' @ apos \<or> p = ''de l'' @ rsquo then Some (''l'' @ apos)
      else None)"

section \<open>The configuration schema\<close>

definition jeedom_schema :: config_schema where
  "jeedom_schema =
     [field ''base_url'' ''Jeedom URL'' FkUrl True
        (''e.g. http://192.168.1.91 '' @ em_dash @ '' the host is allowed for HTTP automatically'') [],
      field ''api_key'' ''API key'' FkSecret True
        (''Jeedom '' @ arrow @ '' Settings '' @ arrow @ '' System '' @ arrow @ '' Configuration '' @ arrow @ '' API'') [],
      field ''sensors'' ''Sensors'' FkList False
        (''Spoken name '' @ arrow @ '' Jeedom command id; room/kind/prefix filled by discovery'')
        [item ''name'' FkString True, item ''id'' FkNumber True, item ''unit'' FkString False, item ''room'' FkString False,
         item ''prefix'' FkString False, item ''kind'' FkString False, item ''on_label'' FkString False,
         item ''off_label'' FkString False],
      field ''actions'' ''Actions'' FkList False
        (''On/off devices: spoken name '' @ arrow @ '' Jeedom on/off action command ids'')
        [item ''name'' FkString True, item ''on_id'' FkNumber True, item ''off_id'' FkNumber True, item ''room'' FkString False,
         item ''prefix'' FkString False, item ''confirm'' FkBool False],
      field ''shutters'' ''Shutters'' FkList False
        (''Roller shutters: spoken name '' @ arrow @ '' Jeedom up/down action ids; stop/slider optional'')
        [item ''name'' FkString True, item ''up_id'' FkNumber True, item ''down_id'' FkNumber True,
         item ''stop_id'' FkNumber False, item ''slider_id'' FkNumber False, item ''room'' FkString False,
         item ''prefix'' FkString False, item ''confirm'' FkBool False]]"

section \<open>Match rules\<close>

definition rule :: "string \<Rightarrow> string list \<Rightarrow> slot_spec list \<Rightarrow> pattern_rule" where
  "rule i ps ss = \<lparr>pr_intent = i, pr_phrases = ps, pr_slots = ss\<rparr>"

definition show_id :: "u64 \<Rightarrow> string" where
  "show_id i = show_nat (unat i)"

definition base_phrases :: "string \<Rightarrow> string list option" where
  "base_phrases loc =
     (if loc = ''fr'' then
        Some [''capteur {sensor}'',
               ''valeur du capteur {sensor}'',
               ''donne-moi la {sensor}'',
               ''combien fait la {sensor}'']
      else if loc = ''en'' then
        Some [''sensor {sensor}'',
               ''sensor value {sensor}'',
               ''give me the {sensor}'',
               ''read the {sensor}'']
      else None)"

definition room_phrases :: "text_fns \<Rightarrow> string \<Rightarrow> sensor \<Rightarrow> string list" where
  "room_phrases tf loc s =
     (let metric = metric_of tf s; room = se_room s in
      if loc = ''fr'' then
        (if se_prefix s = [] then
           [''quelle '' @ metric @ '' dans le '' @ room,
            ''quelle '' @ metric @ '' dans la '' @ room,
            metric @ '' dans le '' @ room,
            metric @ '' dans la '' @ room,
            ''quelle est la '' @ metric @ '' dans le '' @ room,
            ''quelle est la '' @ metric @ '' dans la '' @ room,
            ''quelle est la '' @ metric @ '' du '' @ room,
            ''quelle est la '' @ metric @ '' de la '' @ room,
            metric @ '' du '' @ room,
            metric @ '' de la '' @ room]
         else
           (let with_room = join_prefix (se_prefix s) room in
            [metric @ '' '' @ with_room,
             ''quelle est la '' @ metric @ '' '' @ with_room]
            @ (case dans_article (se_prefix s) of
                 None \<Rightarrow> []
               | Some article \<Rightarrow>
                   (let loc = join_prefix article room in
                    [metric @ '' dans '' @ loc,
                     ''quelle '' @ metric @ '' dans '' @ loc,
                     ''quelle est la '' @ metric @ '' dans '' @ loc]))))
      else if loc = ''en'' then [metric @ '' in the '' @ room,
                                  ''what is the '' @ metric @ '' in the '' @ room]
      else [])"

definition sensor_rule :: "text_fns \<Rightarrow> string \<Rightarrow> sensor \<Rightarrow> pattern_rule" where
  "sensor_rule tf loc s =
     (let name = se_name s;
          literal =
            (if loc = ''fr'' then [''quelle est la '' @ name,
                                    ''quel est le niveau de '' @ name]
             else if loc = ''en'' then [''what is the '' @ name,
                                         ''what'' @ apos @ ''s the '' @ name]
             else [])
      in rule (''jeedom.read.'' @ show_id (se_id s))
           (literal @ (if se_room s \<noteq> [] then room_phrases tf loc s else [])) [])"

definition enum_rule :: "string \<Rightarrow> string \<Rightarrow> pattern_rule" where
  "enum_rule loc metric =
     (let plural = (if suffix ''s'' metric then metric else metric @ ''s'') in
      rule (''jeedom.read_all.'' @ metric)
        (if loc = ''fr'' then [''toutes les '' @ plural,
                                ''toutes les '' @ metric]
         else if loc = ''en'' then [''all '' @ plural,
                                      ''all the '' @ plural]
         else []) [])"

definition metrics_of :: "text_fns \<Rightarrow> sensor list \<Rightarrow> string list" where
  "metrics_of tf configured = remdups_adj (sort (map (metric_of tf) configured))"

definition rules_for :: "text_fns \<Rightarrow> string \<Rightarrow> sensor list \<Rightarrow> pattern_rule list" where
  "rules_for tf loc configured =
     (if configured = [] then []
      else case base_phrases loc of
          None \<Rightarrow> []
        | Some phrases \<Rightarrow>
            rule ''jeedom.read'' phrases [\<lparr>ss_name = ''sensor'', ss_kind = SkString\<rparr>]
            # map (sensor_rule tf loc) configured @ map (enum_rule loc) (metrics_of tf configured))"

definition on_off_phrases :: "string \<Rightarrow> string \<Rightarrow> (string list \<times> string list) option" where
  "on_off_phrases loc name =
     (if loc = ''fr'' then
        Some ([''allume la '' @ name,
               ''allume le '' @ name,
               ''allume '' @ name,
               ''active '' @ name],
              [e_acute @ ''teins la '' @ name,
               e_acute @ ''teins le '' @ name,
               e_acute @ ''teins '' @ name,
               ''coupe '' @ name,
               ''d'' @ e_acute @ ''sactive '' @ name])
      else if loc = ''en'' then
        Some ([''turn on the '' @ name,
               ''turn on '' @ name,
               ''switch on the '' @ name],
              [''turn off the '' @ name,
               ''turn off '' @ name,
               ''switch off the '' @ name])
      else None)"

definition device_rules :: "string \<Rightarrow> action_device \<Rightarrow> pattern_rule list" where
  "device_rules loc d =
     (case on_off_phrases loc (ad_name d) of
        None \<Rightarrow> []
      | Some (on, off) \<Rightarrow>
          [rule (''jeedom.turn_on.'' @ show_id (ad_on_id d)) on [], rule (''jeedom.turn_off.'' @ show_id (ad_on_id d)) off []])"

definition action_rules :: "string \<Rightarrow> action_device list \<Rightarrow> pattern_rule list" where
  "action_rules loc devices = concat (map (device_rules loc) devices)"

definition confirm_rules :: "string \<Rightarrow> pattern_rule list" where
  "confirm_rules loc =
     (if loc = ''fr'' then
        [rule ''jeedom.confirm'' [''oui'',
                                  ''confirme'',
                                  ''c'' @ apos @ ''est confirm'' @ e_acute] [],
         rule ''jeedom.cancel'' [''non'',
                                 ''annule''] []]
      else if loc = ''en'' then
        [rule ''jeedom.confirm'' [''yes'',
                                  ''confirm''] [],
         rule ''jeedom.cancel'' [''no'',
                                 ''cancel''] []]
      else [])"

record shutter_phrases =
  sp_open :: "string list"
  sp_close :: "string list"
  sp_stop :: "string list"
  sp_pos :: "string list"

definition phrases_of_shutter :: "string \<Rightarrow> string \<Rightarrow> shutter_phrases option" where
  "phrases_of_shutter loc name =
     (if loc = ''fr'' then Some
        \<lparr>sp_open = [''ouvre le '' @ name,
            ''ouvre la '' @ name,
            ''ouvre '' @ name,
            ''monte le '' @ name,
            ''l'' @ e_grave @ ''ve le '' @ name],
         sp_close = [''ferme le '' @ name,
            ''ferme la '' @ name,
            ''ferme '' @ name,
            ''descends le '' @ name,
            ''baisse le '' @ name],
         sp_stop = [''stop le '' @ name,
            ''stop '' @ name,
            ''arr'' @ e_circ @ ''te le '' @ name],
         sp_pos = [''ouvre le '' @ name @ '' '' @ a_grave @ '' {position}'',
            ''ouvre le '' @ name @ '' '' @ a_grave @ '' {position} pour cent'',
            ''mets le '' @ name @ '' '' @ a_grave @ '' {position}'',
            ''mets le '' @ name @ '' '' @ a_grave @ '' {position} pour cent'']\<rparr>
      else if loc = ''en'' then Some
        \<lparr>sp_open = [''open the '' @ name,
            ''open '' @ name,
            ''raise the '' @ name],
         sp_close = [''close the '' @ name,
            ''close '' @ name,
            ''lower the '' @ name],
         sp_stop = [''stop the '' @ name,
            ''stop '' @ name],
         sp_pos = [''set the '' @ name @ '' to {position}'',
            ''set the '' @ name @ '' to {position} percent'',
            ''open the '' @ name @ '' to {position} percent'']\<rparr>
      else None)"

definition rules_of_shutter :: "string \<Rightarrow> shutter \<Rightarrow> pattern_rule list" where
  "rules_of_shutter loc s =
     (case phrases_of_shutter loc (sh_name s) of
        None \<Rightarrow> []
      | Some p \<Rightarrow>
          [rule (''jeedom.shutter_open.'' @ show_id (sh_up_id s)) (sp_open p) [],
           rule (''jeedom.shutter_close.'' @ show_id (sh_up_id s)) (sp_close p) []]
          @ (if sh_stop_id s \<noteq> 0 then [rule (''jeedom.shutter_stop.'' @ show_id (sh_up_id s)) (sp_stop p) []] else [])
          @ (if sh_slider_id s \<noteq> 0
             then [rule (''jeedom.shutter_pos.'' @ show_id (sh_up_id s)) (sp_pos p) [\<lparr>ss_name = ''position'', ss_kind = SkNumber\<rparr>]]
             else []))"

definition shutter_rules :: "string \<Rightarrow> shutter list \<Rightarrow> pattern_rule list" where
  "shutter_rules loc list =
     (if list = [] \<or> phrases_of_shutter loc [] = None then []
      else concat (map (rules_of_shutter loc) list)
        @ [rule ''jeedom.shutter_open_all''
             (if loc = ''fr'' then [''ouvre tous les volets'',
                     ''ouvre les volets'']
              else [''open all the shutters'',
                     ''open the shutters'']) [],
           rule ''jeedom.shutter_close_all''
             (if loc = ''fr'' then [''ferme tous les volets'',
                     ''ferme les volets'']
              else [''close all the shutters'',
                     ''close the shutters'']) []])"

definition all_rules :: "text_fns \<Rightarrow> string \<Rightarrow> sensor list \<Rightarrow> action_device list \<Rightarrow> shutter list \<Rightarrow> pattern_rule list" where
  "all_rules tf loc ss as shs =
     rules_for tf loc ss @ action_rules loc as @ shutter_rules loc shs
     @ (if list_ex ad_confirm as \<or> list_ex sh_confirm shs then confirm_rules loc else [])"

section \<open>Names open no slot\<close>

definition plain :: "string \<Rightarrow> bool" where
  "plain s \<longleftrightarrow> CHR 0x7B \<notin> set s"

definition phrase_slots :: "string \<Rightarrow> string list" where
  "phrase_slots ph = slot_names (split_phrase ph)"

text \<open>What \<open>char::is_alphanumeric\<close> and \<open>str::to_lowercase\<close> do with an opening brace.\<close>

definition brace_free_fns :: "text_fns \<Rightarrow> bool" where
  "brace_free_fns tf \<longleftrightarrow> (\<forall>g. alnum tf g \<longrightarrow> plain g) \<and> (\<forall>s. plain s \<longrightarrow> plain (lower tf s))"

lemma plain_simps [simp]:
  "plain []" "plain (c # s) \<longleftrightarrow> c \<noteq> CHR 0x7B \<and> plain s" "plain (a @ b) \<longleftrightarrow> plain a \<and> plain b"
  "plain apos" "plain rsquo" "plain e_acute" "plain e_grave" "plain e_circ" "plain a_grave"
  by (auto simp: plain_def apos_def rsquo_def e_acute_def e_grave_def e_circ_def a_grave_def)

lemma plain_take [simp]: "plain s \<Longrightarrow> plain (take n s)"
  by (auto simp: plain_def dest: in_set_takeD)

lemma plain_subset: "set t \<subseteq> set s \<Longrightarrow> plain s \<Longrightarrow> plain t"
  by (auto simp: plain_def)

lemma set_concat_dropWhile: "set (concat (dropWhile P gs)) \<subseteq> set (concat gs)"
  by (induction gs) auto

lemma set_trim_end: "set (trim_end s) \<subseteq> set s"
proof
  fix x assume "x \<in> set (trim_end s)"
  then obtain g where "g \<in> set (uchars s)" "x \<in> set g" by (auto simp: trim_end_def dest: set_dropWhileD)
  then show "x \<in> set s" using concat_uchars [of s] set_concat [of "uchars s"] by (metis UN_I)
qed

lemma set_trim: "set (trim s) \<subseteq> set s"
  using set_trim_end [of "trim_start s"] set_concat_dropWhile [of is_white "uchars s"]
  by (auto simp: trim_def trim_start_def)

lemma plain_trim [simp]: "plain s \<Longrightarrow> plain (trim s)" "plain s \<Longrightarrow> plain (trim_end s)"
  by (rule plain_subset [OF set_trim], assumption, rule plain_subset [OF set_trim_end])

lemma plain_show_nat [simp]: "plain (show_nat n)"
proof -
  have "c \<noteq> CHR 0x7B" if "c \<in> set (show_nat n)" for c
  proof -
    from show_nat_digits [OF that] obtain d where "d < 10" "c = digit_char d" by blast
    then have "(of_char c :: nat) < 58" by simp
    then show ?thesis by auto
  qed
  then show ?thesis by (auto simp: plain_def)
qed

lemma plain_show_id [simp]: "plain (show_id i)"
  by (simp add: show_id_def)

lemma plain_clean_go: "\<forall>g. keep g \<longrightarrow> plain g \<Longrightarrow> plain out \<Longrightarrow> plain (clean_go keep gs out sp)"
  by (induction keep gs out sp rule: clean_go.induct) auto

lemma plain_clean_spoken [simp]: "brace_free_fns tf \<Longrightarrow> plain (clean_spoken tf s)"
  by (simp add: clean_spoken_def brace_free_fns_def plain_clean_go)

lemma plain_lower [simp]: "brace_free_fns tf \<Longrightarrow> plain s \<Longrightarrow> plain (lower tf s)"
  by (simp add: brace_free_fns_def)

lemma plain_strip_article [simp]: "plain head \<Longrightarrow> plain (strip_article arts head)"
  by (induction arts head rule: strip_article.induct) (auto split: option.split)

lemma plain_metric: "brace_free_fns tf \<Longrightarrow> plain (se_name s) \<Longrightarrow> plain (metric_of tf s)"
  by (simp add: metric_of_def Let_def)

lemma plain_join_prefix: "plain pre \<Longrightarrow> plain room \<Longrightarrow> plain (join_prefix pre room)"
  by (simp add: join_prefix_def)

lemma plain_dans_article: "dans_article pre = Some a \<Longrightarrow> plain a"
  by (auto simp: dans_article_def Let_def split: if_splits)

lemma slot_names_split_lit: "slot_names (split_lit s b) = slot_names (split_lit s [])"
proof (induction s arbitrary: b)
  case (Cons c cs)
  have "slot_names (flush_buf b @ segs) = slot_names segs" for segs b by (simp add: flush_buf_def)
  then show ?case using Cons [of "b @ [c]"] Cons [of "[c]"] by simp
qed (simp add: flush_buf_def)

lemma phrase_slots_simps [simp]:
  "phrase_slots [] = []"
  "c \<noteq> CHR 0x7B \<Longrightarrow> phrase_slots (c # s) = phrase_slots s"
  "phrase_slots (CHR 0x7B # s) = slot_names (split_slot s [])"
  "slot_names (split_slot (CHR 0x7D # s) n) = n # phrase_slots s"
  using slot_names_split_lit [of s "[c]"] by (simp_all add: phrase_slots_def split_phrase_def flush_buf_def)

lemma slot_names_flush_buf [simp]: "slot_names (flush_buf b) = []"
  by (simp add: flush_buf_def)

lemma phrase_slots_plain [simp]:
  "plain a \<Longrightarrow> phrase_slots (a @ s) = phrase_slots s" "plain a \<Longrightarrow> phrase_slots a = []"
  by (induction a) auto

definition declared :: "pattern_rule \<Rightarrow> bool" where
  "declared r \<longleftrightarrow> (\<forall>ph \<in> set (pr_phrases r). phrase_slots ph = map ss_name (pr_slots r))"

lemma declared_rule: "declared (rule i ps ss) \<longleftrightarrow> (\<forall>ph \<in> set ps. phrase_slots ph = map ss_name ss)"
  by (simp add: declared_def rule_def)

lemma room_phrases_declared:
  assumes "brace_free_fns tf" "plain (se_name s)" "plain (se_room s)" "plain (se_prefix s)" "ph \<in> set (room_phrases tf loc s)"
  shows "phrase_slots ph = []"
  using assms plain_metric [OF assms(1,2)] plain_join_prefix [OF assms(4,3)]
    plain_join_prefix [OF plain_dans_article assms(3)]
  by (auto simp: room_phrases_def Let_def split: if_splits option.splits)

lemma sensor_rule_declared:
  assumes "brace_free_fns tf" "plain (se_name s)" "plain (se_room s)" "plain (se_prefix s)"
  shows "declared (sensor_rule tf loc s)"
  using assms room_phrases_declared [OF assms]
  by (auto simp: sensor_rule_def declared_rule Let_def)

lemma parse_sensors_plain:
  "brace_free_fns tf \<Longrightarrow> s \<in> set (parse_sensors tf js raw) \<Longrightarrow> plain (se_name s) \<and> plain (se_room s) \<and> plain (se_prefix s)"
  by (auto simp: parse_sensors_def split: option.splits)

lemma parse_actions_plain: "brace_free_fns tf \<Longrightarrow> d \<in> set (parse_actions tf ja raw) \<Longrightarrow> plain (ad_name d)"
  by (auto simp: parse_actions_def split: option.splits)

lemma parse_shutters_plain: "brace_free_fns tf \<Longrightarrow> s \<in> set (parse_shutters tf jh raw) \<Longrightarrow> plain (sh_name s)"
  by (auto simp: parse_shutters_def split: option.splits)

lemma enum_rule_declared: "plain m \<Longrightarrow> declared (enum_rule loc m)"
  by (auto simp: enum_rule_def declared_rule Let_def)

lemma device_rules_declared: "plain (ad_name d) \<Longrightarrow> r \<in> set (device_rules loc d) \<Longrightarrow> declared r"
  by (auto simp: device_rules_def on_off_phrases_def declared_rule split: if_splits)

lemma rules_of_shutter_declared: "plain (sh_name s) \<Longrightarrow> r \<in> set (rules_of_shutter loc s) \<Longrightarrow> declared r"
  by (auto simp: rules_of_shutter_def phrases_of_shutter_def declared_rule split: if_splits)

lemma confirm_rules_declared: "r \<in> set (confirm_rules loc) \<Longrightarrow> declared r"
  by (auto simp: confirm_rules_def declared_rule split: if_splits)

lemma rules_for_declared:
  assumes tf: "brace_free_fns tf" and ss: "\<And>s. s \<in> set ss \<Longrightarrow> plain (se_name s) \<and> plain (se_room s) \<and> plain (se_prefix s)"
    and r: "r \<in> set (rules_for tf loc ss)"
  shows "declared r"
proof -
  have "plain m" if "m \<in> set (metrics_of tf ss)" for m
    using that ss plain_metric [OF tf] by (auto simp: metrics_of_def)
  moreover have "declared (sensor_rule tf loc s)" if "s \<in> set ss" for s
    using ss [OF that] by (simp add: sensor_rule_declared tf)
  moreover have "phrase_slots ph = [''sensor'']" if "base_phrases loc = Some ps" "ph \<in> set ps" for ps ph
    using that by (auto simp: base_phrases_def split: if_splits)
  ultimately show ?thesis
    using r by (cases "base_phrases loc") (auto simp: rules_for_def enum_rule_declared declared_rule split: if_splits)
qed

lemma shutter_rules_declared:
  assumes "\<And>s. s \<in> set shs \<Longrightarrow> plain (sh_name s)" "r \<in> set (shutter_rules loc shs)"
  shows "declared r"
  using assms rules_of_shutter_declared by (auto simp: shutter_rules_def declared_rule split: if_splits)

text \<open>C13: no configured name can open a slot in a match phrase: whatever text the configuration holds for the
  names, rooms and connectors of sensors, devices and shutters, every phrase the skill registers, in every
  locale, parses to exactly the slots its rule declares, so that the sensor and position rules are the only ones
  that capture speech.\<close>

theorem phrases_open_declared_slots:
  assumes "brace_free_fns tf"
    "r \<in> set (all_rules tf loc (parse_sensors tf js raw_s) (parse_actions tf ja raw_a) (parse_shutters tf jh raw_h))"
    "ph \<in> set (r_phrases (host_rule r))"
  shows "slot_names (split_phrase ph) = map slot_name (r_slots (host_rule r))"
proof -
  have "declared r"
    using assms(2) rules_for_declared [OF assms(1) parse_sensors_plain [OF assms(1)]]
      device_rules_declared [OF parse_actions_plain [OF assms(1)]]
      shutter_rules_declared [OF parse_shutters_plain [OF assms(1)]] confirm_rules_declared
    by (auto simp: all_rules_def action_rules_def split: if_splits)
  then show ?thesis using assms(3) by (simp add: declared_def phrase_slots_def host_rule_def host_slot_def)
qed

definition braced_shutter :: shutter where
  "braced_shutter = \<lparr>sh_name = ''v{olet'', sh_room = [], sh_prefix = [], sh_up_id = 1, sh_down_id = 2, sh_stop_id = 0,
     sh_slider_id = 3, sh_confirm = False\<rparr>"

definition cleaning_fns :: text_fns where
  "cleaning_fns = demo_fns\<lparr>lower := id, alnum := list_all is_ascii_lowercase\<rparr>"

theorem phrases_open_declared_slots_witness:
  "slot_names (split_phrase ''set the v olet to {position}'') = [''position'']"
proof -
  let ?shs = "parse_shutters cleaning_fns (\<lambda>_. Some [braced_shutter]) ''x''"
  let ?r = "rule ''jeedom.shutter_pos.1''
    [''set the v olet to {position}'', ''set the v olet to {position} percent'', ''open the v olet to {position} percent'']
    [\<lparr>ss_name = ''position'', ss_kind = SkNumber\<rparr>]"
  have fns: "brace_free_fns cleaning_fns"
    by (auto simp: brace_free_fns_def cleaning_fns_def demo_fns_def plain_def list_all_iff is_ascii_lowercase_def)
  have "?r \<in> set (all_rules cleaning_fns ''en'' (parse_sensors cleaning_fns (\<lambda>_. None) []) (parse_actions cleaning_fns (\<lambda>_. None) []) ?shs)"
    by code_simp
  from phrases_open_declared_slots [OF fns this, of "''set the v olet to {position}''"]
  show ?thesis by (simp add: rule_def host_rule_def host_slot_def)
qed

end
