(* ===== verification/Jeedom.thy ===== *)
theory Jeedom
  imports Jeedom_Rules
begin

text \<open>
  The Jeedom skill's handler (\<open>skills-jeedom/src/lib.rs\<close>): readings, enumerations, on/off devices, shutters and
  the spoken confirmation of gated commands, over the guest's host calls. The plugin's three \<open>OnceCell\<close> statics
  are its memory. JSON encoding and decoding of the skill's own types is \<open>serde_json\<close>'s and part of \<open>jeedom_io\<close>.
\<close>

section \<open>Numbers in slots\<close>

datatype f64_val = NaN | Infinite bool | Fin rat

fun digits_value :: "string \<Rightarrow> nat \<Rightarrow> nat" where
  "digits_value [] n = n"
| "digits_value (c # cs) n = digits_value cs (10 * n + (of_char c - 48))"

definition pow10 :: "int \<Rightarrow> rat" where
  "pow10 k = (if k \<ge> 0 then 10 ^ nat k else 1 / 10 ^ nat (- k))"

definition exponent_value :: "string \<Rightarrow> int" where
  "exponent_value s =
     (case s of
        [] \<Rightarrow> 0
      | _ # cs \<Rightarrow>
          (case cs of
             [] \<Rightarrow> 0
           | d # ds \<Rightarrow>
               if d = CHR ''-'' then - int (digits_value ds 0)
               else if d = CHR ''+'' then int (digits_value ds 0)
               else int (digits_value cs 0)))"

text \<open>\<open>str::parse::<f64>\<close>: the accepted texts are \<open>parses_f64\<close>'s, the value is the nearest double. Past the
  format's range the value stays a large or tiny rational here, which no use below can tell from the infinity or
  the zero of the code.\<close>

definition read_f64 :: "string \<Rightarrow> f64_val option" where
  "read_f64 s =
     (let neg = (case s of c # _ \<Rightarrow> c = CHR ''-'' | [] \<Rightarrow> False);
          r = (case s of c # cs \<Rightarrow> if c = CHR ''+'' \<or> c = CHR ''-'' then cs else s | [] \<Rightarrow> []);
          ip = takeWhile is_ascii_digit r; r1 = dropWhile is_ascii_digit r;
          (fp, r2) = (case r1 of c # cs \<Rightarrow> if c = CHR ''.'' then (takeWhile is_ascii_digit cs, dropWhile is_ascii_digit cs) else ([], r1)
                      | [] \<Rightarrow> ([], []))
      in if ascii_lower r = ''nan'' then Some NaN
         else if ascii_lower r \<in> set [''inf'', ''infinity''] then Some (Infinite neg)
         else if (ip \<noteq> [] \<or> fp \<noteq> []) \<and> exponent_ok r2 then
           Some (Fin (f64 ((if neg then - 1 else 1) * of_nat (digits_value (ip @ fp) 0)
                           * pow10 (exponent_value r2 - int (length fp)))))
         else None)"

lemma parses_f64_iff: "parses_f64 s \<longleftrightarrow> read_f64 s \<noteq> None"
  by (auto simp: parses_f64_def read_f64_def Let_def split_beta)

text \<open>\<open>serde_json::Number::as_f64\<close>: integers are rounded, floats are the double of their bits.\<close>

definition bits_f64 :: "u64 \<Rightarrow> rat" where
  "bits_f64 b =
     (let sg = (if bit b 63 then - 1 else 1); e = unat (and (drop_bit 52 b) 0x7FF); m = unat (and b 0xFFFFFFFFFFFFF)
      in sg * (if e = 0 then of_nat m * pow2 (- 1074) else of_nat (2 ^ 52 + m) * pow2 (int e - 1075)))"

definition num_f64 :: "jnumber \<Rightarrow> rat" where
  "num_f64 n =
     (case n of PosInt w \<Rightarrow> f64 (of_nat (unat w)) | NegInt w \<Rightarrow> f64 (of_int (sint w)) | FloatBits b \<Rightarrow> bits_f64 b)"

definition slot_number :: "json \<Rightarrow> f64_val option" where
  "slot_number v = (case v of JNum n \<Rightarrow> Some (Fin (num_f64 n)) | JStr s \<Rightarrow> read_f64 (trim s) | _ \<Rightarrow> None)"

text \<open>\<open>p.clamp(0.0, 100.0) as u64\<close>: NaN stays NaN and is cast to 0.\<close>

definition clamp_position :: "f64_val \<Rightarrow> u64" where
  "clamp_position p =
     (case p of
        NaN \<Rightarrow> 0
      | Infinite neg \<Rightarrow> if neg then 0 else 100
      | Fin q \<Rightarrow> word_of_int \<lfloor>max 0 (min 100 q)\<rfloor>)"

section \<open>Statics\<close>

record jeedom_mem =
  jm_sensors :: "sensor list option"
  jm_actions :: "action_device list option"
  jm_shutters :: "shutter list option"

record pending =
  pe_cmd_id :: u64
  pe_label :: string
  pe_slider :: "u64 option"

record jeedom_io =
  ji_text :: text_fns
  ji_sensors :: "string \<Rightarrow> sensor list option"
  ji_actions :: "string \<Rightarrow> action_device list option"
  ji_shutters :: "string \<Rightarrow> shutter list option"
  ji_encode :: "pending \<Rightarrow> byte list option"
  ji_decode :: "byte list \<Rightarrow> pending option"
  ji_show :: "json \<Rightarrow> string"

type_synonym ('u, 'a) jeedom = "(('u, jeedom_mem) guest, 'a) state"

definition or_empty :: "string option \<Rightarrow> string" where
  "or_empty s = (case s of None \<Rightarrow> [] | Some t \<Rightarrow> t)"

definition shutters :: "jeedom_io \<Rightarrow> 'u host_ctx \<Rightarrow> ('u, shutter list) jeedom" where
  "shutters jd hc = do {
     m \<leftarrow> memory;
     case jm_shutters m of
       Some v \<Rightarrow> ret v
     | None \<Rightarrow> do {
         raw \<leftarrow> config_get_toml hc ''shutters'';
         let v = (if or_empty raw = [] then [] else parse_shutters (ji_text jd) (ji_shutters jd) (or_empty raw));
         _ \<leftarrow> set_memory (m\<lparr>jm_shutters := Some v\<rparr>);
         ret v } }"

definition actions :: "jeedom_io \<Rightarrow> 'u host_ctx \<Rightarrow> ('u, action_device list) jeedom" where
  "actions jd hc = do {
     m \<leftarrow> memory;
     case jm_actions m of
       Some v \<Rightarrow> ret v
     | None \<Rightarrow> do {
         raw \<leftarrow> config_get_toml hc ''actions'';
         let v = (if or_empty raw = [] then [] else parse_actions (ji_text jd) (ji_actions jd) (or_empty raw));
         _ \<leftarrow> set_memory (m\<lparr>jm_actions := Some v\<rparr>);
         ret v } }"

definition sensors :: "jeedom_io \<Rightarrow> 'u host_ctx \<Rightarrow> ('u, sensor list) jeedom" where
  "sensors jd hc = do {
     m \<leftarrow> memory;
     case jm_sensors m of
       Some v \<Rightarrow> ret v
     | None \<Rightarrow> do {
         raw \<leftarrow> config_get_toml hc ''sensors'';
         v \<leftarrow> (if or_empty raw = [] then ret []
              else (let v = parse_sensors (ji_text jd) (ji_sensors jd) (or_empty raw) in
                    if v = [] then do { _ \<leftarrow> log_msg hc ''warn'' ''jeedom: sensor list empty or failed to parse''; ret v }
                    else ret v));
         _ \<leftarrow> set_memory (m\<lparr>jm_sensors := Some v\<rparr>);
         ret v } }"

definition pattern_rules :: "jeedom_io \<Rightarrow> 'u host_ctx \<Rightarrow> string \<Rightarrow> ('u, pattern_rule list) jeedom" where
  "pattern_rules jd hc loc = do {
     ss \<leftarrow> sensors jd hc;
     as \<leftarrow> actions jd hc;
     shs \<leftarrow> shutters jd hc;
     ret (all_rules (ji_text jd) loc ss as shs) }"

section \<open>Commands\<close>

definition command_url :: "string \<Rightarrow> string \<Rightarrow> u64 \<Rightarrow> string" where
  "command_url base api_key i =
     rev (dropWhile (\<lambda>c. c = CHR ''/'') (rev base)) @ ''/core/api/jeeApi.php?apikey='' @ api_key @ ''&type=cmd&id='' @ show_id i"

definition jeedom_url :: "'u host_ctx \<Rightarrow> u64 \<Rightarrow> ('u, unit + string) jeedom" where
  "jeedom_url hc i = do {
     base \<leftarrow> config_get_toml hc ''base_url'';
     (if or_empty base = [] then ret (Inl ())
      else do {
        api_key \<leftarrow> config_get_toml hc ''api_key'';
        ret (if or_empty api_key = [] then Inl () else Inr (command_url (or_empty base) (or_empty api_key) i)) }) }"

definition skill_error_text :: "skill_error \<Rightarrow> string" where
  "skill_error_text e =
     (case e of
        HttpFailed m \<Rightarrow> ''http failed: '' @ m
      | MqttFailed m \<Rightarrow> ''mqtt failed: '' @ m
      | StateError m \<Rightarrow> ''state error: '' @ m
      | ConfigError m \<Rightarrow> ''config error: '' @ m
      | HostFn m \<Rightarrow> ''host function error: '' @ m
      | Custom m \<Rightarrow> ''custom: '' @ m)"

definition fetch :: "'u host_ctx \<Rightarrow> string \<Rightarrow> string \<Rightarrow> ('u, unit + json) jeedom" where
  "fetch hc what url = do {
     r \<leftarrow> http_get_json hc url;
     case r of
       Inr v \<Rightarrow> ret (Inr v)
     | Inl e \<Rightarrow> do { _ \<leftarrow> log_msg hc ''warn'' (''jeedom: '' @ what @ '' failed: '' @ skill_error_text e); ret (Inl ()) } }"

definition exec_cmd :: "'u host_ctx \<Rightarrow> u64 \<Rightarrow> ('u, unit + unit) jeedom" where
  "exec_cmd hc i = do {
     url \<leftarrow> jeedom_url hc i;
     case url of
       Inl _ \<Rightarrow> ret (Inl ())
     | Inr u \<Rightarrow> do { r \<leftarrow> fetch hc ''action exec'' u; ret (map_sum id (\<lambda>_. ()) r) } }"

definition slider_url :: "string \<Rightarrow> u64 \<Rightarrow> string" where
  "slider_url u v = u @ ''&slider='' @ show_id v"

definition exec_slider :: "'u host_ctx \<Rightarrow> u64 \<Rightarrow> u64 \<Rightarrow> ('u, unit + unit) jeedom" where
  "exec_slider hc i v = do {
     url \<leftarrow> jeedom_url hc i;
     case url of
       Inl _ \<Rightarrow> ret (Inl ())
     | Inr u \<Rightarrow> do { r \<leftarrow> fetch hc ''slider exec'' (slider_url u v); ret (map_sum id (\<lambda>_. ()) r) } }"

definition spoken_value :: "jeedom_io \<Rightarrow> json \<Rightarrow> string" where
  "spoken_value jd v =
     (let x = (case json_get ''value'' v of Some y \<Rightarrow> y | None \<Rightarrow> v) in
      case x of JStr s \<Rightarrow> s | _ \<Rightarrow> ji_show jd x)"

definition read_value :: "jeedom_io \<Rightarrow> 'u host_ctx \<Rightarrow> sensor \<Rightarrow> ('u, unit + string) jeedom" where
  "read_value jd hc s = do {
     url \<leftarrow> jeedom_url hc (se_id s);
     case url of
       Inl _ \<Rightarrow> ret (Inl ())
     | Inr u \<Rightarrow> do { r \<leftarrow> fetch hc ''HTTP'' u; ret (map_sum id (spoken_value jd) r) } }"

section \<open>Answers\<close>

definition speak :: "string \<Rightarrow> skill_error + skill_response" where
  "speak t = Inr (Speak t)"

definition cannot_reach :: "bool \<Rightarrow> string" where
  "cannot_reach en = (if en then ''sorry, I can'' @ apos @ ''t reach Jeedom right now'' else ''d'' @ e_acute @ ''sol'' @ e_acute @ '', je n'' @ apos @ ''arrive pas '' @ a_grave @ '' joindre Jeedom'')"

definition unknown_device :: "bool \<Rightarrow> string" where
  "unknown_device en = (if en then ''sorry, I don'' @ apos @ ''t know that device'' else ''d'' @ e_acute @ ''sol'' @ e_acute @ '', je ne connais pas cet appareil'')"

definition nothing_to_confirm :: "bool \<Rightarrow> string" where
  "nothing_to_confirm en = (if en then ''Nothing to confirm.'' else ''Rien '' @ a_grave @ '' confirmer.'')"

definition ask_confirm :: "bool \<Rightarrow> string \<Rightarrow> string" where
  "ask_confirm en label = (if en then ''Confirm: '' @ label @ ''?'' else ''Tu confirmes : '' @ label @ '' ?'')"

definition done_text :: "bool \<Rightarrow> string" where
  "done_text en = (if en then ''Done.'' else ''C'' @ apos @ ''est fait.'')"

definition done_or_error :: "unit + unit \<Rightarrow> bool \<Rightarrow> skill_error + skill_response" where
  "done_or_error executed en = (case executed of Inr _ \<Rightarrow> speak (done_text en) | Inl _ \<Rightarrow> speak (cannot_reach en))"

definition binary_label :: "sensor \<Rightarrow> string \<Rightarrow> bool \<Rightarrow> string" where
  "binary_label s value en =
     (if value = ''1'' \<or> ascii_lower value = ''true'' then
        (if se_on_label s = [] then (if en then ''on'' else ''activ'' @ e_acute) else se_on_label s)
      else (if se_off_label s = [] then (if en then ''off'' else ''d'' @ e_acute @ ''sactiv'' @ e_acute) else se_off_label s))"

definition unit_suffix :: "sensor \<Rightarrow> string" where
  "unit_suffix s = (if se_unit s = [] then [] else '' '' @ se_unit s)"

definition phrase_reading :: "sensor \<Rightarrow> string \<Rightarrow> bool \<Rightarrow> string" where
  "phrase_reading s value en =
     (if se_kind s = ''binary'' then
        (let label = binary_label s value en; name = se_name s in (if en then ''the '' @ name @ '' is '' @ label else ''la '' @ name @ '' est '' @ label))
      else (let name = se_name s; unit = unit_suffix s in (if en then ''the '' @ name @ '' is '' @ value @ unit else ''la '' @ name @ '' est de '' @ value @ unit)))"

definition place_of :: "sensor \<Rightarrow> string" where
  "place_of s = (if se_room s = [] then se_name s else se_room s)"

definition enum_clause :: "sensor \<Rightarrow> string \<Rightarrow> bool \<Rightarrow> string" where
  "enum_clause s value en =
     (if se_kind s = ''binary'' then place_of s @ '' '' @ binary_label s value en
      else place_of s @ '' '' @ value @ unit_suffix s)"

definition group_answer :: "nat \<Rightarrow> nat \<Rightarrow> bool \<Rightarrow> string" where
  "group_answer n_all n_err en =
     (if n_err = 0 then done_text en
      else if n_err \<ge> n_all then cannot_reach en
      else if n_err = 1 then (if en then ''Done, but 1 shutter did not respond.'' else ''C'' @ apos @ ''est fait, mais un volet n'' @ apos @ ''a pas r'' @ e_acute @ ''pondu.'')
      else (let n = show_nat n_err in (if en then ''Done, but '' @ n @ '' shutters did not respond.'' else ''C'' @ apos @ ''est fait, mais '' @ n @ '' volets n'' @ apos @ ''ont pas r'' @ e_acute @ ''pondu.'')))"

definition action_label :: "action_device \<Rightarrow> bool \<Rightarrow> bool \<Rightarrow> string" where
  "action_label d on en =
     (let name = ad_name d in
      if on then (if en then ''turn on '' @ name else ''allumer '' @ name) else (if en then ''turn off '' @ name else e_acute @ ''teindre '' @ name))"

datatype shutter_cmd = OpenCmd | CloseCmd | StopCmd | PosCmd u64

definition shutter_label :: "string \<Rightarrow> shutter_cmd \<Rightarrow> bool \<Rightarrow> string" where
  "shutter_label name cmd en =
     (case cmd of
        OpenCmd \<Rightarrow> (if en then ''open '' @ name else ''ouvrir '' @ name)
      | CloseCmd \<Rightarrow> (if en then ''close '' @ name else ''fermer '' @ name)
      | StopCmd \<Rightarrow> (if en then ''stop '' @ name else ''arr'' @ e_circ @ ''ter '' @ name)
      | PosCmd p \<Rightarrow> (let v = show_id p in (if en then ''set '' @ name @ '' to '' @ v @ '' percent'' else ''mettre '' @ name @ '' '' @ a_grave @ '' '' @ v @ '' pour cent'')))"

definition ask_position :: "bool \<Rightarrow> string" where
  "ask_position en = (if en then ''To what position, in percent?'' else a_grave_cap @ '' quelle position, en pourcentage ?'')"

section \<open>Pending confirmation\<close>

definition pending_key :: string where "pending_key = ''pending_action''"
definition pending_ttl_sec :: u64 where "pending_ttl_sec = 30"

definition load_pending :: "jeedom_io \<Rightarrow> 'u host_ctx \<Rightarrow> ('u, pending option) jeedom" where
  "load_pending jd hc = do {
     r \<leftarrow> ctx_tmp_get hc pending_key;
     ret (case r of Inr (Some bytes) \<Rightarrow> if bytes = [] then None else ji_decode jd bytes | _ \<Rightarrow> None) }"

definition clear_pending :: "'u host_ctx \<Rightarrow> ('u, unit) jeedom" where
  "clear_pending hc = do { _ \<leftarrow> ctx_tmp_set hc pending_key [] 1; ret () }"

definition save_pending :: "jeedom_io \<Rightarrow> 'u host_ctx \<Rightarrow> pending \<Rightarrow> ('u, unit) jeedom" where
  "save_pending jd hc p =
     (case ji_encode jd p of
        Some bytes \<Rightarrow> do { _ \<leftarrow> ctx_tmp_set hc pending_key bytes pending_ttl_sec; ret () }
      | None \<Rightarrow> ret ())"

section \<open>The handler\<close>

definition speak_reading :: "jeedom_io \<Rightarrow> 'u host_ctx \<Rightarrow> sensor \<Rightarrow> bool \<Rightarrow> ('u, skill_error + skill_response) jeedom" where
  "speak_reading jd hc s en = do {
     r \<leftarrow> read_value jd hc s;
     ret (case r of Inr value \<Rightarrow> speak (phrase_reading s value en) | Inl _ \<Rightarrow> speak (cannot_reach en)) }"

definition read_clause :: "jeedom_io \<Rightarrow> 'u host_ctx \<Rightarrow> bool \<Rightarrow> sensor \<Rightarrow> ('u, string) jeedom" where
  "read_clause jd hc en s = do {
     r \<leftarrow> read_value jd hc s;
     ret (case r of Inr v \<Rightarrow> enum_clause s v en
          | Inl _ \<Rightarrow> (let place = place_of s in (if en then place @ '' unavailable'' else place @ '' indisponible''))) }"

definition matching_metric :: "jeedom_io \<Rightarrow> string \<Rightarrow> sensor list \<Rightarrow> sensor list" where
  "matching_metric jd metric list =
     filter (\<lambda>s. metric_of (ji_text jd) s = metric \<or> find_str metric (se_name s) \<noteq> None) list"

definition read_all :: "jeedom_io \<Rightarrow> 'u host_ctx \<Rightarrow> string \<Rightarrow> bool \<Rightarrow> ('u, skill_error + skill_response) jeedom" where
  "read_all jd hc metric en = do {
     list \<leftarrow> sensors jd hc;
     (let matching = matching_metric jd metric list in
      if matching = [] then ret (speak (if en then ''no sensor matches '' @ metric else ''aucun capteur ne correspond '' @ a_grave @ '' '' @ metric))
      else do {
        clauses \<leftarrow> State_Monad.traverse_list (read_clause jd hc en) matching;
        ret (speak (join '', '' clauses)) }) }"

definition turn_device :: "jeedom_io \<Rightarrow> 'u host_ctx \<Rightarrow> string \<Rightarrow> bool \<Rightarrow> bool \<Rightarrow> ('u, skill_error + skill_response) jeedom" where
  "turn_device jd hc key on en = do {
     device \<leftarrow> (case parse_u64 key of
                 None \<Rightarrow> ret None
               | Some k \<Rightarrow> do { as \<leftarrow> actions jd hc; ret (List.find (\<lambda>d. unat (ad_on_id d) = k) as) });
     case device of
       None \<Rightarrow> ret (speak (unknown_device en))
     | Some d \<Rightarrow>
         (let cmd_id = (if on then ad_on_id d else ad_off_id d) in
          if ad_confirm d then do {
            _ \<leftarrow> save_pending jd hc \<lparr>pe_cmd_id = cmd_id, pe_label = action_label d on en, pe_slider = None\<rparr>;
            ret (speak (ask_confirm en (action_label d on en))) }
          else do { r \<leftarrow> exec_cmd hc cmd_id; ret (done_or_error r en) }) }"

definition shutter_group :: "jeedom_io \<Rightarrow> 'u host_ctx \<Rightarrow> bool \<Rightarrow> bool \<Rightarrow> ('u, skill_error + skill_response) jeedom" where
  "shutter_group jd hc up en = do {
     list \<leftarrow> shutters jd hc;
     if list = [] then ret (speak (unknown_device en))
     else do {
       rs \<leftarrow> State_Monad.traverse_list (\<lambda>s. exec_cmd hc (if up then sh_up_id s else sh_down_id s)) list;
       ret (speak (group_answer (length list) (length (filter isl rs)) en)) } }"

text \<open>The position a \<open>Pos\<close> command takes from its slot; \<open>None\<close> asks for it.\<close>

definition fill_position :: "intent \<Rightarrow> shutter_cmd \<Rightarrow> shutter_cmd option" where
  "fill_position i cmd =
     (case cmd of
        PosCmd _ \<Rightarrow>
          map_option (\<lambda>p. PosCmd (clamp_position p)) (Option.bind (map_of (i_slots i) ''position'') slot_number)
      | _ \<Rightarrow> Some cmd)"

definition command_id :: "shutter \<Rightarrow> shutter_cmd \<Rightarrow> u64" where
  "command_id s cmd =
     (case cmd of OpenCmd \<Rightarrow> sh_up_id s | CloseCmd \<Rightarrow> sh_down_id s | StopCmd \<Rightarrow> sh_stop_id s | PosCmd _ \<Rightarrow> sh_slider_id s)"

definition slider_of :: "shutter_cmd \<Rightarrow> u64 option" where
  "slider_of cmd = (case cmd of PosCmd v \<Rightarrow> Some v | _ \<Rightarrow> None)"

definition run_command :: "'u host_ctx \<Rightarrow> u64 \<Rightarrow> u64 option \<Rightarrow> ('u, unit + unit) jeedom" where
  "run_command hc i sl = (case sl of Some v \<Rightarrow> exec_slider hc i v | None \<Rightarrow> exec_cmd hc i)"

definition move_shutter ::
  "jeedom_io \<Rightarrow> 'u host_ctx \<Rightarrow> intent \<Rightarrow> string \<Rightarrow> shutter_cmd \<Rightarrow> bool \<Rightarrow> ('u, skill_error + skill_response) jeedom" where
  "move_shutter jd hc i key cmd0 en = do {
     sh \<leftarrow> (case parse_u64 key of
             None \<Rightarrow> ret None
           | Some k \<Rightarrow> do { list \<leftarrow> shutters jd hc; ret (List.find (\<lambda>s. unat (sh_up_id s) = k) list) });
     case sh of
       None \<Rightarrow> ret (speak (unknown_device en))
     | Some s \<Rightarrow>
         (case fill_position i cmd0 of
            None \<Rightarrow> ret (speak (ask_position en))
          | Some cmd \<Rightarrow>
              (let cmd_id = command_id s cmd; label = shutter_label (sh_name s) cmd en in
               if cmd_id = 0 then ret (speak (unknown_device en))
               else if sh_confirm s \<and> cmd \<noteq> StopCmd then do {
                 _ \<leftarrow> save_pending jd hc \<lparr>pe_cmd_id = cmd_id, pe_label = label, pe_slider = slider_of cmd\<rparr>;
                 ret (speak (ask_confirm en label)) }
               else do { r \<leftarrow> run_command hc cmd_id (slider_of cmd); ret (done_or_error r en) })) }"

definition confirm_pending :: "jeedom_io \<Rightarrow> 'u host_ctx \<Rightarrow> bool \<Rightarrow> ('u, skill_error + skill_response) jeedom" where
  "confirm_pending jd hc en = do {
     p \<leftarrow> load_pending jd hc;
     case p of
       Some q \<Rightarrow> do {
         _ \<leftarrow> clear_pending hc;
         r \<leftarrow> run_command hc (pe_cmd_id q) (pe_slider q);
         ret (done_or_error r en) }
     | None \<Rightarrow> ret (speak (nothing_to_confirm en)) }"

definition cancel_pending :: "jeedom_io \<Rightarrow> 'u host_ctx \<Rightarrow> bool \<Rightarrow> ('u, skill_error + skill_response) jeedom" where
  "cancel_pending jd hc en = do {
     p \<leftarrow> load_pending jd hc;
     case p of
       Some _ \<Rightarrow> do { _ \<leftarrow> clear_pending hc; ret (speak (if en then ''Cancelled.'' else ''Annul'' @ e_acute @ ''.'')) }
     | None \<Rightarrow> ret (speak (nothing_to_confirm en)) }"

definition read_asked :: "jeedom_io \<Rightarrow> 'u host_ctx \<Rightarrow> intent \<Rightarrow> bool \<Rightarrow> ('u, skill_error + skill_response) jeedom" where
  "read_asked jd hc i en =
     (let asked = trim (or_empty (Option.bind (map_of (i_slots i) ''sensor'') as_str)) in
      if asked = [] then ret (speak (if en then ''which sensor should I read?'' else ''quel capteur dois-je lire ?''))
      else do {
        list \<leftarrow> sensors jd hc;
        case resolve_in (ji_text jd) list asked of
          None \<Rightarrow> ret (speak (if en then ''sorry, I don'' @ apos @ ''t know a sensor called '' @ asked else ''d'' @ e_acute @ ''sol'' @ e_acute @ '', je ne connais pas de capteur '' @ asked))
        | Some s \<Rightarrow> speak_reading jd hc s en })"

text \<open>The chain of \<open>strip_prefix(..).or_else(..)\<close>: the first prefix that matches, with its key.\<close>

fun strip_any :: "(string \<times> 'b) list \<Rightarrow> string \<Rightarrow> (string \<times> 'b) option" where
  "strip_any [] n = None"
| "strip_any ((p, b) # ps) n = (case strip_prefix p n of Some k \<Rightarrow> Some (k, b) | None \<Rightarrow> strip_any ps n)"

definition turn_prefixes :: "(string \<times> bool) list" where
  "turn_prefixes = [(''jeedom.turn_on.'', True), (''jeedom.turn_off.'', False)]"

definition shutter_prefixes :: "(string \<times> shutter_cmd) list" where
  "shutter_prefixes =
     [(''jeedom.shutter_open.'', OpenCmd), (''jeedom.shutter_close.'', CloseCmd), (''jeedom.shutter_stop.'', StopCmd),
      (''jeedom.shutter_pos.'', PosCmd 0)]"

definition handle_named :: "jeedom_io \<Rightarrow> 'u host_ctx \<Rightarrow> intent \<Rightarrow> bool \<Rightarrow> ('u, skill_error + skill_response) jeedom" where
  "handle_named jd hc i en =
     (let n = i_name i in
      case strip_prefix ''jeedom.read_all.'' n of
        Some metric \<Rightarrow> read_all jd hc metric en
      | None \<Rightarrow>
          (case strip_any turn_prefixes n of
             Some (key, on) \<Rightarrow> turn_device jd hc key on en
           | None \<Rightarrow>
               if n = ''jeedom.shutter_open_all'' \<or> n = ''jeedom.shutter_close_all''
               then shutter_group jd hc (suffix ''open_all'' n) en
               else (case strip_any shutter_prefixes n of
                       Some (key, cmd) \<Rightarrow> move_shutter jd hc i key cmd en
                     | None \<Rightarrow>
                         if n = ''jeedom.confirm'' then confirm_pending jd hc en
                         else if n = ''jeedom.cancel'' then cancel_pending jd hc en
                         else read_asked jd hc i en)))"

definition handle :: "jeedom_io \<Rightarrow> 'u host_ctx \<Rightarrow> intent \<Rightarrow> ('u, skill_error + skill_response) jeedom" where
  "handle jd hc i =
     (let en = prefix ''en'' (i_locale i) in
      case Option.bind (strip_prefix ''jeedom.read.'' (i_name i)) parse_u64 of
        None \<Rightarrow> handle_named jd hc i en
      | Some k \<Rightarrow> do {
          ss \<leftarrow> sensors jd hc;
          case List.find (\<lambda>s. unat (se_id s) = k) ss of
            Some s \<Rightarrow> speak_reading jd hc s en
          | None \<Rightarrow> handle_named jd hc i en })"

section \<open>What the skill may run\<close>

definition loaded :: "sensor list \<Rightarrow> action_device list \<Rightarrow> shutter list \<Rightarrow> jeedom_mem" where
  "loaded ss as shs = \<lparr>jm_sensors = Some ss, jm_actions = Some as, jm_shutters = Some shs\<rparr>"

text \<open>The confirmation a spoken yes would meet now.\<close>

definition pending_now :: "jeedom_io \<Rightarrow> 'u host_ctx \<Rightarrow> ('u, jeedom_mem) guest \<Rightarrow> pending option" where
  "pending_now jd hc g =
     (case fst (tmp_get (e_now_sec (env_now g)) (hc_skill_name hc) pending_key (hw_tmp (gs_world g))) of
        None \<Rightarrow> None
      | Some bytes \<Rightarrow> if bytes = [] then None else ji_decode jd bytes)"

definition turn_target :: "string \<Rightarrow> action_device \<Rightarrow> u64 \<Rightarrow> bool" where
  "turn_target n d i \<longleftrightarrow>
     (\<exists>key on. strip_any turn_prefixes n = Some (key, on) \<and> parse_u64 key = Some (unat (ad_on_id d))
        \<and> i = (if on then ad_on_id d else ad_off_id d))"

definition shutter_target :: "string \<Rightarrow> shutter \<Rightarrow> u64 \<Rightarrow> bool" where
  "shutter_target n s i \<longleftrightarrow>
     n = ''jeedom.shutter_open_all'' \<and> i = sh_up_id s \<or> n = ''jeedom.shutter_close_all'' \<and> i = sh_down_id s
     \<or> (\<exists>key cmd. strip_any shutter_prefixes n = Some (key, cmd) \<and> parse_u64 key = Some (unat (sh_up_id s))
          \<and> (sh_confirm s \<longrightarrow> cmd = StopCmd) \<and> i = command_id s cmd)"

definition may_run ::
  "sensor list \<Rightarrow> action_device list \<Rightarrow> shutter list \<Rightarrow> pending option \<Rightarrow> string \<Rightarrow> u64 \<Rightarrow> bool" where
  "may_run ss as shs pend n i \<longleftrightarrow>
     (\<exists>s \<in> set ss. i = se_id s)
     \<or> (\<exists>d \<in> set as. \<not> ad_confirm d \<and> turn_target n d i)
     \<or> (\<exists>s \<in> set shs. shutter_target n s i)
     \<or> n = ''jeedom.confirm'' \<and> (\<exists>p. pend = Some p \<and> i = pe_cmd_id p)"

definition names_command :: "string \<Rightarrow> u64 \<Rightarrow> bool" where
  "names_command url i \<longleftrightarrow>
     (\<exists>base api_key. url = command_url base api_key i \<or> (\<exists>v. url = slider_url (command_url base api_key i) v))"

fun jeedom_call :: "(u64 \<Rightarrow> bool) \<Rightarrow> host_call \<Rightarrow> bool" where
  "jeedom_call P (CHttpGetJson url) \<longleftrightarrow> (\<exists>i. P i \<and> names_command url i)"
| "jeedom_call P (CLog _ _) \<longleftrightarrow> True"
| "jeedom_call P CConfigGet \<longleftrightarrow> True"
| "jeedom_call P (CTmpSet _ k _ _) \<longleftrightarrow> k = pending_key"
| "jeedom_call P (CTmpGet _ k) \<longleftrightarrow> k = pending_key"
| "jeedom_call P _ \<longleftrightarrow> False"

lemma names_command_refl: "names_command (command_url b k i) i" "names_command (slider_url (command_url b k i) v) i"
  by (auto simp: names_command_def)

lemma jeedom_url_keeps:
  "triple (since tr m (jeedom_call P)) (jeedom_url hc i)
     (\<lambda>r s. (\<forall>u. r = Inr u \<longrightarrow> (\<exists>b k. u = command_url b k i)) \<and> since tr m (jeedom_call P) s)"
  unfolding jeedom_url_def
  by (intro triple_bind [OF triple_config]; (simp; fail)?)
     (auto intro!: triple_return triple_bind [OF triple_config] split: if_splits, blast)

lemma fetch_keeps:
  "jeedom_call P (CHttpGetJson u) \<Longrightarrow> triple (since tr m (jeedom_call P)) (fetch hc what u) (\<lambda>_. since tr m (jeedom_call P))"
  unfolding fetch_def
  by (intro triple_seq triple_http) (auto intro!: triple_seq triple_log split: sum.split)

lemma exec_keeps:
  assumes "P i"
  shows "triple (since tr m (jeedom_call P)) (exec_cmd hc i) (\<lambda>_. since tr m (jeedom_call P))"
    and "triple (since tr m (jeedom_call P)) (exec_slider hc i v) (\<lambda>_. since tr m (jeedom_call P))"
    and "se_id s = i \<Longrightarrow> triple (since tr m (jeedom_call P)) (read_value jd hc s) (\<lambda>_. since tr m (jeedom_call P))"
  using assms unfolding exec_cmd_def exec_slider_def read_value_def
  by (auto intro!: triple_seq_with [OF jeedom_url_keeps] triple_seq [OF fetch_keeps] names_command_refl exI [of _ i]
      split: sum.split)

lemma run_command_keeps:
  "P i \<Longrightarrow> triple (since tr m (jeedom_call P)) (run_command hc i sl) (\<lambda>_. since tr m (jeedom_call P))"
  by (simp add: run_command_def exec_keeps split: option.split)

lemma loaded_runs [simp]:
  "gs_memory g = loaded ss as shs \<Longrightarrow> run_state (sensors jd hc) g = (ss, g)"
  "gs_memory g = loaded ss as shs \<Longrightarrow> run_state (actions jd hc) g = (as, g)"
  "gs_memory g = loaded ss as shs \<Longrightarrow> run_state (shutters jd hc) g = (shs, g)"
  by (simp_all add: sensors_def actions_def shutters_def memory_def loaded_def)

text \<open>The handlers of the ungated intents keep to the commands their intent names.\<close>

abbreviation calls :: "host_call list \<Rightarrow> jeedom_mem \<Rightarrow> (u64 \<Rightarrow> bool) \<Rightarrow> ('u, jeedom_mem) guest \<Rightarrow> bool" where
  "calls tr m P \<equiv> since tr m (jeedom_call P)"

lemma with_sensors:
  "(triple (calls tr (loaded ss as shs) P) (f ss) (\<lambda>_. calls tr (loaded ss as shs) P))
     \<Longrightarrow> triple (calls tr (loaded ss as shs) P) (sensors jd hc \<bind> f) (\<lambda>_. calls tr (loaded ss as shs) P)"
  "(triple (calls tr (loaded ss as shs) P) (g as) (\<lambda>_. calls tr (loaded ss as shs) P))
     \<Longrightarrow> triple (calls tr (loaded ss as shs) P) (actions jd hc \<bind> g) (\<lambda>_. calls tr (loaded ss as shs) P)"
  "(triple (calls tr (loaded ss as shs) P) (h shs) (\<lambda>_. calls tr (loaded ss as shs) P))
     \<Longrightarrow> triple (calls tr (loaded ss as shs) P) (shutters jd hc \<bind> h) (\<lambda>_. calls tr (loaded ss as shs) P)"
  by (auto simp: triple_def since_def)

lemma speak_reading_keeps:
  "P (se_id s) \<Longrightarrow> triple (calls tr m P) (speak_reading jd hc s en) (\<lambda>_. calls tr m P)"
  unfolding speak_reading_def by (intro triple_seq exec_keeps(3) triple_ret_inv) auto

lemma read_all_keeps:
  assumes "\<And>s. s \<in> set ss \<Longrightarrow> P (se_id s)"
  shows "triple (calls tr (loaded ss as shs) P) (read_all jd hc metric en) (\<lambda>_. calls tr (loaded ss as shs) P)"
proof -
  have c: "triple (calls tr m P) (read_clause jd hc en s) (\<lambda>_. calls tr m P)" if "s \<in> set ss" for s m
    unfolding read_clause_def by (intro triple_seq exec_keeps(3) triple_ret_inv) (use assms that in auto)
  show ?thesis
    unfolding read_all_def
    by (rule with_sensors) (auto simp: Let_def matching_metric_def intro!: triple_seq triple_traverse c)
qed

lemma save_pending_keeps: "triple (calls tr m P) (save_pending jd hc p) (\<lambda>_. calls tr m P)"
  unfolding save_pending_def by (auto intro!: triple_seq triple_tmp_set split: option.split)

lemma turn_keeps:
  assumes "strip_any turn_prefixes n = Some (key, on)" "\<And>d i. d \<in> set as \<Longrightarrow> \<not> ad_confirm d \<Longrightarrow> turn_target n d i \<Longrightarrow> P i"
  shows "triple (calls tr (loaded ss as shs) P) (turn_device jd hc key on en) (\<lambda>_. calls tr (loaded ss as shs) P)"
proof (cases "parse_u64 key")
  case (Some k)
  have "P (if on then ad_on_id d else ad_off_id d)"
    if "List.find (\<lambda>d. unat (ad_on_id d) = k) as = Some d" "\<not> ad_confirm d" for d
    using assms find_Some_in [OF that(1)] that(2) Some by (auto simp: turn_target_def)
  then show ?thesis
    unfolding turn_device_def Some
    by (auto simp: Let_def intro!: with_sensors triple_seq save_pending_keeps exec_keeps split: option.split)
qed (simp add: turn_device_def)

lemma group_keeps:
  assumes "\<And>s. s \<in> set shs \<Longrightarrow> P (if up then sh_up_id s else sh_down_id s)"
  shows "triple (calls tr (loaded ss as shs) P) (shutter_group jd hc up en) (\<lambda>_. calls tr (loaded ss as shs) P)"
  unfolding shutter_group_def
  by (rule with_sensors) (use assms in \<open>auto intro!: triple_seq triple_traverse exec_keeps\<close>)

lemma shutter_cmd_id: "fill_position i cmd0 = Some cmd \<Longrightarrow> command_id s cmd = command_id s cmd0 \<and> (cmd = StopCmd \<longleftrightarrow> cmd0 = StopCmd)"
  by (auto simp: fill_position_def command_id_def split: shutter_cmd.splits)

lemma move_keeps:
  assumes "strip_any shutter_prefixes n = Some (key, cmd0)" "\<And>s i. s \<in> set shs \<Longrightarrow> shutter_target n s i \<Longrightarrow> P i"
  shows "triple (calls tr (loaded ss as shs) P) (move_shutter jd hc i key cmd0 en) (\<lambda>_. calls tr (loaded ss as shs) P)"
proof (cases "parse_u64 key")
  case (Some k)
  have "P (command_id s cmd)"
    if "List.find (\<lambda>s. unat (sh_up_id s) = k) shs = Some s" "fill_position i cmd0 = Some cmd" "sh_confirm s \<longrightarrow> cmd = StopCmd" for s cmd
    using assms find_Some_in [OF that(1)] that(3) Some shutter_cmd_id [OF that(2), of s] by (auto simp: shutter_target_def)
  then show ?thesis
    unfolding move_shutter_def Some
    by (auto simp: Let_def intro!: with_sensors triple_seq save_pending_keeps run_command_keeps split: option.split)
qed (simp add: move_shutter_def)

lemma read_asked_keeps:
  assumes "\<And>s. s \<in> set ss \<Longrightarrow> P (se_id s)"
  shows "triple (calls tr (loaded ss as shs) P) (read_asked jd hc i en) (\<lambda>_. calls tr (loaded ss as shs) P)"
proof -
  have "s \<in> set ss" if "resolve_in tf ss q = Some s" for tf q s
  proof -
    have "snd c \<in> set ss" if "fold (\<lambda>c best. case best of None \<Rightarrow> Some c | Some b \<Rightarrow> if fst b \<le> fst c then Some c else Some b) cs best = Some c"
        "snd ` set cs \<subseteq> set ss" "pred_option (\<lambda>b. snd b \<in> set ss) best" for cs best and c :: "rat \<times> sensor"
      using that by (induction cs arbitrary: best) (auto split: option.splits if_splits)
    from this [of _ None] show ?thesis using that by (fastforce simp: resolve_in_def)
  qed
  then show ?thesis
    unfolding read_asked_def
    by (auto simp: Let_def intro!: with_sensors speak_reading_keeps assms split: option.split)
qed

lemma cancel_keeps: "triple (calls tr m P) (cancel_pending jd hc en) (\<lambda>_. calls tr m P)"
  unfolding cancel_pending_def load_pending_def clear_pending_def
  by (auto intro!: triple_seq triple_tmp_get triple_tmp_set split: option.split)

lemma run_load_pending:
  "run_state (load_pending jd hc) g
     = (pending_now jd hc g, snd (run_state (invoke hc (CTmpGet (hc_skill_name hc) pending_key)) g))"
  by (simp add: load_pending_def ctx_tmp_get_def run_invoke pending_now_def host_tmp_get_def split_beta Let_def
      map_err_def ret_bytes_def non_empty_def split: option.split)

lemma confirm_keeps:
  assumes "\<And>p. pending_now jd hc g = Some p \<Longrightarrow> P (pe_cmd_id p)"
  shows "triple (\<lambda>s. s = g) (confirm_pending jd hc en) (\<lambda>_. calls (gs_trace g) (gs_memory g) P)"
proof -
  let ?I = "calls (gs_trace g) (gs_memory g) P"
  have load: "triple (\<lambda>s. s = g) (load_pending jd hc) (\<lambda>r s. r = pending_now jd hc g \<and> ?I s)"
    by (auto simp: triple_def run_load_pending run_invoke since_def split_beta Let_def)
  show ?thesis
    unfolding confirm_pending_def
    by (rule triple_bind [OF load], rule triple_pre)
       (auto intro!: triple_seq run_command_keeps assms simp: clear_pending_def triple_tmp_set split: option.split)
qed

lemma handle_named_cases:
  assumes "\<And>metric. Q (read_all jd hc metric en)"
    and "\<And>key on. strip_any turn_prefixes (i_name i) = Some (key, on) \<Longrightarrow> Q (turn_device jd hc key on en)"
    and "i_name i = ''jeedom.shutter_open_all'' \<or> i_name i = ''jeedom.shutter_close_all''
      \<Longrightarrow> Q (shutter_group jd hc (suffix ''open_all'' (i_name i)) en)"
    and "\<And>key cmd. strip_any shutter_prefixes (i_name i) = Some (key, cmd) \<Longrightarrow> Q (move_shutter jd hc i key cmd en)"
    and "i_name i = ''jeedom.confirm'' \<Longrightarrow> Q (confirm_pending jd hc en)" and "Q (cancel_pending jd hc en)"
    and "Q (read_asked jd hc i en)"
  shows "Q (handle_named jd hc i en)"
  unfolding handle_named_def Let_def
  by (rule assms(1,6,7) | (rule assms(3,5), assumption) | (rule assms(2,4), simp; fail) | intro conjI impI allI
      | split option.split prod.split if_split)+

lemma group_suffix: "suffix ''open_all'' ''jeedom.shutter_open_all''" "\<not> suffix ''open_all'' ''jeedom.shutter_close_all''"
  by (simp_all add: suffix_to_prefix)


section \<open>One confirmation, one command\<close>

fun request_of :: "host_call \<Rightarrow> string list" where
  "request_of (CHttpGetJson u) = [u]"
| "request_of _ = []"

definition requests :: "('u, 'm) guest \<Rightarrow> string list" where
  "requests g = concat (map request_of (gs_trace g))"

text \<open>What running a command leaves alone.\<close>

definition quiet :: "('u, 'm) guest \<Rightarrow> string list \<Rightarrow> ('u, 'm) guest \<Rightarrow> bool" where
  "quiet g us s \<longleftrightarrow> hw_tmp (gs_world s) = hw_tmp (gs_world g) \<and> gs_memory s = gs_memory g \<and> gs_env s = gs_env g
     \<and> requests s = requests g @ us"

lemma quiet_refl [simp]: "quiet g [] g"
  by (simp add: quiet_def)

lemma quiet_invoke:
  assumes "c = CConfigGet \<or> (\<exists>l m. c = CLog l m) \<or> (\<exists>u. c = CHttpGetJson u)"
  shows "triple (quiet g us) (invoke hc c) (\<lambda>_. quiet g (us @ request_of c))"
  using assms
  by (auto simp: triple_def run_invoke quiet_def requests_def host_config_get_def host_http_get_json_def Let_def
      split: prod.splits sum.splits)

lemma quiet_config: "triple (quiet g us) (config_get_toml hc key) (\<lambda>_. quiet g us)"
  unfolding config_get_toml_def using quiet_invoke [of CConfigGet g us hc]
  by (intro triple_seq triple_ret_inv) simp_all

lemma quiet_log: "triple (quiet g us) (log_msg hc l m) (\<lambda>_. quiet g us)"
  unfolding log_msg_def using quiet_invoke [of "CLog l m" g us hc]
  by (intro triple_seq triple_ret_inv) simp_all

lemma quiet_fetch: "triple (quiet g us) (fetch hc what u) (\<lambda>_. quiet g (us @ [u]))"
proof -
  have "triple (quiet g us) (http_get_json hc u) (\<lambda>_. quiet g (us @ [u]))"
    unfolding http_get_json_def using quiet_invoke [of "CHttpGetJson u" g us hc]
    by (intro triple_bind [where Q = "\<lambda>_. quiet g (us @ [u])"] triple_ret_inv) simp_all
  then show ?thesis
    unfolding fetch_def by (rule triple_bind) (auto intro!: triple_seq quiet_log split: sum.split)
qed

text \<open>A command run ends in one request, or fails after none or one.\<close>

definition ran :: "u64 \<Rightarrow> u64 option \<Rightarrow> ('u, 'm) guest \<Rightarrow> unit + unit \<Rightarrow> ('u, 'm) guest \<Rightarrow> bool" where
  "ran i sl g x s \<longleftrightarrow>
     (\<exists>us. quiet g us s \<and> (us = [] \<and> isl x
        \<or> (\<exists>b k. us = [case sl of None \<Rightarrow> command_url b k i | Some v \<Rightarrow> slider_url (command_url b k i) v])))"

lemma quiet_url:
  "triple (quiet g []) (jeedom_url hc i) (\<lambda>r s. (\<forall>u. r = Inr u \<longrightarrow> (\<exists>b k. u = command_url b k i)) \<and> quiet g [] s)"
  unfolding jeedom_url_def
  by (intro triple_bind [OF quiet_config]; (simp; fail)?)
     (auto intro!: triple_return triple_bind [OF quiet_config] split: if_splits, blast)

lemma run_command_ran: "triple (\<lambda>s. s = g) (run_command hc i sl) (\<lambda>x s. ran i sl g x s)"
proof -
  have "triple (quiet g []) (run_command hc i sl) (\<lambda>x s. ran i sl g x s)"
    unfolding run_command_def exec_cmd_def exec_slider_def
    by (auto intro!: triple_bind [OF quiet_url] triple_pre triple_bind [OF quiet_fetch] triple_return
        simp: ran_def split: option.split sum.split) blast+
  then show ?thesis by (rule triple_strengthen) simp
qed


lemma handle_turn:
  "i_name i = (if on then ''jeedom.turn_on.'' else ''jeedom.turn_off.'') @ key
     \<Longrightarrow> handle jd hc i = turn_device jd hc key on (prefix ''en'' (i_locale i))"
  by (cases on) (simp_all add: handle_def handle_named_def strip_prefix_def turn_prefixes_def)

lemma handle_confirm: "i_name i = ''jeedom.confirm'' \<Longrightarrow> handle jd hc i = confirm_pending jd hc (prefix ''en'' (i_locale i))"
  by (simp add: handle_def handle_named_def strip_prefix_def turn_prefixes_def shutter_prefixes_def)

lemma parse_show_id: "parse_u64 (show_id k) = Some (unat k)"
  using unat_bound [of k] by (simp add: show_id_def parse_show_nat)

definition gated_pending :: "action_device \<Rightarrow> bool \<Rightarrow> bool \<Rightarrow> pending" where
  "gated_pending d on en = \<lparr>pe_cmd_id = (if on then ad_on_id d else ad_off_id d), pe_label = action_label d on en, pe_slider = None\<rparr>"

lemma run_tmp_set:
  "run_state (ctx_tmp_set hc k v e) g =
     (Inr (), g\<lparr>gs_world := (gs_world g)\<lparr>hw_tmp := tmp_set (e_now_sec (env_now g)) (hc_skill_name hc) k v e (hw_tmp (gs_world g))\<rparr>,
               gs_trace := gs_trace g @ [CTmpSet (hc_skill_name hc) k v e]\<rparr>)"
  by (simp add: ctx_tmp_set_def run_invoke host_tmp_set_def map_err_def ret_unit_def)

lemma run_gated_turn:
  assumes "gs_memory g = loaded ss as shs" "List.find (\<lambda>d. ad_on_id d = k) as = Some d" "ad_confirm d"
    "ji_encode jd (gated_pending d on en) = Some bytes"
  shows "run_state (turn_device jd hc (show_id k) on en) g =
    (speak (ask_confirm en (action_label d on en)),
     snd (run_state (ctx_tmp_set hc pending_key bytes pending_ttl_sec) g))"
proof -
  have "List.find (\<lambda>d. unat (ad_on_id d) = unat k) as = Some d" using assms(2) by (simp add: word_unat_eq_iff)
  then show ?thesis
    using assms by (simp add: turn_device_def parse_show_id Let_def save_pending_def gated_pending_def run_tmp_set)
qed

lemma pending_cleared:
  "map_of (hw_tmp (gs_world g)) (hc_skill_name hc, pending_key) = Some (ex, []) \<Longrightarrow> pending_now jd hc g = None"
  by (simp add: pending_now_def fst_tmp_get)

lemma pending_after_set:
  assumes "map_of (hw_tmp (gs_world g)) (hc_skill_name hc, pending_key) = Some (t0 + e, bytes)" "bytes \<noteq> []"
    "unat t0 + unat e < 2 ^ 64" "unat (e_now_sec (env_now g)) < unat t0 + unat e"
  shows "pending_now jd hc g = ji_decode jd bytes"
proof -
  have "unat (t0 + e) = unat t0 + unat e" using assms(3) by (simp add: unat_add_lem [THEN iffD1])
  then have "\<not> t0 + e \<le> e_now_sec (env_now g)" using assms(4) by (simp add: word_le_nat_alt)
  then show ?thesis using assms(1,2) by (simp add: pending_now_def fst_tmp_get)
qed

lemma run_confirm_none:
  "pending_now jd hc g = None \<Longrightarrow> run_state (confirm_pending jd hc en) g =
     (speak (nothing_to_confirm en), snd (run_state (invoke hc (CTmpGet (hc_skill_name hc) pending_key)) g))"
  by (simp add: confirm_pending_def run_load_pending split_beta Let_def)

lemma run_confirm_some:
  assumes "pending_now jd hc g = Some p"
  obtains g1 x where "fst (run_state (confirm_pending jd hc en) g) = done_or_error x en"
    "ran (pe_cmd_id p) (pe_slider p) g1 x (snd (run_state (confirm_pending jd hc en) g))"
    "requests g1 = requests g" "gs_memory g1 = gs_memory g"
    "\<exists>ex. map_of (hw_tmp (gs_world g1)) (hc_skill_name hc, pending_key) = Some (ex, [])"
proof -
  define g0 where "g0 = snd (run_state (invoke hc (CTmpGet (hc_skill_name hc) pending_key)) g)"
  define g1 where "g1 = snd (run_state (ctx_tmp_set hc pending_key [] 1) g0)"
  obtain x g2 where x: "run_state (run_command hc (pe_cmd_id p) (pe_slider p)) g1 = (x, g2)" by fastforce
  have run: "run_state (confirm_pending jd hc en) g = (done_or_error x en, g2)"
    using assms x by (simp add: confirm_pending_def run_load_pending g0_def [symmetric] clear_pending_def split_beta
        g1_def [symmetric])
  have "ran (pe_cmd_id p) (pe_slider p) g1 x g2" using tripleD [OF run_command_ran _ x] by simp
  moreover have "requests g1 = requests g" "gs_memory g1 = gs_memory g"
    by (simp_all add: g1_def g0_def run_tmp_set run_invoke requests_def split_beta Let_def)
  moreover have "\<exists>ex. map_of (hw_tmp (gs_world g1)) (hc_skill_name hc, pending_key) = Some (ex, [])"
    by (simp add: g1_def run_tmp_set tmp_set_def update_conv')
  ultimately show ?thesis using that [of x g1] run by simp
qed



definition demo_device :: action_device where
  "demo_device = \<lparr>ad_name = ''gate'', ad_room = [], ad_prefix = [], ad_on_id = 7, ad_off_id = 8, ad_confirm = True\<rparr>"

definition demo_jd :: jeedom_io where
  "demo_jd = \<lparr>ji_text = demo_fns, ji_sensors = (\<lambda>_. None), ji_actions = (\<lambda>_. None), ji_shutters = (\<lambda>_. None),
     ji_encode = (\<lambda>_. Some [1]), ji_decode = (\<lambda>_. Some (gated_pending demo_device True True)), ji_show = (\<lambda>_. [])\<rparr>"

definition demo_guest :: "(string, jeedom_mem) guest" where
  "demo_guest = \<lparr>gs_world = demo_hosts, gs_env = (\<lambda>_. demo_env), gs_trace = [], gs_memory = loaded [] [demo_device] []\<rparr>"

definition demo_intent :: "string \<Rightarrow> intent" where
  "demo_intent n = \<lparr>i_name = n, i_slots = [], i_locale = ''en''\<rparr>"

definition demo_say :: "string \<Rightarrow> (string, jeedom_mem) guest \<Rightarrow> (skill_error + skill_response) \<times> (string, jeedom_mem) guest" where
  "demo_say n g = run_state (handle demo_jd (for_testing demo_web (demo_ctx None)) (demo_intent n)) g"



end
