(* ===== verification/Skills.thy ===== *)
theory Skills
  imports Skill_Sdk
begin

text \<open>
  The timer, home and weather skills (\<open>skills-timer\<close>, \<open>skills-home\<close>, \<open>skills-weather\<close>), as computations over
  the guest's host calls. Lower-casing and string similarity are in \<open>text_fns\<close>, the JSON encoding of the skills'
  own values is \<open>serde_json\<close>'s and an argument. The guests are built in release mode: their \<open>u64\<close> products wrap.
\<close>

definition sdk_rule :: "string \<Rightarrow> string list \<Rightarrow> slot_spec list \<Rightarrow> pattern_rule" where
  "sdk_rule i ps ss = \<lparr>pr_intent = i, pr_phrases = ps, pr_slots = ss\<rparr>"

definition string_slot :: "string \<Rightarrow> slot_spec" where
  "string_slot n = \<lparr>ss_name = n, ss_kind = SkString\<rparr>"

definition slot_text :: "intent \<Rightarrow> string \<Rightarrow> string" where
  "slot_text i key = (case Option.bind (map_of (i_slots i) key) as_str of Some s \<Rightarrow> s | None \<Rightarrow> [])"

definition say :: "string \<Rightarrow> skill_error + skill_response" where
  "say t = Inr (Speak t)"

section \<open>Spoken durations\<close>

definition number_word_fr :: "string \<Rightarrow> nat option" where
  "number_word_fr w = map_of
     [(''un'', 1), (''une'', 1), (''deux'', 2), (''trois'', 3), (''quatre'', 4), (''cinq'', 5), (''six'', 6), (''sept'', 7),
      (''huit'', 8), (''neuf'', 9), (''dix'', 10)] w"

definition number_word_en :: "string \<Rightarrow> nat option" where
  "number_word_en w = map_of
     [(''a'', 1), (''an'', 1), (''one'', 1), (''two'', 2), (''three'', 3), (''four'', 4), (''five'', 5), (''six'', 6), (''seven'', 7),
      (''eight'', 8), (''nine'', 9), (''ten'', 10)] w"

definition unit_word_fr :: "string \<Rightarrow> nat option" where
  "unit_word_fr w = map_of
     [(''seconde'', 1), (''secondes'', 1), (''minute'', 60), (''minutes'', 60), (''heure'', 3600), (''heures'', 3600)] w"

definition unit_word_en :: "string \<Rightarrow> nat option" where
  "unit_word_en w = map_of
     [(''second'', 1), (''seconds'', 1), (''minute'', 60), (''minutes'', 60), (''hour'', 3600), (''hours'', 3600)] w"

definition parse_amount :: "text_fns \<Rightarrow> (string \<Rightarrow> nat option) \<Rightarrow> string \<Rightarrow> nat option" where
  "parse_amount tf number_word w =
     (case parse_u64 w of Some n \<Rightarrow> Some n | None \<Rightarrow> number_word (lower tf w))"

definition parse_duration :: "text_fns \<Rightarrow> (string \<Rightarrow> nat option) \<Rightarrow> (string \<Rightarrow> nat option) \<Rightarrow> string \<Rightarrow> u64 option" where
  "parse_duration tf number_word unit_word txt =
     (case split_whitespace txt of
        [amount_word, unit_w] \<Rightarrow>
          (case parse_amount tf number_word amount_word of
             None \<Rightarrow> None
           | Some amount \<Rightarrow>
               (case unit_word (lower tf unit_w) of
                  None \<Rightarrow> None
                | Some unit_seconds \<Rightarrow> Some (of_nat amount * of_nat unit_seconds)))
      | _ \<Rightarrow> None)"

definition parse_fr_duration :: "text_fns \<Rightarrow> string \<Rightarrow> u64 option" where
  "parse_fr_duration tf = parse_duration tf number_word_fr unit_word_fr"

definition parse_en_duration :: "text_fns \<Rightarrow> string \<Rightarrow> u64 option" where
  "parse_en_duration tf = parse_duration tf number_word_en unit_word_en"

section \<open>The timer skill\<close>

definition max_seconds :: u64 where "max_seconds = 86400"

definition timer_rules :: "string \<Rightarrow> pattern_rule list" where
  "timer_rules loc =
     (if loc = ''fr'' then
        [sdk_rule ''timer.set''
           [''mets un minuteur de {duration}'',
            ''minuteur {duration}'',
            ''r'' @ e_acute @ ''veille-moi dans {duration}'']
           [string_slot ''duration'']]
      else if loc = ''en'' then
        [sdk_rule ''timer.set''
           [''set a timer for {duration}'',
            ''timer for {duration}'',
            ''wake me up in {duration}'']
           [string_slot ''duration'']]
      else [])"

text \<open>\<open>now_ms\<close> is the guest's own clock; the row id returned names the keys.\<close>

definition timer_handle ::
  "text_fns \<Rightarrow> (u64 \<Rightarrow> string + byte list) \<Rightarrow> 'u host_ctx \<Rightarrow> i64 \<Rightarrow> intent \<Rightarrow> (('u, 'm) guest, skill_error + skill_response) state" where
  "timer_handle tf encode hc now_ms i =
     (let duration_text = slot_text i ''duration''; en = prefix ''en'' (i_locale i);
          parsed = (if en then parse_en_duration tf duration_text else parse_fr_duration tf duration_text)
      in case parsed of
           None \<Rightarrow> ret (say (if en then ''sorry, I didn'' @ apos @ ''t understand the timer duration'' else ''d'' @ e_acute @ ''sol'' @ e_acute @ '', je n'' @ apos @ ''ai pas compris la dur'' @ e_acute @ ''e du minuteur''))
         | Some seconds \<Rightarrow>
             if seconds > max_seconds then ret (say (if en then ''sorry, I only handle timers under twenty-four hours'' else ''d'' @ e_acute @ ''sol'' @ e_acute @ '', je ne g'' @ e_grave @ ''re que les minuteurs de moins de vingt-quatre heures''))
             else (case encode seconds of
                Inl e \<Rightarrow> ret (Inl (Custom (''payload encode: '' @ e)))
              | Inr payload \<Rightarrow> do {
                  r \<leftarrow> schedule_mqtt hc (now_ms + seconds * 1000) ''athena/skills/timer/expired'' payload;
                  case r of
                    Inl e \<Rightarrow> ret (Inl e)
                  | Inr row \<Rightarrow>
                      (let key = ''timer/'' @ show_int row in do {
                         r1 \<leftarrow> ctx_tmp_set hc key (le_bytes64 seconds) seconds;
                         case r1 of
                           Inl e \<Rightarrow> ret (Inl e)
                         | Inr _ \<Rightarrow> do {
                             r2 \<leftarrow> state_set hc key (le_bytes64 seconds);
                             case r2 of
                               Inl e \<Rightarrow> ret (Inl e)
                             | Inr _ \<Rightarrow> ret (say (if en then ''okay, timer for '' @ duration_text @ '' started'' else ''d'' @ apos @ ''accord, minuteur de '' @ duration_text @ '' lanc'' @ e_acute)) } }) }))"

section \<open>The home skill\<close>

definition home_threshold :: rat where "home_threshold = 3 / 4"

record entity =
  en_name :: string
  en_room :: string
  en_kind :: string
  en_set_topic :: string
  en_on_payload :: string
  en_off_payload :: string

definition home_rules :: "string \<Rightarrow> pattern_rule list" where
  "home_rules loc =
     (if loc \<noteq> ''fr'' then []
      else
        [sdk_rule ''home.light.on'' [''allume la lumi'' @ e_grave @ ''re du {room}''] [string_slot ''room''],
         sdk_rule ''home.light.off'' [e_acute @ ''teins la lumi'' @ e_grave @ ''re du {room}''] [string_slot ''room''],
         sdk_rule ''home.device.on'' [''allume {device}''] [string_slot ''device''],
         sdk_rule ''home.device.off'' [e_acute @ ''teins {device}''] [string_slot ''device'']])"

definition find_light :: "entity list \<Rightarrow> string \<Rightarrow> entity option" where
  "find_light es room = List.find (\<lambda>e. en_kind e = ''light'' \<and> ascii_lower (en_room e) = ascii_lower room) es"

text \<open>The first of the best candidates; every candidate is logged, with its similarity as text.\<close>

fun fuzzy_go :: "text_fns \<Rightarrow> string \<Rightarrow> entity list \<Rightarrow> (entity \<times> rat) option \<Rightarrow> (entity \<times> rat) option" where
  "fuzzy_go tf q [] best = best"
| "fuzzy_go tf q (e # es) best =
     (let sim = similarity tf (lower tf (en_name e)) q in
      fuzzy_go tf q es
        (if sim \<ge> home_threshold \<and> (case best of None \<Rightarrow> True | Some (_, s) \<Rightarrow> sim > s) then Some (e, sim) else best))"

definition find_device_fuzzy :: "text_fns \<Rightarrow> entity list \<Rightarrow> string \<Rightarrow> entity option" where
  "find_device_fuzzy tf es query =
     (if query = [] \<or> es = [] then None else map_option fst (fuzzy_go tf (lower tf query) es None))"

definition log_candidate :: "(rat \<Rightarrow> string) \<Rightarrow> text_fns \<Rightarrow> 'u host_ctx \<Rightarrow> string \<Rightarrow> entity \<Rightarrow> (('u, 'm) guest, unit) state" where
  "log_candidate show_sim tf hc q e =
     log_msg hc ''debug''
       (''home: candidate '' @ apos @ en_name e @ apos @ '' similarity '' @ show_sim (similarity tf (lower tf (en_name e)) q))"

definition string_bytes :: "string \<Rightarrow> byte list" where
  "string_bytes s = map of_char s"

definition publish_command :: "(skill_error \<Rightarrow> string) \<Rightarrow> 'u host_ctx \<Rightarrow> entity \<Rightarrow> bool \<Rightarrow> (('u, 'm) guest, skill_error + skill_response) state" where
  "publish_command show_error hc e on = do {
     r \<leftarrow> mqtt_publish hc (en_set_topic e) (string_bytes (if on then en_on_payload e else en_off_payload e));
     case r of
       Inr _ \<Rightarrow> ret (say (''d'' @ apos @ ''accord''))
     | Inl er \<Rightarrow> do {
         _ \<leftarrow> log_msg hc ''warn'' (''home: publish '' @ en_set_topic e @ '' failed: '' @ show_error er);
         ret (say (''je n'' @ apos @ ''ai pas pu envoyer la commande'')) } }"

definition home_entities ::
  "(string \<Rightarrow> string + entity list) \<Rightarrow> 'u host_ctx \<Rightarrow> (('u, entity list option) guest, entity list) state" where
  "home_entities from_str hc = do {
     m \<leftarrow> memory;
     case m of
       Some v \<Rightarrow> ret v
     | None \<Rightarrow> do {
         raw \<leftarrow> config_get_toml hc ''entities'';
         v \<leftarrow> (case raw of
                None \<Rightarrow> ret []
              | Some txt \<Rightarrow>
                  if txt = [] then ret []
                  else (case from_str txt of
                          Inr v \<Rightarrow> ret v
                        | Inl e \<Rightarrow> do { _ \<leftarrow> log_msg hc ''warn'' (''home: failed to parse entities: '' @ e); ret [] }));
         _ \<leftarrow> set_memory (Some v);
         ret v } }"

record home_io =
  hi_text :: text_fns
  hi_entities :: "string \<Rightarrow> string + entity list"
  hi_show_sim :: "rat \<Rightarrow> string"
  hi_show_error :: "skill_error \<Rightarrow> string"

definition home_handle :: "home_io \<Rightarrow> 'u host_ctx \<Rightarrow> intent \<Rightarrow> (('u, entity list option) guest, skill_error + skill_response) state" where
  "home_handle hi hc i = do {
     es \<leftarrow> home_entities (hi_entities hi) hc;
     (if i_name i = ''home.light.on'' \<or> i_name i = ''home.light.off'' then
        (let room = trim (slot_text i ''room'') in
         case find_light es room of
           Some e \<Rightarrow> publish_command (hi_show_error hi) hc e (i_name i = ''home.light.on'')
         | None \<Rightarrow> ret (say (''d'' @ e_acute @ ''sol'' @ e_acute @ '', je ne connais pas la lumi'' @ e_grave @ ''re du '' @ room)))
      else if i_name i = ''home.device.on'' \<or> i_name i = ''home.device.off'' then
        (let device = trim (slot_text i ''device'') in do {
           _ \<leftarrow> (if device = [] then ret []
                else State_Monad.traverse_list (log_candidate (hi_show_sim hi) (hi_text hi) hc (lower (hi_text hi) device)) es);
           case find_device_fuzzy (hi_text hi) es device of
             Some e \<Rightarrow> publish_command (hi_show_error hi) hc e (i_name i = ''home.device.on'')
           | None \<Rightarrow> ret (say (''d'' @ e_acute @ ''sol'' @ e_acute @ '', je ne connais pas '' @ device)) })
      else ret (Inl (Custom (''unknown intent: '' @ i_name i)))) }"

definition home_schema :: config_schema where
  "home_schema =
     [field ''entities'' ''Entities'' FkList False ''Devices this skill can turn on/off over MQTT''
        [item ''name'' FkString True, item ''room'' FkString False, item ''kind'' FkString False,
         item ''set_topic'' FkString False, item ''on_payload'' FkString False, item ''off_payload'' FkString False]]"

section \<open>The weather skill\<close>

record geo =
  ge_lat :: u64
  ge_lon :: u64
  ge_name :: string

text \<open>Coordinates and temperatures are doubles by their bits; \<open>wi_round\<close> is \<open>round() as i64\<close>, \<open>wi_f64\<close> the
  \<open>Display\<close> of a double.\<close>

record weather_io =
  wi_text :: text_fns
  wi_encode :: "geo \<Rightarrow> byte list option"
  wi_decode :: "byte list \<Rightarrow> geo option"
  wi_as_f64 :: "json \<Rightarrow> u64 option"
  wi_as_i64 :: "json \<Rightarrow> int option"
  wi_round :: "u64 \<Rightarrow> int"
  wi_f64 :: "u64 \<Rightarrow> string"
  wi_show_error :: "skill_error \<Rightarrow> string"

definition hard_default_city :: string where "hard_default_city = ''Paris''"
definition geocoding_default_base :: string where "geocoding_default_base = ''https://geocoding-api.open-meteo.com''"
definition forecast_default_base :: string where "forecast_default_base = ''https://api.open-meteo.com''"

definition http_error_speak :: "string \<Rightarrow> string" where
  "http_error_speak loc = (if prefix ''en'' loc then ''sorry, the weather service is unavailable'' else ''d'' @ e_acute @ ''sol'' @ e_acute @ '', le service m'' @ e_acute @ ''t'' @ e_acute @ ''o est indisponible'')"

definition fr_phrase :: "int \<Rightarrow> string" where
  "fr_phrase code =
     (if code = 0 then ''temps clair''
      else if 1 \<le> code \<and> code \<le> 3 then ''quelques nuages''
      else if code = 45 \<or> code = 48 then ''du brouillard''
      else if 51 \<le> code \<and> code \<le> 57 then ''de la bruine''
      else if 61 \<le> code \<and> code \<le> 65 then ''de la pluie''
      else if code = 66 \<or> code = 67 then ''de la pluie vergla'' @ c_cedil @ ''ante''
      else if 71 \<le> code \<and> code \<le> 75 then ''de la neige''
      else if code = 77 then ''des grains de neige''
      else if 80 \<le> code \<and> code \<le> 82 then ''des averses''
      else if code = 85 \<or> code = 86 then ''des averses de neige''
      else if 95 \<le> code \<and> code \<le> 99 then ''un orage''
      else ''un temps particulier'')"

definition en_phrase :: "int \<Rightarrow> string" where
  "en_phrase code =
     (if code = 0 then ''clear skies''
      else if 1 \<le> code \<and> code \<le> 3 then ''a few clouds''
      else if code = 45 \<or> code = 48 then ''fog''
      else if 51 \<le> code \<and> code \<le> 57 then ''drizzle''
      else if 61 \<le> code \<and> code \<le> 65 then ''rain''
      else if code = 66 \<or> code = 67 then ''freezing rain''
      else if 71 \<le> code \<and> code \<le> 75 then ''snow''
      else if code = 77 then ''snow grains''
      else if 80 \<le> code \<and> code \<le> 82 then ''showers''
      else if code = 85 \<or> code = 86 then ''snow showers''
      else if 95 \<le> code \<and> code \<le> 99 then ''a thunderstorm''
      else ''unusual weather'')"

definition weather_phrase :: "int \<Rightarrow> string \<Rightarrow> string" where
  "weather_phrase code loc = (if prefix ''en'' loc then en_phrase code else fr_phrase code)"

definition weather_rules :: "string \<Rightarrow> pattern_rule list" where
  "weather_rules loc =
     (if loc = ''fr'' then
        [sdk_rule ''weather.now''
           [''quel temps fait-il'',
            ''quel temps fait-il '' @ a_grave @ '' {city}'',
            ''m'' @ e_acute @ ''t'' @ e_acute @ ''o '' @ a_grave @ '' {city}'',
            ''quelle est la temp'' @ e_acute @ ''rature'',
            ''quelle est la temp'' @ e_acute @ ''rature ext'' @ e_acute @ ''rieure'',
            ''quelle temp'' @ e_acute @ ''rature fait-il'',
            ''quelle temp'' @ e_acute @ ''rature fait-il '' @ a_grave @ '' {city}'']
           [string_slot ''city''],
         sdk_rule ''weather.tomorrow''
           [''quel temps fera-t-il demain'',
            ''quel temps fera-t-il demain '' @ a_grave @ '' {city}'']
           [string_slot ''city'']]
      else if loc = ''en'' then
        [sdk_rule ''weather.now''
           [''what'' @ apos @ ''s the weather'',
            ''what'' @ apos @ ''s the weather in {city}'',
            ''weather in {city}'',
            ''what'' @ apos @ ''s the temperature'',
            ''what'' @ apos @ ''s the temperature outside'',
            ''what is the temperature in {city}'']
           [string_slot ''city''],
         sdk_rule ''weather.tomorrow''
           [''what'' @ apos @ ''s the weather tomorrow'',
            ''what'' @ apos @ ''s the weather tomorrow in {city}'']
           [string_slot ''city'']]
      else [])"

definition config_or :: "'u host_ctx \<Rightarrow> string \<Rightarrow> string \<Rightarrow> (('u, 'm) guest, string) state" where
  "config_or hc key default_value = do {
     r \<leftarrow> config_get_toml hc key;
     ret (case r of Some s \<Rightarrow> if s = [] then default_value else s | None \<Rightarrow> default_value) }"

definition resolve_city :: "'u host_ctx \<Rightarrow> intent \<Rightarrow> (('u, 'm) guest, string) state" where
  "resolve_city hc i =
     (let s = trim (slot_text i ''city'') in
      if s \<noteq> [] then ret s else config_or hc ''default_city'' hard_default_city)"

definition url_encode :: "string \<Rightarrow> string" where
  "url_encode s = concat (map (\<lambda>c.
     if c = CHR '' '' then ''%20'' else if c = CHR ''&'' then ''%26'' else if c = CHR ''#'' then ''%23''
     else if c = CHR ''?'' then ''%3F'' else if c = CHR ''='' then ''%3D'' else if c = CHR ''+'' then ''%2B'' else [c]) s)"

definition trim_slashes :: "string \<Rightarrow> string" where
  "trim_slashes s = rev (dropWhile (\<lambda>c. c = CHR ''/'') (rev s))"

definition geo_key :: "weather_io \<Rightarrow> string \<Rightarrow> string" where
  "geo_key wi city = ''geo/'' @ lower (wi_text wi) city"

definition first_of :: "json option \<Rightarrow> json option" where
  "first_of v = (case v of Some (JArr (x # _)) \<Rightarrow> Some x | _ \<Rightarrow> None)"

definition geocode ::
  "weather_io \<Rightarrow> 'u host_ctx \<Rightarrow> string \<Rightarrow> string \<Rightarrow> (('u, 'm) guest, string + geo option) state" where
  "geocode wi hc city loc = do {
     base \<leftarrow> config_or hc ''geocoding_base_url'' geocoding_default_base;
     r \<leftarrow> http_get_json hc (trim_slashes base @ ''/v1/search?name='' @ url_encode city @ ''&language='' @
            (if prefix ''en'' loc then ''en'' else ''fr'') @ ''&count=1'');
     case r of
       Inl e \<Rightarrow> do {
         _ \<leftarrow> log_msg hc ''warn'' (''weather: geocoding HTTP failed: '' @ wi_show_error wi e);
         ret (Inl (http_error_speak loc)) }
     | Inr v \<Rightarrow>
         (case first_of (json_get ''results'' v) of
            None \<Rightarrow> ret (Inr None)
          | Some first \<Rightarrow>
              (case (Option.bind (json_get ''latitude'' first) (wi_as_f64 wi), Option.bind (json_get ''longitude'' first) (wi_as_f64 wi)) of
                 (Some lat, Some lon) \<Rightarrow>
                   (let name = (case Option.bind (json_get ''name'' first) as_str of Some s \<Rightarrow> s | None \<Rightarrow> city);
                        g = \<lparr>ge_lat = lat, ge_lon = lon, ge_name = name\<rparr> in
                    case wi_encode wi g of
                      Some bytes \<Rightarrow> do { _ \<leftarrow> state_set hc (geo_key wi city) bytes; ret (Inr (Some g)) }
                    | None \<Rightarrow> ret (Inr (Some g)))
               | _ \<Rightarrow> do {
                   _ \<leftarrow> log_msg hc ''error'' ''weather: geocoding response missing latitude/longitude'';
                   ret (Inl (http_error_speak loc)) })) }"

definition resolve_geocoding ::
  "weather_io \<Rightarrow> 'u host_ctx \<Rightarrow> string \<Rightarrow> string \<Rightarrow> (('u, 'm) guest, string + geo option) state" where
  "resolve_geocoding wi hc city loc = do {
     r \<leftarrow> state_get hc (geo_key wi city);
     case (case r of Inr (Some bytes) \<Rightarrow> wi_decode wi bytes | _ \<Rightarrow> None) of
       Some cached \<Rightarrow> ret (Inr (Some cached))
     | None \<Rightarrow> geocode wi hc city loc }"

definition fetch_forecast :: "weather_io \<Rightarrow> 'u host_ctx \<Rightarrow> geo \<Rightarrow> string \<Rightarrow> (('u, 'm) guest, string + json) state" where
  "fetch_forecast wi hc g loc = do {
     base \<leftarrow> config_or hc ''forecast_base_url'' forecast_default_base;
     r \<leftarrow> http_get_json hc (trim_slashes base @ ''/v1/forecast?latitude='' @ wi_f64 wi (ge_lat g) @ ''&longitude='' @ wi_f64 wi (ge_lon g)
            @ ''&current=temperature_2m,weather_code&daily=temperature_2m_max,temperature_2m_min,weather_code&timezone=auto'');
     case r of
       Inr v \<Rightarrow> ret (Inr v)
     | Inl e \<Rightarrow> do {
         _ \<leftarrow> log_msg hc ''warn'' (''weather: forecast HTTP failed: '' @ wi_show_error wi e);
         ret (Inl (http_error_speak loc)) } }"

definition log_and_apologise :: "'u host_ctx \<Rightarrow> string \<Rightarrow> string \<Rightarrow> (('u, 'm) guest, skill_error + skill_response) state" where
  "log_and_apologise hc msg loc = do { _ \<leftarrow> log_msg hc ''error'' msg; ret (say (http_error_speak loc)) }"

definition weather_now :: "weather_io \<Rightarrow> 'u host_ctx \<Rightarrow> geo \<Rightarrow> string \<Rightarrow> (('u, 'm) guest, skill_error + skill_response) state" where
  "weather_now wi hc g loc = do {
     r \<leftarrow> fetch_forecast wi hc g loc;
     case r of
       Inl msg \<Rightarrow> ret (say msg)
     | Inr v \<Rightarrow>
         (case json_get ''current'' v of
            None \<Rightarrow> log_and_apologise hc (''weather: forecast response missing '' @ apos @ ''current'' @ apos) loc
          | Some current \<Rightarrow>
              (case (Option.bind (json_get ''temperature_2m'' current) (wi_as_f64 wi), Option.bind (json_get ''weather_code'' current) (wi_as_i64 wi)) of
                 (Some temp, Some code) \<Rightarrow>
                   (let temp_i = show_int (wi_round wi temp); phrase = weather_phrase code loc; name = ge_name g in
                    ret (say (if prefix ''en'' loc then ''it is '' @ temp_i @ '' degrees in '' @ name @ '', '' @ phrase else ''il fait '' @ temp_i @ '' degr'' @ e_acute @ ''s '' @ a_grave @ '' '' @ name @ '', '' @ phrase)))
               | _ \<Rightarrow> log_and_apologise hc (''weather: '' @ apos @ ''current'' @ apos @ '' missing temperature_2m or weather_code'') loc)) }"

definition weather_tomorrow :: "weather_io \<Rightarrow> 'u host_ctx \<Rightarrow> geo \<Rightarrow> string \<Rightarrow> (('u, 'm) guest, skill_error + skill_response) state" where
  "weather_tomorrow wi hc g loc = do {
     r \<leftarrow> fetch_forecast wi hc g loc;
     case r of
       Inl msg \<Rightarrow> ret (say msg)
     | Inr v \<Rightarrow>
         (case json_get ''daily'' v of
            None \<Rightarrow> log_and_apologise hc (''weather: forecast response missing '' @ apos @ ''daily'' @ apos) loc
          | Some daily \<Rightarrow>
              (case (Option.bind (first_of (json_get ''temperature_2m_min'' daily)) (wi_as_f64 wi),
                     Option.bind (first_of (json_get ''temperature_2m_max'' daily)) (wi_as_f64 wi),
                     Option.bind (first_of (json_get ''weather_code'' daily)) (wi_as_i64 wi)) of
                 (Some mn, Some mx, Some code) \<Rightarrow>
                   (let min_i = show_int (wi_round wi mn); max_i = show_int (wi_round wi mx);
                        phrase = weather_phrase code loc; name = ge_name g in
                    ret (say (if prefix ''en'' loc then ''tomorrow in '' @ name @ '', it will be between '' @ min_i @ '' and '' @ max_i @ '' degrees with '' @ phrase else ''demain '' @ a_grave @ '' '' @ name @ '', il fera entre '' @ min_i @ '' et '' @ max_i @ '' degr'' @ e_acute @ ''s avec '' @ phrase)))
               | _ \<Rightarrow> log_and_apologise hc (''weather: '' @ apos @ ''daily'' @ apos @ '' missing min/max/weather_code at index 0'') loc)) }"

definition weather_handle :: "weather_io \<Rightarrow> 'u host_ctx \<Rightarrow> intent \<Rightarrow> (('u, 'm) guest, skill_error + skill_response) state" where
  "weather_handle wi hc i =
     (let loc = i_locale i in do {
        city \<leftarrow> resolve_city hc i;
        r \<leftarrow> resolve_geocoding wi hc city loc;
        case r of
          Inl msg \<Rightarrow> ret (say msg)
        | Inr None \<Rightarrow> ret (say (if prefix ''en'' loc then ''sorry, I can'' @ apos @ ''t find '' @ city else ''d'' @ e_acute @ ''sol'' @ e_acute @ '', je ne trouve pas '' @ city))
        | Inr (Some g) \<Rightarrow>
            if i_name i = ''weather.now'' then weather_now wi hc g loc
            else if i_name i = ''weather.tomorrow'' then weather_tomorrow wi hc g loc
            else ret (Inl (Custom (''unknown intent: '' @ i_name i))) })"

definition weather_schema :: config_schema where
  "weather_schema = [field ''default_city'' ''Default city'' FkString False ''City used when none is spoken'' []]"

section \<open>Durations are read exactly, up to 64 bits\<close>

lemma parse_duration_value:
  "parse_duration tf nw uw txt = Some s \<Longrightarrow>
     \<exists>a w n k. split_whitespace txt = [a, w] \<and> parse_amount tf nw a = Some n \<and> uw (lower tf w) = Some k
       \<and> unat s = n * k mod 2 ^ 64"
  by (auto simp: parse_duration_def unat_word_ariths unsigned_of_nat take_bit_eq_mod mod_mult_eq
      split: list.splits option.splits)

text \<open>The product is not checked: an absurd number of hours wraps to less than one and is accepted.\<close>

lemma amount_demo: "parse_amount demo_fns number_word_en ''5124095576030432'' = Some 5124095576030432"
  by (simp add: parse_amount_def parse_u64_def digit_val_def)

lemma duration_wraps: "parse_en_duration demo_fns ''5124095576030432 hours'' = Some 3584"
proof -
  have "split_whitespace ''5124095576030432 hours'' = [''5124095576030432'', ''hours'']" by code_simp
  moreover have "unit_word_en (lower demo_fns ''hours'') = Some 3600" by code_simp
  ultimately show ?thesis by (simp add: parse_en_duration_def parse_duration_def amount_demo)
qed

lemma unat_seconds_ms: "s \<le> max_seconds \<Longrightarrow> unat (s * 1000) = unat s * 1000"
  by (subst unat_mult_lem [THEN iffD1]) (auto simp: max_seconds_def word_le_nat_alt)

lemma sint_fires:
  assumes "s \<le> max_seconds" "sint (t :: i64) + 86400000 < 2 ^ 63"
  shows "sint (t + s * 1000) = sint t + 1000 * int (unat s)"
proof -
  have ms: "unat (s * 1000) = unat s * 1000" "unat s \<le> 86400"
    using assms(1) by (simp_all add: unat_seconds_ms max_seconds_def word_le_nat_alt)
  have "int (unat s) \<le> 86400" using ms(2) by linarith
  then have us: "uint s \<le> 86400" "0 \<le> uint s" by simp_all
  have "sint (s * 1000) = signed_take_bit 63 (int (unat (s * 1000)))" by (simp add: sint_uint)
  also have "\<dots> = 1000 * int (unat s)"
    using ms us by (subst signed_take_bit_int_eq_self) (simp_all add: order_trans [of _ 0])
  finally have "sint (t + s * 1000) = signed_take_bit 63 (sint t + 1000 * int (unat s))" by (simp add: sint_word_add)
  also have "\<dots> = sint t + 1000 * int (unat s)"
  proof (rule signed_take_bit_int_eq_self)
    have "- (2 ^ 63) \<le> sint t" using sint_ge [of t] by simp
    then show "- (2 ^ 63) \<le> sint t + 1000 * int (unat s)" by linarith
    show "sint t + 1000 * int (unat s) < 2 ^ 63" using assms(2) us by simp
  qed
  finally show ?thesis .
qed


section \<open>A timer that was set rings\<close>

lemma mono_sched: "scheduled (hw_db (snd (host_state_set ctx en key v w))) = scheduled (hw_db w)"
  by (simp add: host_state_set_def skill_kv_set_def skill_kv_gc_def Let_def split: option.split)

lemma run_schedule:
  assumes "sk_name (hc_ctx hc) = ''timer''"
    "run_state (schedule_mqtt hc f ''athena/skills/timer/expired'' p) g = (Inr row, g1)"
  shows "\<exists>now. hw_db (gs_world g1) = snd (schedule_event now ''timer'' (sint f) ''athena/skills/timer/expired'' p (hw_db (gs_world g)))"
proof -
  have acl: "mqtt_topic_allowed ''timer'' ''athena/skills/timer/expired''" by (simp add: mqtt_topic_allowed_def mqtt_topic_prefix_def)
  have len: "length (le_bytes64 f) = 8" by (simp add: le_bytes64_def)
  show ?thesis
    using assms(2) acl len
    by (auto simp: schedule_mqtt_def run_invoke host_schedule_mqtt_def assms(1) map_err_def ret_code_def
        sched_err_acl_def sched_err_store_def Let_def split: if_splits prod.splits) (metis snd_conv)
qed

abbreviation rows :: "('u, 'm) guest \<Rightarrow> scheduled_event list" where
  "rows g \<equiv> scheduled (hw_db (gs_world g))"

lemma rows_kept:
  "triple (\<lambda>g. rows g = S) (ctx_tmp_set hc k v e) (\<lambda>_ g. rows g = S)"
  "triple (\<lambda>g. rows g = S) (state_set hc k v) (\<lambda>_ g. rows g = S)"
  by (auto simp: triple_def ctx_tmp_set_def state_set_def run_invoke host_tmp_set_def split: prod.splits) (metis mono_sched snd_conv)

lemma timer_rows:
  fixes g :: "('u, 'm) guest"
  assumes "sk_name (hc_ctx hc) = ''timer''"
    "(if prefix ''en'' (i_locale i) then parse_en_duration else parse_fr_duration) tf (slot_text i ''duration'') = Some s"
    "s \<le> max_seconds" "enc s = Inr payload"
  shows "triple (\<lambda>x. x = g) (timer_handle tf enc hc now_ms i)
    (\<lambda>r x. isl r \<or> (\<exists>now. rows x =
       scheduled (snd (schedule_event now ''timer'' (sint (now_ms + s * 1000)) ''athena/skills/timer/expired'' payload (hw_db (gs_world g))))))"
proof -
  let ?S = "\<lambda>now. scheduled (snd (schedule_event now ''timer'' (sint (now_ms + s * 1000)) ''athena/skills/timer/expired'' payload (hw_db (gs_world g))))"
  have parsed: "(if prefix ''en'' (i_locale i) then parse_en_duration tf (slot_text i ''duration'')
      else parse_fr_duration tf (slot_text i ''duration'')) = Some s" using assms(2) by (simp split: if_splits)
  have sch: "triple (\<lambda>x. x = g) (schedule_mqtt hc (now_ms + s * 1000) ''athena/skills/timer/expired'' payload)
      (\<lambda>r x. isl r \<or> (\<exists>now. rows x = ?S now))"
  proof (rule tripleI)
    fix y r x assume "y = g" "run_state (schedule_mqtt hc (now_ms + s * 1000) ''athena/skills/timer/expired'' payload) y = (r, x)"
    then show "isl r \<or> (\<exists>now. rows x = ?S now)"
      using run_schedule [OF assms(1), of "now_ms + s * 1000" payload g _ x] by (cases r) fastforce+
  qed
  have tail: "triple (\<lambda>x. \<exists>now. rows x = ?S now) (m :: (('u, 'm) guest, 'a) state) (\<lambda>_ x. \<exists>now. rows x = ?S now)"
    if "\<And>S. triple (\<lambda>x. rows x = S) m (\<lambda>_ x. rows x = S)" for m :: "(('u, 'm) guest, 'a) state"
    using that by (fastforce simp: triple_def)
  have le: "\<not> max_seconds < s" using assms(3) by simp
  show ?thesis
    unfolding timer_handle_def Let_def parsed option.case sum.case assms(4) if_not_P [OF le]
  proof (rule triple_bind [OF sch], goal_cases)
    case (1 a)
    show ?case
    proof (cases a)
      case (Inr row)
      show ?thesis
        unfolding Inr sum.case
        by (rule triple_strengthen, rule triple_weaken, rule tail, rule triple_seq [OF rows_kept(1)])
           (auto intro!: triple_seq [OF rows_kept(2)] split: sum.split)
    qed (auto intro: triple_return)
  qed
qed


lemma tick_rows:
  assumes "distinct (map sv_id (scheduled db))"
  shows "set (scheduled (snd (scheduler_tick secs now db))) = {e \<in> set (scheduled db). now < sv_fires e}"
    and "set (fst (scheduler_tick secs now db)) = (\<Union>e \<in> {e \<in> set (scheduled db). sv_fires e \<le> now}. set (fire_event secs e))"
  using pop_due_left [OF assms, of now]
  by (auto simp: scheduler_tick_def pop_due_events_def Let_def split_beta)


definition timer_ctx :: "string host_ctx" where
  "timer_ctx = for_testing demo_web ((demo_ctx None)\<lparr>sk_name := ''timer''\<rparr>)"

definition timer_intent :: intent where
  "timer_intent = \<lparr>i_name = ''timer.set'', i_slots = [(''duration'', JStr ''two minutes'')], i_locale = ''en''\<rparr>"

definition timer_guest :: "(string, unit) guest" where
  "timer_guest = \<lparr>gs_world = demo_hosts, gs_env = (\<lambda>_. demo_env), gs_trace = [], gs_memory = ()\<rparr>"



end
