(* ===== verification/Admin.thy ===== *)
theory Admin
  imports Registry Skill_Sdk
begin

text \<open>
  The admin interface's JSON API (\<open>crates/athena-voice-admin/src/api.rs\<close>) and the schema-driven checks of a saved
  form (\<open>validate.rs\<close>), over the SQLite store of \<open>Storage\<close>, the registry of \<open>Registry\<close> and the overlay of
  \<open>Scheduler\<close>. A handler is a computation over the server's state; the store and the file system may fail at
  every call, as the list \<open>am_faults\<close> scripts. JSON text is \<open>serde_json\<close>'s and a parameter, a submitted form is
  listed in the iteration order of its \<open>HashMap\<close>.
\<close>

section \<open>Checking a form\<close>

type_synonym form = "(string \<times> string) list"

definition quoted :: "string \<Rightarrow> string" where
  "quoted s = ''`'' @ s @ ''`''"

definition value_fits :: "field_kind \<Rightarrow> json \<Rightarrow> bool" where
  "value_fits k v =
     (case k of
        FkNumber \<Rightarrow> (case v of JNum _ \<Rightarrow> True | _ \<Rightarrow> False)
      | FkBool \<Rightarrow> (case v of JBool _ \<Rightarrow> True | _ \<Rightarrow> False)
      | _ \<Rightarrow> (case v of JStr _ \<Rightarrow> True | _ \<Rightarrow> False))"

definition wanted :: "field_kind \<Rightarrow> string" where
  "wanted k = (case k of FkNumber \<Rightarrow> ''number'' | FkBool \<Rightarrow> ''boolean'' | _ \<Rightarrow> ''string'')"

definition item_place :: "string \<Rightarrow> nat \<Rightarrow> string" where
  "item_place key n = key @ ''['' @ show_nat n @ '']''"

fun check_item :: "string \<Rightarrow> nat \<Rightarrow> (string \<times> json) list \<Rightarrow> item_field list \<Rightarrow> string + unit" where
  "check_item key n obj [] = Inr ()"
| "check_item key n obj (f # fs) =
     (case map_of obj (if_key f) of
        None \<Rightarrow>
          if if_required f then Inl (quoted (item_place key n) @ '' is missing '' @ quoted (if_key f))
          else check_item key n obj fs
      | Some v \<Rightarrow>
          if value_fits (if_kind f) v then check_item key n obj fs
          else Inl (quoted (item_place key n @ ''.'' @ if_key f) @ '' must be a '' @ wanted (if_kind f)))"

fun check_items :: "string \<Rightarrow> nat \<Rightarrow> item_field list \<Rightarrow> (string \<times> json) list list \<Rightarrow> string + unit" where
  "check_items key n fs [] = Inr ()"
| "check_items key n fs (obj # objs) =
     (case check_item key n obj fs of Inl e \<Rightarrow> Inl e | Inr _ \<Rightarrow> check_items key (n + 1) fs objs)"

text \<open>Reading a JSON array of objects: the line and column of the error, or the objects.\<close>

type_synonym items_parser = "string \<Rightarrow> (nat \<times> nat) + (string \<times> json) list list"

definition check :: "items_parser \<Rightarrow> field_kind \<Rightarrow> string \<Rightarrow> string \<Rightarrow> item_field list \<Rightarrow> string + unit" where
  "check items kind raw key fs =
     (case kind of
        FkString \<Rightarrow> Inr ()
      | FkSecret \<Rightarrow> Inr ()
      | FkBool \<Rightarrow>
          if trim raw \<in> {[], ''true'', ''false''} then Inr () else Inl (quoted key @ '' must be true or false'')
      | FkNumber \<Rightarrow> if parses_f64 (trim raw) then Inr () else Inl (quoted key @ '' must be a number'')
      | FkUrl \<Rightarrow>
          if prefix ''http://'' raw \<or> prefix ''https://'' raw then Inr ()
          else Inl (quoted key @ '' must start with http:// or https://'')
      | FkHost \<Rightarrow>
          if find_str ''://'' raw \<noteq> None \<or> CHR ''/'' \<in> set raw \<or> CHR '' '' \<in> set raw
          then Inl (quoted key @ '' must be a bare host name (no scheme or path)'')
          else Inr ()
      | FkList \<Rightarrow>
          (case items raw of
             Inl (l, c) \<Rightarrow> Inl (quoted key @ '' is not a JSON array of objects (parse error at line '' @ show_nat l
                             @ '', column '' @ show_nat c @ '')'')
           | Inr objs \<Rightarrow> check_items key 0 fs objs))"

fun validate_fields :: "items_parser \<Rightarrow> config_schema \<Rightarrow> form \<Rightarrow> string + unit" where
  "validate_fields items [] values = Inr ()"
| "validate_fields items (f # fs) values =
     (case map_of values (cf_key f) of
        None \<Rightarrow> validate_fields items fs values
      | Some raw \<Rightarrow>
          if trim raw = [] then
            if cf_required f \<and> \<not> is_secret f then Inl (quoted (cf_key f) @ '' is required'')
            else validate_fields items fs values
          else (case check items (cf_kind f) raw (cf_key f) (cf_item_fields f) of
              Inl e \<Rightarrow> Inl e
            | Inr _ \<Rightarrow> validate_fields items fs values))"

definition validate :: "items_parser \<Rightarrow> config_schema option \<Rightarrow> form \<Rightarrow> string + unit" where
  "validate items schema values =
     (case schema of None \<Rightarrow> Inr () | Some fs \<Rightarrow> validate_fields items fs values)"

text \<open>The second piece of \<open>split("://")\<close>, or all of the text; then up to the first slash and the first colon.\<close>

definition after_scheme :: "string \<Rightarrow> string" where
  "after_scheme raw =
     (case find_str ''://'' raw of
        None \<Rightarrow> raw
      | Some k \<Rightarrow>
          (let rest = drop (k + 3) raw
           in case find_str ''://'' rest of None \<Rightarrow> rest | Some m \<Rightarrow> take m rest))"

definition url_host :: "string \<Rightarrow> string" where
  "url_host raw = takeWhile (\<lambda>c. c \<noteq> CHR '':'') (takeWhile (\<lambda>c. c \<noteq> CHR ''/'') (after_scheme raw))"

definition field_hosts :: "(string \<Rightarrow> string option) \<Rightarrow> config_field \<Rightarrow> string list" where
  "field_hosts values f =
     (case values (cf_key f) of
        None \<Rightarrow> []
      | Some raw \<Rightarrow>
          if trim raw = [] then []
          else case cf_kind f of
              FkHost \<Rightarrow> [trim raw]
            | FkUrl \<Rightarrow> if url_host raw \<noteq> [] then [url_host raw] else []
            | _ \<Rightarrow> [])"

definition derived_allowlist :: "config_schema \<Rightarrow> (string \<Rightarrow> string option) \<Rightarrow> string list" where
  "derived_allowlist schema values = remdups_adj (sort (concat (map (field_hosts values) schema)))"

section \<open>The server's state\<close>

datatype config_value = Plain string | Secret bool

record skill_info =
  si_name :: string
  si_loaded :: bool
  si_enabled :: bool
  si_schema :: "config_schema option"
  si_config :: "string \<Rightarrow> config_value option"
  si_http_allowlist :: "string list"

text \<open>Answers: an error with its status, else status 200 with the fields of the JSON object.\<close>

datatype api_response =
    Refused nat string
  | Skills "skill_info list"
  | Saved "string option"
  | Uploaded string "string option" bool
  | Installed "string option" bool
  | Bundled "string list"
  | ServerStatus string nat

text \<open>A failing call has an error text; a failing file write may leave any bytes in the file.\<close>

datatype fault = Fine | Fault string "byte list option"

type_synonym files = "(string \<times> byte list) list"

record 'p skill_handle =
  sh_dir :: string
  sh_files :: files
  sh_deps :: skill_deps
  sh_registry :: "'p registry"

record 'p admin =
  am_db :: sqlite
  am_skills :: "'p skill_handle option"
  am_base :: "(string \<times> skill_config) list"
  am_bundled :: "files option"
  am_events :: "event list"
  am_faults :: "fault list"

text \<open>What the server is built on: the guests, building one from a file's bytes, and JSON text.\<close>

record 'p admin_env =
  ae_ops :: "'p plugin_ops"
  ae_order :: rules_order
  ae_build :: "byte list \<Rightarrow> 'p builder"
  ae_parse :: "string \<Rightarrow> string list option"
  ae_render :: "string list \<Rightarrow> string"
  ae_items :: items_parser

type_synonym ('p, 'a) handler = "('p admin, 'a) state"

section \<open>Calls that may fail\<close>

definition gets :: "('s \<Rightarrow> 'a) \<Rightarrow> ('s, 'a) state" where
  "gets f = State (\<lambda>s. (f s, s))"

definition modify :: "('s \<Rightarrow> 's) \<Rightarrow> ('s, unit) state" where
  "modify f = State (\<lambda>s. ((), f s))"

definition take_fault :: "('p, fault) handler" where
  "take_fault = State (\<lambda>s. case am_faults s of [] \<Rightarrow> (Fine, s) | f # fs \<Rightarrow> (f, s\<lparr>am_faults := fs\<rparr>))"

definition attempt :: "(byte list option \<Rightarrow> ('p, unit) handler) \<Rightarrow> ('p, 'a) handler \<Rightarrow> ('p, string + 'a) handler" where
  "attempt undone m = do {
     f \<leftarrow> take_fault;
     case f of
       Fault e left_over \<Rightarrow> do { _ \<leftarrow> undone left_over; ret (Inl e) }
     | Fine \<Rightarrow> do { a \<leftarrow> m; ret (Inr a) } }"

definition db_read :: "(sqlite \<Rightarrow> 'a) \<Rightarrow> ('p, string + 'a) handler" where
  "db_read f = attempt (\<lambda>_. ret ()) (gets (f \<circ> am_db))"

definition db_write :: "(sqlite \<Rightarrow> sqlite) \<Rightarrow> ('p, string + unit) handler" where
  "db_write f = attempt (\<lambda>_. ret ()) (modify (\<lambda>s. s\<lparr>am_db := f (am_db s)\<rparr>))"

definition set_file :: "string \<Rightarrow> byte list \<Rightarrow> 'p admin \<Rightarrow> 'p admin" where
  "set_file f bs s = s\<lparr>am_skills := map_option (\<lambda>h. h\<lparr>sh_files := AList.update f bs (sh_files h)\<rparr>) (am_skills s)\<rparr>"

definition drop_file :: "string \<Rightarrow> 'p admin \<Rightarrow> 'p admin" where
  "drop_file f s = s\<lparr>am_skills := map_option (\<lambda>h. h\<lparr>sh_files := AList.delete f (sh_files h)\<rparr>) (am_skills s)\<rparr>"

definition write_file :: "string \<Rightarrow> byte list \<Rightarrow> ('p, string + unit) handler" where
  "write_file f bs =
     attempt (\<lambda>l. case l of None \<Rightarrow> ret () | Some part \<Rightarrow> modify (set_file f part)) (modify (set_file f bs))"

definition remove_file :: "string \<Rightarrow> ('p, string + unit) handler" where
  "remove_file f = attempt (\<lambda>_. ret ()) (modify (drop_file f))"

definition or_500 :: "('p, string + 'a) handler \<Rightarrow> ('a \<Rightarrow> ('p, api_response) handler) \<Rightarrow> ('p, api_response) handler" where
  "or_500 m k = do { r \<leftarrow> m; case r of Inl e \<Rightarrow> ret (Refused 500 e) | Inr a \<Rightarrow> k a }"

definition dir_file :: "string \<Rightarrow> 'p admin \<Rightarrow> byte list option" where
  "dir_file f s = Option.bind (am_skills s) (\<lambda>h. map_of (sh_files h) f)"

definition wasm_name :: "string \<Rightarrow> string" where
  "wasm_name name = name @ ''.wasm''"

text \<open>\<open>file_stem\<close> and \<open>extension\<close> of a file name: cut at the last dot, unless the name starts with it.\<close>

definition split_ext :: "string \<Rightarrow> string \<times> string option" where
  "split_ext f =
     (let b = dropWhile (\<lambda>c. c \<noteq> CHR ''.'') (rev f)
      in if b = [] \<or> tl b = [] then (f, None)
         else (rev (tl b), Some (rev (takeWhile (\<lambda>c. c \<noteq> CHR ''.'') (rev f)))))"

definition skill_file_of :: "string \<Rightarrow> string \<Rightarrow> skill_file" where
  "skill_file_of dir f = \<lparr>sf_path = dir @ ''/'' @ f, sf_stem = Some (fst (split_ext f)), sf_ext = snd (split_ext f)\<rparr>"

definition wasm_stems :: "files \<Rightarrow> string list" where
  "wasm_stems fs = map (fst \<circ> split_ext) (filter (\<lambda>f. snd (split_ext f) = Some ''wasm'') (map fst fs))"

section \<open>Listing\<close>

definition registry_names :: "'p admin \<Rightarrow> string list" where
  "registry_names s = (case am_skills s of None \<Rightarrow> [] | Some h \<Rightarrow> skill_names (sh_registry h))"

definition schema_of :: "string \<Rightarrow> 'p admin \<Rightarrow> config_schema option" where
  "schema_of name s = Option.bind (am_skills s) (\<lambda>h. registry_schema name (sh_registry h))"

definition base_of :: "string \<Rightarrow> 'p admin \<Rightarrow> skill_config" where
  "base_of name s = (case map_of (am_base s) name of Some c \<Rightarrow> c | None \<Rightarrow> default_config)"

definition row_pairs :: "setting_row list \<Rightarrow> form" where
  "row_pairs rows = map (\<lambda>r. (sg_key r, sg_value r)) rows"

definition secret_rows :: "setting_row list \<Rightarrow> string list" where
  "secret_rows rows = map sg_key (filter sg_secret rows)"

definition secret_fields :: "config_schema option \<Rightarrow> string list" where
  "secret_fields schema = (case schema of None \<Rightarrow> [] | Some fs \<Rightarrow> map cf_key (filter is_secret fs))"

definition skill_info_of ::
  "(string \<Rightarrow> string list option) \<Rightarrow> 'p admin \<Rightarrow> string \<Rightarrow> setting_row list \<Rightarrow> string list \<Rightarrow> skill_info" where
  "skill_info_of parse s name rows disabled =
     (let merged = apply_settings parse (base_of name s) (row_pairs rows);
          schema = schema_of name s;
          secret = set (secret_rows rows) \<union> set (secret_fields schema)
      in \<lparr>si_name = name, si_loaded = name \<in> set (registry_names s), si_enabled = name \<notin> set disabled, si_schema = schema,
          si_config = (\<lambda>k. if k = http_allowlist_key then None
             else map_option (\<lambda>v. if k \<in> secret then Secret (v \<noteq> []) else Plain v) (sc_config merged k)),
          si_http_allowlist = sc_http_allowlist merged\<rparr>)"

text \<open>The name set: a \<open>BTreeSet\<close>, listed in order. Reading the directory may fail, and then adds nothing.\<close>

definition known_skill_names :: "'p admin \<Rightarrow> setting_row list \<Rightarrow> string list \<Rightarrow> files \<Rightarrow> string list" where
  "known_skill_names s rows disabled dir =
     remdups_adj (sort (map fst (am_base s) @ registry_names s @ map sg_skill rows @ disabled @ wasm_stems dir))"

definition list_skills :: "'p admin_env \<Rightarrow> ('p, api_response) handler" where
  "list_skills ae =
     or_500 (db_read skill_settings_all) (\<lambda>rows.
     or_500 (db_read skills_disabled) (\<lambda>disabled. do {
       s \<leftarrow> gets id;
       dir \<leftarrow> (case am_skills s of
                 None \<Rightarrow> ret (Inr [])
               | Some h \<Rightarrow> attempt (\<lambda>_. ret ()) (ret (sh_files h)));
       ret (Skills (map (\<lambda>name. skill_info_of (ae_parse ae) s name (filter (\<lambda>r. sg_skill r = name) rows) disabled)
              (known_skill_names s rows disabled (case dir of Inl _ \<Rightarrow> [] | Inr fs \<Rightarrow> fs)))) }))"

definition server_status :: "string \<Rightarrow> ('p, api_response) handler" where
  "server_status version = gets (\<lambda>s. ServerStatus version (length (registry_names s)))"

definition list_bundled :: "('p, api_response) handler" where
  "list_bundled = do {
     s \<leftarrow> gets id;
     dir \<leftarrow> (case am_bundled s of None \<Rightarrow> ret (Inr []) | Some fs \<Rightarrow> attempt (\<lambda>_. ret ()) (ret fs));
     ret (Bundled (wasm_stems (case dir of Inl _ \<Rightarrow> [] | Inr fs \<Rightarrow> fs))) }"

section \<open>Reloading\<close>

definition valid_skill_name :: "string \<Rightarrow> bool" where
  "valid_skill_name name \<longleftrightarrow>
     name \<noteq> [] \<and> list_all (\<lambda>c. is_ascii_lowercase c \<or> is_ascii_digit c \<or> c = CHR ''_'' \<or> c = CHR ''-'') name"

definition invalid_skill_name_response :: api_response where
  "invalid_skill_name_response = Refused 400 ''skill name must match [a-z0-9_-]+''"

text \<open>The plugin is built on a blocking task, whose failure to run is the last fault of the script.\<close>

definition run_reload :: "'p admin_env \<Rightarrow> string \<Rightarrow> byte list \<Rightarrow> skill_config \<Rightarrow> ('p, string option) handler" where
  "run_reload ae name bytes merged = State (\<lambda>s.
     case am_skills s of
       None \<Rightarrow> (None, s)
     | Some h \<Rightarrow>
         (let deps = (sh_deps h)\<lparr>sd_per_skill := (sd_per_skill (sh_deps h))(name \<mapsto> merged)\<rparr>;
              (res, evs, r) = reload_path (ae_ops ae) (ae_order ae) (ae_build ae bytes) deps
                                (skill_file_of (sh_dir h) (wasm_name name)) (sh_registry h)
          in (case res of Inl e \<Rightarrow> Some (registry_error_text e) | Inr _ \<Rightarrow> None,
              s\<lparr>am_skills := Some (h\<lparr>sh_registry := r\<rparr>), am_events := am_events s @ evs\<rparr>)))"

definition reload_skill :: "'p admin_env \<Rightarrow> string \<Rightarrow> ('p, string option) handler" where
  "reload_skill ae name = do {
     s \<leftarrow> gets id;
     if am_skills s = None then ret None
     else do {
       d \<leftarrow> db_read skills_disabled;
       case d of
         Inl e \<Rightarrow> ret (Some e)
       | Inr disabled \<Rightarrow>
           if name \<in> set disabled then ret None
           else (case dir_file (wasm_name name) s of
               None \<Rightarrow> ret None
             | Some bytes \<Rightarrow> do {
                 rs \<leftarrow> db_read (skill_settings_for name);
                 case rs of
                   Inl e \<Rightarrow> ret (Some e)
                 | Inr rows \<Rightarrow> do {
                     f \<leftarrow> take_fault;
                     case f of
                       Fault e _ \<Rightarrow> ret (Some e)
                     | Fine \<Rightarrow> run_reload ae name bytes
                         (apply_settings (ae_parse ae) (base_of name s) (row_pairs rows)) } }) } }"

definition enable_skill :: "'p admin_env \<Rightarrow> string \<Rightarrow> ('p, api_response) handler" where
  "enable_skill ae name =
     (if \<not> valid_skill_name name then ret invalid_skill_name_response
      else or_500 (db_write (skill_enabled_set name True)) (\<lambda>_. do { e \<leftarrow> reload_skill ae name; ret (Saved e) }))"

definition disable_skill :: "'p admin_env \<Rightarrow> string \<Rightarrow> ('p, api_response) handler" where
  "disable_skill ae name =
     (if \<not> valid_skill_name name then ret invalid_skill_name_response
      else or_500 (db_write (skill_enabled_set name False)) (\<lambda>_. do {
        _ \<leftarrow> modify (\<lambda>s. s\<lparr>am_skills :=
               map_option (\<lambda>h. h\<lparr>sh_registry := snd (remove_skill (ae_order ae) name (sh_registry h))\<rparr>) (am_skills s)\<rparr>);
        ret (Saved None) }))"

section \<open>Saving a form\<close>

definition reserved :: "string \<Rightarrow> bool" where
  "reserved k = prefix ''$'' k"

text \<open>A blank value of a secret key is skipped; the first failing write ends the loop.\<close>

fun write_values :: "string \<Rightarrow> string set \<Rightarrow> form \<Rightarrow> ('p, string + unit) handler" where
  "write_values name secret [] = ret (Inr ())"
| "write_values name secret ((k, v) # kvs) =
     (if k \<in> secret \<and> trim v = [] then write_values name secret kvs
      else do {
        r \<leftarrow> db_write (skill_setting_set name k v (k \<in> secret));
        case r of Inl e \<Rightarrow> ret (Inl e) | Inr _ \<Rightarrow> write_values name secret kvs })"

definition write_allowlist :: "'p admin_env \<Rightarrow> string \<Rightarrow> config_schema option \<Rightarrow> ('p, string + unit) handler" where
  "write_allowlist ae name schema =
     (case schema of
        None \<Rightarrow> ret (Inr ())
      | Some fs \<Rightarrow> do {
          rs \<leftarrow> db_read (skill_settings_for name);
          case rs of
            Inl e \<Rightarrow> ret (Inl e)
          | Inr rows \<Rightarrow> do {
              s \<leftarrow> gets id;
              (let hosts = derived_allowlist fs (sc_config (apply_settings (ae_parse ae) (base_of name s) (row_pairs rows)))
               in if hosts = [] then ret (Inr ())
                  else db_write (skill_setting_set name http_allowlist_key (ae_render ae hosts) False)) } })"

definition put_config :: "'p admin_env \<Rightarrow> string \<Rightarrow> form \<Rightarrow> ('p, api_response) handler" where
  "put_config ae name values =
     (if \<not> valid_skill_name name then ret invalid_skill_name_response
      else do {
        schema \<leftarrow> gets (schema_of name);
        case validate (ae_items ae) schema values of
          Inl msg \<Rightarrow> ret (Refused 400 msg)
        | Inr _ \<Rightarrow>
            (case List.find reserved (map fst values) of
               Some bad \<Rightarrow> ret (Refused 400 (quoted bad @ '' is a reserved key''))
             | None \<Rightarrow>
                 or_500 (db_read (skill_settings_for name)) (\<lambda>rows.
                 or_500 (write_values name (set (secret_fields schema) \<union> set (secret_rows rows)) values) (\<lambda>_.
                 or_500 (write_allowlist ae name schema) (\<lambda>_. do {
                   e \<leftarrow> reload_skill ae name;
                   ret (Saved e) })))) })"

section \<open>Installing\<close>

text \<open>The quarantine rule: a file that is new and whose skill does not load is removed.\<close>

definition install_file :: "'p admin_env \<Rightarrow> string \<Rightarrow> byte list \<Rightarrow> (string option \<Rightarrow> bool \<Rightarrow> api_response) \<Rightarrow> ('p, api_response) handler" where
  "install_file ae name bytes answer = do {
     existed \<leftarrow> gets (\<lambda>s. dir_file (wasm_name name) s \<noteq> None);
     or_500 (write_file (wasm_name name) bytes) (\<lambda>_.
     or_500 (db_write (skill_enabled_set name True)) (\<lambda>_. do {
       e \<leftarrow> reload_skill ae name;
       (let removed = (e \<noteq> None \<and> \<not> existed)
        in if removed then do { _ \<leftarrow> remove_file (wasm_name name); ret (answer e True) }
           else ret (answer e False)) })) }"

record upload_part =
  up_name :: "string option"
  up_file :: "string option"
  up_bytes :: "string + byte list"

fun upload_skill :: "'p admin_env \<Rightarrow> (string + upload_part) list \<Rightarrow> ('p, api_response) handler" where
  "upload_skill ae [] = ret (Refused 400 ''missing multipart field `file`'')"
| "upload_skill ae (Inl e # ps) = ret (Refused 400 ''missing multipart field `file`'')"
| "upload_skill ae (Inr p # ps) =
     (if up_name p \<noteq> Some ''file'' then upload_skill ae ps
      else case strip_suffix ''.wasm'' (case up_file p of Some f \<Rightarrow> f | None \<Rightarrow> []) of
          None \<Rightarrow> ret (Refused 400 ''file name must end in .wasm'')
        | Some name \<Rightarrow>
            if \<not> valid_skill_name name then ret invalid_skill_name_response
            else do {
              s \<leftarrow> gets id;
              if am_skills s = None then ret (Refused 409 ''no skills directory configured'')
              else (case up_bytes p of
                  Inl e \<Rightarrow> ret (Refused 500 e)
                | Inr bytes \<Rightarrow> install_file ae name bytes (Uploaded name)) })"

definition install_bundled :: "'p admin_env \<Rightarrow> string \<Rightarrow> ('p, api_response) handler" where
  "install_bundled ae name =
     (if \<not> valid_skill_name name then ret invalid_skill_name_response
      else do {
        s \<leftarrow> gets id;
        case (am_bundled s, am_skills s) of
          (Some bundled, Some h) \<Rightarrow>
            (case map_of bundled (wasm_name name) of
               None \<Rightarrow> ret (Refused 404 ''unknown bundled skill'')
             | Some bytes \<Rightarrow> install_file ae name bytes Installed)
        | _ \<Rightarrow> ret (Refused 409 ''bundled skills not configured'') })"

section \<open>Running a handler\<close>

named_theorems runs \<open>what a step of a handler answers and leaves\<close>

lemma run_bind [runs]: "run_state (m \<bind> f) s = (case run_state m s of (a, t) \<Rightarrow> run_state (f a) t)"
  by (simp add: State_Monad.bind_def)

lemma run_gets [runs]: "run_state (gets f) s = (f s, s)"
  by (simp add: gets_def)

lemma run_modify [runs]: "run_state (modify f) s = ((), f s)"
  by (simp add: modify_def)

lemma run_ret [runs]: "run_state (ret a) s = (a, s)"
  by (simp add: State_Monad.return_def)

lemma run_attempt [runs]:
  "run_state (attempt u m) s =
     (case am_faults s of
        [] \<Rightarrow> (case run_state m s of (a, t) \<Rightarrow> (Inr a, t))
      | Fine # fs \<Rightarrow> (case run_state m (s\<lparr>am_faults := fs\<rparr>) of (a, t) \<Rightarrow> (Inr a, t))
      | Fault e l # fs \<Rightarrow> (Inl e, snd (run_state (u l) (s\<lparr>am_faults := fs\<rparr>))))"
  by (auto simp: attempt_def take_fault_def runs split: list.split fault.split prod.split)

lemma run_or_500:
  assumes "run_state (or_500 m k) s = (r, t)"
  obtains (refused) e where "r = Refused 500 e" "run_state m s = (Inl e, t)"
    | (passed) a s1 where "run_state m s = (Inr a, s1)" "run_state (k a) s1 = (r, t)"
  using assms by (auto simp: or_500_def runs split: sum.splits prod.splits)

text \<open>All but the fault script.\<close>

definition stands :: "'p admin \<Rightarrow> 'p admin \<Rightarrow> bool" where
  "stands s t \<longleftrightarrow> (\<exists>fs. t = s\<lparr>am_faults := fs\<rparr>)"

lemma standsD: "stands s t \<Longrightarrow> am_db t = am_db s \<and> am_skills t = am_skills s \<and> am_base t = am_base s \<and> am_bundled t = am_bundled s"
  by (auto simp: stands_def)

lemma stands_refl [simp]: "stands s s" "stands s (s\<lparr>am_faults := fs\<rparr>)"
  by (auto simp: stands_def intro: exI [of _ "am_faults s"])

lemma run_db_read: "run_state (db_read f) s = (r, t) \<Longrightarrow> stands s t \<and> (\<forall>a. r = Inr a \<longrightarrow> a = f (am_db s))"
  by (auto simp: db_read_def runs split: list.splits fault.splits)

lemma stands_db: "stands (s\<lparr>am_db := d\<rparr>) (s\<lparr>am_faults := fs, am_db := d\<rparr>)"
  by (auto simp: stands_def intro: exI [of _ fs])

lemma run_db_write:
  "run_state (db_write f) s = (r, t) \<Longrightarrow>
     case r of Inl _ \<Rightarrow> stands s t | Inr _ \<Rightarrow> stands (s\<lparr>am_db := f (am_db s)\<rparr>) t"
  by (auto simp: db_write_def runs stands_db split: list.splits fault.splits)

section \<open>A saved form\<close>

definition stored :: "string \<Rightarrow> string \<Rightarrow> 'p admin \<Rightarrow> (string \<times> bool) option" where
  "stored n k s = map_of (settings (am_db s)) (n, k)"

lemma stored_stands: "stands s t \<Longrightarrow> stored n k t = stored n k s"
  by (auto simp: stored_def stands_def)

lemma stored_set:
  "stands (s\<lparr>am_db := skill_setting_set name key v sec (am_db s)\<rparr>) t \<Longrightarrow>
     stored n k t = (if n = name \<and> k = key then Some (v, sec) else stored n k s)"
  by (auto simp: stored_def stands_def skill_setting_set_def update_conv')

text \<open>The keys a form writes: those it gives a value, unless that is blank and the key secret.\<close>

definition written_keys :: "string set \<Rightarrow> form \<Rightarrow> string set" where
  "written_keys secret kvs = {k. \<exists>v. (k, v) \<in> set kvs \<and> \<not> (k \<in> secret \<and> trim v = [])}"

lemma written_keys_Cons:
  "written_keys secret ((k, v) # kvs) = (if k \<in> secret \<and> trim v = [] then {} else {k}) \<union> written_keys secret kvs"
  by (auto simp: written_keys_def)

text \<open>What a write keeps, however it ends: the rest of the server, other rows, and blank secrets.\<close>

definition keeps :: "string \<Rightarrow> string set \<Rightarrow> 'p admin \<Rightarrow> 'p admin \<Rightarrow> bool" where
  "keeps name K s t \<longleftrightarrow> am_skills t = am_skills s \<and> am_base t = am_base s
     \<and> skill_state (am_db t) = skill_state (am_db s)
     \<and> (settings_ok (am_db s) \<longrightarrow> settings_ok (am_db t))
     \<and> (\<forall>n k. n \<noteq> name \<or> k \<notin> K \<longrightarrow> stored n k t = stored n k s)"

lemma keeps_refl [simp]: "keeps name K s s"
  by (simp add: keeps_def)

lemma keeps_trans: "keeps name K s t \<Longrightarrow> keeps name K t u \<Longrightarrow> keeps name K s u"
  by (auto simp: keeps_def)

lemma keeps_mono: "keeps name K s t \<Longrightarrow> K \<subseteq> L \<Longrightarrow> keeps name L s t"
  by (auto simp: keeps_def)

lemma stands_keeps: "stands s t \<Longrightarrow> keeps name K s t"
  by (auto simp: keeps_def stands_def stored_def)

lemma set_keeps:
  assumes "run_state (db_write (skill_setting_set name k v sec)) s = (r, t)"
  shows "keeps name {k} s t"
proof (cases r)
  case (Inl e)
  then show ?thesis using run_db_write [OF assms] by (auto intro: stands_keeps)
next
  case (Inr u)
  then have st: "stands (s\<lparr>am_db := skill_setting_set name k v sec (am_db s)\<rparr>) t" using run_db_write [OF assms] by simp
  then show ?thesis
    using stored_set [OF st] by (auto simp: keeps_def stands_def skill_setting_set_def settings_ok_def distinct_update)
qed

lemma write_values_keeps:
  "run_state (write_values name secret kvs) s = (r, t) \<Longrightarrow> keeps name (written_keys secret kvs) s t"
proof (induction kvs arbitrary: s)
  case Nil
  then show ?case by (simp add: runs)
next
  case (Cons kv kvs)
  obtain k v where kv: "kv = (k, v)" by (cases kv)
  have sub: "written_keys secret kvs \<subseteq> written_keys secret (kv # kvs)" by (auto simp: kv written_keys_Cons)
  show ?case
  proof (cases "k \<in> secret \<and> trim v = []")
    case True
    then have "run_state (write_values name secret kvs) s = (r, t)" using Cons.prems kv by simp
    then show ?thesis using Cons.IH keeps_mono [OF _ sub] by blast
  next
    case False
    then have k: "{k} \<subseteq> written_keys secret (kv # kvs)" by (auto simp: kv written_keys_Cons)
    obtain r1 s1 where w: "run_state (db_write (skill_setting_set name k v (k \<in> secret))) s = (r1, s1)" by fastforce
    have first: "keeps name (written_keys secret (kv # kvs)) s s1" by (rule keeps_mono [OF set_keeps [OF w] k])
    have "keeps name (written_keys secret (kv # kvs)) s1 t"
    proof (cases r1)
      case (Inl e)
      then show ?thesis using Cons.prems kv False w by (auto simp: runs)
    next
      case (Inr u)
      then have "run_state (write_values name secret kvs) s1 = (r, t)" using Cons.prems kv False w by (auto simp: runs)
      then show ?thesis using Cons.IH keeps_mono [OF _ sub] by blast
    qed
    then show ?thesis using first keeps_trans by blast
  qed
qed

lemma write_values_stored:
  assumes "run_state (write_values name secret kvs) s = (Inr u, t)" "distinct (map fst kvs)"
  shows "stored name k t =
    (case map_of kvs k of None \<Rightarrow> stored name k s
     | Some v \<Rightarrow> if k \<in> secret \<and> trim v = [] then stored name k s else Some (v, k \<in> secret))"
  using assms
proof (induction kvs arbitrary: s)
  case Nil
  then show ?case by (simp add: runs)
next
  case (Cons kv kvs)
  obtain key v where kv: "kv = (key, v)" by (cases kv)
  have key: "map_of kvs key = None" using Cons.prems(2) by (simp add: kv map_of_eq_None_iff)
  show ?case
  proof (cases "key \<in> secret \<and> trim v = []")
    case True
    with Cons.prems Cons.IH [of s] key show ?thesis by (auto simp: kv)
  next
    case False
    obtain r1 s1 where w: "run_state (db_write (skill_setting_set name key v (key \<in> secret))) s = (r1, s1)" by fastforce
    then obtain u1 where r1: "r1 = Inr u1" and rest: "run_state (write_values name secret kvs) s1 = (Inr u, t)"
      using Cons.prems(1) False by (cases r1) (auto simp: kv runs)
    have "stands (s\<lparr>am_db := skill_setting_set name key v (key \<in> secret) (am_db s)\<rparr>) s1"
      using run_db_write [OF w] by (simp add: r1)
    then have "stored name k s1 = (if k = key then Some (v, key \<in> secret) else stored name k s)"
      by (auto dest: stored_set [of _ _ _ _ _ _ name k])
    then show ?thesis using Cons.IH [OF rest] Cons.prems(2) key False by (auto simp: kv split: option.splits)
  qed
qed

text \<open>The configuration a reload would use, in terms of the stored rows.\<close>

definition merged_config :: "'p admin_env \<Rightarrow> string \<Rightarrow> 'p admin \<Rightarrow> skill_config" where
  "merged_config ae name s =
     apply_settings (ae_parse ae) (base_of name s) (row_pairs (skill_settings_for name (am_db s)))"

lemma merged_stands: "stands s t \<Longrightarrow> merged_config ae name t = merged_config ae name s"
  by (auto simp: stands_def merged_config_def base_of_def)

lemma rows_map_keys:
  assumes "rows_ok n rows"
  shows "map_of (row_pairs rows) k = map_option fst (rows_map rows k)"
  unfolding row_pairs_def rows_map_def by (induction rows) auto

lemma last_row_rows:
  assumes "rows_ok n rows"
  shows "last_row (row_pairs rows) k = map_option fst (rows_map rows k)"
proof -
  have "distinct (map sg_key rows)" using assms by (auto simp: rows_ok_def strict_sorted_iff)
  then have "distinct (map fst (row_pairs rows))" by (simp add: row_pairs_def comp_def)
  then have "map_of (rev (row_pairs rows)) k = map_of (row_pairs rows) k"
    by (metis map_of_eqI distinct_map distinct_rev map_of_eq_Some_iff not_None_eq option.exhaust rev_map set_rev)
  then show ?thesis using rows_map_keys [OF assms] by (simp add: last_row_def)
qed

lemma merged_value:
  assumes "settings_ok (am_db s)"
  shows "sc_config (merged_config ae name s) k =
    (if k = http_allowlist_key then sc_config (base_of name s) k
     else case stored name k s of Some (v, _) \<Rightarrow> Some v | None \<Rightarrow> sc_config (base_of name s) k)"
  using sqlite_rows_ok [OF assms, of name] sqlite_settings_map [OF assms, of name k]
  by (auto simp: merged_config_def apply_settings_config last_row_rows stored_def split: option.splits prod.splits)

lemma secret_rows_stored:
  assumes "settings_ok (am_db s)"
  shows "k \<in> set (secret_rows (skill_settings_for name (am_db s))) \<longleftrightarrow> (\<exists>v. stored name k s = Some (v, True))"
proof -
  let ?rows = "skill_settings_for name (am_db s)"
  have ok: "rows_ok name ?rows" using assms by (rule sqlite_rows_ok)
  have "distinct (map fst (map (\<lambda>r. (sg_key r, (sg_value r, sg_secret r))) ?rows))"
    using ok by (auto simp: rows_ok_def strict_sorted_iff comp_def)
  from map_of_eq_Some_iff [OF this]
  have "rows_map ?rows k = Some (v, True) \<longleftrightarrow> (\<exists>r \<in> set ?rows. sg_key r = k \<and> sg_value r = v \<and> sg_secret r)" for v
    by (auto simp: rows_map_def)
  then show ?thesis using sqlite_settings_map [OF assms, of name k] by (auto simp: secret_rows_def stored_def)
qed

lemma write_allowlist_run:
  assumes "run_state (write_allowlist ae name schema) s = (r, t)"
  shows "keeps name {http_allowlist_key} s t
    \<and> (\<forall>u. r = Inr u \<longrightarrow> stored name http_allowlist_key t =
         (case schema of None \<Rightarrow> stored name http_allowlist_key s
          | Some fs \<Rightarrow>
              (let hosts = derived_allowlist fs (sc_config (merged_config ae name s))
               in if hosts = [] then stored name http_allowlist_key s else Some (ae_render ae hosts, False))))"
proof (cases schema)
  case None
  then show ?thesis using assms by (simp add: write_allowlist_def runs)
next
  case (Some fs)
  obtain r1 s1 where rd: "run_state (db_read (skill_settings_for name)) s = (r1, s1)" by fastforce
  show ?thesis
  proof (cases r1)
    case (Inl e)
    then show ?thesis using assms Some rd run_db_read [OF rd] by (auto simp: write_allowlist_def runs stands_keeps)
  next
    case (Inr rows)
    have st: "stands s s1" and rows: "rows = skill_settings_for name (am_db s)" using run_db_read [OF rd] Inr by auto
    then have m: "apply_settings (ae_parse ae) (base_of name s1) (row_pairs rows) = merged_config ae name s"
      by (auto simp: merged_config_def base_of_def dest: standsD)
    let ?hosts = "derived_allowlist fs (sc_config (merged_config ae name s))"
    show ?thesis
    proof (cases "?hosts = []")
      case True
      then show ?thesis using assms Some rd Inr st by (auto simp: write_allowlist_def runs m stands_keeps stored_stands)
    next
      case False
      then have w: "run_state (db_write (skill_setting_set name http_allowlist_key (ae_render ae ?hosts) False)) s1 = (r, t)"
        using assms Some rd Inr by (simp add: write_allowlist_def runs m)
      have "keeps name {http_allowlist_key} s t" using keeps_trans [OF stands_keeps [OF st] set_keeps [OF w]] .
      moreover have "stored name http_allowlist_key t = Some (ae_render ae ?hosts, False)" if "r = Inr u" for u
        using run_db_write [OF w] that by (auto dest: stored_set [of _ _ _ _ _ _ name http_allowlist_key])
      ultimately show ?thesis using Some False by simp
    qed
  qed
qed

lemma run_reload_keeps:
  "run_state (run_reload ae name bytes cfg) s = (e, t) \<Longrightarrow>
     am_db t = am_db s \<and> am_base t = am_base s \<and> am_bundled t = am_bundled s \<and> (\<forall>f. dir_file f t = dir_file f s)"
  by (auto simp: run_reload_def dir_file_def split: option.splits prod.splits)

lemma reload_skill_cases:
  assumes "run_state (reload_skill ae name) s = (e, t)"
  obtains (skipped) "stands s t"
      "e = None \<longrightarrow> am_skills s = None \<or> name \<in> set (skills_disabled (am_db s)) \<or> dir_file (wasm_name name) s = None"
    | (ran) bytes s1 where "stands s s1" "dir_file (wasm_name name) s = Some bytes" "name \<notin> set (skills_disabled (am_db s))"
      "run_state (run_reload ae name bytes (merged_config ae name s)) s1 = (e, t)"
proof (cases "am_skills s")
  case None
  then show ?thesis using assms skipped by (auto simp: reload_skill_def runs)
next
  case (Some h)
  obtain r1 s1 where rd: "run_state (db_read skills_disabled) s = (r1, s1)" by fastforce
  note f1 = run_db_read [OF rd]
  consider (err) e1 where "r1 = Inl e1" | (off) ds where "r1 = Inr ds" "name \<in> set ds"
    | (gone) ds where "r1 = Inr ds" "name \<notin> set ds" "dir_file (wasm_name name) s = None"
    | (go) ds bytes where "r1 = Inr ds" "name \<notin> set ds" "dir_file (wasm_name name) s = Some bytes"
    by (metis option.exhaust sum.exhaust)
  then show ?thesis
  proof cases
    case (go ds bytes)
    obtain r2 s2 where rd2: "run_state (db_read (skill_settings_for name)) s1 = (r2, s2)" by fastforce
    note f2 = run_db_read [OF rd2]
    have st2: "stands s s2" using f1 f2 by (auto simp: stands_def)
    show ?thesis
    proof (cases r2)
      case (Inl e1)
      then show ?thesis using assms Some rd rd2 go st2 skipped by (auto simp: reload_skill_def runs)
    next
      case (Inr rows)
      have m: "apply_settings (ae_parse ae) (base_of name s) (row_pairs rows) = merged_config ae name s"
        using f1 f2 Inr by (auto simp: merged_config_def dest: standsD)
      obtain f s3 where tf: "run_state take_fault s2 = (f, s3)" by fastforce
      have st3: "stands s s3" using tf st2 by (auto simp: take_fault_def stands_def split: list.splits)
      show ?thesis
      proof (cases f)
        case Fine
        then have "run_state (run_reload ae name bytes (merged_config ae name s)) s3 = (e, t)"
          using assms Some rd rd2 go Inr tf by (simp add: reload_skill_def runs m)
        then show ?thesis using ran st3 go f1 by auto
      next
        case (Fault e1 l)
        then show ?thesis using assms Some rd rd2 go Inr tf st3 skipped by (auto simp: reload_skill_def runs)
      qed
    qed
  qed (use assms Some rd f1 skipped in \<open>auto simp: reload_skill_def runs\<close>)
qed

text \<open>Without a failing call nothing stops a save or a reload.\<close>

lemma reload_quiet:
  assumes "am_faults s = []" "am_skills s \<noteq> None" "name \<notin> set (skills_disabled (am_db s))" "dir_file (wasm_name name) s = Some bytes"
  shows "run_state (reload_skill ae name) s = run_state (run_reload ae name bytes (merged_config ae name s)) s"
  using assms by (auto simp: reload_skill_def runs db_read_def take_fault_def merged_config_def)

lemma write_values_quiet:
  "am_faults s = [] \<Longrightarrow> \<exists>t. run_state (write_values name secret kvs) s = (Inr (), t) \<and> am_faults t = []"
proof (induction kvs arbitrary: s)
  case (Cons kv kvs)
  then show ?case by (cases kv) (simp add: runs db_write_def)
qed (simp add: runs)

lemma write_allowlist_quiet:
  "am_faults s = [] \<Longrightarrow> \<exists>t. run_state (write_allowlist ae name schema) s = (Inr (), t) \<and> am_faults t = []"
  by (cases schema) (simp_all add: write_allowlist_def runs db_read_def db_write_def Let_def)

lemma reload_skill_keeps:
  assumes "run_state (reload_skill ae name) s = (e, t)"
  shows "am_db t = am_db s \<and> am_base t = am_base s \<and> (\<forall>f. dir_file f t = dir_file f s)"
  using assms
proof (cases rule: reload_skill_cases)
  case skipped
  then show ?thesis by (auto dest: standsD simp: dir_file_def)
next
  case (ran bytes s1)
  then show ?thesis using run_reload_keeps [OF ran(4)] by (auto dest: standsD simp: dir_file_def)
qed

text \<open>The keys the form treats as secret, and what a saved form leaves.\<close>

definition secret_keys :: "string \<Rightarrow> 'p admin \<Rightarrow> string set" where
  "secret_keys name s = set (secret_fields (schema_of name s)) \<union> {k. \<exists>v. stored name k s = Some (v, True)}"

lemma put_config_cases:
  assumes "settings_ok (am_db s)" "run_state (put_config ae name values) s = (resp, t)"
  obtains (rejected) msg where "resp = Refused 400 msg" "t = s"
    | (failed) e where "resp = Refused 500 e" "keeps name (written_keys (secret_keys name s) values \<union> {http_allowlist_key}) s t"
    | (saved) e s1 s2 s3 where "resp = Saved e" "stands s s1" "valid_skill_name name"
        "validate (ae_items ae) (schema_of name s) values = Inr ()" "\<not> list_ex reserved (map fst values)"
        "run_state (write_values name (secret_keys name s) values) s1 = (Inr (), s2)"
        "run_state (write_allowlist ae name (schema_of name s)) s2 = (Inr (), s3)"
        "run_state (reload_skill ae name) s3 = (e, t)"
proof (cases "valid_skill_name name \<and> validate (ae_items ae) (schema_of name s) values = Inr ()
    \<and> List.find reserved (map fst values) = None")
  case False
  then have "resp \<in> range (Refused 400) \<and> t = s"
    using assms(2)
    by (cases "validate (ae_items ae) (schema_of name s) values"; cases "List.find reserved (map fst values)")
       (auto simp: put_config_def runs invalid_skill_name_response_def split: if_splits)
  then show ?thesis using rejected by auto
next
  case True
  let ?W = "written_keys (secret_keys name s) values \<union> {http_allowlist_key}"
  define rest where "rest rows = or_500 (write_values name (set (secret_fields (schema_of name s)) \<union> set (secret_rows rows)) values) (\<lambda>_.
      or_500 (write_allowlist ae name (schema_of name s)) (\<lambda>_. do { e \<leftarrow> reload_skill ae name; ret (Saved e) }))" for rows
  have res: "\<not> list_ex reserved (map fst values)" using True by (auto simp: find_None_iff list_ex_iff)
  have "run_state (or_500 (db_read (skill_settings_for name)) rest) s = (resp, t)"
    using assms(2) True by (simp add: put_config_def runs rest_def [abs_def])
  then show ?thesis
  proof (cases rule: run_or_500)
    case (refused e)
    then show ?thesis using failed run_db_read [of "skill_settings_for name" s] stands_keeps by blast
  next
    case (passed rows s1)
    have st: "stands s s1" and rows: "rows = skill_settings_for name (am_db s)" using run_db_read [OF passed(1)] by auto
    have sec: "set (secret_fields (schema_of name s)) \<union> set (secret_rows rows) = secret_keys name s"
      using secret_rows_stored [OF assms(1)] by (auto simp: secret_keys_def rows)
    from passed(2)[unfolded rest_def sec] show ?thesis
    proof (cases rule: run_or_500)
      case (refused e)
      then show ?thesis
        using failed keeps_trans [OF stands_keeps [OF st] keeps_mono [OF write_values_keeps [OF refused(2)]]] by auto
    next
      case (passed u s2)
      have k2: "keeps name ?W s s2"
        using keeps_trans [OF stands_keeps [OF st] keeps_mono [OF write_values_keeps [OF passed(1)]]] by auto
      from passed(2) show ?thesis
      proof (cases rule: run_or_500)
        case (refused e)
        then show ?thesis using failed keeps_trans [OF k2 keeps_mono] write_allowlist_run [OF refused(2)] by blast
      next
        case (passed u' s3)
        then show ?thesis using saved [of _ s1 s2 s3] st True res \<open>run_state (write_values _ _ _) s1 = _\<close>
          by (auto simp: runs split: prod.splits)
      qed
    qed
  qed
qed

lemma base_of_cong: "am_base s = am_base t \<Longrightarrow> base_of name s = base_of name t"
  by (simp add: base_of_def)

lemma merged_ignores_allowlist:
  assumes "settings_ok (am_db s)" "keeps name {http_allowlist_key} s t"
  shows "sc_config (merged_config ae name t) = sc_config (merged_config ae name s)"
proof
  fix k
  have "settings_ok (am_db t)" "base_of name t = base_of name s" using assms by (auto simp: keeps_def base_of_def)
  then show "sc_config (merged_config ae name t) k = sc_config (merged_config ae name s) k"
    using assms by (auto simp: merged_value keeps_def split: option.splits)
qed

text \<open>What a successful save leaves, before the reload.\<close>

lemma saved_rows:
  assumes ok: "settings_ok (am_db s)" and d: "distinct (map fst values)" and st: "stands s s1"
    and w: "run_state (write_values name (secret_keys name s) values) s1 = (Inr (), s2)"
    and a: "run_state (write_allowlist ae name schema) s2 = (Inr (), s3)"
    and res: "\<not> list_ex reserved (map fst values)"
  shows "keeps name (written_keys (secret_keys name s) values \<union> {http_allowlist_key}) s s3"
    and "map_of values k = Some v \<Longrightarrow> k \<in> written_keys (secret_keys name s) values
      \<Longrightarrow> stored name k s3 = Some (v, k \<in> secret_keys name s)"
    and "stored name http_allowlist_key s3 =
      (case schema of None \<Rightarrow> stored name http_allowlist_key s
       | Some fs \<Rightarrow> (let hosts = derived_allowlist fs (sc_config (merged_config ae name s3))
           in if hosts = [] then stored name http_allowlist_key s else Some (ae_render ae hosts, False)))"
proof -
  note wk = write_values_keeps [OF w] and ar = write_allowlist_run [OF a]
  have k2: "keeps name (written_keys (secret_keys name s) values) s s2" by (rule keeps_trans [OF stands_keeps [OF st] wk])
  show "keeps name (written_keys (secret_keys name s) values \<union> {http_allowlist_key}) s s3"
    by (rule keeps_trans [OF keeps_mono [OF k2] keeps_mono]) (use ar in auto)
  have nor: "k \<noteq> http_allowlist_key" if "k \<in> fst ` set values" for k
    using res that by (auto simp: list_ex_iff reserved_def http_allowlist_key_def)
  show "stored name k s3 = Some (v, k \<in> secret_keys name s)"
    if "map_of values k = Some v" "k \<in> written_keys (secret_keys name s) values" for k v
  proof -
    have kv: "(k, v) \<in> set values" using that(1) by (rule map_of_SomeD)
    then have "k \<noteq> http_allowlist_key" using nor by force
    then have "stored name k s3 = stored name k s2" using ar by (simp add: keeps_def)
    moreover have "\<not> (k \<in> secret_keys name s \<and> trim v = [])"
      using that(2) kv d by (auto simp: written_keys_def dest: eq_key_imp_eq_value)
    ultimately show ?thesis using write_values_stored [OF w d, of k] that(1) by auto
  qed
  have "http_allowlist_key \<notin> written_keys (secret_keys name s) values"
    using nor by (force simp: written_keys_def)
  then have s2: "stored name http_allowlist_key s2 = stored name http_allowlist_key s" using k2 by (simp add: keeps_def)
  have "settings_ok (am_db s2)" using k2 ok by (simp add: keeps_def)
  then have "sc_config (merged_config ae name s3) = sc_config (merged_config ae name s2)"
    using ar by (intro merged_ignores_allowlist) simp_all
  then show "stored name http_allowlist_key s3 =
      (case schema of None \<Rightarrow> stored name http_allowlist_key s
       | Some fs \<Rightarrow> (let hosts = derived_allowlist fs (sc_config (merged_config ae name s3))
           in if hosts = [] then stored name http_allowlist_key s else Some (ae_render ae hosts, False)))"
    using ar s2 by (auto simp: Let_def split: option.splits)
qed

lemma put_config_quiet:
  assumes "am_faults s = []" "settings_ok (am_db s)" "valid_skill_name name"
    "validate (ae_items ae) (schema_of name s) values = Inr ()" "\<not> list_ex reserved (map fst values)"
  obtains e t s1 where "run_state (put_config ae name values) s = (Saved e, t)" "am_faults s1 = []"
    "keeps name (written_keys (secret_keys name s) values \<union> {http_allowlist_key}) s s1"
    "run_state (reload_skill ae name) s1 = (e, t)"
proof -
  let ?secret = "set (secret_fields (schema_of name s)) \<union> set (secret_rows (skill_settings_for name (am_db s)))"
  have sec: "?secret = secret_keys name s" using secret_rows_stored [OF assms(2)] by (auto simp: secret_keys_def)
  obtain s1 where w: "run_state (write_values name ?secret values) s = (Inr (), s1)" "am_faults s1 = []"
    using write_values_quiet [OF assms(1)] by blast
  obtain s2 where a: "run_state (write_allowlist ae name (schema_of name s)) s1 = (Inr (), s2)" "am_faults s2 = []"
    using write_allowlist_quiet [OF w(2)] by blast
  obtain e t where r: "run_state (reload_skill ae name) s2 = (e, t)" by fastforce
  have "List.find reserved (map fst values) = None" using assms(5) by (simp add: find_None_iff list_ex_iff)
  then have run: "run_state (put_config ae name values) s = (Saved e, t)"
    using assms w a r by (simp add: put_config_def or_500_def runs db_read_def)
  have "keeps name (written_keys (secret_keys name s) values \<union> {http_allowlist_key}) s s2"
    by (rule keeps_trans [OF keeps_mono [OF write_values_keeps [OF w(1), unfolded sec]]
          keeps_mono [OF conjunct1 [OF write_allowlist_run [OF a(1)]]]]) auto
  then show thesis using that run a(2) r by blast
qed


section \<open>The configured host is reachable\<close>

lemma set_derived_allowlist:
  "f \<in> set schema \<Longrightarrow> set (field_hosts values f) \<subseteq> set (derived_allowlist schema values)"
  by (auto simp: derived_allowlist_def)

lemma is_wasm: "valid_skill_name name \<Longrightarrow> split_ext (wasm_name name) = (name, Some ''wasm'')"
  by (auto simp: split_ext_def wasm_name_def valid_skill_name_def Let_def)

lemma run_reload_loads:
  assumes "run_state (run_reload ae name bytes cfg) s = (None, t)" "am_skills s \<noteq> None" "valid_skill_name name"
  shows "\<exists>h sl ctx. am_skills t = Some h \<and> map_of (plugins (sh_registry h)) name = Some sl \<and> sl_ctx sl = Some ctx
    \<and> sk_name ctx = name \<and> sk_http_allowlist ctx = sc_http_allowlist cfg \<and> sk_config ctx = sc_config cfg"
  using assms
  by (auto simp: run_reload_def reload_path_def build_plugin_from_file_def skill_file_of_def is_wasm install_def rebuild_index_def
      Let_def update_conv' split: option.splits prod.splits sum.splits if_splits)

lemma allowlist_last:
  "last_row rows http_allowlist_key = Some v \<Longrightarrow> parse v = Some hosts \<Longrightarrow> sc_http_allowlist (apply_settings parse base rows) = hosts"
proof (induction rows rule: rev_induct)
  case (snoc r rows)
  then show ?case by (cases r) (auto simp: last_row_def split: if_splits)
qed (simp add: last_row_def)

lemma merged_allowlist:
  assumes "settings_ok (am_db s)" "stored name http_allowlist_key s = Some (ae_render ae hosts, b)"
    "ae_parse ae (ae_render ae hosts) = Some hosts"
  shows "sc_http_allowlist (merged_config ae name s) = hosts"
  unfolding merged_config_def
  by (rule allowlist_last)
     (use assms sqlite_rows_ok [OF assms(1), of name] sqlite_settings_map [OF assms(1), of name http_allowlist_key]
      in \<open>simp_all add: last_row_rows stored_def\<close>)


section \<open>Installed files\<close>

lemma dir_set_file: "dir_file f (set_file w bs s) = (if f = w \<and> am_skills s \<noteq> None then Some bs else dir_file f s)"
  by (cases "am_skills s") (auto simp: dir_file_def set_file_def update_conv')

lemma dir_drop_file: "dir_file f (drop_file w s) = (if f = w then None else dir_file f s)"
  by (cases "am_skills s") (auto simp: dir_file_def drop_file_def delete_conv')

lemma dir_db [simp]: "dir_file f (s\<lparr>am_db := d\<rparr>) = dir_file f s" "dir_file f (s\<lparr>am_faults := fs\<rparr>) = dir_file f s"
  by (simp_all add: dir_file_def)

lemma write_file_other: "run_state (write_file w bs) s = (r, t) \<Longrightarrow> f \<noteq> w \<Longrightarrow> dir_file f t = dir_file f s"
  by (auto simp: write_file_def runs dir_set_file split: list.splits fault.splits option.splits)

lemma remove_file_other: "run_state (remove_file w) s = (r, t) \<Longrightarrow> f \<noteq> w \<Longrightarrow> dir_file f t = dir_file f s"
  by (auto simp: remove_file_def runs dir_drop_file split: list.splits fault.splits option.splits)

lemma db_write_files: "run_state (db_write g) s = (r, t) \<Longrightarrow> dir_file f t = dir_file f s"
  by (auto simp: db_write_def runs split: list.splits fault.splits)

lemma install_file_other:
  assumes "run_state (install_file ae name bytes answer) s = (resp, t)" "f \<noteq> wasm_name name"
  shows "dir_file f t = dir_file f s"
proof -
  define ex where "ex = (dir_file (wasm_name name) s \<noteq> None)"
  define last where "last = (\<lambda>_ :: unit. do {
       e \<leftarrow> reload_skill ae name;
       (let removed = (e \<noteq> None \<and> \<not> ex)
        in if removed then do { _ \<leftarrow> remove_file (wasm_name name); ret (answer e True) } else ret (answer e False)) })"
  have "run_state (or_500 (write_file (wasm_name name) bytes) (\<lambda>_. or_500 (db_write (skill_enabled_set name True)) last)) s = (resp, t)"
    using assms(1) by (simp add: install_file_def runs ex_def last_def)
  then show ?thesis
  proof (cases rule: run_or_500)
    case (refused e)
    then show ?thesis using write_file_other assms(2) by blast
  next
    case (passed u s1)
    have d1: "dir_file f s1 = dir_file f s" using write_file_other [OF passed(1) assms(2)] .
    from passed(2) show ?thesis
    proof (cases rule: run_or_500)
      case (refused e)
      then show ?thesis using db_write_files d1 by metis
    next
      case (passed u2 s2)
      obtain e s3 where r: "run_state (reload_skill ae name) s2 = (e, s3)" by fastforce
      have d3: "dir_file f s3 = dir_file f s" using reload_skill_keeps [OF r] db_write_files [OF passed(1)] d1 by metis
      show ?thesis
      proof (cases "e \<noteq> None \<and> \<not> ex")
        case True
        obtain u3 t3 where rm: "run_state (remove_file (wasm_name name)) s3 = (u3, t3)" by fastforce
        then have "t = t3" using passed(2) r True by (auto simp: last_def runs)
        then show ?thesis using remove_file_other [OF rm assms(2)] d3 by simp
      next
        case False
        then have "t = s3" using passed(2) r by (auto simp: last_def runs Let_def split: if_splits)
        then show ?thesis using d3 by simp
      qed
    qed
  qed
qed

lemma enabled_not_disabled:
  "distinct (map fst (skill_state db)) \<Longrightarrow> name \<notin> set (skills_disabled (skill_enabled_set name True db))"
  by (auto simp: skills_disabled_def skill_enabled_set_def) (metis distinct_update map_of_is_SomeI update_conv' fun_upd_same option.inject)

text \<open>Without a failing call, the handler is this function of the state.\<close>

lemma install_file_run:
  assumes "am_faults s = []" "am_skills s = Some h" "distinct (map fst (skill_state (am_db s)))"
  shows "run_state (install_file ae name bytes answer) s =
    (let s1 = (set_file (wasm_name name) bytes s)\<lparr>am_db := skill_enabled_set name True (am_db s)\<rparr>;
         (e, s2) = run_state (run_reload ae name bytes (merged_config ae name s1)) s1
     in if e \<noteq> None \<and> dir_file (wasm_name name) s = None then (answer e True, drop_file (wasm_name name) s2)
        else (answer e False, s2))"
proof -
  define s1 where "s1 = (set_file (wasm_name name) bytes s)\<lparr>am_db := skill_enabled_set name True (am_db s)\<rparr>"
  have f1: "am_faults s1 = []" "am_skills s1 \<noteq> None" "dir_file (wasm_name name) s1 = Some bytes"
    "name \<notin> set (skills_disabled (am_db s1))"
    using assms enabled_not_disabled [of "am_db s" name] by (simp_all add: s1_def dir_set_file) (simp add: set_file_def)+
  have rl: "run_state (reload_skill ae name) s1 = run_state (run_reload ae name bytes (merged_config ae name s1)) s1"
    using f1 by (intro reload_quiet)
  obtain e s2 where r: "run_state (run_reload ae name bytes (merged_config ae name s1)) s1 = (e, s2)" by fastforce
  have "am_faults s2 = []" using r f1(1) by (auto simp: run_reload_def split: option.splits prod.splits)
  moreover have "run_state (write_file (wasm_name name) bytes) s = (Inr (), set_file (wasm_name name) bytes s)"
    using assms(1) by (simp add: write_file_def runs)
  moreover have "run_state (db_write (skill_enabled_set name True)) (set_file (wasm_name name) bytes s) = (Inr (), s1)"
    using assms(1) by (simp add: db_write_def runs s1_def set_file_def)
  ultimately show ?thesis
    using rl r by (simp add: install_file_def or_500_def runs remove_file_def Let_def flip: s1_def)
qed

lemma upload_cases:
  assumes "run_state (upload_skill ae parts) s = (resp, t)"
  obtains (refused) status msg where "resp = Refused status msg" "t = s"
    | (installed) p name bytes where "Inr p \<in> set parts" "up_file p = Some (wasm_name name)" "up_bytes p = Inr bytes"
        "valid_skill_name name" "am_skills s \<noteq> None" "run_state (install_file ae name bytes (Uploaded name)) s = (resp, t)"
proof -
  have "(\<exists>status msg. resp = Refused status msg \<and> t = s)
    \<or> (\<exists>p name bytes. Inr p \<in> set parts \<and> up_file p = Some (wasm_name name) \<and> up_bytes p = Inr bytes
        \<and> valid_skill_name name \<and> am_skills s \<noteq> None \<and> run_state (install_file ae name bytes (Uploaded name)) s = (resp, t))"
    using assms
  proof (induction ae parts rule: upload_skill.induct)
    case (3 ae p ps)
    show ?case
    proof (cases "up_name p = Some ''file''")
      case False
      then have "run_state (upload_skill ae ps) s = (resp, t)" using 3(2) by simp
      from 3(1) [OF False this] show ?thesis by (meson list.set_intros(2))
    next
      case True
      show ?thesis
      proof (cases "strip_suffix ''.wasm'' (case up_file p of Some f \<Rightarrow> f | None \<Rightarrow> [])")
        case None
        then show ?thesis using 3(2) True by (auto simp: runs)
      next
        case (Some name)
        then have upf: "up_file p = Some (wasm_name name)" by (auto simp: wasm_name_def split: option.splits)
        show ?thesis
        proof (cases "valid_skill_name name \<and> am_skills s \<noteq> None")
          case False
          then show ?thesis using 3(2) True Some
            by (auto simp: runs invalid_skill_name_response_def simp del: strip_suffix_Some split: if_splits)
        next
          case ok: True
          show ?thesis
          proof (cases "up_bytes p")
            case (Inl e)
            then show ?thesis using 3(2) True Some ok by (auto simp: runs simp del: strip_suffix_Some)
          next
            case (Inr bytes)
            then have "run_state (install_file ae name bytes (Uploaded name)) s = (resp, t)"
              using 3(2) True Some ok by (simp add: runs del: strip_suffix_Some)
            then show ?thesis using upf Inr ok by (meson list.set_intros(1))
          qed
        qed
      qed
    qed
  qed (auto simp: runs)
  then show thesis using that by auto
qed

definition registry_of :: "'p admin \<Rightarrow> 'p registry option" where
  "registry_of s = map_option sh_registry (am_skills s)"

lemma run_reload_registry:
  "run_state (run_reload ae name bytes cfg) s = (Some e, t) \<Longrightarrow> registry_of t = registry_of s"
  by (auto simp: run_reload_def registry_of_def reload_path_def Let_def dest: install_failed
      split: option.splits prod.splits sum.splits)


section \<open>Secrets are never listed\<close>

lemma allowlist_value:
  "distinct (map fst rows) \<Longrightarrow>
     sc_http_allowlist (apply_settings parse base rows) =
       (case Option.bind (last_row rows http_allowlist_key) parse of Some hosts \<Rightarrow> hosts | None \<Rightarrow> sc_http_allowlist base)"
proof (induction rows rule: rev_induct)
  case (snoc r rows)
  obtain k v where r: "r = (k, v)" by (cases r)
  have "last_row rows http_allowlist_key = None" if "k = http_allowlist_key"
    using snoc.prems that by (auto simp: r last_row_def map_of_eq_None_iff)
  then show ?case using snoc by (auto simp: r last_row_def split: option.splits)
qed (simp add: last_row_def)

lemma distinct_last_row:
  assumes "distinct (map fst rows)"
  shows "last_row rows k = Some v \<longleftrightarrow> (k, v) \<in> set rows"
  using assms map_of_eq_Some_iff [of "rev rows" k v] by (simp add: last_row_def rev_map [symmetric])

definition listed_rows :: "string \<Rightarrow> 'p admin \<Rightarrow> setting_row list" where
  "listed_rows name s = filter (\<lambda>r. sg_skill r = name) (skill_settings_all (am_db s))"

lemma listed_rows_facts:
  assumes "settings_ok (am_db s)"
  shows "distinct (map fst (row_pairs (listed_rows name s)))"
    and "last_row (row_pairs (listed_rows name s)) k = map_option fst (stored name k s)"
    and "k \<in> set (secret_rows (listed_rows name s)) \<longleftrightarrow> (\<exists>v. stored name k s = Some (v, True))"
proof -
  let ?S = "filter (\<lambda>e. fst (fst e) = name) (sort_key fst (settings (am_db s)))"
  have rows: "listed_rows name s = map mk_setting ?S"
    by (simp add: listed_rows_def skill_settings_all_def filter_map comp_def mk_setting_def)
  have d: "distinct (map fst (settings (am_db s)))" using assms by (simp add: settings_ok_def)
  then have "distinct (map fst (sort_key fst (settings (am_db s))))"
    by (metis distinct_map distinct_sort set_sort)
  then have "distinct (map fst ?S)" by (simp add: distinct_map_filter)
  then have "distinct (map (snd \<circ> fst) ?S)"
    by (auto simp: distinct_map inj_on_def prod_eq_iff)
  then show dk: "distinct (map fst (row_pairs (listed_rows name s)))"
    by (simp add: rows row_pairs_def comp_def mk_setting_def)
  have mem: "((name, k), v, b) \<in> set (settings (am_db s)) \<longleftrightarrow> stored name k s = Some (v, b)" for k v b
    using map_of_eq_Some_iff [OF d] by (simp add: stored_def)
  have row: "r \<in> set (listed_rows name s) \<longleftrightarrow> sg_skill r = name \<and> stored name (sg_key r) s = Some (sg_value r, sg_secret r)" for r
  proof
    assume "r \<in> set (listed_rows name s)"
    then obtain k v b where "((name, k), v, b) \<in> set (settings (am_db s))" "r = mk_setting ((name, k), v, b)"
      by (auto simp: rows)
    then show "sg_skill r = name \<and> stored name (sg_key r) s = Some (sg_value r, sg_secret r)"
      using mem by (simp add: mk_setting_def)
  next
    assume r: "sg_skill r = name \<and> stored name (sg_key r) s = Some (sg_value r, sg_secret r)"
    then have "r = mk_setting ((name, sg_key r), sg_value r, sg_secret r)" by (simp add: mk_setting_def)
    moreover have "((name, sg_key r), sg_value r, sg_secret r) \<in> set ?S" using r mem by simp
    ultimately show "r \<in> set (listed_rows name s)" unfolding rows set_map by (rule image_eqI)
  qed
  have "last_row (row_pairs (listed_rows name s)) k = Some v \<longleftrightarrow> map_option fst (stored name k s) = Some v" for v
  proof -
    have "(k, v) \<in> set (row_pairs (listed_rows name s)) \<longleftrightarrow> (\<exists>b. stored name k s = Some (v, b))"
    proof
      assume "\<exists>b. stored name k s = Some (v, b)"
      then obtain b where "stored name k s = Some (v, b)" ..
      then have "\<lparr>sg_skill = name, sg_key = k, sg_value = v, sg_secret = b\<rparr> \<in> set (listed_rows name s)" by (simp add: row)
      then show "(k, v) \<in> set (row_pairs (listed_rows name s))" by (force simp: row_pairs_def)
    qed (auto simp: row_pairs_def row)
    then show ?thesis by (auto simp: distinct_last_row [OF dk])
  qed
  then show "last_row (row_pairs (listed_rows name s)) k = map_option fst (stored name k s)"
    by (metis option.exhaust)
  show "k \<in> set (secret_rows (listed_rows name s)) \<longleftrightarrow> (\<exists>v. stored name k s = Some (v, True))"
  proof
    assume "\<exists>v. stored name k s = Some (v, True)"
    then obtain v where "stored name k s = Some (v, True)" ..
    then have "\<lparr>sg_skill = name, sg_key = k, sg_value = v, sg_secret = True\<rparr> \<in> set (listed_rows name s)" by (simp add: row)
    then show "k \<in> set (secret_rows (listed_rows name s))" by (force simp: secret_rows_def)
  qed (auto simp: secret_rows_def row)
qed

definition hides :: "string \<Rightarrow> 'p admin \<Rightarrow> string \<Rightarrow> bool" where
  "hides name s k \<longleftrightarrow> k \<in> secret_keys name s \<and> k \<noteq> http_allowlist_key"

definition alike :: "bool \<Rightarrow> string \<Rightarrow> string \<Rightarrow> bool" where
  "alike hidden v w \<longleftrightarrow> (if hidden then (v = []) = (w = []) else v = w)"

text \<open>Two servers that differ in nothing but the text of secrets, set in both or in neither.\<close>

definition same_but_secrets :: "'p admin \<Rightarrow> 'p admin \<Rightarrow> bool" where
  "same_but_secrets s t \<longleftrightarrow>
     am_skills t = am_skills s \<and> am_faults t = am_faults s \<and> skill_state (am_db t) = skill_state (am_db s)
     \<and> map (\<lambda>e. (fst e, snd (snd e))) (settings (am_db t)) = map (\<lambda>e. (fst e, snd (snd e))) (settings (am_db s))
     \<and> map fst (am_base t) = map fst (am_base s)
     \<and> (\<forall>n k. rel_option (\<lambda>a b. snd a = snd b \<and> alike (hides n s k) (fst a) (fst b)) (stored n k s) (stored n k t))
     \<and> (\<forall>n. sc_http_allowlist (base_of n t) = sc_http_allowlist (base_of n s)
           \<and> (\<forall>k. rel_option (alike (hides n s k)) (sc_config (base_of n s) k) (sc_config (base_of n t) k)))"

lemma skill_info_same:
  assumes same: "same_but_secrets s t" and ok: "settings_ok (am_db s)" "settings_ok (am_db t)"
  shows "skill_info_of parse t name (listed_rows name t) ds = skill_info_of parse s name (listed_rows name s) ds"
proof -
  have st: "rel_option (\<lambda>a b. snd a = snd b \<and> alike (hides name s k) (fst a) (fst b)) (stored name k s) (stored name k t)" for k
    using same by (simp add: same_but_secrets_def)
  have base: "rel_option (alike (hides name s k)) (sc_config (base_of name s) k) (sc_config (base_of name t) k)" for k
    using same by (simp add: same_but_secrets_def)
  have rest: "am_skills t = am_skills s" "sc_http_allowlist (base_of name t) = sc_http_allowlist (base_of name s)"
    using same by (simp_all add: same_but_secrets_def)
  have flag: "(\<exists>v. stored name k t = Some (v, True)) \<longleftrightarrow> (\<exists>v. stored name k s = Some (v, True))" for k
    using st [of k] by (cases "stored name k s"; cases "stored name k t") auto
  have secret: "set (secret_rows (listed_rows name t)) = set (secret_rows (listed_rows name s))"
    using flag listed_rows_facts(3) ok by blast
  have sec: "set (secret_rows (listed_rows name s)) \<union> set (secret_fields (schema_of name s)) = secret_keys name s"
    using listed_rows_facts(3) [OF ok(1)] by (auto simp: secret_keys_def)
  have schema: "schema_of name t = schema_of name s" "registry_names t = registry_names s"
    by (simp_all add: schema_of_def registry_names_def rest)
  let ?m = "\<lambda>u. apply_settings parse (base_of name u) (row_pairs (listed_rows name u))"
  have val: "rel_option (alike (hides name s k)) (sc_config (?m s) k) (sc_config (?m t) k)" for k
    using st [of k] base [of k]
    by (cases "stored name k s"; cases "stored name k t")
       (auto simp: apply_settings_config listed_rows_facts(2) ok)
  have shown: "map_option (\<lambda>v. if k \<in> secret_keys name s then Secret (v \<noteq> []) else Plain v) (sc_config (?m t) k)
      = map_option (\<lambda>v. if k \<in> secret_keys name s then Secret (v \<noteq> []) else Plain v) (sc_config (?m s) k)"
    if "k \<noteq> http_allowlist_key" for k
    using val [of k] that by (cases "sc_config (?m s) k"; cases "sc_config (?m t) k") (auto simp: alike_def hides_def split: if_splits)
  have "last_row (row_pairs (listed_rows name t)) http_allowlist_key = last_row (row_pairs (listed_rows name s)) http_allowlist_key"
    using st [of http_allowlist_key]
    by (cases "stored name http_allowlist_key s"; cases "stored name http_allowlist_key t")
       (auto simp: listed_rows_facts(2) ok alike_def hides_def)
  then have "sc_http_allowlist (?m t) = sc_http_allowlist (?m s)"
    by (simp add: allowlist_value listed_rows_facts(1) ok rest(2) cong: option.case_cong)
  then show ?thesis
    using shown by (simp add: skill_info_of_def Let_def schema secret sec fun_eq_iff)
qed

lemma faults_irrelevant [simp]:
  "base_of name (s\<lparr>am_faults := fs\<rparr>) = base_of name s" "schema_of name (s\<lparr>am_faults := fs\<rparr>) = schema_of name s"
  "registry_names (s\<lparr>am_faults := fs\<rparr>) = registry_names s"
  "skill_info_of parse (s\<lparr>am_faults := fs\<rparr>) name rows ds = skill_info_of parse s name rows ds"
  "known_skill_names (s\<lparr>am_faults := fs\<rparr>) rows ds dir = known_skill_names s rows ds dir"
  by (simp_all add: base_of_def schema_of_def registry_names_def skill_info_of_def known_skill_names_def)

lemma map_sort_key: "map f (sort_key f xs) = sort (map f xs)"
  by (rule properties_for_sort [symmetric]) simp_all

lemma listing_same:
  assumes same: "same_but_secrets s t" and ok: "settings_ok (am_db s)" "settings_ok (am_db t)"
  shows "map (\<lambda>name. skill_info_of parse t name (filter (\<lambda>r. sg_skill r = name) (skill_settings_all (am_db t)))
            (skills_disabled (am_db t))) (known_skill_names t (skill_settings_all (am_db t)) (skills_disabled (am_db t)) dir)
    = map (\<lambda>name. skill_info_of parse s name (filter (\<lambda>r. sg_skill r = name) (skill_settings_all (am_db s)))
            (skills_disabled (am_db s))) (known_skill_names s (skill_settings_all (am_db s)) (skills_disabled (am_db s)) dir)"
proof -
  have "map fst (settings (am_db t)) = map fst (settings (am_db s))"
  proof -
    have "map fst (map (\<lambda>e. (fst e, snd (snd e))) (settings (am_db t))) = map fst (map (\<lambda>e. (fst e, snd (snd e))) (settings (am_db s)))"
      using same by (intro arg_cong [of _ _ "map fst"]) (simp add: same_but_secrets_def)
    then show ?thesis by (simp add: comp_def)
  qed
  then have keys: "sort (map fst (settings (am_db t))) = sort (map fst (settings (am_db s)))" by simp
  have "map sg_skill (skill_settings_all d) = map fst (sort (map fst (settings d)))" for d
    unfolding map_sort_key [of fst, symmetric] by (simp add: skill_settings_all_def mk_setting_def comp_def)
  then have "map sg_skill (skill_settings_all (am_db t)) = map sg_skill (skill_settings_all (am_db s))" by (simp only: keys)
  moreover have "registry_names t = registry_names s" "skills_disabled (am_db t) = skills_disabled (am_db s)"
    "map fst (am_base t) = map fst (am_base s)"
    using same by (simp_all add: same_but_secrets_def registry_names_def skills_disabled_def)
  ultimately show ?thesis
    using skill_info_same [OF same ok, of parse] by (simp add: known_skill_names_def listed_rows_def)
qed

lemma db_read_outcome:
  "\<exists>(r :: string + unit) fs. \<forall>u. am_faults u = fs0 \<longrightarrow>
     run_state (db_read f) u = (map_sum id (\<lambda>_. f (am_db u)) r, u\<lparr>am_faults := fs\<rparr>)"
proof (cases fs0)
  case Nil
  then show ?thesis by (intro exI [of _ "Inr ()"] exI [of _ "[]"]) (simp add: db_read_def runs)
next
  case (Cons x fs)
  then show ?thesis
    by (cases x) (auto simp: db_read_def runs intro!: exI [of _ fs] intro: exI [of _ "Inr ()"] exI [of _ "Inl _"])
qed


section \<open>The properties on a concrete server\<close>

text \<open>Lists of hosts as text, standing for the JSON encoder: every character marked, every host ended.\<close>

fun pack :: "string list \<Rightarrow> string" where
  "pack [] = []"
| "pack (h # hs) = concat (map (\<lambda>c. [CHR ''c'', c]) h) @ CHR '';'' # pack hs"

fun unpack :: "string \<Rightarrow> string \<Rightarrow> string list option" where
  "unpack acc [] = Some []"
| "unpack acc (m # cs) =
     (if m = CHR '';'' then map_option (Cons acc) (unpack [] cs)
      else case cs of [] \<Rightarrow> None | c # rest \<Rightarrow> unpack (acc @ [c]) rest)"

lemma unpack_host: "unpack acc (concat (map (\<lambda>c. [CHR ''c'', c]) h) @ CHR '';'' # s) = map_option (Cons (acc @ h)) (unpack [] s)"
  by (induction h arbitrary: acc) simp_all

lemma unpack_pack: "unpack [] (pack hs) = Some hs"
  by (induction hs) (simp_all add: unpack_host)

definition demo_schema :: config_schema where
  "demo_schema = [field ''base_url'' ''Address'' FkUrl True [] [], field ''api_key'' ''Key'' FkSecret True [] []]"

definition demo_ops :: "unit plugin_ops" where
  "demo_ops = \<lparr>g_rules = (\<lambda>p loc. (Inr [], p)), g_schema = (\<lambda>p. (Some demo_schema, p)),
     g_handle = (\<lambda>p i. (Inr (Inr (Speak [])), p))\<rparr>"

definition demo_ae :: "unit admin_env" where
  "demo_ae = \<lparr>ae_ops = demo_ops, ae_order = id, ae_build = (\<lambda>bytes f ctx. if bytes = [] then Inl ''no module'' else Inr ()),
     ae_parse = unpack [], ae_render = pack, ae_items = (\<lambda>_. Inl (1, 1))\<rparr>"

definition demo_server :: "string \<Rightarrow> unit admin" where
  "demo_server key =
     \<lparr>am_db = sqlite_open\<lparr>settings := [((''box'', ''api_key''), (key, True))]\<rparr>,
      am_skills = Some \<lparr>sh_dir = ''skills'', sh_files = [(''box.wasm'', [1])],
        sh_deps = \<lparr>sd_locales = [''en''], sd_per_skill = (\<lambda>_. None)\<rparr>,
        sh_registry = registry_new\<lparr>plugins := [(''box'', \<lparr>sl_plugin = (), sl_ctx = None, sl_poisoned = False\<rparr>)],
          schemas := [(''box'', demo_schema)]\<rparr>\<rparr>,
      am_base = [], am_bundled = None, am_events = [], am_faults = []\<rparr>"

definition demo_form :: form where
  "demo_form = [(''base_url'', ''http://box:80/jeedom''), (''api_key'', '' '')]"

lemma demo_ok: "settings_ok (am_db (demo_server key))" "distinct (map fst demo_form)"
  by (simp_all add: demo_server_def settings_ok_def demo_form_def)

lemma demo_stored: "stored n k (demo_server key) = (if (n, k) = (''box'', ''api_key'') then Some (key, True) else None)"
  by (simp add: stored_def demo_server_def)

lemma demo_schema_of: "schema_of ''box'' (demo_server key) = Some demo_schema"
  by (simp add: schema_of_def registry_schema_def demo_server_def)

lemma demo_secret: "secret_keys ''box'' (demo_server key) = {''api_key''}"
  by (auto simp: secret_keys_def demo_stored demo_schema_of demo_schema_def secret_fields_def field_def is_secret_def)

lemma demo_rules: "query_rules demo_ops n locs p acc = (Inl e, q) \<Longrightarrow> False"
  by (induction locs arbitrary: p acc) (auto simp: demo_ops_def)

lemma demo_reload: "run_state (run_reload demo_ae ''box'' [1] cfg) s = (e, t) \<Longrightarrow> e = None"
  by (auto simp: run_reload_def reload_path_def build_plugin_from_file_def skill_file_of_def install_def demo_ae_def
      split: option.splits prod.splits sum.splits dest: demo_rules)

lemma demo_saved: "\<exists>t. run_state (put_config demo_ae ''box'' demo_form) (demo_server ''k9Zq'') = (Saved None, t)"
proof -
  have faults: "am_faults (demo_server ''k9Zq'') = []" by (simp add: demo_server_def)
  have valid: "valid_skill_name ''box''" by code_simp
  have form: "validate (ae_items demo_ae) (schema_of ''box'' (demo_server ''k9Zq'')) demo_form = Inr ()" "\<not> list_ex reserved (map fst demo_form)"
    unfolding demo_schema_of by code_simp+
  obtain e t s1 where run: "run_state (put_config demo_ae ''box'' demo_form) (demo_server ''k9Zq'') = (Saved e, t)"
    and s1: "am_faults s1 = []" "keeps ''box'' (written_keys (secret_keys ''box'' (demo_server ''k9Zq'')) demo_form \<union> {http_allowlist_key})
      (demo_server ''k9Zq'') s1" "run_state (reload_skill demo_ae ''box'') s1 = (e, t)"
    by (rule put_config_quiet [OF faults demo_ok(1) valid form])
  have "am_skills s1 \<noteq> None" "''box'' \<notin> set (skills_disabled (am_db s1))" "dir_file (wasm_name ''box'') s1 = Some [1]"
    using s1(2) by (simp_all add: keeps_def demo_server_def skills_disabled_def sqlite_open_def dir_file_def wasm_name_def)
  then have "e = None" using reload_quiet [OF s1(1)] s1(3) demo_reload by metis
  then show ?thesis using run by blast
qed



definition demo_parts :: "byte list \<Rightarrow> (string + upload_part) list" where
  "demo_parts bytes = [Inr \<lparr>up_name = Some ''file'', up_file = Some ''lamp.wasm'', up_bytes = Inr bytes\<rparr>]"


lemma demo_base: "base_of n (demo_server key) = default_config"
  by (simp add: base_of_def demo_server_def)


end
