(* ===== verification/Discovery.thy ===== *)
theory Discovery
  imports Admin Skills
begin

text \<open>
  The admin's Jeedom endpoints (\<open>crates/athena-voice-admin/src/jeedom.rs\<close>): the connection test, one sensor read,
  the phrases of the loaded skill, and the discovery of equipment, which pairs a box's raw commands into switches
  and shutters. The HTTP client and JSON decoding are parameters.
\<close>

section \<open>Raw commands\<close>

record action_cmd =
  ac_id :: u64
  ac_name :: string
  ac_generic :: "string option"
  ac_subtype :: string

record discovered_cmd =
  dc_id :: u64
  dc_name :: string
  dc_subtype :: string
  dc_unit :: "string option"
  dc_on_label :: "string option"
  dc_off_label :: "string option"

record discovered_action =
  da_on :: u64
  da_off :: u64

record discovered_shutter =
  ds_up :: u64
  ds_down :: u64
  ds_stop :: "u64 option"
  ds_slider :: "u64 option"

record discovered_equipment =
  de_name :: string
  de_cmds :: "discovered_cmd list"
  de_actions :: "discovered_action list"
  de_shutters :: "discovered_shutter list"

record discovered_room =
  dr_name :: string
  dr_equipments :: "discovered_equipment list"

definition cmd_id :: "json \<Rightarrow> u64 option" where
  "cmd_id v =
     (case v of
        JNum (PosInt n) \<Rightarrow> Some n
      | JStr s \<Rightarrow> map_option of_nat (parse_u64 s)
      | _ \<Rightarrow> None)"

section \<open>Pairing switches\<close>

text \<open>The first unused command that satisfies a test.\<close>

definition free :: "u64 set \<Rightarrow> (action_cmd \<Rightarrow> bool) \<Rightarrow> action_cmd list \<Rightarrow> action_cmd option" where
  "free used P cmds = List.find (\<lambda>c. ac_id c \<notin> used \<and> P c) cmds"

definition named :: "text_fns \<Rightarrow> string \<Rightarrow> action_cmd \<Rightarrow> bool" where
  "named tf n c \<longleftrightarrow> lower tf (ac_name c) = n"

definition generic :: "string \<Rightarrow> action_cmd \<Rightarrow> bool" where
  "generic g c \<longleftrightarrow> ac_generic c = Some g"

definition name_on_off :: "(string \<times> string) list" where
  "name_on_off = [(''on'', ''off''), (''allumer'', e_acute @ ''teindre''), (''marche'', ''arr'' @ e_circ @ ''t''),
     (''activer'', ''d'' @ e_acute @ ''sactiver'')]"

text \<open>\<open>insert(c) && insert(off)\<close>: the second insertion happens only if the first was new.\<close>

fun generic_pass ::
  "action_cmd list \<Rightarrow> action_cmd list \<Rightarrow> u64 set \<Rightarrow> discovered_action list \<Rightarrow> u64 set \<times> discovered_action list" where
  "generic_pass cmds [] used out = (used, out)"
| "generic_pass cmds (c # cs) used out =
     (case Option.bind (ac_generic c) (strip_suffix ''_ON'') of
        None \<Rightarrow> generic_pass cmds cs used out
      | Some p \<Rightarrow>
          (case free used (generic (p @ ''_OFF'')) cmds of
             None \<Rightarrow> generic_pass cmds cs used out
           | Some off \<Rightarrow>
               if ac_id c \<in> used then generic_pass cmds cs used out
               else if ac_id off = ac_id c then generic_pass cmds cs (insert (ac_id c) used) out
               else generic_pass cmds cs (insert (ac_id off) (insert (ac_id c) used))
                      (out @ [\<lparr>da_on = ac_id c, da_off = ac_id off\<rparr>])))"

fun name_pass ::
  "text_fns \<Rightarrow> action_cmd list \<Rightarrow> (string \<times> string) list \<Rightarrow> u64 set \<Rightarrow> discovered_action list \<Rightarrow> discovered_action list" where
  "name_pass tf cmds [] used out = out"
| "name_pass tf cmds ((n_on, n_off) # ns) used out =
     (case (free used (named tf n_on) cmds, free used (named tf n_off) cmds) of
        (Some on, Some off) \<Rightarrow>
          name_pass tf cmds ns (insert (ac_id off) (insert (ac_id on) used)) (out @ [\<lparr>da_on = ac_id on, da_off = ac_id off\<rparr>])
      | _ \<Rightarrow> name_pass tf cmds ns used out)"

definition pair_actions :: "text_fns \<Rightarrow> action_cmd list \<Rightarrow> discovered_action list" where
  "pair_actions tf cmds =
     (let (used, out) = generic_pass cmds cmds {} [] in name_pass tf cmds name_on_off used out)"

section \<open>Pairing shutters\<close>

definition shutter_up_down :: "(string \<times> string) list" where
  "shutter_up_down = [(''monter'', ''descendre''), (''mont'' @ e_acute, ''descendu''), (''up'', ''down''), (''ouvrir'', ''fermer''),
     (''open'', ''close'')]"

definition shutter_stop_names :: "string list" where
  "shutter_stop_names = [''stop'', ''arr'' @ e_circ @ ''ter'']"

definition is_stop :: "text_fns \<Rightarrow> action_cmd \<Rightarrow> bool" where
  "is_stop tf c \<longleftrightarrow> generic ''FLAP_STOP'' c \<or> lower tf (ac_name c) \<in> set shutter_stop_names"

definition is_slider :: "text_fns \<Rightarrow> action_cmd \<Rightarrow> bool" where
  "is_slider tf c \<longleftrightarrow> generic ''FLAP_SLIDER'' c \<or> ac_subtype c = ''slider'' \<or> named tf ''position'' c"

definition opt_insert :: "'a option \<Rightarrow> 'a set \<Rightarrow> 'a set" where
  "opt_insert x A = (case x of None \<Rightarrow> A | Some a \<Rightarrow> insert a A)"

definition push_shutter ::
  "text_fns \<Rightarrow> action_cmd list \<Rightarrow> u64 \<Rightarrow> u64 \<Rightarrow> u64 set \<times> discovered_shutter list \<Rightarrow> u64 set \<times> discovered_shutter list" where
  "push_shutter tf cmds up down acc =
     (let used1 = insert down (insert up (fst acc));
          stop = map_option ac_id (free used1 (is_stop tf) cmds);
          used2 = opt_insert stop used1;
          slider = map_option ac_id (free used2 (is_slider tf) cmds)
      in (opt_insert slider used2, snd acc @ [\<lparr>ds_up = up, ds_down = down, ds_stop = stop, ds_slider = slider\<rparr>]))"

fun flap_pass ::
  "text_fns \<Rightarrow> action_cmd list \<Rightarrow> action_cmd list \<Rightarrow> u64 set \<times> discovered_shutter list \<Rightarrow> u64 set \<times> discovered_shutter list" where
  "flap_pass tf cmds [] acc = acc"
| "flap_pass tf cmds (c # cs) acc =
     (if ac_id c \<in> fst acc \<or> \<not> generic ''FLAP_UP'' c then flap_pass tf cmds cs acc
      else case free (fst acc) (generic ''FLAP_DOWN'') cmds of
          None \<Rightarrow> flap_pass tf cmds cs acc
        | Some down \<Rightarrow> flap_pass tf cmds cs (push_shutter tf cmds (ac_id c) (ac_id down) acc))"

fun shutter_name_pass ::
  "text_fns \<Rightarrow> action_cmd list \<Rightarrow> (string \<times> string) list \<Rightarrow> u64 set \<times> discovered_shutter list \<Rightarrow> u64 set \<times> discovered_shutter list" where
  "shutter_name_pass tf cmds [] acc = acc"
| "shutter_name_pass tf cmds ((n_up, n_down) # ns) acc =
     (case (free (fst acc) (named tf n_up) cmds, free (fst acc) (named tf n_down) cmds) of
        (Some up, Some down) \<Rightarrow> shutter_name_pass tf cmds ns (push_shutter tf cmds (ac_id up) (ac_id down) acc)
      | _ \<Rightarrow> shutter_name_pass tf cmds ns acc)"

definition pair_shutters :: "text_fns \<Rightarrow> action_cmd list \<Rightarrow> u64 set \<Rightarrow> u64 set \<times> discovered_shutter list" where
  "pair_shutters tf cmds used = shutter_name_pass tf cmds shutter_up_down (flap_pass tf cmds cmds (used, []))"

section \<open>Reading the box's description\<close>

definition text_at :: "string \<Rightarrow> json \<Rightarrow> string option" where
  "text_at key v = Option.bind (json_get key v) as_str"

definition filled :: "string option \<Rightarrow> string option" where
  "filled s = (if s = Some [] then None else s)"

definition or_else :: "'a \<Rightarrow> 'a option \<Rightarrow> 'a" where
  "or_else d x = (case x of None \<Rightarrow> d | Some a \<Rightarrow> a)"

definition items_at :: "string \<Rightarrow> json \<Rightarrow> json list" where
  "items_at key v = (case json_get key v of Some (JArr vs) \<Rightarrow> vs | _ \<Rightarrow> [])"

text \<open>Commands without an id or a name are skipped; the others by their type.\<close>

definition cmd_head :: "json \<Rightarrow> (u64 \<times> string) option" where
  "cmd_head cmd =
     (let name = or_else [] (text_at ''name'' cmd) in
      case Option.bind (json_get ''id'' cmd) cmd_id of
        None \<Rightarrow> None
      | Some i \<Rightarrow> if name = [] then None else Some (i, name))"

definition read_action :: "json \<Rightarrow> action_cmd option" where
  "read_action cmd =
     (case cmd_head cmd of
        None \<Rightarrow> None
      | Some (i, name) \<Rightarrow>
          if or_else [] (text_at ''type'' cmd) \<noteq> ''action'' then None
          else Some \<lparr>ac_id = i, ac_name = name, ac_generic = filled (text_at ''generic_type'' cmd),
                     ac_subtype = or_else ''other'' (text_at ''subType'' cmd)\<rparr>)"

definition read_info :: "json \<Rightarrow> discovered_cmd option" where
  "read_info cmd =
     (case cmd_head cmd of
        None \<Rightarrow> None
      | Some (i, name) \<Rightarrow>
          if or_else [] (text_at ''type'' cmd) \<noteq> ''info'' then None
          else (let label = (\<lambda>key. filled (Option.bind (json_get ''display'' cmd) (text_at key))) in
            Some \<lparr>dc_id = i, dc_name = name, dc_subtype = or_else ''numeric'' (text_at ''subType'' cmd),
                  dc_unit = filled (text_at ''unite'' cmd), dc_on_label = label ''on_label'', dc_off_label = label ''off_label''\<rparr>))"

definition action_cmds :: "json \<Rightarrow> action_cmd list" where
  "action_cmds eq = List.map_filter read_action (items_at ''cmds'' eq)"

definition read_equipment :: "text_fns \<Rightarrow> json \<Rightarrow> discovered_equipment option" where
  "read_equipment tf eq =
     (let cmds = List.map_filter read_info (items_at ''cmds'' eq);
          acts = action_cmds eq;
          (used, shutters) = pair_shutters tf acts {};
          actions = pair_actions tf (filter (\<lambda>c. ac_id c \<notin> used) acts)
      in if cmds = [] \<and> actions = [] \<and> shutters = [] then None
         else Some \<lparr>de_name = or_else [] (text_at ''name'' eq), de_cmds = cmds, de_actions = actions, de_shutters = shutters\<rparr>)"

definition read_room :: "text_fns \<Rightarrow> json \<Rightarrow> discovered_room option" where
  "read_room tf obj =
     (let eqs = List.map_filter (read_equipment tf) (items_at ''eqLogics'' obj)
      in if eqs = [] then None else Some \<lparr>dr_name = or_else [] (text_at ''name'' obj), dr_equipments = eqs\<rparr>)"

definition parse_fulldata :: "text_fns \<Rightarrow> json \<Rightarrow> discovered_room list option" where
  "parse_fulldata tf raw = (case raw of JArr objs \<Rightarrow> Some (List.map_filter (read_room tf) objs) | _ \<Rightarrow> None)"

section \<open>The endpoints\<close>

text \<open>A request gets no reply, or a status, successful or not, and a body in chunks, each of which may fail.\<close>

datatype box_reply = NoReply | Reply bool "byte list option list"

record box_client =
  bc_get :: "string \<Rightarrow> box_reply"
  bc_text :: "byte list \<Rightarrow> string"
  bc_json :: "byte list \<Rightarrow> json option"
  bc_json_text :: "string \<Rightarrow> json option"
  bc_show :: "json \<Rightarrow> string"

datatype box_answer =
    BoxStatus string
  | BoxValue string
  | BoxRooms "discovered_room list"
  | BoxPhrases "(string \<times> string \<times> string list) list"

record jeedom_cfg =
  jc_base_url :: string
  jc_api_key :: string

definition resolved_config :: "'p admin_env \<Rightarrow> ('p, jeedom_cfg option) handler" where
  "resolved_config ae = do {
     rs \<leftarrow> db_read (skill_settings_for ''jeedom'');
     case rs of
       Inl _ \<Rightarrow> ret None
     | Inr rws \<Rightarrow> do {
         s \<leftarrow> gets id;
         (let cfg = sc_config (apply_settings (ae_parse ae) (base_of ''jeedom'' s) (row_pairs rws))
          in ret (case (filled (cfg ''base_url''), filled (cfg ''api_key'')) of
               (Some u, Some k) \<Rightarrow> Some \<lparr>jc_base_url = trim_slashes u, jc_api_key = k\<rparr>
             | _ \<Rightarrow> None)) } }"

definition box_url :: "jeedom_cfg \<Rightarrow> string \<Rightarrow> string" where
  "box_url cfg query = jc_base_url cfg @ ''/core/api/jeeApi.php?apikey='' @ jc_api_key cfg @ query"

definition whole_body :: "byte list option list \<Rightarrow> byte list option" where
  "whole_body chunks = (if None \<in> set chunks then None else Some (concat (map the chunks)))"

text \<open>A request with the saved configuration: what the caller makes of the text of a good reply.\<close>

definition ask_box ::
  "box_client \<Rightarrow> 'p admin_env \<Rightarrow> string \<Rightarrow> (string \<Rightarrow> box_answer) \<Rightarrow> ('p, box_answer) handler" where
  "ask_box bc ae query answer = do {
     c \<leftarrow> resolved_config ae;
     ret (case c of
       None \<Rightarrow> BoxStatus ''unconfigured''
     | Some cfg \<Rightarrow>
         (case bc_get bc (box_url cfg query) of
            NoReply \<Rightarrow> BoxStatus ''unreachable''
          | Reply ok chunks \<Rightarrow>
              if \<not> ok then BoxStatus ''bad_response''
              else (case whole_body chunks of
                  None \<Rightarrow> BoxStatus ''bad_response''
                | Some body \<Rightarrow> answer (bc_text bc body)))) }"

definition test_connection :: "box_client \<Rightarrow> 'p admin_env \<Rightarrow> ('p, box_answer) handler" where
  "test_connection bc ae = ask_box bc ae ''&type=object'' (\<lambda>body.
     case bc_json_text bc body of Some (JArr _) \<Rightarrow> BoxStatus ''ok'' | _ \<Rightarrow> BoxStatus ''unauthorized'')"

definition read_one :: "box_client \<Rightarrow> 'p admin_env \<Rightarrow> u64 \<Rightarrow> ('p, box_answer) handler" where
  "read_one bc ae i = ask_box bc ae (''&type=cmd&id='' @ show_nat (unat i)) (\<lambda>body.
     case bc_json_text bc body of
       None \<Rightarrow> BoxStatus ''bad_response''
     | Some raw \<Rightarrow> BoxValue (case or_else raw (json_get ''value'' raw) of JStr s \<Rightarrow> s | v \<Rightarrow> bc_show bc v))"

definition fulldata_cap_bytes :: nat where "fulldata_cap_bytes = 4 * 1024 * 1024"

fun read_capped :: "nat \<Rightarrow> byte list option list \<Rightarrow> byte list \<Rightarrow> byte list option" where
  "read_capped cap [] got = Some got"
| "read_capped cap (None # cs) got = None"
| "read_capped cap (Some c # cs) got =
     (if length got + length c > cap then None else read_capped cap cs (got @ c))"

definition discover :: "box_client \<Rightarrow> text_fns \<Rightarrow> 'p admin_env \<Rightarrow> ('p, box_answer) handler" where
  "discover bc tf ae = do {
     c \<leftarrow> resolved_config ae;
     ret (case c of
       None \<Rightarrow> BoxStatus ''unconfigured''
     | Some cfg \<Rightarrow>
         (case bc_get bc (box_url cfg ''&type=fullData'') of
            NoReply \<Rightarrow> BoxStatus ''unreachable''
          | Reply ok chunks \<Rightarrow>
              if \<not> ok then BoxStatus ''bad_response''
              else (case Option.bind (Option.bind (read_capped fulldata_cap_bytes chunks []) (bc_json bc)) (parse_fulldata tf) of
                  None \<Rightarrow> BoxStatus ''bad_response''
                | Some rooms \<Rightarrow> BoxRooms rooms))) }"

definition skill_phrases :: "('p, box_answer) handler" where
  "skill_phrases = gets (\<lambda>s. BoxPhrases (case am_skills s of
       None \<Rightarrow> []
     | Some h \<Rightarrow> concat (map (\<lambda>loc. map (\<lambda>r. (r_intent r, loc, r_phrases r))
           (or_else [] (skill_rules ''jeedom'' loc (sh_registry h)))) (sd_locales (sh_deps h)))))"

section \<open>No command is claimed twice\<close>

lemma free_Some: "free used P cmds = Some c \<Longrightarrow> c \<in> set cmds \<and> ac_id c \<notin> used \<and> P c"
  by (auto simp: free_def dest: find_Some_in)

lemma free_None: "free used P cmds = None \<Longrightarrow> c \<in> set cmds \<Longrightarrow> P c \<Longrightarrow> ac_id c \<in> used"
  by (auto simp: free_def find_None_iff)

definition shutter_ids :: "discovered_shutter \<Rightarrow> u64 list" where
  "shutter_ids s = [ds_up s, ds_down s] @ (case ds_stop s of None \<Rightarrow> [] | Some i \<Rightarrow> [i])
     @ (case ds_slider s of None \<Rightarrow> [] | Some i \<Rightarrow> [i])"

definition action_ids :: "discovered_action \<Rightarrow> u64 list" where
  "action_ids a = [da_on a, da_off a]"

text \<open>What is used is what has been claimed, each id once and each a command's.\<close>

definition claimed :: "action_cmd list \<Rightarrow> u64 set \<Rightarrow> u64 list \<Rightarrow> bool" where
  "claimed cmds used ids \<longleftrightarrow> distinct ids \<and> used = set ids \<and> set ids \<subseteq> ac_id ` set cmds"

lemma claimed_Nil [simp]: "claimed cmds {} []"
  by (simp add: claimed_def)

lemma claim_free:
  "claimed cmds used ids \<Longrightarrow> free used P cmds = Some c \<Longrightarrow> claimed cmds (insert (ac_id c) used) (ids @ [ac_id c])"
  by (auto simp: claimed_def dest: free_Some)

lemma claim_opt:
  assumes "claimed cmds used ids"
  shows "claimed cmds (opt_insert (map_option ac_id (free used P cmds)) used)
    (ids @ (case map_option ac_id (free used P cmds) of None \<Rightarrow> [] | Some i \<Rightarrow> [i]))"
  using assms claim_free [OF assms, of P] by (cases "free used P cmds") (simp_all add: opt_insert_def)

lemma push_claimed:
  assumes "claimed cmds (fst acc) (concat (map shutter_ids (snd acc)))"
    and "up \<in> set cmds" "ac_id up \<notin> fst acc" "down \<in> set cmds" "ac_id down \<notin> fst acc" "ac_id up \<noteq> ac_id down"
  shows "claimed cmds (fst (push_shutter tf cmds (ac_id up) (ac_id down) acc))
    (concat (map shutter_ids (snd (push_shutter tf cmds (ac_id up) (ac_id down) acc))))"
proof -
  let ?ids = "concat (map shutter_ids (snd acc)) @ [ac_id up, ac_id down]"
  let ?used = "insert (ac_id down) (insert (ac_id up) (fst acc))"
  have "claimed cmds ?used ?ids" using assms by (auto simp: claimed_def)
  from claim_opt [OF claim_opt [OF this]] show ?thesis
    by (simp add: push_shutter_def Let_def shutter_ids_def)
qed

lemma push_mono: "fst acc \<subseteq> fst (push_shutter tf cmds up down acc)" "up \<in> fst (push_shutter tf cmds up down acc)"
  by (auto simp: push_shutter_def Let_def opt_insert_def split: option.split)

lemma flap_mono: "fst acc \<subseteq> fst (flap_pass tf cmds cs acc)"
proof (induction tf cmds cs acc rule: flap_pass.induct)
  case (2 tf cmds c cs acc)
  show ?case
  proof (cases "ac_id c \<in> fst acc \<or> \<not> generic ''FLAP_UP'' c \<or> free (fst acc) (generic ''FLAP_DOWN'') cmds = None")
    case True
    then show ?thesis using 2 by auto
  next
    case False
    then show ?thesis using 2(3) push_mono(1) [of acc tf cmds] by fastforce
  qed
qed simp

lemma same_cmd: "distinct (map ac_id cmds) \<Longrightarrow> c \<in> set cmds \<Longrightarrow> d \<in> set cmds \<Longrightarrow> ac_id c = ac_id d \<Longrightarrow> c = d"
  by (simp add: distinct_map inj_on_def)

lemma flap_claimed:
  assumes "distinct (map ac_id cmds)" "set cs \<subseteq> set cmds"
    "claimed cmds (fst acc) (concat (map shutter_ids (snd acc)))"
  shows "claimed cmds (fst (flap_pass tf cmds cs acc)) (concat (map shutter_ids (snd (flap_pass tf cmds cs acc))))"
  using assms
proof (induction tf cmds cs acc rule: flap_pass.induct)
  case (2 tf cmds c cs acc)
  show ?case
  proof (cases "ac_id c \<in> fst acc \<or> \<not> generic ''FLAP_UP'' c")
    case True
    then show ?thesis using 2 by simp
  next
    case up: False
    show ?thesis
    proof (cases "free (fst acc) (generic ''FLAP_DOWN'') cmds")
      case None
      then show ?thesis using 2 up by simp
    next
      case (Some down)
      note d = free_Some [OF Some]
      then have "c \<noteq> down" using up by (auto simp: generic_def)
      then have "ac_id c \<noteq> ac_id down" using same_cmd [OF 2(4)] 2(5) d by auto
      then have "claimed cmds (fst (push_shutter tf cmds (ac_id c) (ac_id down) acc))
          (concat (map shutter_ids (snd (push_shutter tf cmds (ac_id c) (ac_id down) acc))))"
        using push_claimed [OF 2(6)] 2(5) up d by simp
      then show ?thesis using 2(3) [OF up Some 2(4)] 2(5) up Some by simp
    qed
  qed
qed simp

lemma flap_complete:
  assumes "c \<in> set cs" "generic ''FLAP_UP'' c" "d \<in> set cmds" "generic ''FLAP_DOWN'' d"
  shows "ac_id c \<in> fst (flap_pass tf cmds cs acc) \<or> ac_id d \<in> fst (flap_pass tf cmds cs acc)"
  using assms
proof (induction cs arbitrary: acc)
  case (Cons e cs)
  let ?r = "flap_pass tf cmds (e # cs) acc"
  show ?case
  proof (cases "c = e")
    case False
    then show ?thesis using Cons by (auto split: option.split)
  next
    case True
    show ?thesis
    proof (cases "ac_id c \<in> fst acc")
      case inn: True
      then show ?thesis using flap_mono [of acc tf cmds "e # cs"] by auto
    next
      case out: False
      show ?thesis
      proof (cases "free (fst acc) (generic ''FLAP_DOWN'') cmds")
        case None
        then have "ac_id d \<in> fst acc" using Cons.prems(3,4) by (rule free_None)
        then show ?thesis using flap_mono [of acc tf cmds "e # cs"] by auto
      next
        case (Some down)
        then have "flap_pass tf cmds (e # cs) acc = flap_pass tf cmds cs (push_shutter tf cmds (ac_id c) (ac_id down) acc)"
          using True out Cons.prems(2) by simp
        moreover have "ac_id c \<in> fst (push_shutter tf cmds (ac_id c) (ac_id down) acc)" by (rule push_mono(2))
        ultimately show ?thesis
          using flap_mono [of "push_shutter tf cmds (ac_id c) (ac_id down) acc" tf cmds cs] by auto
      qed
    qed
  qed
qed simp

lemma shutter_names_claimed:
  assumes "distinct (map ac_id cmds)" "\<forall>(u, d) \<in> set ns. u \<noteq> d"
    "claimed cmds (fst acc) (concat (map shutter_ids (snd acc)))"
  shows "claimed cmds (fst (shutter_name_pass tf cmds ns acc)) (concat (map shutter_ids (snd (shutter_name_pass tf cmds ns acc))))
    \<and> fst acc \<subseteq> fst (shutter_name_pass tf cmds ns acc)"
  using assms
proof (induction ns arbitrary: acc)
  case (Cons n ns)
  obtain n_up n_down where n: "n = (n_up, n_down)" by (cases n)
  note IH = Cons.IH [OF Cons.prems(1)]
  show ?case
  proof (cases "free (fst acc) (named tf n_up) cmds = None \<or> free (fst acc) (named tf n_down) cmds = None")
    case True
    then show ?thesis using IH [OF _ Cons.prems(3)] Cons.prems(2) by (auto simp: n split: option.split)
  next
    case False
    then obtain up down where some: "free (fst acc) (named tf n_up) cmds = Some up" "free (fst acc) (named tf n_down) cmds = Some down"
      by auto
    note f = free_Some [OF some(1)] free_Some [OF some(2)]
    have "up \<noteq> down" using f Cons.prems(2) by (auto simp: named_def n)
    then have "ac_id up \<noteq> ac_id down" using same_cmd [OF Cons.prems(1)] f by auto
    then have "claimed cmds (fst (push_shutter tf cmds (ac_id up) (ac_id down) acc))
        (concat (map shutter_ids (snd (push_shutter tf cmds (ac_id up) (ac_id down) acc))))"
      using push_claimed [OF Cons.prems(3)] f by simp
    then show ?thesis using IH [of "push_shutter tf cmds (ac_id up) (ac_id down) acc"] Cons.prems(2) some push_mono(1) [of acc tf cmds "ac_id up" "ac_id down"]
      by (auto simp: n)
  qed
qed simp

lemma shutter_names_ok: "\<forall>(u, d) \<in> set shutter_up_down. u \<noteq> d" "\<forall>(u, d) \<in> set name_on_off. u \<noteq> d"
  by (simp_all add: shutter_up_down_def name_on_off_def e_acute_def e_circ_def)

lemma pair_shutters_ok:
  assumes "distinct (map ac_id cmds)" "pair_shutters tf cmds {} = (used, out)"
  shows "claimed cmds used (concat (map shutter_ids out))"
    and "c \<in> set cmds \<Longrightarrow> generic ''FLAP_UP'' c \<Longrightarrow> d \<in> set cmds \<Longrightarrow> generic ''FLAP_DOWN'' d \<Longrightarrow> ac_id c \<in> used \<or> ac_id d \<in> used"
proof -
  have "claimed cmds (fst (flap_pass tf cmds cmds ({}, []))) (concat (map shutter_ids (snd (flap_pass tf cmds cmds ({}, [])))))"
    by (rule flap_claimed [OF assms(1)]) simp_all
  from shutter_names_claimed [where tf = tf, OF assms(1) shutter_names_ok(1) this] show "claimed cmds used (concat (map shutter_ids out))"
    using assms(2) by (simp add: pair_shutters_def)
  assume c: "c \<in> set cmds" "generic ''FLAP_UP'' c" "d \<in> set cmds" "generic ''FLAP_DOWN'' d"
  from flap_complete [OF this, of tf "({}, [])"] shutter_names_claimed [where tf = tf, OF assms(1) shutter_names_ok(1), of "flap_pass tf cmds cmds ({}, [])"]
  show "ac_id c \<in> used \<or> ac_id d \<in> used"
    using assms flap_claimed [OF assms(1) order_refl, of "({}, [])" tf] by (auto simp: pair_shutters_def)
qed

lemma action_ids_push: "concat (map action_ids (out @ [\<lparr>da_on = a, da_off = b\<rparr>])) = concat (map action_ids out) @ [a, b]"
  by (simp add: action_ids_def)

lemma claimed_pair:
  "claimed cmds used ids \<Longrightarrow> c \<in> set cmds \<Longrightarrow> ac_id c \<notin> used \<Longrightarrow> d \<in> set cmds \<Longrightarrow> ac_id d \<notin> used \<Longrightarrow> ac_id c \<noteq> ac_id d
     \<Longrightarrow> claimed cmds (insert (ac_id d) (insert (ac_id c) used)) (ids @ [ac_id c, ac_id d])"
  by (auto simp: claimed_def)

lemma generic_pass_ok:
  assumes "distinct (map ac_id cmds)" "set cs \<subseteq> set cmds" "claimed cmds used (concat (map action_ids out))"
    "generic_pass cmds cs used out = (used1, out1)"
  shows "claimed cmds used1 (concat (map action_ids out1)) \<and> used \<subseteq> used1
    \<and> (\<forall>c \<in> set cs. \<forall>d \<in> set cmds. \<forall>p. generic (p @ ''_ON'') c \<and> generic (p @ ''_OFF'') d \<longrightarrow> ac_id c \<in> used1 \<or> ac_id d \<in> used1)"
  using assms(2-4)
proof (induction cs arbitrary: used out)
  case (Cons c cs)
  have sub: "set cs \<subseteq> set cmds" and c: "c \<in> set cmds" using Cons.prems(1) by auto
  show ?case
  proof (cases "Option.bind (ac_generic c) (strip_suffix ''_ON'')")
    case None
    then have "generic_pass cmds cs used out = (used1, out1)" "\<not> generic (p @ ''_ON'') c" for p
      using Cons.prems(3) by (auto simp: generic_def strip_suffix_def suffix_def split: if_splits)
    then show ?thesis using Cons.IH [OF sub Cons.prems(2)] by auto
  next
    case (Some p)
    then have p: "ac_generic c = Some (p @ ''_ON'')" by (auto simp: bind_eq_Some_conv)
    then have only: "generic (q @ ''_ON'') c \<Longrightarrow> q = p" for q by (simp add: generic_def)
    show ?thesis
    proof (cases "free used (generic (p @ ''_OFF'')) cmds")
      case None
      then have run: "generic_pass cmds cs used out = (used1, out1)" using Cons.prems(3) Some by simp
      have "ac_id d \<in> used" if "d \<in> set cmds" "generic (p @ ''_OFF'') d" for d
        using free_None [OF None] that by simp
      then have "\<forall>d \<in> set cmds. \<forall>q. generic (q @ ''_ON'') c \<and> generic (q @ ''_OFF'') d \<longrightarrow> ac_id d \<in> used"
        using only by blast
      then show ?thesis using Cons.IH [OF sub Cons.prems(2) run] by auto
    next
      case off: (Some off)
      note o = free_Some [OF off]
      have "c \<noteq> off" using o p by (auto simp: generic_def)
      then have ne: "ac_id off \<noteq> ac_id c" using same_cmd [OF assms(1)] c o by auto
      show ?thesis
      proof (cases "ac_id c \<in> used")
        case True
        then have "generic_pass cmds cs used out = (used1, out1)" using Cons.prems(3) Some off by simp
        then show ?thesis using Cons.IH [OF sub Cons.prems(2)] True by auto
      next
        case False
        then have run: "generic_pass cmds cs (insert (ac_id off) (insert (ac_id c) used))
            (out @ [\<lparr>da_on = ac_id c, da_off = ac_id off\<rparr>]) = (used1, out1)"
          using Cons.prems(3) Some off ne by simp
        have "claimed cmds (insert (ac_id off) (insert (ac_id c) used)) (concat (map action_ids (out @ [\<lparr>da_on = ac_id c, da_off = ac_id off\<rparr>])))"
          unfolding action_ids_push using Cons.prems(2) False c o ne by (intro claimed_pair) auto
        from Cons.IH [OF sub this run] show ?thesis by auto
      qed
    qed
  qed
qed auto

lemma name_pass_ok:
  assumes "distinct (map ac_id cmds)" "\<forall>(u, d) \<in> set ns. u \<noteq> d" "claimed cmds used (concat (map action_ids out))"
  shows "\<exists>used1. claimed cmds used1 (concat (map action_ids (name_pass tf cmds ns used out))) \<and> used \<subseteq> used1"
  using assms(2,3)
proof (induction ns arbitrary: used out)
  case (Cons n ns)
  obtain n_on n_off where n: "n = (n_on, n_off)" by (cases n)
  show ?case
  proof (cases "free used (named tf n_on) cmds = None \<or> free used (named tf n_off) cmds = None")
    case True
    then show ?thesis using Cons by (auto simp: n split: option.split)
  next
    case False
    then obtain on off where some: "free used (named tf n_on) cmds = Some on" "free used (named tf n_off) cmds = Some off" by auto
    note f = free_Some [OF some(1)] free_Some [OF some(2)]
    have "on \<noteq> off" using f Cons.prems(1) by (auto simp: named_def n)
    then have "ac_id on \<noteq> ac_id off" using same_cmd [OF assms(1)] f by auto
    then have "claimed cmds (insert (ac_id off) (insert (ac_id on) used)) (concat (map action_ids (out @ [\<lparr>da_on = ac_id on, da_off = ac_id off\<rparr>])))"
      unfolding action_ids_push using Cons.prems(2) f by (intro claimed_pair) auto
    moreover have "\<forall>(u, d) \<in> set ns. u \<noteq> d" using Cons.prems(1) by simp
    ultimately obtain used1 where "claimed cmds used1 (concat (map action_ids (name_pass tf cmds ns
          (insert (ac_id off) (insert (ac_id on) used)) (out @ [\<lparr>da_on = ac_id on, da_off = ac_id off\<rparr>]))))"
        "insert (ac_id off) (insert (ac_id on) used) \<subseteq> used1"
      using Cons.IH by meson
    then show ?thesis using some by (intro exI [of _ used1]) (simp add: n)
  qed
qed auto

lemma pair_actions_ok:
  assumes "distinct (map ac_id cmds)"
  shows "distinct (concat (map action_ids (pair_actions tf cmds)))"
    and "set (concat (map action_ids (pair_actions tf cmds))) \<subseteq> ac_id ` set cmds"
    and "c \<in> set cmds \<Longrightarrow> d \<in> set cmds \<Longrightarrow> generic (p @ ''_ON'') c \<Longrightarrow> generic (p @ ''_OFF'') d
      \<Longrightarrow> ac_id c \<in> set (concat (map action_ids (pair_actions tf cmds))) \<or> ac_id d \<in> set (concat (map action_ids (pair_actions tf cmds)))"
proof -
  obtain used out where g: "generic_pass cmds cmds {} [] = (used, out)" by fastforce
  note go = generic_pass_ok [OF assms order_refl _ g, simplified]
  obtain used1 where n: "claimed cmds used1 (concat (map action_ids (pair_actions tf cmds)))" "used \<subseteq> used1"
    using name_pass_ok [OF assms shutter_names_ok(2) conjunct1 [OF go], of tf] by (auto simp: pair_actions_def g)
  show "distinct (concat (map action_ids (pair_actions tf cmds)))"
    "set (concat (map action_ids (pair_actions tf cmds))) \<subseteq> ac_id ` set cmds"
    using n(1) by (simp_all only: claimed_def)
  show "ac_id c \<in> set (concat (map action_ids (pair_actions tf cmds))) \<or> ac_id d \<in> set (concat (map action_ids (pair_actions tf cmds)))"
    if "c \<in> set cmds" "d \<in> set cmds" "generic (p @ ''_ON'') c" "generic (p @ ''_OFF'') d"
    using go that n unfolding claimed_def by blast
qed

definition equipment_ids :: "discovered_equipment \<Rightarrow> u64 list" where
  "equipment_ids e = concat (map shutter_ids (de_shutters e)) @ concat (map action_ids (de_actions e))"


lemma read_capped_bound:
  "read_capped cap cs got = Some bs \<Longrightarrow> length got \<le> cap \<Longrightarrow> length bs \<le> cap \<and> Some bs = map_option ((@) got) (whole_body cs)"
proof (induction cap cs got rule: read_capped.induct)
  case (3 cap c cs got)
  then show ?case by (auto simp: whole_body_def split: if_splits)
qed (simp_all add: whole_body_def)

definition demo_commands :: "json list" where
  "demo_commands = map (\<lambda>(i, n, g). JObj [(''id'', JNum (PosInt i)), (''type'', JStr ''action''), (''name'', JStr n), (''generic_type'', JStr g)])
     [(210, ''Monter'', ''FLAP_UP''), (211, ''Descendre'', ''FLAP_DOWN''), (212, ''Stop'', []),
      (50, ''On'', []), (51, ''Off'', []), (90, ''Refresh'', ''DONT_CARE'')]"

definition demo_box :: "json list" where
  "demo_box = [JObj [(''name'', JStr ''Salon''), (''eqLogics'', JArr [JObj [(''name'', JStr ''Volet''), (''cmds'', JArr demo_commands)]])]]"

definition demo_found :: discovered_equipment where
  "demo_found = \<lparr>de_name = ''Volet'', de_cmds = [], de_actions = [\<lparr>da_on = 50, da_off = 51\<rparr>],
     de_shutters = [\<lparr>ds_up = 210, ds_down = 211, ds_stop = Some 212, ds_slider = None\<rparr>]\<rparr>"


end
