(* ===== verification/Llm_Providers.thy ===== *)
theory Llm_Providers
  imports Circuit Speech Skills
begin

text \<open>
  The language-model providers and the factory (\<open>providers/src/remote/ollama.rs\<close>, \<open>remote/openai.rs\<close>,
  \<open>no_llm.rs\<close>, \<open>factory.rs\<close>): the request, the decoding of the reply's byte stream into tokens, and which
  provider a configuration builds. The HTTP client is a parameter, as are the decoding of one NDJSON line, JSON
  parsing and lossy UTF-8.
\<close>

section \<open>Requests\<close>

definition system_prompt :: "locale_id \<Rightarrow> string" where
  "system_prompt loc =
     (if prefix ''fr'' loc
      then ''Tu es un assistant vocal utile, concis et amical. R'' @ e_acute @ ''ponds toujours en fran'' @ c_cedil @ ''ais.''
      else ''You are a helpful, concise, friendly voice assistant. Always reply in English.'')"

definition chat_message :: "string \<Rightarrow> string \<Rightarrow> json" where
  "chat_message role content = JObj [(''role'', JStr role), (''content'', JStr content)]"

definition chat_request :: "string \<Rightarrow> locale_id \<Rightarrow> string \<Rightarrow> json" where
  "chat_request model loc prompt =
     JObj [(''model'', JStr model),
           (''messages'', JArr [chat_message ''system'' (system_prompt loc), chat_message ''user'' prompt]),
           (''stream'', JBool True)]"

section \<open>Decoding a byte stream by lines\<close>

text \<open>One line yields some tokens and may end the stream.\<close>

type_synonym line_decoder = "byte list \<Rightarrow> bool \<times> string list"

definition newline :: byte where "newline = 10"

text \<open>Every complete line of the buffer; \<open>None\<close> when a line ended the stream, otherwise the bytes left over.\<close>

function drain_lines :: "line_decoder \<Rightarrow> byte list \<Rightarrow> string list \<times> byte list option" where
  "drain_lines f bs =
     (if newline \<in> set bs then
        (let line = takeWhile (\<lambda>b. b \<noteq> newline) bs;
             left = tl (dropWhile (\<lambda>b. b \<noteq> newline) bs);
             (stop, toks) = f line
         in if stop then (toks, None) else (let (more, r) = drain_lines f left in (toks @ more, r)))
      else ([], Some bs))"
  by pat_completeness auto
termination
proof (relation "measure (length \<circ> snd)")
  fix bs :: "byte list" and line left
  assume "newline \<in> set bs" "left = tl (dropWhile (\<lambda>b. b \<noteq> newline) bs)"
  moreover have "dropWhile (\<lambda>b. b \<noteq> newline) bs \<noteq> []" using calculation(1) by (auto simp: dropWhile_eq_Nil_conv)
  ultimately show "((f, left), (f, bs)) \<in> measure (length \<circ> snd)" for f :: line_decoder
    using length_dropWhile_le [of "\<lambda>b. b \<noteq> newline" bs] by (cases "dropWhile (\<lambda>b. b \<noteq> newline) bs") auto
qed simp

declare drain_lines.simps [simp del]

text \<open>The stream of items: a transport error ends it with that error.\<close>

fun decode_lines :: "line_decoder \<Rightarrow> byte list \<Rightarrow> ('e + byte list) list \<Rightarrow> ('e + string) list" where
  "decode_lines f buffer [] = []"
| "decode_lines f buffer (Inl e # cs) = [Inl e]"
| "decode_lines f buffer (Inr c # cs) =
     (case drain_lines f (buffer @ c) of
        (toks, None) \<Rightarrow> map Inr toks
      | (toks, Some left) \<Rightarrow> map Inr toks @ decode_lines f left cs)"

definition ndjson_line :: "(byte list \<Rightarrow> (string \<times> bool) option) \<Rightarrow> line_decoder" where
  "ndjson_line chunk_of line =
     (if line = [] then (False, [])
      else (case chunk_of line of
          None \<Rightarrow> (False, [])
        | Some (content, fin) \<Rightarrow> (fin, if content = [] then [] else [content])))"

definition decode_ndjson_tokens ::
  "(byte list \<Rightarrow> (string \<times> bool) option) \<Rightarrow> ('e + byte list) list \<Rightarrow> ('e + string) list" where
  "decode_ndjson_tokens chunk_of cs = decode_lines (ndjson_line chunk_of) [] cs"

definition delta_content :: "(string \<Rightarrow> json option) \<Rightarrow> string \<Rightarrow> string option" where
  "delta_content parse data = do {
     v \<leftarrow> parse data;
     choices \<leftarrow> json_get ''choices'' v;
     c0 \<leftarrow> (case choices of JArr (c # _) \<Rightarrow> Some c | _ \<Rightarrow> None);
     delta \<leftarrow> json_get ''delta'' c0;
     content \<leftarrow> json_get ''content'' delta;
     s \<leftarrow> as_str content;
     (if s = [] then None else Some s) }"

definition sse_line :: "(byte list \<Rightarrow> string) \<Rightarrow> (string \<Rightarrow> json option) \<Rightarrow> line_decoder" where
  "sse_line lossy parse line =
     (case strip_prefix ''data:'' (trim (lossy line)) of
        None \<Rightarrow> (False, [])
      | Some rest \<Rightarrow>
          (let data = trim rest in
           if data = ''[DONE]'' then (True, [])
           else (False, case delta_content parse data of None \<Rightarrow> [] | Some t \<Rightarrow> [t])))"

definition decode_sse_tokens ::
  "(byte list \<Rightarrow> string) \<Rightarrow> (string \<Rightarrow> json option) \<Rightarrow> ('e + byte list) list \<Rightarrow> ('e + string) list" where
  "decode_sse_tokens lossy parse cs = decode_lines (sse_line lossy parse) [] cs"

section \<open>Completions\<close>

text \<open>A post gets no reply, with the client's error, or a status, whether it is a success, and the body's chunks.\<close>

record post_request =
  pr_url :: string
  pr_bearer :: "string option"
  pr_body :: json

type_synonym http_post = "post_request \<Rightarrow> string + (string \<times> bool \<times> (string + byte list) list)"

definition post_chat ::
  "http_post \<Rightarrow> string \<Rightarrow> post_request \<Rightarrow> ((string + byte list) list \<Rightarrow> (string + string) list) \<Rightarrow> string + (string + string) list" where
  "post_chat post who rq decode =
     (case post rq of
        Inl e \<Rightarrow> Inl e
      | Inr (status, ok, chunks) \<Rightarrow> if \<not> ok then Inl (who @ '' http '' @ status) else Inr (decode chunks))"

record ollama_llm =
  ol_base_url :: string
  ol_model :: string

definition ollama_complete ::
  "http_post \<Rightarrow> (byte list \<Rightarrow> (string \<times> bool) option) \<Rightarrow> ollama_llm \<Rightarrow> locale_id \<Rightarrow> string \<Rightarrow> string + (string + string) list" where
  "ollama_complete post chunk_of ol loc prompt =
     post_chat post ''ollama''
       \<lparr>pr_url = trim_slashes (ol_base_url ol) @ ''/api/chat'', pr_bearer = None, pr_body = chat_request (ol_model ol) loc prompt\<rparr>
       (decode_ndjson_tokens chunk_of)"

record openai_llm =
  oa_base_url :: string
  oa_model :: string
  oa_api_key :: "string option"

definition openai_new :: "(string \<Rightarrow> string option) \<Rightarrow> string \<Rightarrow> string \<Rightarrow> string option \<Rightarrow> string + openai_llm" where
  "openai_new env base_url model key_env =
     (case key_env of
        None \<Rightarrow> Inr \<lparr>oa_base_url = base_url, oa_model = model, oa_api_key = None\<rparr>
      | Some var \<Rightarrow>
          (case env var of
             None \<Rightarrow> Inl (''api_key_env is set but $'' @ var @ '' is not defined'')
           | Some key \<Rightarrow> Inr \<lparr>oa_base_url = base_url, oa_model = model, oa_api_key = Some key\<rparr>))"

definition openai_complete ::
  "http_post \<Rightarrow> (byte list \<Rightarrow> string) \<Rightarrow> (string \<Rightarrow> json option) \<Rightarrow> openai_llm \<Rightarrow> locale_id \<Rightarrow> string \<Rightarrow> string + (string + string) list" where
  "openai_complete post lossy parse oa loc prompt =
     post_chat post ''openai-compatible''
       \<lparr>pr_url = trim_slashes (oa_base_url oa) @ ''/chat/completions'', pr_bearer = oa_api_key oa,
         pr_body = chat_request (oa_model oa) loc prompt\<rparr>
       (decode_sse_tokens lossy parse)"

definition capabilities :: "locale_id \<Rightarrow> string" where
  "capabilities loc =
     (if prefix ''fr'' loc
      then ''je ne peux pas r'' @ e_acute @ ''pondre '' @ a_grave @ '' cette question. Je peux donner l'' @ apos @ ''heure, la m'' @ e_acute
        @ ''t'' @ e_acute @ ''o, et lancer des minuteurs.''
      else ''I can'' @ apos @ ''t answer that question. I can tell the time, give the weather, and set timers.'')"

definition no_llm_complete :: "locale_id \<Rightarrow> string \<Rightarrow> 'e + ('e + string) list" where
  "no_llm_complete loc prompt = Inr [Inr (capabilities loc)]"

section \<open>The factory\<close>

datatype stage_choice =
    ChooseFake
  | ChooseNone
  | ChooseOllama string string
  | ChooseMqttStt string
  | ChooseMqttTts string
  | ChooseOpenai string string "string option"

record provider_config =
  pc_stt :: stage_choice
  pc_llm :: stage_choice
  pc_tts :: stage_choice

record broker_addr =
  ba_host :: string
  ba_port :: "16 word"
  ba_root :: string

text \<open>What a built provider is: the fake of the tests, or a client of a worker at its broker, root and name.\<close>

datatype worker_backend = FakeBackend | MqttBackend string "16 word" string string
datatype llm_backend = FakeLlm | NoLlm | OllamaBackend ollama_llm | OpenaiBackend openai_llm

record provider_factory =
  pf_stt :: worker_backend
  pf_stt_circuit :: circuit
  pf_llm :: llm_backend
  pf_llm_circuit :: circuit
  pf_tts :: worker_backend
  pf_tts_circuit :: circuit
  pf_tts_retry :: retry_config

definition fresh_circuit :: circuit where
  "fresh_circuit = new_circuit 5 (60 * 1000000000) (15 * 1000000000)"

definition cannot_use :: "(stage_choice \<Rightarrow> string) \<Rightarrow> stage_choice \<Rightarrow> string \<Rightarrow> string" where
  "cannot_use debug c stage = ''cannot use '' @ debug c @ '' as '' @ stage @ '' provider''"

definition mqtt_backend :: "string \<Rightarrow> broker_addr option \<Rightarrow> string \<Rightarrow> string + worker_backend" where
  "mqtt_backend variant broker name =
     (case broker of
        None \<Rightarrow> Inl (variant @ '' requires an [mqtt] broker address'')
      | Some b \<Rightarrow> Inr (MqttBackend (ba_host b) (ba_port b) (ba_root b) name))"

definition build_stt :: "(stage_choice \<Rightarrow> string) \<Rightarrow> stage_choice \<Rightarrow> broker_addr option \<Rightarrow> string + worker_backend" where
  "build_stt debug c broker =
     (case c of
        ChooseFake \<Rightarrow> Inr FakeBackend
      | ChooseMqttStt name \<Rightarrow> mqtt_backend ''MqttStt'' broker name
      | _ \<Rightarrow> Inl (cannot_use debug c ''STT''))"

definition build_llm :: "(stage_choice \<Rightarrow> string) \<Rightarrow> (string \<Rightarrow> string option) \<Rightarrow> stage_choice \<Rightarrow> string + llm_backend" where
  "build_llm debug env c =
     (case c of
        ChooseFake \<Rightarrow> Inr FakeLlm
      | ChooseNone \<Rightarrow> Inr NoLlm
      | ChooseOllama u m \<Rightarrow> Inr (OllamaBackend \<lparr>ol_base_url = u, ol_model = m\<rparr>)
      | ChooseOpenai u m k \<Rightarrow> map_sum id OpenaiBackend (openai_new env u m k)
      | _ \<Rightarrow> Inl (cannot_use debug c ''LLM''))"

definition build_tts :: "(stage_choice \<Rightarrow> string) \<Rightarrow> stage_choice \<Rightarrow> broker_addr option \<Rightarrow> string + worker_backend" where
  "build_tts debug c broker =
     (case c of
        ChooseFake \<Rightarrow> Inr FakeBackend
      | ChooseMqttTts name \<Rightarrow> mqtt_backend ''MqttTts'' broker name
      | _ \<Rightarrow> Inl (cannot_use debug c ''TTS''))"

definition build_providers ::
  "(stage_choice \<Rightarrow> string) \<Rightarrow> (string \<Rightarrow> string option) \<Rightarrow> provider_config \<Rightarrow> broker_addr option \<Rightarrow> string + provider_factory" where
  "build_providers debug env cfg broker =
     (case build_stt debug (pc_stt cfg) broker of
        Inl e \<Rightarrow> Inl e
      | Inr stt \<Rightarrow>
          (case build_llm debug env (pc_llm cfg) of
             Inl e \<Rightarrow> Inl e
           | Inr llm \<Rightarrow>
               (case build_tts debug (pc_tts cfg) broker of
                  Inl e \<Rightarrow> Inl e
                | Inr tts \<Rightarrow>
                    Inr \<lparr>pf_stt = stt, pf_stt_circuit = fresh_circuit, pf_llm = llm, pf_llm_circuit = fresh_circuit,
                         pf_tts = tts, pf_tts_circuit = fresh_circuit, pf_tts_retry = retry_tts\<rparr>)))"

text \<open>Which configurations build at all.\<close>

definition supports_stt :: "broker_addr option \<Rightarrow> stage_choice \<Rightarrow> bool" where
  "supports_stt broker c \<longleftrightarrow> c = ChooseFake \<or> broker \<noteq> None \<and> (\<exists>n. c = ChooseMqttStt n)"

definition supports_tts :: "broker_addr option \<Rightarrow> stage_choice \<Rightarrow> bool" where
  "supports_tts broker c \<longleftrightarrow> c = ChooseFake \<or> broker \<noteq> None \<and> (\<exists>n. c = ChooseMqttTts n)"

definition supports_llm :: "(string \<Rightarrow> string option) \<Rightarrow> stage_choice \<Rightarrow> bool" where
  "supports_llm env c \<longleftrightarrow>
     (case c of
        ChooseMqttStt _ \<Rightarrow> False
      | ChooseMqttTts _ \<Rightarrow> False
      | ChooseOpenai _ _ (Some var) \<Rightarrow> env var \<noteq> None
      | _ \<Rightarrow> True)"

lemma build_providers_iff:
  "(\<exists>pf. build_providers debug env cfg broker = Inr pf)
     \<longleftrightarrow> supports_stt broker (pc_stt cfg) \<and> supports_llm env (pc_llm cfg) \<and> supports_tts broker (pc_tts cfg)"
proof -
  have "(\<exists>b. build_stt debug c broker = Inr b) \<longleftrightarrow> supports_stt broker c" for c
    by (cases c) (auto simp: build_stt_def supports_stt_def mqtt_backend_def split: option.splits)
  moreover have "(\<exists>b. build_tts debug c broker = Inr b) \<longleftrightarrow> supports_tts broker c" for c
    by (cases c) (auto simp: build_tts_def supports_tts_def mqtt_backend_def split: option.splits)
  moreover have "(\<exists>b. build_llm debug env c = Inr b) \<longleftrightarrow> supports_llm env c" for c
    by (cases c) (auto simp: build_llm_def supports_llm_def openai_new_def split: option.splits)
  ultimately show ?thesis
    by (auto simp: build_providers_def split: sum.split)
      (metis sum.distinct(1) sum.exhaust sum.inject)+
qed

lemma build_providers_closed:
  "build_providers debug env cfg broker = Inr pf \<Longrightarrow>
     permits now (pf_stt_circuit pf) \<and> permits now (pf_llm_circuit pf) \<and> permits now (pf_tts_circuit pf)"
  by (auto simp: build_providers_def fresh_circuit_def new_circuit_def permits_def can_call_def split: sum.splits)

section \<open>The reference: tokens of the complete lines\<close>

text \<open>Independently of how the bytes arrive: the newline-terminated lines of all bytes received, read one by one up
  to the line that ends the answer.\<close>

fun lines_from :: "byte list \<Rightarrow> byte list \<Rightarrow> byte list list" where
  "lines_from acc [] = []"
| "lines_from acc (b # bs) = (if b = newline then acc # lines_from [] bs else lines_from (acc @ [b]) bs)"

fun line_tokens :: "line_decoder \<Rightarrow> byte list list \<Rightarrow> string list" where
  "line_tokens f [] = []"
| "line_tokens f (l # ls) = snd (f l) @ (if fst (f l) then [] else line_tokens f ls)"

definition line_stops :: "line_decoder \<Rightarrow> byte list list \<Rightarrow> bool" where
  "line_stops f ls \<longleftrightarrow> (\<exists>l \<in> set ls. fst (f l))"

fun received :: "('e + byte list) list \<Rightarrow> byte list" where
  "received (Inr c # cs) = c @ received cs"
| "received cs = []"

fun broken :: "('e + byte list) list \<Rightarrow> ('e + string) list" where
  "broken [] = []"
| "broken (Inl e # cs) = [Inl e]"
| "broken (Inr c # cs) = broken cs"

definition line_answer :: "line_decoder \<Rightarrow> ('e + byte list) list \<Rightarrow> ('e + string) list" where
  "line_answer f cs =
     (let ls = lines_from [] (received cs)
      in map Inr (line_tokens f ls) @ (if line_stops f ls then [] else broken cs))"

lemma lines_from_plain: "newline \<notin> set bs \<Longrightarrow> lines_from acc bs = []"
  by (induction bs arbitrary: acc) auto

lemma lines_from_line: "newline \<notin> set l \<Longrightarrow> lines_from acc (l @ newline # bs) = (acc @ l) # lines_from [] bs"
  by (induction l arbitrary: acc) auto

lemma lines_from_append: "newline \<notin> set acc \<Longrightarrow> lines_from [] (acc @ bs) = lines_from acc bs"
proof -
  have "newline \<notin> set l \<Longrightarrow> lines_from acc (l @ bs) = lines_from (acc @ l) bs" for l acc
    by (induction l arbitrary: acc) auto
  then show "newline \<notin> set acc \<Longrightarrow> lines_from [] (acc @ bs) = lines_from acc bs" by simp
qed

text \<open>Draining a buffer reads exactly its complete lines and keeps the rest.\<close>

lemma drain_lines_spec:
  "\<exists>left. drain_lines f bs = (line_tokens f (lines_from [] bs), if line_stops f (lines_from [] bs) then None else Some left)
     \<and> newline \<notin> set left
     \<and> (\<forall>more. \<not> line_stops f (lines_from [] bs) \<longrightarrow> lines_from [] (bs @ more) = lines_from [] bs @ lines_from [] (left @ more))"
proof (induction f bs rule: drain_lines.induct)
  case (1 f bs)
  show ?case
  proof (cases "newline \<in> set bs")
    case False
    then show ?thesis
      by (intro exI [of _ bs]) (simp add: drain_lines.simps lines_from_plain line_stops_def)
  next
    case True
    define line left where "line = takeWhile (\<lambda>b. b \<noteq> newline) bs" and "left = tl (dropWhile (\<lambda>b. b \<noteq> newline) bs)"
    have drop: "dropWhile (\<lambda>b. b \<noteq> newline) bs = newline # left"
    proof (cases "dropWhile (\<lambda>b. b \<noteq> newline) bs")
      case Nil
      then show ?thesis using True by (auto simp: dropWhile_eq_Nil_conv)
    next
      case (Cons b rest)
      then have "b = newline" using hd_dropWhile_not [of "\<lambda>b. b \<noteq> newline" bs] by simp
      then show ?thesis using Cons by (simp add: left_def)
    qed
    have bs: "bs = line @ newline # left" using takeWhile_dropWhile_id [of "\<lambda>b. b \<noteq> newline" bs] by (simp add: drop line_def)
    have nl: "newline \<notin> set line" by (auto simp: line_def dest: set_takeWhileD)
    have lines: "lines_from [] (bs @ more) = line # lines_from [] (left @ more)" for more
      using lines_from_line [OF nl, of "[]"] by (simp add: bs)
    have lines0: "lines_from [] bs = line # lines_from [] left" using lines [of "[]"] by simp
    have unfold: "drain_lines f bs = (if fst (f line) then (snd (f line), None)
        else (snd (f line) @ fst (drain_lines f left), snd (drain_lines f left)))"
      using True by (subst drain_lines.simps) (simp add: line_def left_def Let_def case_prod_beta)
    show ?thesis
    proof (cases "fst (f line)")
      case True
      then show ?thesis unfolding unfold by (intro exI [of _ "[]"]) (simp add: lines0 line_stops_def)
    next
      case False
      obtain st toks where ft: "f line = (st, toks)" by fastforce
      with False have "\<not> st" by simp
      from "1.IH" [OF True line_def left_def ft [symmetric] refl this]
      obtain rest where "drain_lines f left = (line_tokens f (lines_from [] left), if line_stops f (lines_from [] left) then None else Some rest)"
        "newline \<notin> set rest"
        "\<forall>more. \<not> line_stops f (lines_from [] left) \<longrightarrow> lines_from [] (left @ more) = lines_from [] left @ lines_from [] (rest @ more)"
        by blast
      then show ?thesis unfolding unfold using False
        by (intro exI [of _ rest]) (auto simp: lines0 lines line_stops_def)
    qed
  qed
qed

lemma line_tokens_append:
  "line_tokens f (a @ b) = line_tokens f a @ (if line_stops f a then [] else line_tokens f b)"
  by (induction a) (auto simp: line_stops_def)

lemma line_stops_append: "line_stops f (a @ b) \<longleftrightarrow> line_stops f a \<or> line_stops f b"
  by (auto simp: line_stops_def)

lemma lines_from_extends: "\<exists>later. lines_from acc (a @ b) = lines_from acc a @ later"
  by (induction a arbitrary: acc) auto

lemma decode_lines_spec:
  "decode_lines f buffer cs =
     (let ls = lines_from [] (buffer @ received cs)
      in map Inr (line_tokens f ls) @ (if line_stops f ls then [] else broken cs))"
  if "newline \<notin> set buffer"
  using that
proof (induction f buffer cs rule: decode_lines.induct)
  case (1 f buffer)
  then show ?case by (simp add: lines_from_plain)
next
  case (2 f buffer e cs)
  then show ?case by (simp add: lines_from_plain line_stops_def)
next
  case (3 f buffer c cs)
  let ?ls = "lines_from [] (buffer @ c)"
  obtain left where d: "drain_lines f (buffer @ c) = (line_tokens f ?ls, if line_stops f ?ls then None else Some left)"
      "newline \<notin> set left"
      "\<And>more. \<not> line_stops f ?ls \<Longrightarrow> lines_from [] ((buffer @ c) @ more) = ?ls @ lines_from [] (left @ more)"
    using drain_lines_spec [of f "buffer @ c"] by blast
  show ?case
  proof (cases "line_stops f ?ls")
    case True
    have "\<exists>later. lines_from [] ((buffer @ c) @ received cs) = ?ls @ later" by (rule lines_from_extends)
    then show ?thesis using True d(1) by (auto simp: Let_def line_tokens_append line_stops_append)
  next
    case False
    have "decode_lines f left cs = (let ls = lines_from [] (left @ received cs)
        in map Inr (line_tokens f ls) @ (if line_stops f ls then [] else broken cs))"
      using "3.IH" d(1,2) False by simp
    then show ?thesis
      using False d(1) d(3) [OF False, of "received cs"]
      by (simp add: Let_def line_tokens_append line_stops_append)
  qed
qed

text \<open>C23: how the network cuts a model's reply does not matter: both providers turn the byte stream into
  exactly the tokens of its complete lines, each line read as a whole, in order, up to the line that ends the
  answer; what follows that line is ignored, even a transport error, and an error before it comes last, after
  every token of the lines received before it.\<close>

theorem chunking_is_irrelevant:
  "decode_ndjson_tokens chunk_of cs = line_answer (ndjson_line chunk_of) cs
   \<and> decode_sse_tokens lossy parse ds = line_answer (sse_line lossy parse) ds"
  by (simp add: decode_ndjson_tokens_def decode_sse_tokens_def line_answer_def decode_lines_spec)

end
