(* ===== verification/Mqtt_Providers.thy ===== *)
theory Mqtt_Providers
  imports Speech Satellite_Session Intent "HOL-Library.Sublist"
begin

text \<open>
  The providers that reach a speech worker over MQTT (\<open>providers/src/remote/mqtt_client.rs\<close>, \<open>mqtt_tts.rs\<close>,
  \<open>mqtt_stt.rs\<close>): the client that routes the replies of a worker to the call of their session, and the two
  protocols spoken over it. JSON text, base64 and UUID text are parameters (\<open>wire\<close>), their laws \<open>wire_ok\<close>.
\<close>

section \<open>The wire\<close>

record wire =
  w_parse :: "byte list \<Rightarrow> json option"
  w_show :: "json \<Rightarrow> byte list"
  w_b64 :: "byte list \<Rightarrow> string"
  w_unb64 :: "string \<Rightarrow> byte list option"
  w_uuid_text :: "session_id \<Rightarrow> string"
  w_uuid :: "string \<Rightarrow> session_id option"

text \<open>Objects of strings, flags and counts, as both sides write them: parsing the printed text gives an object with
  the same members, base64 and UUIDs read back.\<close>

definition scalar :: "json \<Rightarrow> bool" where
  "scalar v = (case v of JStr _ \<Rightarrow> True | JBool _ \<Rightarrow> True | JNum (PosInt _) \<Rightarrow> True | _ \<Rightarrow> False)"

definition flat :: "(string \<times> json) list \<Rightarrow> bool" where
  "flat kvs \<longleftrightarrow> distinct (map fst kvs) \<and> list_all (scalar \<circ> snd) kvs"

definition wire_ok :: "wire \<Rightarrow> bool" where
  "wire_ok w \<longleftrightarrow>
     (\<forall>kvs. flat kvs \<longrightarrow> (\<exists>v. w_parse w (w_show w (JObj kvs)) = Some v \<and> (\<forall>k. json_get k v = map_of kvs k)))
     \<and> (\<forall>bs. w_unb64 w (w_b64 w bs) = Some bs)
     \<and> (\<forall>s. w_uuid w (w_uuid_text w s) = Some s)"

definition str_field :: "string \<Rightarrow> json \<Rightarrow> string option" where
  "str_field k v = Option.bind (json_get k v) as_str"

definition flag :: "string \<Rightarrow> json \<Rightarrow> bool" where
  "flag k v \<longleftrightarrow> Option.bind (json_get k v) as_bool = Some True"

section \<open>The client\<close>

text \<open>Every call opens a channel; a channel is known by its number. \<open>cl_open\<close> are the receivers not yet dropped.\<close>

record mqtt_client =
  cl_routes :: "session_id \<Rightarrow> nat option"
  cl_inbox :: "nat \<Rightarrow> byte list list"
  cl_open :: "nat set"
  cl_next :: nat
  cl_requests :: "byte list list"

definition client_init :: mqtt_client where
  "client_init = \<lparr>cl_routes = Map.empty, cl_inbox = (\<lambda>_. []), cl_open = {}, cl_next = 0, cl_requests = []\<rparr>"

definition inbox_capacity :: nat where "inbox_capacity = 32"

text \<open>The flag says whether the client accepts the publish. The route stands even when it does not.\<close>

definition call_streaming :: "session_id \<Rightarrow> byte list \<Rightarrow> bool \<Rightarrow> mqtt_client \<Rightarrow> nat option \<times> mqtt_client" where
  "call_streaming sid payload ok c =
     (let ch = cl_next c;
          c1 = c\<lparr>cl_routes := (cl_routes c)(sid \<mapsto> ch), cl_next := Suc ch\<rparr>
      in if ok then (Some ch, c1\<lparr>cl_open := insert ch (cl_open c1), cl_requests := cl_requests c1 @ [payload]\<rparr>)
         else (None, c1))"

definition publish_request :: "byte list \<Rightarrow> mqtt_client \<Rightarrow> mqtt_client" where
  "publish_request payload c = c\<lparr>cl_requests := cl_requests c @ [payload]\<rparr>"

definition extract_session :: "wire \<Rightarrow> byte list \<Rightarrow> session_id option" where
  "extract_session w payload =
     Option.bind (Option.bind (w_parse w payload) (str_field ''session_id'')) (w_uuid w)"

datatype try_send_result = SendOk mqtt_client | SendFull | SendClosed

definition try_send :: "nat \<Rightarrow> byte list \<Rightarrow> mqtt_client \<Rightarrow> try_send_result" where
  "try_send ch p c =
     (if ch \<notin> cl_open c then SendClosed
      else if length (cl_inbox c ch) \<ge> inbox_capacity then SendFull
      else SendOk (c\<lparr>cl_inbox := (cl_inbox c)(ch := cl_inbox c ch @ [p])\<rparr>))"

definition on_publish :: "wire \<Rightarrow> string \<Rightarrow> string \<Rightarrow> byte list \<Rightarrow> mqtt_client \<Rightarrow> mqtt_client" where
  "on_publish w response_topic topic payload c =
     (if topic \<noteq> response_topic then c
      else case extract_session w payload of
          None \<Rightarrow> c
        | Some sid \<Rightarrow>
            (case cl_routes c sid of
               None \<Rightarrow> c
             | Some ch \<Rightarrow>
                 (case try_send ch payload c of
                    SendOk c1 \<Rightarrow> c1
                  | SendFull \<Rightarrow> c
                  | SendClosed \<Rightarrow> c\<lparr>cl_routes := (cl_routes c)(sid := None)\<rparr>)))"

text \<open>What a caller sees: a reply, the end of its timeout, or the end of a channel whose sender is gone.\<close>

datatype recv_event = Arrived "byte list" | TimedOut | ChannelClosed

definition recv :: "nat \<Rightarrow> mqtt_client \<Rightarrow> recv_event \<times> mqtt_client" where
  "recv ch c =
     (case cl_inbox c ch of
        p # ps \<Rightarrow> (Arrived p, c\<lparr>cl_inbox := (cl_inbox c)(ch := ps)\<rparr>)
      | [] \<Rightarrow> (if Some ch \<in> range (cl_routes c) then TimedOut else ChannelClosed, c))"

definition drop_receiver :: "nat \<Rightarrow> mqtt_client \<Rightarrow> mqtt_client" where
  "drop_receiver ch c = c\<lparr>cl_open := cl_open c - {ch}, cl_inbox := (cl_inbox c)(ch := [])\<rparr>"

definition call_once :: "session_id \<Rightarrow> byte list \<Rightarrow> bool \<Rightarrow> recv_event \<Rightarrow> mqtt_client \<Rightarrow> (string + byte list) \<times> mqtt_client" where
  "call_once sid payload ok ev c =
     (case call_streaming sid payload ok c of
        (None, c1) \<Rightarrow> (Inl ''mqtt publish'', c1)
      | (Some ch, c1) \<Rightarrow>
          (case ev of
             Arrived p \<Rightarrow> Inr p
           | ChannelClosed \<Rightarrow> Inl ''mqtt response channel closed''
           | TimedOut \<Rightarrow> Inl ''mqtt request timed out'', drop_receiver ch c1))"

section \<open>Text to speech\<close>

definition tts_topics :: "string \<Rightarrow> string \<Rightarrow> string \<times> string" where
  "tts_topics troot name = (troot @ ''/providers/tts/'' @ name @ ''/request'', troot @ ''/providers/tts/'' @ name @ ''/response'')"

definition tts_request :: "wire \<Rightarrow> session_id \<Rightarrow> locale_id \<Rightarrow> string \<Rightarrow> byte list" where
  "tts_request w sid loc txt =
     w_show w (JObj [(''session_id'', JStr (w_uuid_text w sid)), (''locale'', JStr loc), (''text'', JStr txt)])"

definition parse_format :: "json option \<Rightarrow> audio_format \<times> u32" where
  "parse_format first =
     ((case Option.bind first (str_field ''format'') of
         None \<Rightarrow> S16le
       | Some f \<Rightarrow> if f = ''opus'' then Opus else if f = ''f32le'' then F32le else if f = ''text'' then TextFormat else S16le),
      (case Option.bind (Option.bind (Option.bind first (json_get ''sample_rate'')) as_u64) to_u32 of
         None \<Rightarrow> 22050
       | Some r \<Rightarrow> if r > 0 then r else 22050))"

text \<open>The first message that is JSON; the others are skipped. The end of the list is a caller still waiting.\<close>

fun first_value :: "wire \<Rightarrow> recv_event list \<Rightarrow> json option \<times> recv_event list" where
  "first_value w [] = (None, [])"
| "first_value w (Arrived p # es) = (case w_parse w p of Some v \<Rightarrow> (Some v, es) | None \<Rightarrow> first_value w es)"
| "first_value w (TimedOut # es) = (None, es)"
| "first_value w (ChannelClosed # es) = (None, es)"

definition reply_chunk :: "wire \<Rightarrow> json \<Rightarrow> byte list option" where
  "reply_chunk w v = Option.bind (str_field ''chunk_b64'' v) (w_unb64 w)"

text \<open>One poll of the audio stream: the next chunk with its \<open>done\<close> flag, or the end.\<close>

function next_chunk :: "wire \<Rightarrow> json option \<Rightarrow> recv_event list \<Rightarrow> (byte list \<times> bool) option \<times> recv_event list" where
  "next_chunk w (Some v) es =
     (case reply_chunk w v of
        Some bs \<Rightarrow> (Some (bs, flag ''done'' v), es)
      | None \<Rightarrow> if flag ''done'' v then (None, es) else next_chunk w None es)"
| "next_chunk w None [] = (None, [])"
| "next_chunk w None (TimedOut # es) = (None, es)"
| "next_chunk w None (ChannelClosed # es) = (None, es)"
| "next_chunk w None (Arrived p # es) =
     (case w_parse w p of None \<Rightarrow> next_chunk w None es | Some v \<Rightarrow> next_chunk w (Some v) es)"
  by pat_completeness auto
termination
  by (relation "measure (\<lambda>(w, p, es). 2 * length es + (if p = None then 0 else 1))") auto

definition stream_size :: "json option \<Rightarrow> recv_event list \<Rightarrow> nat" where
  "stream_size p es = 2 * length es + (if p = None then 0 else 1)"

lemma next_chunk_consumes:
  "next_chunk w p es = (r, rest) \<Longrightarrow> stream_size None rest \<le> stream_size p es \<and> (r \<noteq> None \<longrightarrow> stream_size None rest < stream_size p es)"
  by (induction w p es arbitrary: r rest rule: next_chunk.induct)
     (fastforce simp: stream_size_def split: option.splits if_splits)+

function tts_stream :: "wire \<Rightarrow> json option \<Rightarrow> bool \<Rightarrow> recv_event list \<Rightarrow> byte list list \<times> recv_event list" where
  "tts_stream w pending finished es =
     (if finished then ([], es)
      else case next_chunk w pending es of
          (None, rest) \<Rightarrow> ([], rest)
        | (Some (bs, fin), rest) \<Rightarrow> (let (cs, r) = tts_stream w None fin rest in (bs # cs, r)))"
  by pat_completeness auto
termination
  by (relation "measure (\<lambda>(w, p, f, es). stream_size p es)") (auto dest!: next_chunk_consumes [OF sym])

declare tts_stream.simps [simp del]

text \<open>What \<open>synthesize\<close> gives the TTS stage: nothing when the request cannot be published, otherwise the declared
  format and the chunks, and the events it leaves unread.\<close>

definition mqtt_tts :: "wire \<Rightarrow> bool \<Rightarrow> recv_event list \<Rightarrow> synth_result \<times> recv_event list" where
  "mqtt_tts w accepted es =
     (if \<not> accepted then (None, es)
      else (let (first, es1) = first_value w es;
                (fmt, rate) = parse_format first;
                (cs, rest) = tts_stream w first False es1
            in (Some (fmt, rate, map SChunk cs), rest)))"

lemma json_get_JObj [simp]: "json_get k (JObj kvs) = map_of kvs k"
  by (simp add: json_get_def)

lemma wire_reads: "wire_ok w \<Longrightarrow> flat kvs \<Longrightarrow> \<exists>v. w_parse w (w_show w (JObj kvs)) = Some v \<and> (\<forall>k. json_get k v = map_of kvs k)"
  by (simp add: wire_ok_def)

lemma wire_laws [simp]:
  "wire_ok w \<Longrightarrow> w_unb64 w (w_b64 w bs) = Some bs"
  "wire_ok w \<Longrightarrow> w_uuid w (w_uuid_text w s) = Some s"
  by (simp_all add: wire_ok_def)

text \<open>A message of the worker, as the provider reads it: the chunk it carries, if any, and whether it is the last.\<close>

definition says :: "wire \<Rightarrow> byte list \<Rightarrow> byte list option \<Rightarrow> bool \<Rightarrow> bool" where
  "says w p chunk fin \<longleftrightarrow> (\<exists>v. w_parse w p = Some v \<and> reply_chunk w v = chunk \<and> flag ''done'' v = fin)"

lemma tts_stream_chunks:
  assumes "list_all2 (\<lambda>p c. says w p (Some c) False) ps cs" "says w fin None True"
  shows "tts_stream w None False (map Arrived (ps @ [fin]) @ later) = (cs, later)"
  using assms(1)
proof (induction ps cs rule: list_all2_induct)
  case Nil
  then show ?case using assms(2) by (subst tts_stream.simps) (auto simp: says_def)
next
  case (Cons p ps c cs)
  then show ?case by (subst tts_stream.simps) (auto simp: says_def)
qed

lemma tts_stream_pending: "w_parse w p = Some v \<Longrightarrow> tts_stream w (Some v) False es = tts_stream w None False (Arrived p # es)"
  by (subst (1 2) tts_stream.simps) simp

text \<open>A worker that sends its chunks and then its end marker is heard exactly, and not one event further.\<close>

lemma mqtt_tts_chunks:
  assumes "list_all2 (\<lambda>p c. says w p (Some c) False) ps cs" "says w fin None True"
    and "w_parse w (hd (ps @ [fin])) = Some v"
  shows "mqtt_tts w True (map Arrived (ps @ [fin]) @ later) =
    (case parse_format (Some v) of (fmt, rate) \<Rightarrow> (Some (fmt, rate, map SChunk cs), later))"
proof -
  obtain p ps' where ps: "ps @ [fin] = p # ps'" by (cases ps) auto
  then have p: "w_parse w p = Some v" using assms(3) by simp
  then have "first_value w (map Arrived (ps @ [fin]) @ later) = (Some v, map Arrived ps' @ later)" by (simp add: ps)
  moreover have "tts_stream w (Some v) False (map Arrived ps' @ later) = (cs, later)"
    using tts_stream_chunks [OF assms(1,2), of later] by (simp add: ps tts_stream_pending [OF p])
  ultimately show ?thesis by (simp add: mqtt_tts_def split: prod.split)
qed

section \<open>Speech to text\<close>

definition stt_start :: "wire \<Rightarrow> session_id \<Rightarrow> locale_id \<Rightarrow> byte list" where
  "stt_start w sid loc =
     w_show w (JObj [(''session_id'', JStr (w_uuid_text w sid)), (''locale'', JStr loc), (''format'', JStr ''s16le''),
       (''sample_rate'', JNum (PosInt 16000))])"

definition stt_audio :: "wire \<Rightarrow> session_id \<Rightarrow> byte list \<Rightarrow> byte list" where
  "stt_audio w sid pcm =
     w_show w (JObj [(''session_id'', JStr (w_uuid_text w sid)), (''audio_b64'', JStr (w_b64 w pcm))])"

definition stt_boundary :: "wire \<Rightarrow> session_id \<Rightarrow> byte list" where
  "stt_boundary w sid = w_show w (JObj [(''session_id'', JStr (w_uuid_text w sid)), (''done'', JBool True)])"

text \<open>The pump over the frames of a session, whose input then closes; a refused publish ends it early.\<close>

fun pump_audio :: "wire \<Rightarrow> session_id \<Rightarrow> byte list list \<Rightarrow> byte list chan \<Rightarrow> byte list chan" where
  "pump_audio w sid [] ch = snd (send (stt_boundary w sid) ch)"
| "pump_audio w sid (f # fs) ch =
     (case send (if f = [] then stt_boundary w sid else stt_audio w sid f) ch of
        (False, ch1) \<Rightarrow> snd (send (stt_boundary w sid) ch1)
      | (True, ch1) \<Rightarrow> pump_audio w sid fs ch1)"

datatype stt_response = SttTranscript transcript | SttDone | SttMalformed

text \<open>\<open>conf\<close> is the \<open>f64\<close> reading of a number, cast to \<open>f32\<close>.\<close>

definition parse_stt_response :: "wire \<Rightarrow> (json \<Rightarrow> u32 option) \<Rightarrow> byte list \<Rightarrow> stt_response" where
  "parse_stt_response w conf payload =
     (case w_parse w payload of
        None \<Rightarrow> SttMalformed
      | Some v \<Rightarrow>
          (case str_field ''text'' v of
             Some txt \<Rightarrow> SttTranscript \<lparr>t_text = txt, t_is_final = flag ''is_final'' v,
                           t_confidence = Option.bind (json_get ''confidence'' v) conf\<rparr>
           | None \<Rightarrow> if flag ''done'' v then SttDone else SttMalformed))"

fun transcript_stream :: "wire \<Rightarrow> (json \<Rightarrow> u32 option) \<Rightarrow> recv_event list \<Rightarrow> transcript list \<times> recv_event list" where
  "transcript_stream w conf [] = ([], [])"
| "transcript_stream w conf (TimedOut # es) = ([], es)"
| "transcript_stream w conf (ChannelClosed # es) = ([], es)"
| "transcript_stream w conf (Arrived p # es) =
     (case parse_stt_response w conf p of
        SttTranscript t \<Rightarrow> (let (ts, r) = transcript_stream w conf es in (t # ts, r))
      | SttDone \<Rightarrow> ([], es)
      | SttMalformed \<Rightarrow> transcript_stream w conf es)"

lemma pump_audio_alive:
  "accepts ch = None \<Longrightarrow>
     sent (pump_audio w sid fs ch) =
       sent ch @ map (\<lambda>f. if f = [] then stt_boundary w sid else stt_audio w sid f) fs @ [stt_boundary w sid]"
  by (induction fs arbitrary: ch) (simp_all add: send_alive)

section \<open>Replies reach the call they answer\<close>

datatype client_op =
    Call session_id "byte list" bool
  | Reply string "byte list"
  | Receive nat
  | Drop nat

fun client_step :: "wire \<Rightarrow> string \<Rightarrow> client_op \<Rightarrow> mqtt_client \<Rightarrow> mqtt_client" where
  "client_step w rt (Call sid p ok) c = snd (call_streaming sid p ok c)"
| "client_step w rt (Reply topic p) c = on_publish w rt topic p c"
| "client_step w rt (Receive ch) c = snd (recv ch c)"
| "client_step w rt (Drop ch) c = drop_receiver ch c"

text \<open>What the holder of one receiver has taken from it over a run.\<close>

fun taken :: "wire \<Rightarrow> string \<Rightarrow> nat \<Rightarrow> client_op list \<Rightarrow> mqtt_client \<Rightarrow> byte list list" where
  "taken w rt ch [] c = []"
| "taken w rt ch (op # ops) c =
     (case op of
        Receive n \<Rightarrow> if n = ch then (case fst (recv ch c) of Arrived p \<Rightarrow> [p] | _ \<Rightarrow> []) else []
      | _ \<Rightarrow> []) @ taken w rt ch ops (client_step w rt op c)"

definition client_run :: "wire \<Rightarrow> string \<Rightarrow> client_op list \<Rightarrow> mqtt_client \<Rightarrow> mqtt_client" where
  "client_run w rt ops c = fold (client_step w rt) ops c"

text \<open>The replies of a session on the response topic.\<close>

fun replies_to :: "wire \<Rightarrow> string \<Rightarrow> session_id \<Rightarrow> client_op list \<Rightarrow> byte list list" where
  "replies_to w rt sid [] = []"
| "replies_to w rt sid (op # ops) =
     (case op of
        Reply topic p \<Rightarrow> if topic = rt \<and> extract_session w p = Some sid then [p] else []
      | _ \<Rightarrow> []) @ replies_to w rt sid ops"

text \<open>Whether some reply found the receiver's inbox full.\<close>

fun overflows :: "wire \<Rightarrow> string \<Rightarrow> session_id \<Rightarrow> nat \<Rightarrow> client_op list \<Rightarrow> mqtt_client \<Rightarrow> bool" where
  "overflows w rt sid ch [] c = False"
| "overflows w rt sid ch (op # ops) c =
     ((case op of
         Reply topic p \<Rightarrow> topic = rt \<and> extract_session w p = Some sid \<and> length (cl_inbox c ch) \<ge> inbox_capacity
       | _ \<Rightarrow> False) \<or> overflows w rt sid ch ops (client_step w rt op c))"

definition client_ok :: "mqtt_client \<Rightarrow> bool" where
  "client_ok c \<longleftrightarrow>
     (\<forall>s n. cl_routes c s = Some n \<longrightarrow> n < cl_next c)
     \<and> (\<forall>s t n. cl_routes c s = Some n \<and> cl_routes c t = Some n \<longrightarrow> s = t)
     \<and> (\<forall>n \<in> cl_open c. n < cl_next c)
     \<and> (\<forall>n. n \<notin> cl_open c \<longrightarrow> cl_inbox c n = [])
     \<and> (\<forall>n. length (cl_inbox c n) \<le> inbox_capacity)"

lemma client_init_ok: "client_ok client_init"
  by (simp add: client_ok_def client_init_def)

lemma call_streaming_ok: "client_ok c \<Longrightarrow> client_ok (snd (call_streaming sid p ok c))"
  by (auto simp: client_ok_def call_streaming_def Let_def split: if_splits) (metis less_irrefl less_Suc_eq)+

lemma on_publish_ok: "client_ok c \<Longrightarrow> client_ok (on_publish w rt topic p c)"
  by (auto simp: client_ok_def on_publish_def try_send_def split: option.splits if_splits)

lemma client_recv_ok: "client_ok c \<Longrightarrow> client_ok (snd (recv ch c))"
  unfolding client_ok_def recv_def
  by (auto split: list.split) (metis length_Cons Suc_leD)+

lemma drop_receiver_ok: "client_ok c \<Longrightarrow> client_ok (drop_receiver ch c)"
  by (auto simp: client_ok_def drop_receiver_def)

lemma client_step_ok: "client_ok c \<Longrightarrow> client_ok (client_step w rt op c)"
  by (cases op) (simp_all add: call_streaming_ok on_publish_ok client_recv_ok drop_receiver_ok)

lemma client_run_ok: "client_ok c \<Longrightarrow> client_ok (client_run w rt ops c)"
  by (induction ops arbitrary: c) (simp_all add: client_run_def client_step_ok)

text \<open>The receiver of a session's latest call: it stays routed, and each step adds what it should.\<close>

definition holds_route :: "session_id \<Rightarrow> nat \<Rightarrow> mqtt_client \<Rightarrow> bool" where
  "holds_route sid ch c \<longleftrightarrow> client_ok c \<and> cl_routes c sid = Some ch \<and> ch \<in> cl_open c"

definition step_takes :: "nat \<Rightarrow> client_op \<Rightarrow> mqtt_client \<Rightarrow> byte list list" where
  "step_takes ch op c = (case op of Receive n \<Rightarrow> if n = ch then (case fst (recv ch c) of Arrived p \<Rightarrow> [p] | _ \<Rightarrow> []) else [] | _ \<Rightarrow> [])"

definition step_reply :: "wire \<Rightarrow> string \<Rightarrow> session_id \<Rightarrow> client_op \<Rightarrow> byte list list" where
  "step_reply w rt sid op = (case op of Reply topic p \<Rightarrow> if topic = rt \<and> extract_session w p = Some sid then [p] else [] | _ \<Rightarrow> [])"

definition step_lost :: "wire \<Rightarrow> string \<Rightarrow> session_id \<Rightarrow> nat \<Rightarrow> client_op \<Rightarrow> mqtt_client \<Rightarrow> bool" where
  "step_lost w rt sid ch op c \<longleftrightarrow> step_reply w rt sid op \<noteq> [] \<and> length (cl_inbox c ch) \<ge> inbox_capacity"

lemma client_step_route:
  assumes "holds_route sid ch c" "\<forall>p ok. op \<noteq> Call sid p ok" "op \<noteq> Drop ch"
  shows "holds_route sid ch (client_step w rt op c)
    \<and> step_takes ch op c @ cl_inbox (client_step w rt op c) ch
        = cl_inbox c ch @ (if step_lost w rt sid ch op c then [] else step_reply w rt sid op)"
proof -
  have ok: "client_ok (client_step w rt op c)" using assms(1) client_step_ok by (simp add: holds_route_def)
  have c: "client_ok c" "cl_routes c sid = Some ch" "ch \<in> cl_open c" using assms(1) by (simp_all add: holds_route_def)
  show ?thesis
  proof (cases op)
    case (Call s p acc)
    have "ch \<noteq> cl_next c" using c by (auto simp: client_ok_def)
    then show ?thesis using Call ok c assms(2)
      by (auto simp: holds_route_def call_streaming_def Let_def step_takes_def step_reply_def)
  next
    case (Reply topic p)
    have other: "cl_routes c s = Some n \<Longrightarrow> s \<noteq> sid \<Longrightarrow> n \<noteq> ch" for s n using c by (auto simp: client_ok_def)
    show ?thesis using Reply ok c
      by (auto simp: holds_route_def on_publish_def try_send_def step_takes_def step_reply_def step_lost_def
          split: option.splits dest: other)
  next
    case (Receive n)
    then show ?thesis using ok c
      by (auto simp: holds_route_def recv_def step_takes_def step_reply_def split: list.split)
  next
    case (Drop n)
    then show ?thesis using ok c assms(3)
      by (auto simp: holds_route_def drop_receiver_def step_takes_def step_reply_def)
  qed
qed

lemma run_steps:
  "taken w rt ch (op # ops) c = step_takes ch op c @ taken w rt ch ops (client_step w rt op c)"
  "replies_to w rt sid (op # ops) = step_reply w rt sid op @ replies_to w rt sid ops"
  "overflows w rt sid ch (op # ops) c \<longleftrightarrow> step_lost w rt sid ch op c \<or> overflows w rt sid ch ops (client_step w rt op c)"
  "client_run w rt (op # ops) c = client_run w rt ops (client_step w rt op c)"
  by (auto simp: step_takes_def step_reply_def step_lost_def client_run_def split: client_op.split)

lemma client_run_routed:
  assumes "holds_route sid ch c" "\<forall>p ok. Call sid p ok \<notin> set ops" "Drop ch \<notin> set ops"
  shows "subseq (taken w rt ch ops c @ cl_inbox (client_run w rt ops c) ch) (cl_inbox c ch @ replies_to w rt sid ops)
    \<and> (\<not> overflows w rt sid ch ops c \<longrightarrow>
        taken w rt ch ops c @ cl_inbox (client_run w rt ops c) ch = cl_inbox c ch @ replies_to w rt sid ops)"
  using assms
proof (induction ops arbitrary: c)
  case (Cons op ops)
  let ?d = "client_step w rt op c"
  have op: "\<forall>p ok. op \<noteq> Call sid p ok" "op \<noteq> Drop ch" using Cons.prems(2,3) by auto
  have s: "holds_route sid ch ?d"
      "step_takes ch op c @ cl_inbox ?d ch = cl_inbox c ch @ (if step_lost w rt sid ch op c then [] else step_reply w rt sid op)"
    using client_step_route [OF Cons.prems(1) op, where w = w and rt = rt] by blast+
  have IH: "subseq (taken w rt ch ops ?d @ cl_inbox (client_run w rt ops ?d) ch) (cl_inbox ?d ch @ replies_to w rt sid ops)"
      "\<not> overflows w rt sid ch ops ?d \<Longrightarrow>
        taken w rt ch ops ?d @ cl_inbox (client_run w rt ops ?d) ch = cl_inbox ?d ch @ replies_to w rt sid ops"
    using Cons.IH [OF s(1)] Cons.prems(2,3) by auto
  have "subseq (step_takes ch op c @ taken w rt ch ops ?d @ cl_inbox (client_run w rt ops ?d) ch)
      ((step_takes ch op c @ cl_inbox ?d ch) @ replies_to w rt sid ops)"
    using IH(1) by (simp add: subseq_append')
  also have "subseq ((step_takes ch op c @ cl_inbox ?d ch) @ replies_to w rt sid ops)
      (cl_inbox c ch @ step_reply w rt sid op @ replies_to w rt sid ops)"
    by (auto simp: s(2) subseq_append' subseq_append)
  finally have part: "subseq (step_takes ch op c @ taken w rt ch ops ?d @ cl_inbox (client_run w rt ops ?d) ch)
      (cl_inbox c ch @ step_reply w rt sid op @ replies_to w rt sid ops)" .
  have whole: "step_takes ch op c @ taken w rt ch ops ?d @ cl_inbox (client_run w rt ops ?d) ch
      = cl_inbox c ch @ step_reply w rt sid op @ replies_to w rt sid ops"
    if "\<not> step_lost w rt sid ch op c" "\<not> overflows w rt sid ch ops ?d"
    using IH(2) [OF that(2)] s(2) that(1) by (metis append_assoc)
  show ?case using part whole unfolding run_steps append_assoc by blast
qed (simp add: client_run_def)


section \<open>A concrete wire\<close>

text \<open>A self-delimiting text for flat objects, to instantiate \<open>wire_ok\<close>: a mark before every byte of a string and
  before every member, and a tag before every value.\<close>

definition put_str :: "string \<Rightarrow> byte list" where
  "put_str s = concat (map (\<lambda>c. [1, of_nat (of_char c)]) s) @ [0]"

fun get_str :: "byte list \<Rightarrow> (string \<times> byte list) option" where
  "get_str (b # bs) =
     (if b = 0 then Some ([], bs)
      else case bs of
          [] \<Rightarrow> None
        | c # cs \<Rightarrow> map_option (\<lambda>(s, r). (char_of (unat c) # s, r)) (get_str cs))"
| "get_str [] = None"

definition put_val :: "json \<Rightarrow> byte list" where
  "put_val v =
     (case v of
        JStr s \<Rightarrow> 0 # put_str s
      | JBool b \<Rightarrow> [if b then 1 else 2]
      | JNum (PosInt n) \<Rightarrow> 3 # put_str (show_nat (unat n))
      | _ \<Rightarrow> [4])"

definition get_val :: "byte list \<Rightarrow> (json \<times> byte list) option" where
  "get_val bs =
     (case bs of
        [] \<Rightarrow> None
      | t # r \<Rightarrow>
          if t = 0 then map_option (\<lambda>(s, r). (JStr s, r)) (get_str r)
          else if t = 1 then Some (JBool True, r)
          else if t = 2 then Some (JBool False, r)
          else if t = 3 then Option.bind (get_str r) (\<lambda>(s, r). map_option (\<lambda>n. (JNum (PosInt (of_nat n)), r)) (parse_u64 s))
          else None)"

definition put_obj :: "json \<Rightarrow> byte list" where
  "put_obj v = (case v of JObj kvs \<Rightarrow> concat (map (\<lambda>(k, v). 1 # put_str k @ put_val v) kvs) @ [0] | _ \<Rightarrow> [])"

fun get_members :: "nat \<Rightarrow> byte list \<Rightarrow> (string \<times> json) list option" where
  "get_members (Suc n) (b # bs) =
     (if b = 0 then Some []
      else Option.bind (get_str bs) (\<lambda>(k, r). Option.bind (get_val r) (\<lambda>(v, r). map_option ((#) (k, v)) (get_members n r))))"
| "get_members _ _ = None"

definition demo_wire :: wire where
  "demo_wire = \<lparr>w_parse = (\<lambda>bs. map_option JObj (get_members (length bs) bs)), w_show = put_obj,
     w_b64 = map (\<lambda>b. char_of (unat b)), w_unb64 = (\<lambda>s. Some (map (\<lambda>c. of_nat (of_char c)) s)),
     w_uuid_text = (\<lambda>u. show_nat (unat u)), w_uuid = (\<lambda>s. map_option of_nat (read_digits 0 s))\<rparr>"

lemma of_char_byte: "(of_char c :: nat) < 256"
  using of_char_mod_256 [of c] by (metis mod_less_divisor zero_less_numeral)

lemma char_byte [simp]: "char_of (unat (of_nat (of_char c) :: byte)) = c"
  using of_char_byte by (simp add: unat_of_nat_id)

lemma byte_char [simp]: "(of_nat (unat b mod 256) :: byte) = b"
  using unat_bound [of b] by simp

lemma get_put_str [simp]: "get_str (put_str s @ bs) = Some (s, bs)"
  by (induction s) (simp_all add: put_str_def)

lemma get_put_val: "scalar v \<Longrightarrow> get_val (put_val v @ bs) = Some (v, bs)"
proof (cases v)
  case (JNum n)
  then show "scalar v \<Longrightarrow> ?thesis"
    using parse_show_nat unat_bound [where 'a = 64] by (cases n) (simp_all add: scalar_def put_val_def get_val_def)
qed (simp_all add: scalar_def put_val_def get_val_def)

lemma get_put_members:
  assumes "list_all (scalar \<circ> snd) kvs" "length kvs < n"
  shows "get_members n (concat (map (\<lambda>(k, v). 1 # put_str k @ put_val v) kvs) @ [0]) = Some kvs"
  using assms
proof (induction kvs arbitrary: n)
  case Nil
  then show ?case by (cases n) simp_all
next
  case (Cons kv kvs)
  obtain k v m where "kv = (k, v)" "n = Suc m" using Cons.prems(2) by (cases kv, cases n) simp_all
  then show ?case using Cons by (simp add: get_put_val)
qed

lemma demo_wire_ok: "wire_ok demo_wire"
proof -
  have len: "length kvs < length (concat (map (\<lambda>(k, v). 1 # put_str k @ put_val v) kvs) @ [0 :: byte])" for kvs
    by (induction kvs) auto
  have "w_parse demo_wire (w_show demo_wire (JObj kvs)) = Some (JObj kvs)" if "flat kvs" for kvs
    using that get_put_members [OF _ len, of kvs] by (simp add: demo_wire_def put_obj_def flat_def)
  moreover have "map_option of_nat (read_digits 0 (show_nat (unat u))) = Some u" for u :: session_id
    by (simp add: read_digits_show_nat)
  ultimately show ?thesis by (auto simp: wire_ok_def demo_wire_def comp_def)
qed

lemma extract_session_shown:
  assumes "wire_ok w" "flat ((''session_id'', JStr (w_uuid_text w s)) # kvs)"
  shows "extract_session w (w_show w (JObj ((''session_id'', JStr (w_uuid_text w s)) # kvs))) = Some s"
  using wire_reads [OF assms] assms(1) by (auto simp: extract_session_def str_field_def as_str_def)

definition demo_reply :: "session_id \<Rightarrow> bool \<Rightarrow> byte list" where
  "demo_reply s b = w_show demo_wire (JObj [(''session_id'', JStr (w_uuid_text demo_wire s)), (''done'', JBool b)])"

lemma demo_reply_session [simp]: "extract_session demo_wire (demo_reply s b) = Some s"
  unfolding demo_reply_def by (rule extract_session_shown [OF demo_wire_ok]) (simp add: flat_def scalar_def)

definition demo_talk :: "client_op list" where
  "demo_talk = [Reply ''r'' (demo_reply 1 False), Call 2 [] True, Reply ''r'' (demo_reply 2 True), Receive 0,
     Reply ''other'' (demo_reply 1 False), Reply ''r'' (demo_reply 1 True)]"


end
