(* ===== verification/Synthesizer.thy ===== *)
theory Synthesizer
  imports Mqtt_Providers Mic "HOL-Library.Signed_Division"
begin

text \<open>
  The synthesis worker (\<open>crates/athena-voice-tts-worker\<close>): one request, from its JSON to the chunks it publishes.
  The synthesizers (\<open>say\<close> with \<open>afconvert\<close>, or \<open>piper\<close>) and their WAV files are parameters; a step that fails there
  is only logged and the request gets no answer.
\<close>

section \<open>Synthesis\<close>

text \<open>\<open>say\<close> writes a file, \<open>afconvert\<close> and the WAV reader turn it into samples, \<open>piper\<close> gives its file's channel
  count, rate and samples.\<close>

record 'f speech_cmds =
  sx_say :: "string option \<Rightarrow> string \<Rightarrow> 'f option"
  sx_convert :: "u32 \<Rightarrow> 'f \<Rightarrow> i16 list option"
  sx_piper :: "string \<Rightarrow> string \<Rightarrow> string \<Rightarrow> (16 word \<times> u32 \<times> i16 list) option"

datatype engine_config = SayEngine string u32 | PiperEngine string string

function chunks_of :: "nat \<Rightarrow> 'a list \<Rightarrow> 'a list list" where
  "chunks_of n xs = (if xs = [] \<or> n = 0 then [] else take n xs # chunks_of n (drop n xs))"
  by pat_completeness auto
termination by (relation "measure (length \<circ> snd)") auto

declare chunks_of.simps [simp del]

text \<open>The mean of one interleaved frame: an \<open>i32\<close> sum divided towards zero, cast to \<open>i16\<close>.\<close>

definition frame_mean :: "16 word \<Rightarrow> i16 list \<Rightarrow> i16" where
  "frame_mean channels f =
     word_of_int (sint (sum_list (map (\<lambda>s. scast s :: 32 word) f)) sdiv uint channels)"

definition synthesize_say :: "'f speech_cmds \<Rightarrow> string \<Rightarrow> locale_id \<Rightarrow> string \<Rightarrow> u32 \<Rightarrow> i16 list option" where
  "synthesize_say cmds txt loc voice rate =
     Option.bind
       (case sx_say cmds (if prefix ''fr'' loc then Some voice else None) txt of
          Some aiff \<Rightarrow> Some aiff
        | None \<Rightarrow> sx_say cmds None txt)
       (sx_convert cmds rate)"

definition synthesize_piper :: "'f speech_cmds \<Rightarrow> string \<Rightarrow> string \<Rightarrow> string \<Rightarrow> (i16 list \<times> u32) option" where
  "synthesize_piper cmds bin model txt =
     map_option (\<lambda>(channels, rate, samples).
       (if channels > 1 then map (frame_mean channels) (chunks_of (unat channels) samples) else samples, rate))
       (sx_piper cmds bin model txt)"

definition synthesize :: "'f speech_cmds \<Rightarrow> engine_config \<Rightarrow> string \<Rightarrow> locale_id \<Rightarrow> (i16 list \<times> u32) option" where
  "synthesize cmds engine txt loc =
     (case engine of
        SayEngine voice rate \<Rightarrow> map_option (\<lambda>samples. (samples, rate)) (synthesize_say cmds txt loc voice rate)
      | PiperEngine bin model \<Rightarrow> synthesize_piper cmds bin model txt)"

text \<open>The multiplication is in \<open>u32\<close> and wraps in a release build.\<close>

definition samples_per_chunk :: "u32 \<Rightarrow> u32 \<Rightarrow> nat" where
  "samples_per_chunk rate chunk_ms = unat (max (rate * chunk_ms div 1000) 1)"

definition le_bytes16 :: "i16 \<Rightarrow> byte list" where
  "le_bytes16 s = [ucast s, ucast (drop_bit 8 s)]"

definition format_fields :: "u32 \<Rightarrow> (string \<times> json) list" where
  "format_fields rate = [(''format'', JStr ''s16le''), (''sample_rate'', JNum (PosInt (ucast rate))), (''channels'', JNum (PosInt 1))]"

text \<open>The loop over the chunks, with its \<open>declared\<close> flag, and the end marker.\<close>

fun tts_replies :: "wire \<Rightarrow> string \<Rightarrow> u32 \<Rightarrow> bool \<Rightarrow> i16 list list \<Rightarrow> byte list list" where
  "tts_replies w sid rate dcl [] =
     [w_show w (JObj ([(''session_id'', JStr sid), (''done'', JBool True)] @ (if dcl then [] else format_fields rate)))]"
| "tts_replies w sid rate dcl (c # cs) =
     w_show w (JObj ([(''session_id'', JStr sid), (''chunk_b64'', JStr (w_b64 w (concat (map le_bytes16 c)))), (''done'', JBool False)]
         @ (if dcl then [] else format_fields rate)))
     # tts_replies w sid rate True cs"

definition handle_tts_request ::
  "wire \<Rightarrow> 'f speech_cmds \<Rightarrow> engine_config \<Rightarrow> u32 \<Rightarrow> byte list \<Rightarrow> byte list list option" where
  "handle_tts_request w cmds engine chunk_ms payload =
     Option.bind (w_parse w payload) (\<lambda>request.
     Option.bind (str_field ''session_id'' request) (\<lambda>sid.
       (let txt = (case str_field ''text'' request of None \<Rightarrow> [] | Some t \<Rightarrow> t);
            loc = (case str_field ''locale'' request of None \<Rightarrow> ''fr'' | Some l \<Rightarrow> l)
        in map_option (\<lambda>(samples, rate). tts_replies w sid rate False (chunks_of (samples_per_chunk rate chunk_ms) samples))
             (synthesize cmds engine txt loc))))"

text \<open>What the worker's event loop publishes for a message.\<close>

definition serve_tts ::
  "wire \<Rightarrow> 'f speech_cmds \<Rightarrow> engine_config \<Rightarrow> u32 \<Rightarrow> string \<Rightarrow> string \<Rightarrow> string \<Rightarrow> byte list \<Rightarrow> (string \<times> byte list) list" where
  "serve_tts w cmds engine chunk_ms troot name topic payload =
     (if topic \<noteq> fst (tts_topics troot name) then []
      else case handle_tts_request w cmds engine chunk_ms payload of
          None \<Rightarrow> []
        | Some out \<Rightarrow> map (\<lambda>p. (snd (tts_topics troot name), p)) out)"

lemma samples_per_chunk_pos: "0 < samples_per_chunk rate ms"
  by (auto simp: samples_per_chunk_def max_def word_le_nat_alt)

lemma concat_chunks_of: "0 < n \<Longrightarrow> concat (chunks_of n xs) = xs"
  by (induction n xs rule: chunks_of.induct) (subst chunks_of.simps, simp)

lemma chunks_of_sizes: "c \<in> set (chunks_of n xs) \<Longrightarrow> c \<noteq> [] \<and> length c \<le> n"
  by (induction n xs rule: chunks_of.induct) (subst (asm) (2) chunks_of.simps, auto split: if_splits)

lemma to_u32_ucast: "to_u32 (ucast r) = Some r" for r :: u32
proof -
  have "unat (ucast r :: u64) = unat r" by transfer (simp add: take_bit_nat_eq_self_iff take_bit_eq_mod)
  moreover have "ucast (ucast r :: u64) = r" by transfer simp
  ultimately show ?thesis using unat_bound [of r] by (simp add: to_u32_def)
qed

text \<open>What a reply says to the provider.\<close>

lemma tts_replies_say:
  assumes "wire_ok w"
  shows "\<exists>fin ps. tts_replies w sid rate dcl cs = ps @ [fin]
    \<and> list_all2 (\<lambda>p c. says w p (Some c) False) ps (map (\<lambda>c. concat (map le_bytes16 c)) cs) \<and> says w fin None True"
proof (induction cs arbitrary: dcl)
  case Nil
  let ?kvs = "[(''session_id'', JStr sid), (''done'', JBool True)] @ (if dcl then [] else format_fields rate)"
  have "flat ?kvs" by (simp add: flat_def scalar_def format_fields_def)
  then obtain v where v: "w_parse w (w_show w (JObj ?kvs)) = Some v" "\<And>k. json_get k v = map_of ?kvs k"
    using wire_reads [OF assms] by blast
  have "says w (w_show w (JObj ?kvs)) None True"
    unfolding says_def using v(1) by (intro exI [of _ v]) (simp add: v(2) reply_chunk_def flag_def str_field_def as_bool_def format_fields_def)
  then show ?case by (intro exI [of _ "w_show w (JObj ?kvs)"] exI [of _ "[]"]) simp
next
  case (Cons c cs)
  let ?kvs = "[(''session_id'', JStr sid), (''chunk_b64'', JStr (w_b64 w (concat (map le_bytes16 c)))), (''done'', JBool False)]
    @ (if dcl then [] else format_fields rate)"
  have "flat ?kvs" by (simp add: flat_def scalar_def format_fields_def)
  then obtain v where v: "w_parse w (w_show w (JObj ?kvs)) = Some v" "\<And>k. json_get k v = map_of ?kvs k"
    using wire_reads [OF assms] by blast
  have "says w (w_show w (JObj ?kvs)) (Some (concat (map le_bytes16 c))) False"
    unfolding says_def using v(1) assms
    by (intro exI [of _ v]) (simp add: v(2) reply_chunk_def flag_def str_field_def as_bool_def as_str_def)
  moreover obtain fin ps where "tts_replies w sid rate True cs = ps @ [fin]"
      "list_all2 (\<lambda>p c. says w p (Some c) False) ps (map (\<lambda>c. concat (map le_bytes16 c)) cs)" "says w fin None True"
    using Cons by blast
  ultimately show ?case by (intro exI [of _ fin] exI [of _ "w_show w (JObj ?kvs) # ps"]) simp
qed

lemma tts_replies_session:
  assumes "wire_ok w" "p \<in> set (tts_replies w (w_uuid_text w s) rate dcl cs)"
  shows "extract_session w p = Some s"
  using assms(2)
  by (induction cs arbitrary: dcl)
     (auto simp: flat_def scalar_def format_fields_def intro!: extract_session_shown [OF assms(1)])

lemma tts_replies_format:
  assumes "wire_ok w" "rate \<noteq> 0"
  shows "\<exists>v. w_parse w (hd (tts_replies w sid rate False cs)) = Some v \<and> parse_format (Some v) = (S16le, rate)"
proof -
  obtain kvs where kvs: "hd (tts_replies w sid rate False cs) = w_show w (JObj kvs)" "flat kvs"
      "map_of kvs ''format'' = Some (JStr ''s16le'')" "map_of kvs ''sample_rate'' = Some (JNum (PosInt (ucast rate)))"
    by (cases cs) (auto simp: flat_def scalar_def format_fields_def)
  obtain v where "w_parse w (w_show w (JObj kvs)) = Some v" "\<And>k. json_get k v = map_of kvs k"
    using wire_reads [OF assms(1) kvs(2)] by blast
  then show ?thesis using kvs assms(2)
    by (intro exI [of _ v]) (simp add: parse_format_def str_field_def as_str_def as_u64_def to_u32_ucast word_gt_0)
qed

lemma tts_request_reads:
  assumes "wire_ok w"
  shows "handle_tts_request w cmds engine ms (tts_request w sid loc txt) =
    map_option (\<lambda>(samples, rate). tts_replies w (w_uuid_text w sid) rate False (chunks_of (samples_per_chunk rate ms) samples))
      (synthesize cmds engine txt loc)"
proof -
  let ?kvs = "[(''session_id'', JStr (w_uuid_text w sid)), (''locale'', JStr loc), (''text'', JStr txt)]"
  have "flat ?kvs" by (simp add: flat_def scalar_def)
  then obtain v where "w_parse w (w_show w (JObj ?kvs)) = Some v" "\<And>k. json_get k v = map_of ?kvs k"
    using wire_reads [OF assms] by blast
  then show ?thesis by (simp add: handle_tts_request_def tts_request_def str_field_def as_str_def)
qed


definition demo_cmds :: "unit speech_cmds" where
  "demo_cmds = \<lparr>sx_say = (\<lambda>_ _. None), sx_convert = (\<lambda>_ _. None),
     sx_piper = (\<lambda>_ _ txt. if txt = [] then None else Some (2, 2000, [1, 3, - 5, 2, 7, 7]))\<rparr>"

definition demo_tts_world :: tts_world where
  "demo_tts_world = \<lparr>chunk_out = new_chan, bus = []\<rparr>"


end
