(* ===== verification/Transcriber.thy ===== *)
theory Transcriber
  imports Mqtt_Providers Mic
begin

text \<open>
  The transcription worker (\<open>crates/athena-voice-stt-worker\<close>): the audio buffer of every session, the message
  handler, and the clean-up of what the recognizer prints. The recognizer itself, a \<open>whisper-cli\<close> process on a WAV
  file, is a parameter from language, rate and samples to its output. Times are nanoseconds.
\<close>

section \<open>The recognizer's text\<close>

definition bracketed :: "string \<Rightarrow> string \<Rightarrow> string \<Rightarrow> bool" where
  "bracketed a b w \<longleftrightarrow> prefix a w \<and> suffix b w"

definition trailing :: "string \<Rightarrow> bool" where
  "trailing g \<longleftrightarrow> g \<in> {''.'', ''!'', ''?'', [CHR 0xE2, CHR 0x80, CHR 0xA6], '',''} \<or> is_white g"

definition clean_transcript :: "string \<Rightarrow> string" where
  "clean_transcript raw =
     (let txt = join '' '' (filter (\<lambda>w. \<not> bracketed ''('' '')'' w) (filter (\<lambda>w. \<not> bracketed ''['' '']'' w) (split_whitespace raw)))
      in concat (rev (dropWhile trailing (rev (uchars txt)))))"

unbundle bit_operations_syntax

fun wav_samples :: "byte list \<Rightarrow> i16 list" where
  "wav_samples (a # b # bs) = (ucast a OR push_bit 8 (ucast b)) # wav_samples bs"
| "wav_samples _ = []"

type_synonym recognizer = "string \<Rightarrow> u32 \<Rightarrow> i16 list \<Rightarrow> string option"

definition transcribe :: "recognizer \<Rightarrow> locale_id \<Rightarrow> u32 \<Rightarrow> byte list \<Rightarrow> string option" where
  "transcribe rc loc rate pcm =
     map_option clean_transcript (rc (takeWhile (\<lambda>c. c \<noteq> CHR ''-'' \<and> c \<noteq> CHR ''_'') loc) rate (wav_samples pcm))"

section \<open>The message handler\<close>

record session_buf =
  sb_pcm :: "byte list"
  sb_locale :: locale_id
  sb_updated :: nat

definition session_ttl :: nat where "session_ttl = 120 * 10 ^ 9"

type_synonym buffers = "string \<Rightarrow> session_buf option"

text \<open>\<open>HashMap::retain\<close>; \<open>Instant::elapsed\<close> saturates.\<close>

definition retain_fresh :: "nat \<Rightarrow> buffers \<Rightarrow> buffers" where
  "retain_fresh now ss = (\<lambda>k. case ss k of Some b \<Rightarrow> if now - sb_updated b < session_ttl then Some b else None | None \<Rightarrow> None)"

definition append_audio :: "nat \<Rightarrow> byte list \<Rightarrow> session_buf \<Rightarrow> session_buf" where
  "append_audio now bs b = b\<lparr>sb_pcm := sb_pcm b @ bs, sb_updated := now\<rparr>"

definition transcript_reply :: "wire \<Rightarrow> string \<Rightarrow> string \<Rightarrow> byte list" where
  "transcript_reply w sid txt = w_show w (JObj [(''session_id'', JStr sid), (''text'', JStr txt), (''is_final'', JBool True)])"

definition min_pcm :: nat where "min_pcm = 3200"

text \<open>The end of an utterance: the buffer is taken, and transcribed when it is long enough.\<close>

definition end_of_utterance :: "wire \<Rightarrow> recognizer \<Rightarrow> u32 \<Rightarrow> nat \<Rightarrow> string \<Rightarrow> buffers \<Rightarrow> buffers \<times> byte list list" where
  "end_of_utterance w rc rate now sid ss =
     (case ss sid of
        None \<Rightarrow> (ss, [])
      | Some b \<Rightarrow>
          (ss(sid \<mapsto> b\<lparr>sb_pcm := [], sb_updated := now\<rparr>),
           if length (sb_pcm b) < min_pcm then []
           else (case transcribe rc (sb_locale b) rate (sb_pcm b) of
               Some txt \<Rightarrow> if txt \<noteq> [] then [transcript_reply w sid txt] else []
             | None \<Rightarrow> [])))"

definition handle_message :: "wire \<Rightarrow> recognizer \<Rightarrow> u32 \<Rightarrow> nat \<Rightarrow> byte list \<Rightarrow> buffers \<Rightarrow> buffers \<times> byte list list" where
  "handle_message w rc rate now payload ss0 =
     (let ss = retain_fresh now ss0 in
      case w_parse w payload of
        None \<Rightarrow> (ss, [])
      | Some v \<Rightarrow>
          (case str_field ''session_id'' v of
             None \<Rightarrow> (ss, [])
           | Some sid \<Rightarrow>
               (case str_field ''audio_b64'' v of
                  Some b64 \<Rightarrow>
                    (case w_unb64 w b64 of
                       None \<Rightarrow> (ss, [])
                     | Some bs \<Rightarrow>
                         (ss(sid \<mapsto> append_audio now bs
                            (case ss sid of Some b \<Rightarrow> b | None \<Rightarrow> \<lparr>sb_pcm = [], sb_locale = ''fr'', sb_updated = now\<rparr>)), []))
                | None \<Rightarrow>
                    if flag ''done'' v then end_of_utterance w rc rate now sid ss
                    else (ss(sid \<mapsto> \<lparr>sb_pcm = [],
                               sb_locale = (case str_field ''locale'' v of None \<Rightarrow> ''fr'' | Some l \<Rightarrow> l), sb_updated = now\<rparr>), []))))"

text \<open>A run over the messages of the request topic with their times.\<close>

fun worker_run :: "wire \<Rightarrow> recognizer \<Rightarrow> u32 \<Rightarrow> (nat \<times> byte list) list \<Rightarrow> buffers \<Rightarrow> buffers \<times> byte list list" where
  "worker_run w rc rate [] ss = (ss, [])"
| "worker_run w rc rate ((now, p) # ms) ss =
     (let (ss1, out) = handle_message w rc rate now p ss; (ss2, outs) = worker_run w rc rate ms ss1 in (ss2, out @ outs))"

section \<open>What a message is about\<close>

definition about :: "wire \<Rightarrow> byte list \<Rightarrow> string option" where
  "about w p = Option.bind (w_parse w p) (str_field ''session_id'')"

lemma about_shown:
  assumes "wire_ok w" "flat ((''session_id'', JStr sid) # kvs)"
  shows "about w (w_show w (JObj ((''session_id'', JStr sid) # kvs))) = Some sid"
  using wire_reads [OF assms] by (auto simp: about_def str_field_def as_str_def)

lemma flat_messages [simp]:
  "flat [(''session_id'', JStr a), (''text'', JStr b), (''is_final'', JBool c)]"
  "flat [(''session_id'', JStr a), (''audio_b64'', JStr b)]"
  "flat [(''session_id'', JStr a), (''done'', JBool c)]"
  "flat [(''session_id'', JStr a), (''locale'', JStr l), (''format'', JStr b), (''sample_rate'', JNum (PosInt n))]"
  by (simp_all add: flat_def scalar_def)

lemma about_messages:
  assumes "wire_ok w"
  shows "about w (transcript_reply w sid txt) = Some sid"
    and "about w (stt_audio w s pcm) = Some (w_uuid_text w s)"
    and "about w (stt_boundary w s) = Some (w_uuid_text w s)"
    and "about w (stt_start w s loc) = Some (w_uuid_text w s)"
  unfolding transcript_reply_def stt_audio_def stt_boundary_def stt_start_def
  by (rule about_shown [OF assms], simp)+

text \<open>A message leaves the buffers of other sessions alone, except that it may drop stale ones, and answers only
  its own.\<close>

lemma handle_message_frame:
  assumes "about w p \<noteq> Some sid"
  shows "fst (handle_message w rc rate now p ss) sid = retain_fresh now ss sid"
  using assms
  by (auto simp: handle_message_def about_def Let_def end_of_utterance_def split: option.split)

lemma handle_message_replies:
  assumes "wire_ok w" "r \<in> set (snd (handle_message w rc rate now p ss))"
  shows "about w r = about w p"
  using assms(2)
  by (auto simp: handle_message_def Let_def end_of_utterance_def about_messages [OF assms(1)] about_def [of w p]
      split: option.splits if_splits)

lemma handle_start:
  assumes "wire_ok w"
  shows "handle_message w rc rate now (stt_start w s loc) ss =
    ((retain_fresh now ss)(w_uuid_text w s \<mapsto> \<lparr>sb_pcm = [], sb_locale = loc, sb_updated = now\<rparr>), [])"
proof -
  obtain v where "w_parse w (stt_start w s loc) = Some v" "json_get ''session_id'' v = Some (JStr (w_uuid_text w s))"
    "json_get ''locale'' v = Some (JStr loc)" "json_get ''audio_b64'' v = None" "json_get ''done'' v = None"
    unfolding stt_start_def using wire_reads [OF assms flat_messages(4)] by force
  then show ?thesis by (simp add: handle_message_def str_field_def as_str_def flag_def)
qed

lemma handle_audio:
  assumes "wire_ok w" "retain_fresh now ss (w_uuid_text w s) = Some b"
  shows "handle_message w rc rate now (stt_audio w s pcm) ss =
    ((retain_fresh now ss)(w_uuid_text w s \<mapsto> append_audio now pcm b), [])"
proof -
  obtain v where "w_parse w (stt_audio w s pcm) = Some v" "json_get ''session_id'' v = Some (JStr (w_uuid_text w s))"
    "json_get ''audio_b64'' v = Some (JStr (w_b64 w pcm))"
    unfolding stt_audio_def using wire_reads [OF assms(1) flat_messages(2)] by force
  then show ?thesis using assms by (simp add: handle_message_def str_field_def as_str_def)
qed

lemma handle_boundary:
  assumes "wire_ok w"
  shows "handle_message w rc rate now (stt_boundary w s) ss =
    end_of_utterance w rc rate now (w_uuid_text w s) (retain_fresh now ss)"
proof -
  obtain v where "w_parse w (stt_boundary w s) = Some v" "json_get ''session_id'' v = Some (JStr (w_uuid_text w s))"
    "json_get ''audio_b64'' v = None" "json_get ''done'' v = Some (JBool True)"
    unfolding stt_boundary_def using wire_reads [OF assms flat_messages(3)] by force
  then show ?thesis by (simp add: handle_message_def str_field_def as_str_def flag_def as_bool_def)
qed

section \<open>A session's utterances\<close>

text \<open>The audio between empty frames, the last utterance ended by the close of the input; what is heard in one.\<close>

fun utterances :: "byte list list \<Rightarrow> byte list \<Rightarrow> byte list list" where
  "utterances [] acc = [acc]"
| "utterances (f # fs) acc = (if f = [] then acc # utterances fs [] else utterances fs (acc @ f))"

definition heard :: "recognizer \<Rightarrow> u32 \<Rightarrow> locale_id \<Rightarrow> byte list \<Rightarrow> string list" where
  "heard rc rate loc pcm =
     (if length pcm < 3200 then []
      else case transcribe rc loc rate pcm of Some txt \<Rightarrow> if txt \<noteq> [] then [txt] else [] | None \<Rightarrow> [])"

definition of_session :: "wire \<Rightarrow> session_id \<Rightarrow> byte list \<Rightarrow> bool" where
  "of_session w s p \<longleftrightarrow> about w p = Some (w_uuid_text w s)"

definition pump_messages :: "wire \<Rightarrow> session_id \<Rightarrow> byte list list \<Rightarrow> byte list list" where
  "pump_messages w s fs = map (\<lambda>f. if f = [] then stt_boundary w s else stt_audio w s f) fs @ [stt_boundary w s]"

lemma retain_fresh_Some: "ss k = Some b \<Longrightarrow> now < sb_updated b + session_ttl \<Longrightarrow> retain_fresh now ss k = Some b"
  by (auto simp: retain_fresh_def session_ttl_def)

lemma end_of_utterance_own:
  assumes "ss k = Some b"
  shows "end_of_utterance w rc rate now k ss
    = (ss(k \<mapsto> b\<lparr>sb_pcm := [], sb_updated := now\<rparr>), map (transcript_reply w k) (heard rc rate (sb_locale b) (sb_pcm b)))"
  using assms by (simp add: end_of_utterance_def heard_def min_pcm_def split: option.split)

lemma worker_run_foreign:
  assumes "wire_ok w" "\<forall>m \<in> set ms. \<not> of_session w s (snd m)"
  shows "filter (of_session w s) (snd (worker_run w rc rate ms ss)) = []"
  using assms(2)
proof (induction ms arbitrary: ss)
  case (Cons m ms)
  obtain now p where m: "m = (now, p)" by fastforce
  have "filter (of_session w s) (snd (handle_message w rc rate now p ss)) = []"
    using handle_message_replies [OF assms(1)] Cons.prems by (fastforce simp: m of_session_def filter_empty_conv)
  then show ?case using Cons by (simp add: m case_prod_beta Let_def)
qed simp

lemma worker_run_session:
  assumes "wire_ok w" "sorted (map fst ms)"
    and "map snd (filter (\<lambda>m. of_session w s (snd m)) ms) = pump_messages w s fs"
    and "ss (w_uuid_text w s) = Some \<lparr>sb_pcm = acc, sb_locale = loc, sb_updated = t0\<rparr>"
    and "successively (\<lambda>a b. b < a + session_ttl) (t0 # map fst (filter (\<lambda>m. of_session w s (snd m)) ms))"
  shows "filter (of_session w s) (snd (worker_run w rc rate ms ss))
    = map (transcript_reply w (w_uuid_text w s)) (concat (map (heard rc rate loc) (utterances fs acc)))"
  using assms(2-)
proof (induction ms arbitrary: fs acc t0 ss)
  case Nil
  then show ?case by (simp add: pump_messages_def)
next
  case (Cons m ms)
  let ?u = "w_uuid_text w s"
  let ?b = "\<lparr>sb_pcm = acc, sb_locale = loc, sb_updated = t0\<rparr>"
  obtain now p where m: "m = (now, p)" by fastforce
  have srt: "sorted (map fst ms)" "\<forall>x \<in> set ms. now \<le> fst x" using Cons.prems(1) by (simp_all add: m)
  show ?case
  proof (cases "of_session w s p")
    case False
    let ?own = "filter (\<lambda>m. of_session w s (snd m)) ms"
    have own: "map snd ?own = pump_messages w s fs" using Cons.prems(2) False by (simp add: m)
    then obtain t rest where t: "?own = t # rest" by (cases ?own) (simp_all add: pump_messages_def)
    then have "t \<in> set ms" by (metis filter_is_subset list.set_intros(1) subsetD)
    then have "now < t0 + session_ttl" using Cons.prems(4) False srt(2) by (fastforce simp: m t)
    then have keep: "fst (handle_message w rc rate now p ss) ?u = Some ?b"
      using handle_message_frame [of w p ?u rc rate now ss] False Cons.prems(3) by (simp add: of_session_def retain_fresh_Some)
    have quiet: "filter (of_session w s) (snd (handle_message w rc rate now p ss)) = []"
      using handle_message_replies [OF assms(1)] False by (fastforce simp: of_session_def filter_empty_conv)
    show ?thesis
      using Cons.IH [where ss = "fst (handle_message w rc rate now p ss)", OF srt(1) own keep] Cons.prems(4) False quiet by (simp add: m case_prod_beta Let_def)
  next
    case True
    let ?own = "filter (\<lambda>m. of_session w s (snd m)) ms"
    have own: "p # map snd ?own = pump_messages w s fs" using Cons.prems(2) True by (simp add: m)
    have now: "now < t0 + session_ttl" "successively (\<lambda>a b. b < a + session_ttl) (now # map fst ?own)"
      using Cons.prems(4) True by (simp_all add: m)
    have kept: "retain_fresh now ss ?u = Some ?b" using Cons.prems(3) now(1) by (simp add: retain_fresh_Some)
    have mine: "filter (of_session w s) (map (transcript_reply w ?u) ts) = map (transcript_reply w ?u) ts" for ts
      by (simp add: filter_map comp_def of_session_def about_messages [OF assms(1)])
    show ?thesis
    proof (cases fs)
      case Nil
      then have "p = stt_boundary w s" "?own = []" using own by (simp_all add: pump_messages_def)
      moreover have "filter (of_session w s) (snd (worker_run w rc rate ms ss')) = []" for ss'
        using worker_run_foreign [OF assms(1)] \<open>?own = []\<close> by (fastforce simp: filter_empty_conv)
      ultimately show ?thesis
        using kept by (simp add: m Nil handle_boundary [OF assms(1)] end_of_utterance_own mine Let_def case_prod_beta)
    next
      case (Cons f fs')
      then have rest: "map snd ?own = pump_messages w s fs'" and p: "p = (if f = [] then stt_boundary w s else stt_audio w s f)"
        using own by (simp_all add: pump_messages_def)
      show ?thesis
      proof (cases "f = []")
        case True
        let ?ss = "(retain_fresh now ss)(?u \<mapsto> ?b\<lparr>sb_pcm := [], sb_updated := now\<rparr>)"
        have "filter (of_session w s) (snd (worker_run w rc rate ms ?ss))
            = map (transcript_reply w ?u) (concat (map (heard rc rate loc) (utterances fs' [])))"
          by (rule Cons.IH [OF srt(1) rest _ now(2)]) simp
        then show ?thesis
          using True kept p by (simp add: m Cons handle_boundary [OF assms(1)] end_of_utterance_own mine Let_def case_prod_beta)
      next
        case False
        let ?ss = "(retain_fresh now ss)(?u \<mapsto> append_audio now f ?b)"
        have "filter (of_session w s) (snd (worker_run w rc rate ms ?ss))
            = map (transcript_reply w ?u) (concat (map (heard rc rate loc) (utterances fs' (acc @ f))))"
          by (rule Cons.IH [OF srt(1) rest _ now(2)]) (simp add: append_audio_def)
        then show ?thesis
          using False p by (simp add: m Cons handle_audio [OF assms(1) kept] Let_def case_prod_beta)
      qed
    qed
  qed
qed

lemma worker_run_append:
  "snd (worker_run w rc rate (a @ b) ss) = snd (worker_run w rc rate a ss) @ snd (worker_run w rc rate b (fst (worker_run w rc rate a ss)))"
  by (induction a arbitrary: ss) (auto simp: Let_def case_prod_beta)

lemma parse_transcript_reply:
  assumes "wire_ok w"
  shows "parse_stt_response w conf (transcript_reply w k txt)
    = SttTranscript \<lparr>t_text = txt, t_is_final = True, t_confidence = None\<rparr>"
proof -
  obtain v where "w_parse w (transcript_reply w k txt) = Some v" "json_get ''text'' v = Some (JStr txt)"
    "json_get ''is_final'' v = Some (JBool True)" "json_get ''confidence'' v = None"
    unfolding transcript_reply_def using wire_reads [OF assms flat_messages(1)] by force
  then show ?thesis by (simp add: parse_stt_response_def str_field_def as_str_def flag_def as_bool_def)
qed

lemma transcript_stream_replies:
  assumes "wire_ok w"
  shows "transcript_stream w conf (map Arrived (map (transcript_reply w k) ts) @ TimedOut # later)
    = (map (\<lambda>txt. \<lparr>t_text = txt, t_is_final = True, t_confidence = None\<rparr>) ts, later)"
  by (induction ts) (simp_all add: parse_transcript_reply [OF assms])

lemma transcript_reply_session: "wire_ok w \<Longrightarrow> extract_session w (transcript_reply w (w_uuid_text w s) txt) = Some s"
  unfolding transcript_reply_def by (rule extract_session_shown) simp_all


definition demo_frames :: "byte list list" where
  "demo_frames = [replicate 3200 1, [], [7], [], replicate 1600 2, replicate 1600 3]"

definition demo_recognizer :: recognizer where
  "demo_recognizer lang rate samples = (if lang = ''en'' then Some ''[Music] what time is it?'' else None)"

lemma demo_text: "clean_transcript ''[Music] what time is it?'' = ''what time is it''"
  by code_simp


end
