(* ===== verification/Boot.thy ===== *)
theory Boot
  imports Admin Llm_Providers
begin

text \<open>
  Start-up: the configuration of the command line program (\<open>crates/athena-voice-cli/src/config.rs\<close>, \<open>serve.rs\<close>) and
  what \<open>Runtime::spawn\<close> (\<open>crates/athena-voice-runtime/src/lib.rs\<close>) makes of it: the skills loaded with the file's
  settings overlaid by the database's, those disabled unloaded again, the assist bridge, the admin server. Reading
  TOML and the environment, opening the store, probing the broker and reading a directory are parameters.
\<close>

section \<open>Configuration\<close>

record per_skill_file =
  pk_http_allowlist :: "string list"
  pk_mqtt_allowlist :: "string list"
  pk_config :: "string \<Rightarrow> string option"
  pk_gc_after_sec :: "u64 option"
  pk_config_file :: "string option"

record skills_section =
  ks_dir :: "string option"
  ks_hot_reload :: bool
  ks_bundled_dir :: "string option"
  ks_per_skill :: "(string \<times> per_skill_file) list"

record assist_section =
  as_enabled :: bool
  as_topic_prefix :: string
  as_locale :: locale_id

record server_section =
  vs_host :: string
  vs_port :: "16 word"
  vs_session_idle_secs :: u64

record mqtt_section =
  qs_host :: string
  qs_port :: "16 word"
  qs_client_id :: string
  qs_username :: "string option"
  qs_password :: "string option"
  qs_keep_alive_secs :: u64
  qs_topic_root :: string

record cli_config =
  ct_locales :: "locale_id list"
  ct_server :: server_section
  ct_database_url :: string
  ct_mqtt :: mqtt_section
  ct_providers :: provider_config
  ct_skills :: skills_section
  ct_assist :: "assist_section option"

text \<open>The sections as written, where a field may be left out, and their defaults.\<close>

definition assist_of :: "bool option \<Rightarrow> string option \<Rightarrow> locale_id option \<Rightarrow> assist_section" where
  "assist_of enabled pre loc =
     \<lparr>as_enabled = (case enabled of None \<Rightarrow> True | Some b \<Rightarrow> b), as_topic_prefix = (case pre of None \<Rightarrow> ''assist'' | Some p \<Rightarrow> p),
       as_locale = (case loc of None \<Rightarrow> ''fr'' | Some l \<Rightarrow> l)\<rparr>"

definition server_of :: "string \<Rightarrow> 16 word \<Rightarrow> u64 option \<Rightarrow> server_section" where
  "server_of host port idle =
     \<lparr>vs_host = host, vs_port = port, vs_session_idle_secs = (case idle of None \<Rightarrow> 120 | Some n \<Rightarrow> n)\<rparr>"

definition mqtt_of ::
  "string \<Rightarrow> 16 word \<Rightarrow> string \<Rightarrow> string option \<Rightarrow> string option \<Rightarrow> u64 option \<Rightarrow> string option \<Rightarrow> mqtt_section" where
  "mqtt_of host port client user pass keep troot =
     \<lparr>qs_host = host, qs_port = port, qs_client_id = client, qs_username = user, qs_password = pass,
       qs_keep_alive_secs = (case keep of None \<Rightarrow> 30 | Some n \<Rightarrow> n), qs_topic_root = (case troot of None \<Rightarrow> ''assist'' | Some r \<Rightarrow> r)\<rparr>"

datatype config_error = ConfigIo string | ConfigParse string | ConfigInvalid string

definition load_config :: "(string \<Rightarrow> bool) \<Rightarrow> (string \<Rightarrow> string + cli_config) \<Rightarrow> string \<Rightarrow> config_error + cli_config" where
  "load_config present extract path =
     (if \<not> present path then Inl (ConfigIo path)
      else case extract path of
          Inl e \<Rightarrow> Inl (ConfigParse e)
        | Inr cfg \<Rightarrow> if ct_locales cfg = [] then Inl (ConfigInvalid ''`locales` must not be empty'') else Inr cfg)"

section \<open>Skill settings\<close>

definition base_per_skill_from_config :: "(string \<times> per_skill_file) list \<Rightarrow> (string \<times> skill_config) list" where
  "base_per_skill_from_config per =
     map (\<lambda>(name, c). (name, \<lparr>sc_http_allowlist = pk_http_allowlist c, sc_mqtt_allowlist = pk_mqtt_allowlist c,
       sc_config = pk_config c, sc_retention = pk_gc_after_sec c, sc_config_file = pk_config_file c\<rparr>)) per"

text \<open>The rows by skill, and the overlay of each group; the groups have distinct skills, so their order is immaterial.\<close>

definition add_row :: "setting_row \<Rightarrow> (string \<times> (string \<times> string) list) list \<Rightarrow> (string \<times> (string \<times> string) list) list" where
  "add_row r m =
     AList.update (sg_skill r)
       ((case map_of m (sg_skill r) of None \<Rightarrow> [] | Some ps \<Rightarrow> ps) @ [(sg_key r, sg_value r)]) m"

definition by_skill :: "setting_row list \<Rightarrow> (string \<times> (string \<times> string) list) list" where
  "by_skill rws = fold add_row rws []"

definition merge_db_settings ::
  "(string \<Rightarrow> string list option) \<Rightarrow> (string \<times> skill_config) list \<Rightarrow> setting_row list \<Rightarrow> (string \<times> skill_config) list" where
  "merge_db_settings parse base rws =
     fold (\<lambda>(skill, ps). AList.update skill
             (apply_settings parse (case map_of base skill of Some c \<Rightarrow> c | None \<Rightarrow> default_config) ps))
       (by_skill rws) base"

section \<open>The runtime\<close>

record skills_init =
  ki_dir :: string
  ki_locales :: "string list"
  ki_per_skill :: "(string \<times> skill_config) list"
  ki_disabled :: "string list"

text \<open>What the skill layer is started over: the plugins' code, how a file is built, and the directory, if it is one.\<close>

record 'p plugin_env =
  pe_ops :: "'p plugin_ops"
  pe_order :: rules_order
  pe_build :: "'p builder"
  pe_dir :: "string \<Rightarrow> (string + (string + skill_file) list) option"

definition init_deps :: "skills_init \<Rightarrow> skill_deps" where
  "init_deps init = \<lparr>sd_locales = ki_locales init, sd_per_skill = map_of (ki_per_skill init)\<rparr>"

definition unload_disabled :: "rules_order \<Rightarrow> string list \<Rightarrow> 'p registry \<Rightarrow> 'p registry" where
  "unload_disabled ord names r = fold (\<lambda>n r. snd (remove_skill ord n r)) names r"

text \<open>The skills part of \<open>spawn\<close>: no registry when no directory is configured or it is not one.\<close>

definition start_skills :: "'p plugin_env \<Rightarrow> skills_init option \<Rightarrow> string + 'p registry option" where
  "start_skills pe skills =
     (case skills of
        None \<Rightarrow> Inr None
      | Some init \<Rightarrow>
          (case pe_dir pe (ki_dir init) of
             None \<Rightarrow> Inr None
           | Some read \<Rightarrow>
               (case load_dir (pe_ops pe) (pe_order pe) (pe_build pe) (init_deps init) (ki_dir init) read of
                  Inl e \<Rightarrow> Inl (''skill load: '' @ registry_error_text e)
                | Inr r \<Rightarrow> Inr (Some (unload_disabled (pe_order pe) (ki_disabled init) r)))))"

record assist_init =
  ai_topic_prefix :: string
  ai_locale :: locale_id
  ai_session_idle :: nat

record 'p running_runtime =
  ru_mqtt :: mqtt_section
  ru_factory :: provider_factory
  ru_skills :: "(string \<times> skill_deps \<times> 'p registry) option"
  ru_assist :: "assist_init option"
  ru_session_idle :: nat

definition runtime_spawn ::
  "'p plugin_env \<Rightarrow> mqtt_section \<Rightarrow> provider_factory \<Rightarrow> skills_init option \<Rightarrow> assist_init option \<Rightarrow> nat \<Rightarrow> string + 'p running_runtime" where
  "runtime_spawn pe mqtt factory skills assist idle =
     (case start_skills pe skills of
        Inl e \<Rightarrow> Inl e
      | Inr reg \<Rightarrow>
          Inr \<lparr>ru_mqtt = mqtt, ru_factory = factory,
               ru_skills = (case (skills, reg) of (Some init, Some r) \<Rightarrow> Some (ki_dir init, init_deps init, r) | _ \<Rightarrow> None),
               ru_assist = assist, ru_session_idle = idle\<rparr>)"

section \<open>\<open>serve\<close>\<close>

record admin_deps =
  ad_addr :: string
  ad_base_per_skill :: "(string \<times> skill_config) list"
  ad_bundled_dir :: "string option"
  ad_mqtt :: mqtt_section

record 'p serve_env =
  sv_present :: "string \<Rightarrow> bool"
  sv_extract :: "string \<Rightarrow> string + cli_config"
  sv_logging :: "string option"
  sv_open :: "string \<Rightarrow> string + sqlite"
  sv_debug :: "stage_choice \<Rightarrow> string"
  sv_env :: "string \<Rightarrow> string option"
  sv_pid :: string
  sv_read_settings :: "string option"
  sv_read_disabled :: "string option"
  sv_parse :: "string \<Rightarrow> string list option"
  sv_probe :: "string \<Rightarrow> 16 word \<Rightarrow> string option"
  sv_socket_addr :: "string \<Rightarrow> bool"
  sv_plugins :: "'p plugin_env"

datatype 'p served = DryRun | Serving "'p running_runtime" admin_deps

definition config_error_text :: "config_error \<Rightarrow> string" where
  "config_error_text e =
     (case e of
        ConfigIo p \<Rightarrow> ''failed to read config file `'' @ p @ ''`: config file not found''
      | ConfigParse m \<Rightarrow> ''failed to parse config: '' @ m
      | ConfigInvalid m \<Rightarrow> ''invalid config: '' @ m)"

definition enabled_assist :: "cli_config \<Rightarrow> assist_section option" where
  "enabled_assist cfg = (case ct_assist cfg of Some a \<Rightarrow> if as_enabled a then Some a else None | None \<Rightarrow> None)"

definition broker_of :: "cli_config \<Rightarrow> broker_addr" where
  "broker_of cfg = \<lparr>ba_host = qs_host (ct_mqtt cfg), ba_port = qs_port (ct_mqtt cfg), ba_root = qs_topic_root (ct_mqtt cfg)\<rparr>"

definition runtime_mqtt :: "string \<Rightarrow> cli_config \<Rightarrow> mqtt_section" where
  "runtime_mqtt pid cfg = (ct_mqtt cfg)\<lparr>qs_client_id := qs_client_id (ct_mqtt cfg) @ ''-'' @ pid\<rparr>"

definition skills_init_of ::
  "(string \<Rightarrow> string list option) \<Rightarrow> cli_config \<Rightarrow> sqlite \<Rightarrow> skills_init option" where
  "skills_init_of parse cfg db =
     map_option (\<lambda>dir. \<lparr>ki_dir = dir, ki_locales = ct_locales cfg,
         ki_per_skill = merge_db_settings parse (base_per_skill_from_config (ks_per_skill (ct_skills cfg))) (skill_settings_all db),
         ki_disabled = skills_disabled db\<rparr>)
       (ks_dir (ct_skills cfg))"

text \<open>Times are nanoseconds.\<close>

definition assist_init_of :: "cli_config \<Rightarrow> assist_init option" where
  "assist_init_of cfg =
     map_option (\<lambda>a. \<lparr>ai_topic_prefix = as_topic_prefix a, ai_locale = as_locale a,
         ai_session_idle = unat (vs_session_idle_secs (ct_server cfg)) * 10 ^ 9\<rparr>) (enabled_assist cfg)"

definition admin_deps_of :: "cli_config \<Rightarrow> admin_deps" where
  "admin_deps_of cfg =
     \<lparr>ad_addr = vs_host (ct_server cfg) @ '':'' @ show_nat (unat (vs_port (ct_server cfg))),
       ad_base_per_skill = base_per_skill_from_config (ks_per_skill (ct_skills cfg)),
       ad_bundled_dir = ks_bundled_dir (ct_skills cfg), ad_mqtt = ct_mqtt cfg\<rparr>"

definition first_failure :: "(string option) list \<Rightarrow> string option" where
  "first_failure es = (case filter (\<lambda>e. e \<noteq> None) es of [] \<Rightarrow> None | e # _ \<Rightarrow> e)"

definition serve_run :: "'p serve_env \<Rightarrow> string \<Rightarrow> bool \<Rightarrow> string + 'p served" where
  "serve_run sv path dry_run =
     (case load_config (sv_present sv) (sv_extract sv) path of
        Inl e \<Rightarrow> Inl (config_error_text e)
      | Inr cfg \<Rightarrow>
     (case sv_logging sv of
        Some e \<Rightarrow> Inl (''logging init failed: '' @ e)
      | None \<Rightarrow>
     (case sv_open sv (ct_database_url cfg) of
        Inl e \<Rightarrow> Inl e
      | Inr db \<Rightarrow>
     if dry_run then Inr DryRun
     else
     (case build_providers (sv_debug sv) (sv_env sv) (ct_providers cfg) (Some (broker_of cfg)) of
        Inl e \<Rightarrow> Inl (''provider factory: '' @ e)
      | Inr factory \<Rightarrow>
     (case first_failure [sv_read_settings sv, sv_read_disabled sv,
             if enabled_assist cfg = None then None else sv_probe sv (qs_host (ct_mqtt cfg)) (qs_port (ct_mqtt cfg))] of
        Some e \<Rightarrow> Inl e
      | None \<Rightarrow>
     (case runtime_spawn (sv_plugins sv) (runtime_mqtt (sv_pid sv) cfg) factory (skills_init_of (sv_parse sv) cfg db)
             (assist_init_of cfg) (unat (vs_session_idle_secs (ct_server cfg)) * 10 ^ 9) of
        Inl e \<Rightarrow> Inl e
      | Inr ru \<Rightarrow>
          if \<not> sv_socket_addr sv (ad_addr (admin_deps_of cfg)) then Inl ''invalid [server] host/port''
          else Inr (Serving ru (admin_deps_of cfg))))))))"

section \<open>The settings in force after a restart\<close>

lemma by_skill_snoc: "by_skill (rws @ [r]) = add_row r (by_skill rws)"
  by (simp add: by_skill_def)

lemma map_of_by_skill:
  "map_of (by_skill rws) n =
     (let own = filter (\<lambda>r. sg_skill r = n) rws in if own = [] then None else Some (row_pairs own))"
proof (induction rws rule: rev_induct)
  case (snoc r rws)
  then show ?case by (auto simp: by_skill_snoc add_row_def update_conv' row_pairs_def Let_def)
qed (simp add: by_skill_def)

lemma distinct_by_skill: "distinct (map fst (by_skill rws))"
  by (induction rws rule: rev_induct) (simp_all add: by_skill_def add_row_def distinct_update)

lemma map_of_fold_update:
  "distinct (map fst ps) \<Longrightarrow>
     map_of (fold (\<lambda>(k, v). AList.update k (f k v)) ps m) n = (case map_of ps n of Some v \<Rightarrow> Some (f n v) | None \<Rightarrow> map_of m n)"
proof (induction ps arbitrary: m)
  case (Cons p ps)
  obtain k v where p: "p = (k, v)" by fastforce
  then have "map_of ps k = None" using Cons.prems by (simp add: map_of_eq_None_iff)
  then show ?case using Cons by (auto simp: p update_conv' split: option.split)
qed simp

lemma sort_key_cong_on:
  assumes "\<forall>x \<in> set xs. \<forall>y \<in> set xs. (f x \<le> f y) = (g x \<le> g y)"
  shows "sort_key f xs = sort_key g xs"
  using assms
proof (induction xs)
  case (Cons x xs)
  have "insort_key f x ys = insort_key g x ys" if "set ys \<subseteq> set xs" for ys
    using that Cons.prems by (induction ys) auto
  then show ?case using Cons by simp
qed simp

lemma settings_of_one_skill: "filter (\<lambda>r. sg_skill r = n) (skill_settings_all db) = skill_settings_for n db"
proof -
  let ?own = "filter (\<lambda>e. fst (fst e) = n) (settings db)"
  have "sort_key fst ?own = sort_key (\<lambda>e. snd (fst e)) ?own"
    by (rule sort_key_cong_on) (auto simp: less_eq_prod_def)
  moreover have "(\<lambda>r. sg_skill r = n) \<circ> mk_setting = (\<lambda>e. fst (fst e) = n)" by (auto simp: mk_setting_def)
  ultimately show ?thesis
    by (simp add: skill_settings_all_def skill_settings_for_def filter_map filter_sort)
qed

text \<open>What a skill is built with at start-up is what the admin server's reload would build it with.\<close>

definition effective_config :: "(string \<Rightarrow> string list option) \<Rightarrow> (string \<times> skill_config) list \<Rightarrow> sqlite \<Rightarrow> string \<Rightarrow> skill_config" where
  "effective_config parse base db name =
     apply_settings parse (case map_of base name of Some c \<Rightarrow> c | None \<Rightarrow> default_config) (row_pairs (skill_settings_for name db))"

lemma merge_db_settings_effective:
  "(case map_of (merge_db_settings parse base (skill_settings_all db)) name of Some c \<Rightarrow> c | None \<Rightarrow> default_config)
     = effective_config parse base db name"
  unfolding merge_db_settings_def map_of_fold_update [OF distinct_by_skill] map_of_by_skill settings_of_one_skill
  by (auto simp: effective_config_def Let_def row_pairs_def split: option.split)

section \<open>The skills that run after a restart\<close>

definition ctx_of :: "string \<Rightarrow> skill_config \<Rightarrow> skill_ctx" where
  "ctx_of name cfg = \<lparr>sk_name = name, sk_http_allowlist = sc_http_allowlist cfg, sk_mqtt_allowlist = sc_mqtt_allowlist cfg,
     sk_config = sc_config cfg, sk_retention = sc_retention cfg, sk_config_file = sc_config_file cfg\<rparr>"

definition config_for :: "skill_deps \<Rightarrow> string \<Rightarrow> skill_config" where
  "config_for deps name = (case sd_per_skill deps name of Some c \<Rightarrow> c | None \<Rightarrow> default_config)"

lemma build_from_file:
  "build_plugin_from_file build deps f = Inr (name, sl) \<longleftrightarrow>
     sf_stem f = Some name \<and> (\<exists>p. build f (ctx_of name (config_for deps name)) = Inr p
       \<and> sl = \<lparr>sl_plugin = p, sl_ctx = Some (ctx_of name (config_for deps name)), sl_poisoned = False\<rparr>)"
  by (auto simp: build_plugin_from_file_def ctx_of_def config_for_def Let_def split: option.splits sum.splits)

lemma install_slot:
  assumes "install ops ord locales name sl r = (Inr u, r1)"
  shows "\<exists>p. map_of (plugins r1) name = Some (sl\<lparr>sl_plugin := p\<rparr>)"
  using assms by (auto simp: install_def Let_def rebuild_index_def update_conv' split: sum.splits prod.splits)

text \<open>A built file, and what the scan keeps of it: each loaded skill comes from a file that builds, with its
  configuration; each such file is loaded.\<close>

definition builds :: "'p builder \<Rightarrow> skill_deps \<Rightarrow> (string + skill_file) list \<Rightarrow> string \<Rightarrow> bool" where
  "builds build deps es name \<longleftrightarrow>
     (\<exists>f p. Inr f \<in> set es \<and> sf_ext f = Some ''wasm'' \<and> sf_stem f = Some name
        \<and> build f (ctx_of name (config_for deps name)) = Inr p)"

definition slots_ok :: "skill_deps \<Rightarrow> 'p registry \<Rightarrow> bool" where
  "slots_ok deps r \<longleftrightarrow>
     (\<forall>n sl. map_of (plugins r) n = Some sl \<longrightarrow> sl_ctx sl = Some (ctx_of n (config_for deps n)) \<and> \<not> sl_poisoned sl)"

lemma load_entries_slots:
  assumes "load_entries ops ord build deps dir es r = Inr r1" "slots_ok deps r"
  shows "slots_ok deps r1 \<and> (\<forall>n. map_of (plugins r1) n \<noteq> None \<longleftrightarrow> map_of (plugins r) n \<noteq> None \<or> builds build deps es n)"
  using assms
proof (induction es arbitrary: r)
  case Nil
  then show ?case by (auto simp: builds_def)
next
  case (Cons e es)
  obtain f where e: "e = Inr f" using Cons.prems(1) by (cases e) auto
  have step: "builds build deps (e # es) n \<longleftrightarrow> builds build deps es n
      \<or> sf_ext f = Some ''wasm'' \<and> sf_stem f = Some n \<and> (\<exists>p. build f (ctx_of n (config_for deps n)) = Inr p)" for n
    by (auto simp: builds_def e)
  show ?case
  proof (cases "sf_ext f = Some ''wasm'' \<and> (\<exists>b. build_plugin_from_file build deps f = Inr b)")
    case False
    then have scan: "load_entries ops ord build deps dir es r = Inr r1"
      using Cons.prems(1) by (auto simp: e split: if_splits sum.splits)
    have "\<not> (sf_ext f = Some ''wasm'' \<and> sf_stem f = Some n \<and> (\<exists>p. build f (ctx_of n (config_for deps n)) = Inr p))" for n
      using False build_from_file [of build deps f n] by auto
    then have "builds build deps (e # es) n \<longleftrightarrow> builds build deps es n" for n using step by blast
    then show ?thesis using Cons.IH [OF scan Cons.prems(2)] by simp
  next
    case True
    then obtain name sl where b: "sf_ext f = Some ''wasm''" "build_plugin_from_file build deps f = Inr (name, sl)" by auto
    obtain u r2 where i: "install ops ord (sd_locales deps) name sl r = (Inr u, r2)"
      and rest: "load_entries ops ord build deps dir es r2 = Inr r1"
      using Cons.prems(1) b by (auto simp: e split: sum.splits prod.splits)
    have slot: "sf_stem f = Some name" "sl_ctx sl = Some (ctx_of name (config_for deps name))" "\<not> sl_poisoned sl"
        "\<exists>p. build f (ctx_of name (config_for deps name)) = Inr p"
      using build_from_file [of build deps f name sl] b by auto
    have others: "map_of (plugins r2) n = map_of (plugins r) n" if "n \<noteq> name" for n
      using rules_of_install(2) [OF i that] .
    obtain p where own: "map_of (plugins r2) name = Some (sl\<lparr>sl_plugin := p\<rparr>)" using install_slot [OF i] by blast
    have "slots_ok deps r2"
      unfolding slots_ok_def
    proof (intro allI impI)
      fix n sl' assume m: "map_of (plugins r2) n = Some sl'"
      show "sl_ctx sl' = Some (ctx_of n (config_for deps n)) \<and> \<not> sl_poisoned sl'"
        using m own others [of n] slot Cons.prems(2) by (cases "n = name") (auto simp: slots_ok_def)
    qed
    from Cons.IH [OF rest this] have IH: "slots_ok deps r1"
        "\<And>n. map_of (plugins r1) n \<noteq> None \<longleftrightarrow> map_of (plugins r2) n \<noteq> None \<or> builds build deps es n" by blast+
    have "map_of (plugins r1) n \<noteq> None \<longleftrightarrow> map_of (plugins r) n \<noteq> None \<or> builds build deps (e # es) n" for n
      unfolding IH(2) step using own others [of n] slot(1,4) b(1) by (cases "n = name") auto
    then show ?thesis using IH(1) by blast
  qed
qed

lemma unload_disabled_plugins:
  "map_of (plugins (unload_disabled ord names r)) n = (if n \<in> set names then None else map_of (plugins r) n)"
proof (induction names arbitrary: r)
  case (Cons m names)
  have "map_of (plugins (snd (remove_skill ord m r))) k = (if k = m then None else map_of (plugins r) k)" for k
    by (auto simp: remove_skill_def Let_def rebuild_index_def delete_conv')
  then show ?case using Cons [of "snd (remove_skill ord m r)"] by (simp add: unload_disabled_def)
qed (simp add: unload_disabled_def)

lemma unload_disabled_ok: "order_ok ord \<Longrightarrow> registry_ok r \<Longrightarrow> registry_ok (unload_disabled ord names r)"
  by (induction names arbitrary: r) (simp_all add: unload_disabled_def remove_ok)

lemma skills_disabled_set: "n \<in> set (skills_disabled db) \<longleftrightarrow> (n, False) \<in> set (skill_state db)"
  by (force simp: skills_disabled_def)

lemma slots_ok_new: "slots_ok deps registry_new"
  by (simp add: slots_ok_def registry_new_def)

lemma start_skills_spec:
  assumes "start_skills pe (Some init) = Inr reg" "pe_dir pe (ki_dir init) = Some (Inr es)" "order_ok (pe_order pe)"
  shows "\<exists>r. reg = Some r \<and> registry_ok r
    \<and> (\<forall>n. n \<in> set (skill_names r) \<longleftrightarrow> builds (pe_build pe) (init_deps init) es n \<and> n \<notin> set (ki_disabled init))
    \<and> slots_ok (init_deps init) r"
proof -
  obtain r0 where r0: "load_dir (pe_ops pe) (pe_order pe) (pe_build pe) (init_deps init) (ki_dir init) (Inr es) = Inr r0"
    "reg = Some (unload_disabled (pe_order pe) (ki_disabled init) r0)"
    using assms(1,2) by (auto simp: start_skills_def split: sum.splits)
  have l: "slots_ok (init_deps init) r0" "\<And>n. map_of (plugins r0) n \<noteq> None \<longleftrightarrow> builds (pe_build pe) (init_deps init) es n"
    using load_entries_slots [OF _ slots_ok_new, of "pe_ops pe" "pe_order pe" "pe_build pe" "init_deps init" "ki_dir init" es r0] r0(1)
    by (auto simp: load_dir_def registry_new_def)
  let ?r = "unload_disabled (pe_order pe) (ki_disabled init) r0"
  have "n \<in> set (skill_names ?r) \<longleftrightarrow> map_of (plugins ?r) n \<noteq> None" for n
    by (simp add: skill_names_def map_of_eq_None_iff)
  then have "n \<in> set (skill_names ?r) \<longleftrightarrow> builds (pe_build pe) (init_deps init) es n \<and> n \<notin> set (ki_disabled init)" for n
    using l(2) [of n] by (simp add: unload_disabled_plugins)
  moreover have "slots_ok (init_deps init) ?r" using l(1) by (simp add: slots_ok_def unload_disabled_plugins)
  moreover have "registry_ok ?r" using load_dir_ok [OF assms(3) r0(1)] unload_disabled_ok [OF assms(3)] by blast
  ultimately show ?thesis using r0(2) by blast
qed

text \<open>C24: a restart restores the skills as they were left: when \<open>serve\<close> comes up over a readable directory, a
  skill runs iff one of its files builds and the database does not have it disabled; each runs with the file's
  settings overlaid by its database rows, which is what the admin server it starts would reload it with; and the
  rule index holds exactly these skills' rules.\<close>

theorem restart_restores_skills:
  assumes "serve_run sv path False = Inr (Serving ru ad)"
    and "sv_extract sv path = Inr cfg" "sv_open sv (ct_database_url cfg) = Inr db"
    and "ks_dir (ct_skills cfg) = Some dir" "pe_dir (sv_plugins sv) dir = Some (Inr es)" "order_ok (pe_order (sv_plugins sv))"
  shows "\<exists>deps r. ru_skills ru = Some (dir, deps, r)
    \<and> (\<forall>n. config_for deps n = effective_config (sv_parse sv) (ad_base_per_skill ad) db n)
    \<and> (\<forall>n. n \<in> set (skill_names r) \<longleftrightarrow> builds (pe_build (sv_plugins sv)) deps es n \<and> n \<notin> set (skills_disabled db))
    \<and> (\<forall>n sl. map_of (plugins r) n = Some sl \<longrightarrow> sl_ctx sl = Some (ctx_of n (config_for deps n)))
    \<and> (\<forall>ae s n. ae_parse ae = sv_parse sv \<and> am_base s = ad_base_per_skill ad \<and> am_db s = db
          \<longrightarrow> merged_config ae n (s :: 'q admin) = config_for deps n)
    \<and> index_ok r"
proof -
  let ?base = "base_per_skill_from_config (ks_per_skill (ct_skills cfg))"
  let ?init = "\<lparr>ki_dir = dir, ki_locales = ct_locales cfg, ki_per_skill = merge_db_settings (sv_parse sv) ?base (skill_settings_all db),
    ki_disabled = skills_disabled db\<rparr>"
  have init: "skills_init_of (sv_parse sv) cfg db = Some ?init" using assms(4) by (simp add: skills_init_of_def)
  have cfg: "load_config (sv_present sv) (sv_extract sv) path = Inr cfg"
    using assms(1,2) by (auto simp: serve_run_def load_config_def split: if_splits)
  have ad: "ad_base_per_skill ad = ?base"
    using assms(1) cfg by (auto simp: serve_run_def admin_deps_of_def split: option.splits sum.splits if_splits)
  obtain factory mq ai idle where sp: "runtime_spawn (sv_plugins sv) mq factory (Some ?init) ai idle = Inr ru"
    using assms(1,3) cfg init by (auto simp: serve_run_def split: option.splits sum.splits if_splits)
  then obtain reg where reg: "start_skills (sv_plugins sv) (Some ?init) = Inr reg"
    by (auto simp: runtime_spawn_def split: sum.splits)
  obtain r where r: "reg = Some r" "registry_ok r"
      "\<And>n. n \<in> set (skill_names r) \<longleftrightarrow> builds (pe_build (sv_plugins sv)) (init_deps ?init) es n \<and> n \<notin> set (skills_disabled db)"
      "slots_ok (init_deps ?init) r"
    using start_skills_spec [OF reg _ assms(6), of es] assms(5) by auto
  have eff: "config_for (init_deps ?init) n = effective_config (sv_parse sv) ?base db n" for n
    using merge_db_settings_effective [of "sv_parse sv" ?base db n] by (simp add: config_for_def init_deps_def)
  have "merged_config ae n s = config_for (init_deps ?init) n"
    if "ae_parse ae = sv_parse sv" "am_base s = ad_base_per_skill ad" "am_db s = db" for ae n and s :: "'q admin"
    unfolding eff using that by (simp add: merged_config_def base_of_def effective_config_def ad)
  moreover have "ru_skills ru = Some (dir, init_deps ?init, r)"
    using sp reg r(1) by (auto simp: runtime_spawn_def)
  ultimately show ?thesis
    using r eff unfolding ad by (intro exI [of _ "init_deps ?init"] exI [of _ r]) (auto simp: slots_ok_def registry_ok_def)
qed

definition demo_cli :: cli_config where
  "demo_cli = \<lparr>ct_locales = [''fr''], ct_server = server_of ''127.0.0.1'' 8080 None, ct_database_url = ''sqlite::memory:'',
     ct_mqtt = mqtt_of ''127.0.0.1'' 1883 ''athena'' None None None None,
     ct_providers = \<lparr>pc_stt = ChooseFake, pc_llm = ChooseNone, pc_tts = ChooseMqttTts ''say''\<rparr>,
     ct_skills = \<lparr>ks_dir = Some ''skills'', ks_hot_reload = False, ks_bundled_dir = None, ks_per_skill = []\<rparr>, ct_assist = None\<rparr>"

definition demo_db :: sqlite where
  "demo_db = skill_enabled_set ''timer'' False (skill_setting_set ''home'' ''url'' ''http://box'' False sqlite_open)"

definition demo_serve :: "nat serve_env" where
  "demo_serve = \<lparr>sv_present = (\<lambda>_. True), sv_extract = (\<lambda>_. Inr demo_cli), sv_logging = None, sv_open = (\<lambda>_. Inr demo_db),
     sv_debug = (\<lambda>_. []), sv_env = (\<lambda>_. None), sv_pid = ''1'', sv_read_settings = None, sv_read_disabled = None,
     sv_parse = (\<lambda>_. None), sv_probe = (\<lambda>_ _. None), sv_socket_addr = (\<lambda>_. True),
     sv_plugins = \<lparr>pe_ops = demo_plugin, pe_order = rev, pe_build = demo_build,
       pe_dir = (\<lambda>_. Some (Inr [Inr (demo_file ''home''), Inr (demo_file ''timer''), Inr (demo_file ''bad'')]))\<rparr>\<rparr>"

theorem restart_restores_skills_witness:
  "\<exists>ru ad deps r. serve_run demo_serve ''athena.toml'' False = Inr (Serving ru ad) \<and> ru_skills ru = Some (''skills'', deps, r)
    \<and> ''home'' \<in> set (skill_names r) \<and> ''timer'' \<notin> set (skill_names r) \<and> ''bad'' \<notin> set (skill_names r)
    \<and> sc_config (config_for deps ''home'') ''url'' = Some ''http://box''"
proof -
  let ?es = "[Inr (demo_file ''home''), Inr (demo_file ''timer''), Inr (demo_file ''bad'')] :: (string + skill_file) list"
  have "\<exists>ru ad. serve_run demo_serve ''athena.toml'' False = Inr (Serving ru ad)"
    by (simp add: serve_run_def demo_serve_def load_config_def demo_cli_def build_providers_def build_stt_def build_llm_def build_tts_def
        mqtt_backend_def broker_of_def first_failure_def enabled_assist_def runtime_spawn_def skills_init_of_def start_skills_def
        load_dir_def init_deps_def demo_defs build_plugin_from_file_def install_def Let_def rebuild_index_def registry_new_def)
  then obtain ru ad where run: "serve_run demo_serve ''athena.toml'' False = Inr (Serving ru ad)" by blast
  have "ad_base_per_skill ad = []"
    using run by (auto simp: serve_run_def admin_deps_of_def demo_serve_def load_config_def demo_cli_def base_per_skill_from_config_def
        split: option.splits sum.splits if_splits)
  moreover have "sv_extract demo_serve ''athena.toml'' = Inr demo_cli" "sv_open demo_serve (ct_database_url demo_cli) = Inr demo_db"
    "ks_dir (ct_skills demo_cli) = Some ''skills''" "pe_dir (sv_plugins demo_serve) ''skills'' = Some (Inr ?es)"
    "order_ok (pe_order (sv_plugins demo_serve))"
    by (simp_all add: demo_serve_def demo_cli_def order_ok_def)
  ultimately obtain deps r where r: "ru_skills ru = Some (''skills'', deps, r)"
      "\<And>n. config_for deps n = effective_config (\<lambda>_. None) [] demo_db n"
      "\<And>n. n \<in> set (skill_names r) \<longleftrightarrow> builds demo_build deps ?es n \<and> n \<notin> set (skills_disabled demo_db)"
    using restart_restores_skills [OF run, of demo_cli demo_db "''skills''" ?es] by (auto simp: demo_serve_def)
  have "builds demo_build deps ?es ''home''"
    unfolding builds_def by (intro exI [of _ "demo_file ''home''"] exI [of _ 0]) (simp add: demo_defs)
  moreover have "\<not> builds demo_build deps ?es ''bad''" by (auto simp: builds_def demo_defs)
  moreover have "skills_disabled demo_db = [''timer'']"
    by (simp add: skills_disabled_def demo_db_def skill_enabled_set_def skill_setting_set_def sqlite_open_def)
  moreover have "sc_config (effective_config (\<lambda>_. None) [] demo_db ''home'') ''url'' = Some ''http://box''"
    by (simp add: effective_config_def skill_settings_for_def demo_db_def skill_enabled_set_def skill_setting_set_def sqlite_open_def
        mk_setting_def row_pairs_def apply_settings_def http_allowlist_key_def)
  ultimately show ?thesis using run r by auto
qed

end
