(* ===== verification/Console.thy ===== *)
theory Console
  imports Sessions
begin

text \<open>
  The admin's test console (\<open>crates/athena-voice-admin/src/test_command.rs\<close>): a loop over what its \<open>select!\<close>
  yields, with the time since the session began, in nanoseconds; the end of the list is a console still waiting.
  Publishes are outputs. The events are those the command line client sees too (Client).
\<close>

section \<open>What the loops see\<close>

text \<open>The acknowledged subscription carries the error of the publishes it triggers, if one fails.\<close>

datatype client_event =
    GotSubAck "string option"
  | GotPublish string "byte list"
  | GotOther
  | GotError string
  | TickFired
  | DeadlineHit

section \<open>The test console\<close>

record admin_mqtt_config =
  mc_host :: string
  mc_port :: "16 word"
  mc_username :: "string option"
  mc_password :: "string option"
  mc_topic_root :: string

datatype test_error = ConsoleConnect string | ConsoleTimeout

definition answer_quiet :: nat where "answer_quiet = 1200 * 10 ^ 6"
definition session_timeout :: nat where "session_timeout = 10 * 10 ^ 9"

definition console_base :: "codecs \<Rightarrow> string \<Rightarrow> session_id \<Rightarrow> string" where
  "console_base cd troot sid = troot @ ''/sat/admin-ui/session/'' @ c_print cd sid"

definition locale_payload :: "codecs \<Rightarrow> string \<Rightarrow> byte list" where
  "locale_payload cd loc = c_encode cd (JObj [(''locale'', JStr loc)])"

record console_state =
  co_started :: bool
  co_segments :: "string list"
  co_last_at :: nat

definition console_init :: console_state where
  "console_init = \<lparr>co_started = False, co_segments = [], co_last_at = 0\<rparr>"

definition console_answer :: "console_state \<Rightarrow> string" where
  "console_answer s = join '' '' (co_segments s)"

type_synonym publishes = "(string \<times> byte list) list"

fun console_step ::
  "codecs \<Rightarrow> string \<Rightarrow> string \<Rightarrow> string \<Rightarrow> nat \<Rightarrow> client_event \<Rightarrow> console_state
     \<Rightarrow> console_state \<times> publishes \<times> (test_error + string) option" where
  "console_step cd base loc txt now TickFired s =
     (s, [], if co_segments s \<noteq> [] \<and> now - co_last_at s > answer_quiet then Some (Inr (console_answer s)) else None)"
| "console_step cd base loc txt now DeadlineHit s =
     (s, [], Some (if co_segments s = [] then Inl ConsoleTimeout else Inr (console_answer s)))"
| "console_step cd base loc txt now (GotSubAck e) s =
     (if co_started s then (s, [], None)
      else (s\<lparr>co_started := True\<rparr>, [(base @ ''/start'', locale_payload cd loc), (base @ ''/text'', bytes_of txt)],
            map_option (Inl \<circ> ConsoleConnect) e))"
| "console_step cd base loc txt now (GotPublish topic payload) s =
     (if topic = base @ ''/tts/text'' then (s\<lparr>co_segments := co_segments s @ [c_lossy cd payload], co_last_at := now\<rparr>, [], None)
      else if topic = base @ ''/done'' then (s, [], Some (Inr (console_answer s)))
      else (s, [], None))"
| "console_step cd base loc txt now GotOther s = (s, [], None)"
| "console_step cd base loc txt now (GotError e) s = (s, [], Some (Inl (ConsoleConnect e)))"

fun console_loop ::
  "codecs \<Rightarrow> string \<Rightarrow> string \<Rightarrow> string \<Rightarrow> (nat \<times> client_event) list \<Rightarrow> console_state
     \<Rightarrow> console_state \<times> publishes \<times> (test_error + string) option" where
  "console_loop cd base loc txt [] s = (s, [], None)"
| "console_loop cd base loc txt ((now, ev) # evs) s =
     (case console_step cd base loc txt now ev s of
        (s1, out, Some r) \<Rightarrow> (s1, out, Some r)
      | (s1, out, None) \<Rightarrow>
          (let (s2, outs, r) = console_loop cd base loc txt evs s1 in (s2, out @ outs, r)))"

text \<open>After the loop the session is closed whatever its result; the wait for the broker's acknowledgement ends
  with it, an error, or a second later.\<close>

datatype flush_event = FlushAck | FlushError | FlushOther | FlushDeadline

fun flush_wait :: "flush_event list \<Rightarrow> flush_event list option" where
  "flush_wait [] = None"
| "flush_wait (FlushOther # es) = flush_wait es"
| "flush_wait (_ # es) = Some es"

definition run_text_session ::
  "codecs \<Rightarrow> string option \<Rightarrow> admin_mqtt_config \<Rightarrow> session_id \<Rightarrow> string \<Rightarrow> string \<Rightarrow> (nat \<times> client_event) list
     \<Rightarrow> publishes \<times> (test_error + string) option" where
  "run_text_session cd subscribe_err cfg sid txt loc evs =
     (case subscribe_err of
        Some e \<Rightarrow> ([], Some (Inl (ConsoleConnect e)))
      | None \<Rightarrow>
          (let base = console_base cd (mc_topic_root cfg) sid
           in case console_loop cd base loc txt evs console_init of
                (_, out, None) \<Rightarrow> (out, None)
              | (_, out, Some r) \<Rightarrow> (out @ [(base @ ''/end'', [])], Some r)))"

datatype console_response = ConsoleAnswer string | ConsoleRefused nat string

definition test_command ::
  "codecs \<Rightarrow> string option \<Rightarrow> admin_mqtt_config option \<Rightarrow> session_id \<Rightarrow> string \<Rightarrow> string option \<Rightarrow> (nat \<times> client_event) list
     \<Rightarrow> publishes \<times> console_response option" where
  "test_command cd subscribe_err mqtt sid raw loc_opt evs =
     (let txt = trim raw; loc = (case loc_opt of None \<Rightarrow> ''en'' | Some l \<Rightarrow> l) in
      if txt = [] then ([], Some (ConsoleRefused 400 ''text must not be empty''))
      else case locale_new loc of
          Inl _ \<Rightarrow> ([], Some (ConsoleRefused 400 (''invalid locale (expected e.g. '' @ [CHR 0x22] @ ''fr'' @ [CHR 0x22] @ '' or ''
                      @ [CHR 0x22] @ ''fr-FR'' @ [CHR 0x22] @ '')'')))
        | Inr _ \<Rightarrow>
            (case mqtt of
               None \<Rightarrow> ([], Some (ConsoleRefused 503 ''MQTT is not configured on this admin server''))
             | Some cfg \<Rightarrow>
                 (case run_text_session cd subscribe_err cfg sid txt loc evs of
                    (out, r) \<Rightarrow>
                      (out, map_option (\<lambda>r. case r of
                           Inr answer \<Rightarrow> ConsoleAnswer answer
                         | Inl (ConsoleConnect e) \<Rightarrow> ConsoleRefused 502 (''MQTT broker error: '' @ e)
                         | Inl ConsoleTimeout \<Rightarrow>
                             ConsoleRefused 504 (''no answer within 10s '' @ [CHR 0xE2, CHR 0x80, CHR 0x94]
                               @ '' is `serve` running with skills loaded?'')) r))))"

section \<open>The loop ends\<close>

definition segments_of :: "codecs \<Rightarrow> string \<Rightarrow> (nat \<times> client_event) list \<Rightarrow> string list" where
  "segments_of cd base evs =
     List.map_filter (\<lambda>(_, ev). case ev of GotPublish topic p \<Rightarrow> if topic = base @ ''/tts/text'' then Some (c_lossy cd p) else None | _ \<Rightarrow> None) evs"

definition session_opening :: "codecs \<Rightarrow> string \<Rightarrow> string \<Rightarrow> string \<Rightarrow> publishes" where
  "session_opening cd base loc txt = [(base @ ''/start'', locale_payload cd loc), (base @ ''/text'', bytes_of txt)]"

lemma segments_of_simps [simp]:
  "segments_of cd base [] = []"
  "segments_of cd base ((now, GotPublish topic p) # evs) =
     (if topic = base @ ''/tts/text'' then [c_lossy cd p] else []) @ segments_of cd base evs"
  "segments_of cd base ((now, GotSubAck e) # evs) = segments_of cd base evs"
  "segments_of cd base ((now, GotOther) # evs) = segments_of cd base evs"
  "segments_of cd base ((now, GotError x) # evs) = segments_of cd base evs"
  "segments_of cd base ((now, TickFired) # evs) = segments_of cd base evs"
  "segments_of cd base ((now, DeadlineHit) # evs) = segments_of cd base evs"
  by (simp_all add: segments_of_def map_filter_simps)

text \<open>With the deadline among the events the loop has a result, reached over some prefix of them; it opened the
  session at most once, and an answer is the segments that arrived, joined.\<close>

lemma console_loop_result:
  assumes "DeadlineHit \<in> snd ` set evs"
  shows "\<exists>pre rest s r. evs = pre @ rest \<and> pre \<noteq> []
    \<and> console_loop cd base loc txt evs s0 = (s, if \<not> co_started s0 \<and> co_started s then session_opening cd base loc txt else [], Some r)
    \<and> (co_started s \<longleftrightarrow> co_started s0 \<or> (\<exists>e. GotSubAck e \<in> snd ` set pre))
    \<and> co_segments s = co_segments s0 @ segments_of cd base pre
    \<and> (\<forall>a. r = Inr a \<longrightarrow> a = join '' '' (co_segments s))
    \<and> (r = Inl ConsoleTimeout \<longrightarrow> co_segments s = [])"
  using assms
proof (induction evs arbitrary: s0)
  case (Cons te evs)
  obtain now ev where te: "te = (now, ev)" by fastforce
  obtain s1 out res where step: "console_step cd base loc txt now ev s0 = (s1, out, res)" by (metis prod_cases3)
  have out: "out = (if \<not> co_started s0 \<and> co_started s1 then session_opening cd base loc txt else [])"
    "co_started s1 \<longleftrightarrow> co_started s0 \<or> (\<exists>e. ev = GotSubAck e)" "co_segments s1 = co_segments s0 @ segments_of cd base [te]"
    using step by (cases ev; auto simp: te session_opening_def split: if_splits)+
  show ?case
  proof (cases res)
    case (Some r)
    have "(\<forall>a. r = Inr a \<longrightarrow> a = join '' '' (co_segments s1)) \<and> (r = Inl ConsoleTimeout \<longrightarrow> co_segments s1 = [])"
      using step Some by (cases ev) (auto simp: console_answer_def split: if_splits)
    then show ?thesis
      using step Some out eq_commute [of ev]
      by - (rule exI [of _ "[te]"], rule exI [of _ evs], rule exI [of _ s1], rule exI [of _ r], auto simp: te)
  next
    case None
    then have "DeadlineHit \<in> snd ` set evs" using Cons.prems step by (auto simp: te)
    from Cons.IH [OF this, of s1] obtain pre rest s r where IH: "evs = pre @ rest"
      "console_loop cd base loc txt evs s1 = (s, if \<not> co_started s1 \<and> co_started s then session_opening cd base loc txt else [], Some r)"
      "co_started s \<longleftrightarrow> co_started s1 \<or> (\<exists>e. GotSubAck e \<in> snd ` set pre)" "co_segments s = co_segments s1 @ segments_of cd base pre"
      "\<forall>a. r = Inr a \<longrightarrow> a = join '' '' (co_segments s)" "r = Inl ConsoleTimeout \<longrightarrow> co_segments s = []" by blast
    have "segments_of cd base (te # pre) = segments_of cd base [te] @ segments_of cd base pre"
      by (simp add: segments_of_def List.map_filter_def)
    then show ?thesis
      using step None out IH eq_commute [of ev]
      by - (rule exI [of _ "te # pre"], rule exI [of _ rest], rule exI [of _ s], rule exI [of _ r], auto simp: te)
  qed
qed simp

section \<open>The console against the runtime\<close>

text \<open>The broker hands the publishes to the runtime in order, with room in the channels.\<close>

definition deliver_publishes :: "codecs \<Rightarrow> string \<Rightarrow> u64 \<Rightarrow> publishes \<Rightarrow> ingress \<Rightarrow> ingress" where
  "deliver_publishes cd troot now out w = fold (\<lambda>(t, p) w. handle_publish cd troot now True t p w) out w"

definition codecs_ok :: "codecs \<Rightarrow> session_id \<Rightarrow> string \<Rightarrow> string \<Rightarrow> bool" where
  "codecs_ok cd sid loc txt \<longleftrightarrow>
     c_json cd (locale_payload cd loc) = Some (JObj [(''locale'', JStr loc)]) \<and> c_lossy cd (bytes_of txt) = txt
     \<and> c_uuid cd (c_print cd sid) = Some sid \<and> CHR ''/'' \<notin> set (c_print cd sid)"

lemma admin_ui_valid: "valid_satellite ''admin-ui''"
  by code_simp

lemma deliver_session:
  assumes "codecs_ok cd sid loc txt" "CHR ''/'' \<notin> set troot" "valid_satellite sat" "valid_locale loc" "trim txt = txt" "txt \<noteq> []"
    and "mgr_get sid (ig_mgr w) = None" "base = troot @ ''/sat/'' @ sat @ ''/session/'' @ c_print cd sid"
  shows "mgr_get sid (ig_mgr (deliver_publishes cd troot now (session_opening cd base loc txt @ [(base @ ''/end'', [])]) w)) = None
    \<and> ig_spawned (deliver_publishes cd troot now (session_opening cd base loc txt @ [(base @ ''/end'', [])]) w) = ig_spawned w @ [(sid, sat, loc)]
    \<and> ig_bus (deliver_publishes cd troot now (session_opening cd base loc txt @ [(base @ ''/end'', [])]) w)
        = ig_bus w @ [SessionStarted sid sat loc, TranscriptFinal sid txt]"
    and "deliver_publishes cd troot now [(base @ ''/end'', [])] w = w"
proof -
  have parse: "parse_satellite_topic (c_uuid cd) troot (base @ ''/'' @ v)
      = (if v = ''start'' then Some (PStart sat sid) else if v = ''audio'' then Some (PAudio sat sid)
         else if v = ''text'' then Some (PText sat sid) else if v = ''end'' then Some (PEnd sat sid) else None)"
    if "CHR ''/'' \<notin> set v" for v
    using parse_satellite_topic_six [of troot sat "c_print cd sid" "c_uuid cd" sid v] that assms(1-3)
    by (simp add: assms(8) codecs_ok_def)
  have loc: "extract_locale cd (locale_payload cd loc) = Some loc"
    using assms(1,4) by (simp add: extract_locale_def codecs_ok_def json_get_def as_str_def valid_locale_def)
  show "deliver_publishes cd troot now [(base @ ''/end'', [])] w = w"
    using parse [of "''end''"] assms(7) by (simp add: deliver_publishes_def handle_publish_def mgr_close_def)
  show "mgr_get sid (ig_mgr (deliver_publishes cd troot now (session_opening cd base loc txt @ [(base @ ''/end'', [])]) w)) = None
    \<and> ig_spawned (deliver_publishes cd troot now (session_opening cd base loc txt @ [(base @ ''/end'', [])]) w) = ig_spawned w @ [(sid, sat, loc)]
    \<and> ig_bus (deliver_publishes cd troot now (session_opening cd base loc txt @ [(base @ ''/end'', [])]) w)
        = ig_bus w @ [SessionStarted sid sat loc, TranscriptFinal sid txt]"
    using parse [of "''start''"] parse [of "''text''"] parse [of "''end''"] assms(1,5-7) loc
    by (simp add: deliver_publishes_def session_opening_def handle_publish_def open_session_def mgr_open_def mgr_touch_def
        mgr_modify_def mgr_close_def mgr_get_def update_conv' delete_conv' codecs_ok_def Let_def)
qed

text \<open>C25: a test command always comes to an end and leaves nothing behind: whatever the broker sends, once the
  ten-second deadline is among the events the session has a result, and its publishes, as the runtime reads
  them, either open exactly one session of the console, in the asked language, with the command as its final
  transcript, and close it again, or open none; an answer is the texts that arrived on the session's text topic,
  joined, and there is a time-out only if none did.\<close>

theorem console_session_ends:
  assumes "DeadlineHit \<in> snd ` set evs" "codecs_ok cd sid loc txt" "CHR ''/'' \<notin> set (mc_topic_root cfg)" "valid_locale loc"
    and "trim txt = txt" "txt \<noteq> []" "mgr_get sid (ig_mgr w) = None"
  shows "\<exists>out r pre rest. run_text_session cd None cfg sid txt loc evs = (out, Some r)
    \<and> (let w' = deliver_publishes cd (mc_topic_root cfg) now out w; opened = (\<exists>e. GotSubAck e \<in> snd ` set pre) in
        mgr_get sid (ig_mgr w') = None
        \<and> ig_spawned w' = ig_spawned w @ (if opened then [(sid, ''admin-ui'', loc)] else [])
        \<and> ig_bus w' = ig_bus w @ (if opened then [SessionStarted sid ''admin-ui'' loc, TranscriptFinal sid txt] else []))
    \<and> evs = pre @ rest
    \<and> (\<forall>a. r = Inr a \<longrightarrow> a = join '' '' (segments_of cd (console_base cd (mc_topic_root cfg) sid) pre))
    \<and> (r = Inl ConsoleTimeout \<longrightarrow> segments_of cd (console_base cd (mc_topic_root cfg) sid) pre = [])"
proof -
  let ?base = "console_base cd (mc_topic_root cfg) sid"
  have init [simp]: "co_started console_init = False" "co_segments console_init = []" by (simp_all add: console_init_def)
  obtain pre rest s r where raw: "evs = pre @ rest"
      "console_loop cd ?base loc txt evs console_init
        = (s, if \<not> co_started console_init \<and> co_started s then session_opening cd ?base loc txt else [], Some r)"
      "co_started s \<longleftrightarrow> co_started console_init \<or> (\<exists>e. GotSubAck e \<in> snd ` set pre)"
      "co_segments s = co_segments console_init @ segments_of cd ?base pre"
      "\<forall>a. r = Inr a \<longrightarrow> a = join '' '' (co_segments s)" "r = Inl ConsoleTimeout \<longrightarrow> co_segments s = []"
    using console_loop_result [OF assms(1), of cd ?base loc "txt" console_init] by blast
  have l: "evs = pre @ rest"
      "console_loop cd ?base loc txt evs console_init = (s, if co_started s then session_opening cd ?base loc txt else [], Some r)"
      "co_started s \<longleftrightarrow> (\<exists>e. GotSubAck e \<in> snd ` set pre)" "co_segments s = segments_of cd ?base pre"
      "\<forall>a. r = Inr a \<longrightarrow> a = join '' '' (co_segments s)" "r = Inl ConsoleTimeout \<longrightarrow> co_segments s = []"
    using raw by (simp_all only: init not_False_eq_True simp_thms append_Nil)
  let ?out = "(if co_started s then session_opening cd ?base loc txt else []) @ [(?base @ ''/end'', [])]"
  have run: "run_text_session cd None cfg sid txt loc evs = (?out, Some r)"
    using l(2) by (simp add: run_text_session_def Let_def)
  note d = deliver_session [OF assms(2,3) admin_ui_valid assms(4-7), of ?base now]
  have "?base = mc_topic_root cfg @ ''/sat/'' @ ''admin-ui'' @ ''/session/'' @ c_print cd sid"
    by (simp add: console_base_def)
  then have "let w' = deliver_publishes cd (mc_topic_root cfg) now ?out w in
        mgr_get sid (ig_mgr w') = None
        \<and> ig_spawned w' = ig_spawned w @ (if co_started s then [(sid, ''admin-ui'', loc)] else [])
        \<and> ig_bus w' = ig_bus w @ (if co_started s then [SessionStarted sid ''admin-ui'' loc, TranscriptFinal sid txt] else [])"
    using d assms(7) by (cases "co_started s") (simp_all only: Let_def if_True if_False append_Nil append_Nil2 simp_thms)
  then show ?thesis
    using run l(1,5,6) unfolding l(4) Let_def l(3)
    by - (rule exI [of _ ?out], rule exI [of _ r], rule exI [of _ pre], rule exI [of _ rest], simp only: l(3) simp_thms)
qed

definition console_codecs :: codecs where
  "console_codecs = demo_codecs\<lparr>c_encode := (\<lambda>_. bytes_of ([CHR 0x7B, CHR 0x22] @ ''locale'' @ [CHR 0x22, CHR 0x3A, CHR 0x22] @ ''en'' @ [CHR 0x22, CHR 0x7D]))\<rparr>"

theorem console_session_ends_witness:
  "\<exists>out. run_text_session console_codecs None
       \<lparr>mc_host = ''h'', mc_port = 1883, mc_username = None, mc_password = None, mc_topic_root = ''assist''\<rparr> 1 ''what time is it'' ''en''
       [(0, GotSubAck None), (5, GotPublish ''assist/sat/admin-ui/session/u1/tts/text'' (bytes_of ''noon'')), (9, DeadlineHit)]
       = (out, Some (Inr ''noon''))
     \<and> mgr_get 1 (ig_mgr (deliver_publishes console_codecs ''assist'' 7 out ingress_init)) = None
     \<and> ig_spawned (deliver_publishes console_codecs ''assist'' 7 out ingress_init) = [(1, ''admin-ui'', ''en'')]"
proof -
  let ?cfg = "\<lparr>mc_host = ''h'', mc_port = 1883, mc_username = None, mc_password = None, mc_topic_root = ''assist''\<rparr>"
  let ?evs = "[(0, GotSubAck None), (5, GotPublish ''assist/sat/admin-ui/session/u1/tts/text'' (bytes_of ''noon'')), (9, DeadlineHit)]"
  have run: "\<exists>out. run_text_session console_codecs None ?cfg 1 ''what time is it'' ''en'' ?evs = (out, Some (Inr ''noon'')) \<and> length out = 3"
    by (simp add: run_text_session_def console_base_def console_init_def console_answer_def console_codecs_def demo_codecs_def Let_def)
  have "codecs_ok console_codecs 1 ''en'' ''what time is it''"
    by (simp add: codecs_ok_def console_codecs_def demo_codecs_def locale_payload_def butlast_append)
  moreover have "trim ''what time is it'' = ''what time is it''" "valid_locale ''en''" by code_simp+
  ultimately obtain out pre rest where e: "run_text_session console_codecs None ?cfg 1 ''what time is it'' ''en'' ?evs = (out, Some (Inr ''noon''))"
      "mgr_get 1 (ig_mgr (deliver_publishes console_codecs ''assist'' 7 out ingress_init)) = None"
      "ig_spawned (deliver_publishes console_codecs ''assist'' 7 out ingress_init)
        = (if \<exists>e. GotSubAck e \<in> snd ` set pre then [(1, ''admin-ui'', ''en'')] else [])"
      "?evs = pre @ rest" "''noon'' = join '' '' (segments_of console_codecs ''assist/sat/admin-ui/session/u1'' pre)"
    using console_session_ends [of ?evs console_codecs 1 "''en''" "''what time is it''" ?cfg ingress_init 7] run
    by (auto simp: ingress_init_def manager_new_def mgr_get_def Let_def console_base_def console_codecs_def demo_codecs_def)
  have "pre \<noteq> []" using e(5) by auto
  then have "(0, GotSubAck None) \<in> set pre" using e(4) by (cases pre) auto
  then have "\<exists>e. GotSubAck e \<in> snd ` set pre" by force
  then show ?thesis using e(1-3) by auto
qed

end
