(* ===== verification/Client.thy ===== *)
theory Client
  imports Console Synthesizer
begin

text \<open>
  The command line client (\<open>crates/athena-voice-client/src/main.rs\<close>): its session loop, the printing and timing of
  what comes back, the feeding of recorded audio and what it plays at the end. Times are nanoseconds since the
  client connected. Recording, reading and resampling audio happen before the session and give its bytes; the
  player, the speech synthesizer and the wait for the broker's last acknowledgement are outside the model.
\<close>

section \<open>Timing\<close>

record timing =
  tm_input_done :: "nat option"
  tm_transcript :: "nat option"
  tm_answer_text :: "nat option"
  tm_first_audio :: "nat option"
  tm_last_audio :: "nat option"

definition timing_default :: timing where
  "timing_default = \<lparr>tm_input_done = None, tm_transcript = None, tm_answer_text = None, tm_first_audio = None, tm_last_audio = None\<rparr>"

definition mark :: "nat \<Rightarrow> nat option \<Rightarrow> nat option" where
  "mark now slot = (case slot of None \<Rightarrow> Some now | Some t \<Rightarrow> Some t)"

text \<open>A span in milliseconds, or a dash.\<close>

definition span :: "nat option \<Rightarrow> nat option \<Rightarrow> nat option" where
  "span a b = (case (a, b) of (Some x, Some y) \<Rightarrow> if y \<ge> x then Some ((y - x) div 10 ^ 6) else None | _ \<Rightarrow> None)"

definition timing_rows :: "timing \<Rightarrow> bool \<Rightarrow> (string \<times> nat option) list" where
  "timing_rows t voice_input =
     (if voice_input then [(''audio end'', span (tm_input_done t) (tm_transcript t))] else [])
     @ [(''transcript'', span (tm_transcript t) (tm_answer_text t)), (''answer text'', span (tm_answer_text t) (tm_first_audio t)),
        (''first'', span (tm_first_audio t) (tm_last_audio t)), (''input end'', span (tm_input_done t) (tm_last_audio t))]"

section \<open>One message\<close>

datatype shown =
    ShowStart string | ShowSent string | ShowAudio nat
  | ShowTranscript string | ShowMeta string | ShowAnswer string | ShowDone string
  | ShowOther string string | ShowEvent string string

record client_state =
  cl_started :: bool
  cl_end_sent :: bool
  cl_timing :: timing
  cl_chunks :: "byte list list"
  cl_meta_rate :: "u32 option"
  cl_last_chunk_at :: nat
  cl_feed :: publishes
  cl_shown :: "shown list"

definition cli_init :: client_state where
  "cli_init = \<lparr>cl_started = False, cl_end_sent = False, cl_timing = timing_default, cl_chunks = [], cl_meta_rate = None,
     cl_last_chunk_at = 0, cl_feed = [], cl_shown = []\<rparr>"

definition display :: "shown \<Rightarrow> client_state \<Rightarrow> client_state" where
  "display x s = s\<lparr>cl_shown := cl_shown s @ [x]\<rparr>"

definition declared_rate :: "codecs \<Rightarrow> byte list \<Rightarrow> u32 option" where
  "declared_rate cd payload =
     (case c_json cd payload of
        None \<Rightarrow> None
      | Some v \<Rightarrow>
          (case json_get ''sample_rate'' v of
             None \<Rightarrow> None
           | Some x \<Rightarrow>
               (case as_u64 x of
                  None \<Rightarrow> None
                | Some n \<Rightarrow>
                    (case to_u32 n of None \<Rightarrow> None | Some r \<Rightarrow> if r > 0 then Some r else None))))"

definition answer_text :: "codecs \<Rightarrow> byte list \<Rightarrow> string" where
  "answer_text cd payload =
     (case c_json cd payload of
        None \<Rightarrow> c_lossy cd payload
      | Some v \<Rightarrow> (case json_get ''text'' v of None \<Rightarrow> c_lossy cd payload | Some x \<Rightarrow> (case as_str x of None \<Rightarrow> c_lossy cd payload | Some t \<Rightarrow> t)))"

text \<open>The message's effect and whether the session is done.\<close>

definition client_publish ::
  "codecs \<Rightarrow> string \<Rightarrow> string \<Rightarrow> nat \<Rightarrow> string \<Rightarrow> byte list \<Rightarrow> client_state \<Rightarrow> client_state \<times> bool" where
  "client_publish cd base events_prefix now topic payload s =
     (let t = cl_timing s in
      case Option.bind (strip_prefix base topic) (strip_prefix ''/'') of
        Some kind \<Rightarrow>
          (if kind = ''text'' \<or> kind = ''audio'' \<and> payload = []
           then (s\<lparr>cl_timing := t\<lparr>tm_input_done := mark now (tm_input_done t)\<rparr>\<rparr>, False)
           else if kind \<in> {''start'', ''audio'', ''end''} then (s, False)
           else if kind = ''transcript''
           then (display (ShowTranscript (c_lossy cd payload)) (s\<lparr>cl_timing := t\<lparr>tm_transcript := mark now (tm_transcript t)\<rparr>\<rparr>), False)
           else if kind = ''tts/meta''
           then (let s1 = display (ShowMeta (c_lossy cd payload)) s in
                 (case declared_rate cd payload of None \<Rightarrow> s1 | Some r \<Rightarrow> s1\<lparr>cl_meta_rate := Some r\<rparr>, False))
           else if kind = ''tts/text''
           then (display (ShowAnswer (answer_text cd payload)) s\<lparr>cl_timing := t\<lparr>tm_answer_text := mark now (tm_answer_text t)\<rparr>\<rparr>, False)
           else if kind = ''tts''
           then (s\<lparr>cl_timing := t\<lparr>tm_first_audio := mark now (tm_first_audio t), tm_last_audio := Some now\<rparr>,
                   cl_chunks := cl_chunks s @ [payload]\<rparr>, False)
           else if kind = ''done'' then (display (ShowDone (c_lossy cd payload)) s, True)
           else (display (ShowOther kind (c_lossy cd payload)) s, False))
      | None \<Rightarrow>
          (case strip_prefix events_prefix topic of
             Some kind \<Rightarrow> (display (ShowEvent kind (c_lossy cd payload)) s, False)
           | None \<Rightarrow> (s, False)))"

section \<open>The session loop\<close>

text \<open>An acknowledged subscription carries the error of the first publish, if it fails.\<close>

record client_args =
  ca_satellite :: string
  ca_topic_root :: string
  ca_locale :: string
  ca_text :: "string option"
  ca_rate :: "u32 option"
  ca_speak :: bool
  ca_play :: bool
  ca_timing :: bool

definition client_base :: "codecs \<Rightarrow> client_args \<Rightarrow> session_id \<Rightarrow> string" where
  "client_base cd args sid = ca_topic_root args @ ''/sat/'' @ ca_satellite args @ ''/session/'' @ c_print cd sid"

definition audio_chunk_bytes :: nat where "audio_chunk_bytes = 16000 div 10 * 2"

text \<open>What the feeding task publishes, one at a time, while the loop goes on.\<close>

definition audio_feed :: "string \<Rightarrow> byte list \<Rightarrow> publishes" where
  "audio_feed base pcm = map (\<lambda>c. (base @ ''/audio'', c)) (chunks_of audio_chunk_bytes pcm) @ [(base @ ''/audio'', [])]"

datatype client_result = SessionDone | SessionTimedOut | PublishFailed string

datatype cli_event = Net client_event | FeedNext

fun session_step ::
  "codecs \<Rightarrow> string \<Rightarrow> client_args \<Rightarrow> byte list option \<Rightarrow> nat \<Rightarrow> cli_event \<Rightarrow> client_state
     \<Rightarrow> client_state \<times> publishes \<times> client_result option" where
  "session_step cd base args pcm now (Net TickFired) s =
     (if cl_started s \<and> \<not> cl_end_sent s \<and> cl_chunks s \<noteq> [] \<and> now - cl_last_chunk_at s > 1200 * 10 ^ 6
      then (s\<lparr>cl_end_sent := True\<rparr>, [(base @ ''/end'', [])], None) else (s, [], None))"
| "session_step cd base args pcm now (Net DeadlineHit) s = (s, [(base @ ''/end'', [])], Some SessionTimedOut)"
| "session_step cd base args pcm now (Net (GotSubAck e)) s =
     (if cl_started s then (s, [], None)
      else (let s1 = display (ShowStart (ca_locale args)) (s\<lparr>cl_started := True\<rparr>);
                start = (base @ ''/start'', locale_payload cd (ca_locale args)) in
            case (e, ca_text args, pcm) of
              (Some err, _, _) \<Rightarrow> (s1, [], Some (PublishFailed err))
            | (None, Some t, _) \<Rightarrow> (display (ShowSent t) s1, [start, (base @ ''/text'', bytes_of t)], None)
            | (None, None, Some p) \<Rightarrow> (display (ShowAudio (length p)) s1\<lparr>cl_feed := audio_feed base p\<rparr>, [start], None)
            | (None, None, None) \<Rightarrow> (s1, [start], None)))"
| "session_step cd base args pcm now (Net (GotPublish topic payload)) s =
     (case client_publish cd base (ca_topic_root args @ ''/events/'') now topic payload s of
        (s1, True) \<Rightarrow> (s1, [], Some SessionDone)
      | (s1, False) \<Rightarrow> (if length (cl_chunks s1) \<noteq> length (cl_chunks s) then s1\<lparr>cl_last_chunk_at := now\<rparr> else s1, [], None))"
| "session_step cd base args pcm now (Net GotOther) s = (s, [], None)"
| "session_step cd base args pcm now (Net (GotError e)) s = (s, [], None)"
| "session_step cd base args pcm now FeedNext s =
     (case cl_feed s of [] \<Rightarrow> (s, [], None) | p # ps \<Rightarrow> (s\<lparr>cl_feed := ps\<rparr>, [p], None))"

fun session_loop ::
  "codecs \<Rightarrow> string \<Rightarrow> client_args \<Rightarrow> byte list option \<Rightarrow> (nat \<times> cli_event) list \<Rightarrow> client_state
     \<Rightarrow> client_state \<times> publishes \<times> client_result option" where
  "session_loop cd base args pcm [] s = (s, [], None)"
| "session_loop cd base args pcm ((now, ev) # evs) s =
     (case session_step cd base args pcm now ev s of
        (s1, out, Some r) \<Rightarrow> (s1, out, Some r)
      | (s1, out, None) \<Rightarrow>
          (let (s2, outs, r) = session_loop cd base args pcm evs s1 in (s2, out @ outs, r)))"

section \<open>The whole program\<close>

definition print_speech :: "(byte list \<Rightarrow> string option) \<Rightarrow> byte list list \<Rightarrow> string option" where
  "print_speech utf8 chunks =
     (if chunks = [] \<or> None \<in> set (map utf8 chunks) then None else Some (join '' '' (map (the \<circ> utf8) chunks)))"

record client_report =
  cr_sentence :: "string option"
  cr_timing :: "(string \<times> nat option) list option"
  cr_spoken :: "string option"
  cr_played :: "(u32 \<times> byte list list) option"

definition client_report_of ::
  "(byte list \<Rightarrow> string option) \<Rightarrow> client_args \<Rightarrow> byte list option \<Rightarrow> client_state \<Rightarrow> client_report" where
  "client_report_of utf8 args pcm s =
     (let sentence = print_speech utf8 (cl_chunks s); t = cl_timing s;
          t1 = (if tm_transcript t = None then t\<lparr>tm_transcript := tm_input_done t\<rparr> else t) in
      \<lparr>cr_sentence = sentence,
       cr_timing = (if ca_timing args then Some (timing_rows t1 (pcm \<noteq> None)) else None),
       cr_spoken = (if ca_speak args then sentence else None),
       cr_played = (if ca_play args \<and> sentence = None \<and> cl_chunks s \<noteq> []
          then Some (case ca_rate args of Some r \<Rightarrow> r | None \<Rightarrow> (case cl_meta_rate s of Some r \<Rightarrow> r | None \<Rightarrow> 22050), cl_chunks s)
          else None)\<rparr>)"

datatype client_exit = ClientUsage | ClientWaiting | ClientTimeout | ClientFailed string | ClientOk client_report

definition client_main ::
  "codecs \<Rightarrow> (byte list \<Rightarrow> string option) \<Rightarrow> client_args \<Rightarrow> byte list option \<Rightarrow> session_id \<Rightarrow> (nat \<times> cli_event) list
     \<Rightarrow> publishes \<times> client_exit" where
  "client_main cd utf8 args pcm sid evs =
     (if pcm = None \<and> ca_text args = None then ([], ClientUsage)
      else (let base = client_base cd args sid in
            case session_loop cd base args pcm evs cli_init of
              (s, out, None) \<Rightarrow> (out, ClientWaiting)
            | (s, out, Some SessionTimedOut) \<Rightarrow> (out, ClientTimeout)
            | (s, out, Some (PublishFailed e)) \<Rightarrow> (out, ClientFailed e)
            | (s, out, Some SessionDone) \<Rightarrow> (out @ [(base @ ''/end'', [])], ClientOk (client_report_of utf8 args pcm s))))"

section \<open>The loop ends\<close>

lemma display_fields [simp]:
  "cl_started (display x s) = cl_started s" "cl_end_sent (display x s) = cl_end_sent s" "cl_chunks (display x s) = cl_chunks s"
  "cl_feed (display x s) = cl_feed s" "cl_meta_rate (display x s) = cl_meta_rate s" "cl_timing (display x s) = cl_timing s"
  by (simp_all add: display_def)

lemma kind_of_topic: "Option.bind (strip_prefix base topic) (strip_prefix ''/'') = Some kind \<longleftrightarrow> topic = base @ ''/'' @ kind"
  by (cases "strip_prefix base topic") auto

lemma client_publish_fields:
  assumes "client_publish cd base ep now topic p s = (s1, fin)"
  shows "cl_chunks s1 = cl_chunks s @ (if topic = base @ ''/tts'' then [p] else []) \<and> (fin \<longleftrightarrow> topic = base @ ''/done'')"
proof (cases "Option.bind (strip_prefix base topic) (strip_prefix ''/'')")
  case None
  then have "topic \<noteq> base @ ''/tts''" "topic \<noteq> base @ ''/done''"
    using kind_of_topic [of base topic "''tts''"] kind_of_topic [of base topic "''done''"] by auto
  then show ?thesis
    using assms None by (auto simp: client_publish_def split: option.splits)
next
  case (Some kind)
  then have topic: "topic = base @ ''/'' @ kind" by (simp only: kind_of_topic)
  note step = assms [unfolded client_publish_def Let_def Some option.case]
  have "cl_chunks s1 = cl_chunks s @ (if kind = ''tts'' then [p] else [])" "fin \<longleftrightarrow> kind = ''done''"
    using step by (auto split: if_splits option.splits)
  then show ?thesis by (simp add: topic)
qed

definition tts_payload_of :: "string \<Rightarrow> cli_event \<Rightarrow> byte list list" where
  "tts_payload_of base ev = (case ev of Net (GotPublish topic p) \<Rightarrow> if topic = base @ ''/tts'' then [p] else [] | _ \<Rightarrow> [])"

lemma session_step_facts:
  assumes "session_step cd base args pcm now ev s = (s1, out, res)"
  shows "cl_chunks s1 = cl_chunks s @ tts_payload_of base ev"
    and "res = Some SessionTimedOut \<Longrightarrow> out = [(base @ ''/end'', [])]"
    and "res = Some SessionDone \<Longrightarrow> \<exists>p. ev = Net (GotPublish (base @ ''/done'') p)"
    and "ev = Net DeadlineHit \<Longrightarrow> res \<noteq> None"
proof -
  have "cl_chunks s1 = cl_chunks s @ tts_payload_of base ev \<and> (res = Some SessionTimedOut \<longrightarrow> out = [(base @ ''/end'', [])])
    \<and> (res = Some SessionDone \<longrightarrow> (\<exists>p. ev = Net (GotPublish (base @ ''/done'') p))) \<and> (ev = Net DeadlineHit \<longrightarrow> res \<noteq> None)"
  proof (cases ev)
    case (Net e)
    show ?thesis
    proof (cases e)
      case (GotPublish topic p)
      obtain s2 fin where c: "client_publish cd base (ca_topic_root args @ ''/events/'') now topic p s = (s2, fin)" by fastforce
      show ?thesis
        using assms client_publish_fields [OF c] Net GotPublish
        by (cases fin) (auto simp: c tts_payload_of_def split: if_splits)
    qed (use assms Net in \<open>auto simp: tts_payload_of_def Let_def split: if_splits option.splits\<close>)
  qed (use assms in \<open>auto simp: tts_payload_of_def split: list.splits\<close>)
  then show "cl_chunks s1 = cl_chunks s @ tts_payload_of base ev"
    "res = Some SessionTimedOut \<Longrightarrow> out = [(base @ ''/end'', [])]"
    "res = Some SessionDone \<Longrightarrow> \<exists>p. ev = Net (GotPublish (base @ ''/done'') p)"
    "ev = Net DeadlineHit \<Longrightarrow> res \<noteq> None" by blast+
qed

text \<open>What a recording becomes: frames of at most 100 ms that put together are the recording, then the empty frame
  that ends the utterance.\<close>

lemma audio_feed_exact:
  "concat (map snd (audio_feed base pcm)) = pcm \<and> snd (last (audio_feed base pcm)) = []
    \<and> list_all (\<lambda>(t, c). t = base @ ''/audio'' \<and> length c \<le> 3200) (audio_feed base pcm)
    \<and> list_all (\<lambda>(t, c). c \<noteq> []) (butlast (audio_feed base pcm))"
  using concat_chunks_of [of audio_chunk_bytes pcm] chunks_of_sizes [of _ audio_chunk_bytes pcm]
  by (auto simp: audio_feed_def audio_chunk_bytes_def comp_def list_all_iff butlast_append)

text \<open>With the deadline among the events the loop ends. What it holds is the audio that arrived; it is done only
  on the runtime's word, and giving up publishes the end.\<close>

lemma session_loop_result:
  assumes "Net DeadlineHit \<in> snd ` set evs"
  shows "\<exists>pre rest s out r. evs = pre @ rest \<and> pre \<noteq> [] \<and> session_loop cd base args pcm evs s0 = (s, out, Some r)
    \<and> cl_chunks s = cl_chunks s0 @ concat (map (tts_payload_of base \<circ> snd) pre)
    \<and> (r = SessionTimedOut \<longrightarrow> out \<noteq> [] \<and> last out = (base @ ''/end'', []))
    \<and> (r = SessionDone \<longrightarrow> (\<exists>p. snd (last pre) = Net (GotPublish (base @ ''/done'') p)))"
  using assms
proof (induction evs arbitrary: s0)
  case (Cons te evs)
  obtain now ev where te: "te = (now, ev)" by fastforce
  obtain s1 out1 res where step: "session_step cd base args pcm now ev s0 = (s1, out1, res)" by (metis prod_cases3)
  note facts = session_step_facts [OF step]
  show ?case
  proof (cases res)
    case (Some r)
    then show ?thesis
      using step facts
      by - (rule exI [of _ "[te]"], rule exI [of _ evs], rule exI [of _ s1], rule exI [of _ out1], rule exI [of _ r], auto simp: te)
  next
    case None
    then have "Net DeadlineHit \<in> snd ` set evs" using Cons.prems facts(4) by (auto simp: te)
    from Cons.IH [OF this, of s1] obtain pre rest s out r where IH: "evs = pre @ rest" "pre \<noteq> []"
      "session_loop cd base args pcm evs s1 = (s, out, Some r)" "cl_chunks s = cl_chunks s1 @ concat (map (tts_payload_of base \<circ> snd) pre)"
      "r = SessionTimedOut \<longrightarrow> out \<noteq> [] \<and> last out = (base @ ''/end'', [])"
      "r = SessionDone \<longrightarrow> (\<exists>p. snd (last pre) = Net (GotPublish (base @ ''/done'') p))" by blast
    then show ?thesis
      using step None facts(1)
      by - (rule exI [of _ "te # pre"], rule exI [of _ rest], rule exI [of _ s], rule exI [of _ "out1 @ out"], rule exI [of _ r], simp add: te comp_def)
  qed
qed simp

section \<open>A recording against the runtime\<close>

text \<open>Events that neither finish the session nor bring it audio to play: what a recording session sees while it is
  still sending.\<close>

definition while_sending :: "string \<Rightarrow> cli_event \<Rightarrow> bool" where
  "while_sending base ev =
     (case ev of
        FeedNext \<Rightarrow> True
      | Net (GotPublish topic _) \<Rightarrow> topic \<noteq> base @ ''/tts'' \<and> topic \<noteq> base @ ''/done''
      | Net DeadlineHit \<Rightarrow> False
      | _ \<Rightarrow> True)"

lemma client_publish_keeps:
  "client_publish cd base ep now topic p s = (s1, fin) \<Longrightarrow> cl_feed s1 = cl_feed s \<and> cl_started s1 = cl_started s"
  by (auto simp: client_publish_def Let_def split: option.splits if_splits)

lemma session_loop_feeds:
  assumes "list_all (\<lambda>(_, ev). while_sending base ev) evs" "cl_started s0" "cl_chunks s0 = []"
  shows "\<exists>s. session_loop cd base args pcm evs s0
      = (s, take (length (filter (\<lambda>te. snd te = FeedNext) evs)) (cl_feed s0), None)"
  using assms
proof (induction evs arbitrary: s0)
  case (Cons te evs)
  obtain now ev where te: "te = (now, ev)" by fastforce
  let ?k = "\<lambda>evs. length (filter (\<lambda>te. snd te = FeedNext) evs)"
  obtain s1 out res where step: "session_step cd base args pcm now ev s0 = (s1, out, res)" by (metis prod_cases3)
  have ok: "res = None \<and> cl_started s1 \<and> cl_chunks s1 = [] \<and> out = take (?k [te]) (cl_feed s0) \<and> cl_feed s1 = drop (?k [te]) (cl_feed s0)"
  proof (cases ev)
    case (Net e)
    show ?thesis
    proof (cases e)
      case (GotPublish topic p)
      obtain s2 fin where c: "client_publish cd base (ca_topic_root args @ ''/events/'') now topic p s0 = (s2, fin)" by fastforce
      show ?thesis
        using step Cons.prems client_publish_fields [OF c] client_publish_keeps [OF c] Net GotPublish
        by (auto simp: c te while_sending_def)
    qed (use step Cons.prems Net in \<open>auto simp: te while_sending_def\<close>)
  next
    case FeedNext
    then show ?thesis using step Cons.prems by (cases "cl_feed s0") (auto simp: te)
  qed
  have "list_all (\<lambda>(_, ev). while_sending base ev) evs" using Cons.prems(1) by simp
  then obtain s where "session_loop cd base args pcm evs s1 = (s, take (?k evs) (cl_feed s1), None)"
    using Cons.IH [of s1] ok by blast
  moreover have "?k (te # evs) = ?k [te] + ?k evs" by simp
  ultimately show ?case using step ok by (auto simp: te take_add simp del: filter.simps)
qed simp

lemma deliver_publishes_audio:
  "deliver_publishes cd troot now (map (\<lambda>f. (topic, f)) fs) w = deliver cd troot now (map (Publish topic) fs) w"
  by (induction fs arbitrary: w) (simp_all add: deliver_publishes_def deliver_def)


definition demo_args :: client_args where
  "demo_args = \<lparr>ca_satellite = ''phone'', ca_topic_root = ''assist'', ca_locale = ''en'', ca_text = None, ca_rate = None,
     ca_speak = False, ca_play = True, ca_timing = False\<rparr>"


end
