(* ===== verification/Fakes.thy ===== *)
theory Fakes
  imports Client
begin

text \<open>
  The providers the server falls back to without workers (\<open>crates/athena-voice-providers/src/testing\<close>), the
  providers' error kinds (\<open>error.rs\<close>) and the locale packs (\<open>crates/athena-voice-runtime/src/locale.rs\<close>), whose
  file reading and TOML parsing are parameters. Streams are lists of their items.
\<close>

section \<open>Fake speech\<close>

definition fake_tts :: "string \<Rightarrow> audio_format \<times> u32 \<times> byte list list" where
  "fake_tts text = (TextFormat, 0, map bytes_of (split_whitespace text))"

record fake_stt =
  fs_preset :: "(session_id \<times> transcript list) list"
  fs_default :: "transcript list"

definition fake_stt_builder :: fake_stt where
  "fake_stt_builder = \<lparr>fs_preset = [], fs_default = []\<rparr>"

definition stt_preset :: "session_id \<Rightarrow> transcript list \<Rightarrow> fake_stt \<Rightarrow> fake_stt" where
  "stt_preset sid ts f = f\<lparr>fs_preset := AList.update sid ts (fs_preset f)\<rparr>"

definition stt_default_transcripts :: "transcript list \<Rightarrow> fake_stt \<Rightarrow> fake_stt" where
  "stt_default_transcripts ts f = f\<lparr>fs_default := ts\<rparr>"

definition fake_transcribe :: "fake_stt \<Rightarrow> session_id \<Rightarrow> transcript list" where
  "fake_transcribe f sid = (case map_of (fs_preset f) sid of Some ts \<Rightarrow> ts | None \<Rightarrow> fs_default f)"

section \<open>Fake completions\<close>

type_synonym fake_llm = "(string \<times> string) list"

definition llm_rule :: "string \<Rightarrow> string \<Rightarrow> fake_llm \<Rightarrow> fake_llm" where
  "llm_rule sub response rs = rs @ [(sub, response)]"

definition fallback :: "locale_id \<Rightarrow> string" where
  "fallback loc = (if prefix ''fr'' loc then ''je ne sais pas'' else ''i don'' @ [CHR 0x27] @ ''t know'')"

text \<open>\<open>split_inclusive\<close> leaves no empty last piece.\<close>

function split_inclusive :: "char \<Rightarrow> string \<Rightarrow> string list" where
  "split_inclusive c s =
     (if s = [] then []
      else if c \<in> set s
        then (takeWhile (\<lambda>x. x \<noteq> c) s @ [c]) # split_inclusive c (tl (dropWhile (\<lambda>x. x \<noteq> c) s))
        else [s])"
  by pat_completeness auto
termination
proof (relation "measure (length \<circ> snd)")
  fix c :: char and s :: string
  assume "c \<in> set s"
  then have "dropWhile (\<lambda>x. x \<noteq> c) s \<noteq> []" by (auto simp: dropWhile_eq_Nil_conv)
  then show "((c, tl (dropWhile (\<lambda>x. x \<noteq> c) s)), c, s) \<in> measure (length \<circ> snd)"
    using length_dropWhile_le [of "\<lambda>x. x \<noteq> c" s] by (cases "dropWhile (\<lambda>x. x \<noteq> c) s") auto
qed simp

declare split_inclusive.simps [simp del]

definition fake_complete :: "fake_llm \<Rightarrow> locale_id \<Rightarrow> string \<Rightarrow> string list" where
  "fake_complete rs loc prompt =
     split_inclusive (CHR '' '')
       (case find (\<lambda>(sub, _). find_str sub prompt \<noteq> None) rs of None \<Rightarrow> fallback loc | Some (_, r) \<Rightarrow> r)"

text \<open>The tokens put together are the response, spaces included.\<close>

lemma fake_complete_concat:
  "concat (fake_complete rs loc prompt)
     = (case find (\<lambda>(sub, _). find_str sub prompt \<noteq> None) rs of None \<Rightarrow> fallback loc | Some (_, r) \<Rightarrow> r)"
proof -
  have "concat (split_inclusive c s) = s" for c s
  proof (induction c s rule: split_inclusive.induct)
    case (1 c s)
    have "c \<in> set s \<Longrightarrow> [c] @ tl (dropWhile (\<lambda>x. x \<noteq> c) s) = dropWhile (\<lambda>x. x \<noteq> c) s"
      using hd_dropWhile [of "\<lambda>x. x \<noteq> c" s] by (cases "dropWhile (\<lambda>x. x \<noteq> c) s") (auto simp: dropWhile_eq_Nil_conv)
    then show ?case using 1 by (subst split_inclusive.simps) (auto simp: takeWhile_dropWhile_id)
  qed
  then show ?thesis by (simp add: fake_complete_def)
qed

text \<open>What the command line client prints for a fake answer is its words with single spaces, when its bytes decode.\<close>

lemma fake_speech_printed:
  assumes "\<And>w. w \<in> set (split_whitespace text) \<Longrightarrow> utf8 (bytes_of w) = Some w"
  shows "print_speech utf8 (snd (snd (fake_tts text)))
     = (if split_whitespace text = [] then None else Some (join '' '' (split_whitespace text)))"
proof -
  have "map (the \<circ> utf8) (map bytes_of (split_whitespace text)) = split_whitespace text"
    using assms by (simp add: map_idI)
  moreover have "None \<notin> set (map utf8 (map bytes_of (split_whitespace text)))" using assms by force
  ultimately show ?thesis by (simp add: print_speech_def fake_tts_def)
qed

section \<open>Provider errors\<close>

datatype stt_error = SttTimeout string u64 | SttUnavailable string string | SttBadAudio string | SttCircuitOpen u64 | SttCancelled
datatype llm_error = LlmTimeout string u64 | LlmUnavailable string string | LlmCircuitOpen u64 | LlmCancelled
datatype tts_error = TtsTimeout string u64 | TtsUnavailable string string | TtsBadAudio string | TtsCircuitOpen u64 | TtsCancelled

fun stt_is_retryable :: "stt_error \<Rightarrow> bool" where
  "stt_is_retryable (SttTimeout _ _) = True"
| "stt_is_retryable (SttUnavailable _ _) = True"
| "stt_is_retryable _ = False"

definition llm_is_retryable :: "llm_error \<Rightarrow> bool" where
  "llm_is_retryable e = False"

fun tts_is_retryable :: "tts_error \<Rightarrow> bool" where
  "tts_is_retryable (TtsTimeout _ _) = True"
| "tts_is_retryable (TtsUnavailable _ _) = True"
| "tts_is_retryable _ = False"

fun_cases stt_retryableE: "stt_is_retryable e" and tts_retryableE: "tts_is_retryable e"

text \<open>What may be tried again is a time-out or an absent provider.\<close>

lemma retryable_variants:
  "stt_is_retryable e \<Longrightarrow> (\<exists>n ms. e = SttTimeout n ms) \<or> (\<exists>n r. e = SttUnavailable n r)"
  "tts_is_retryable e' \<Longrightarrow> (\<exists>n ms. e' = TtsTimeout n ms) \<or> (\<exists>n r. e' = TtsUnavailable n r)"
  by (auto elim: stt_retryableE tts_retryableE)

fun stt_variant_name :: "stt_error \<Rightarrow> string" where
  "stt_variant_name (SttTimeout _ _) = ''Timeout''"
| "stt_variant_name (SttUnavailable _ _) = ''Unavailable''"
| "stt_variant_name (SttBadAudio _) = ''BadAudio''"
| "stt_variant_name (SttCircuitOpen _) = ''CircuitOpen''"
| "stt_variant_name SttCancelled = ''Cancelled''"

fun llm_variant_name :: "llm_error \<Rightarrow> string" where
  "llm_variant_name (LlmTimeout _ _) = ''Timeout''"
| "llm_variant_name (LlmUnavailable _ _) = ''Unavailable''"
| "llm_variant_name (LlmCircuitOpen _) = ''CircuitOpen''"
| "llm_variant_name LlmCancelled = ''Cancelled''"

fun tts_variant_name :: "tts_error \<Rightarrow> string" where
  "tts_variant_name (TtsTimeout _ _) = ''Timeout''"
| "tts_variant_name (TtsUnavailable _ _) = ''Unavailable''"
| "tts_variant_name (TtsBadAudio _) = ''BadAudio''"
| "tts_variant_name (TtsCircuitOpen _) = ''CircuitOpen''"
| "tts_variant_name TtsCancelled = ''Cancelled''"

section \<open>Locale packs\<close>

record locale_pack =
  lp_locale :: locale_id
  lp_system_prompt :: string
  lp_error_phrases :: "(string \<times> string) list"

definition required_phrases :: "string list" where
  "required_phrases = [''stt_unavailable'', ''llm_unavailable'', ''tts_unavailable'', ''overloaded'']"

definition load_pack :: "(string \<Rightarrow> string + string) \<Rightarrow> (string \<Rightarrow> string + locale_pack) \<Rightarrow> string \<Rightarrow> string + locale_pack" where
  "load_pack read parse path =
     (case read path of
        Inl e \<Rightarrow> Inl (''read '' @ path @ '': '' @ e)
      | Inr contents \<Rightarrow>
          (case parse contents of
             Inl e \<Rightarrow> Inl (''parse '' @ path @ '': '' @ e)
           | Inr pack \<Rightarrow>
               if lp_system_prompt pack = [] then Inl (path @ '': llm_system_prompt must not be empty'')
               else (case find (\<lambda>k. map_of (lp_error_phrases pack) k = None) required_phrases of
                   Some k \<Rightarrow> Inl (path @ '': missing required error_phrases.'' @ k)
                 | None \<Rightarrow> Inr pack)))"

lemma loaded_pack_complete:
  assumes "load_pack read parse path = Inr pack"
  shows "lp_system_prompt pack \<noteq> [] \<and> set required_phrases \<subseteq> dom (map_of (lp_error_phrases pack))"
  using assms by (auto simp: load_pack_def find_None_iff split: sum.splits option.splits if_splits)

end
