(* ===== verification/Local_Server.thy ===== *)
theory Local_Server
  imports Core_Types Mic
begin

unbundle bit_operations_syntax

text \<open>
  The Unix-socket server (\<open>crates/athena-voice-server\<close>) and the energy detector it uses (\<open>crates/webrtcvad\<close>):
  the frame codec and its reading of a byte stream, the voice segments of an audio frame, the metrics, the audio
  and the event handler. Hotword detection and recognition are the constants the code has in their place. The
  durations the metrics add up are the machine's and come as a list. The sockets themselves, the Piper model and
  the resampler over floats are not modelled.
\<close>

section \<open>The socket codec\<close>

datatype op = OpAudio | OpTranscript

definition header_byte :: byte where "header_byte = 0xAE"

fun op_code :: "op \<Rightarrow> byte" where
  "op_code OpAudio = 1"
| "op_code OpTranscript = 2"

datatype socket_error = InvalidHeader byte | InvalidOp byte | BytesRemaining | UnexpectedTranscript

definition op_try_from :: "byte \<Rightarrow> socket_error + op" where
  "op_try_from b = (if b = 1 then Inr OpAudio else if b = 2 then Inr OpTranscript else Inl (InvalidOp b))"

type_synonym frame = "op \<times> byte list"

definition be_bytes16 :: "16 word \<Rightarrow> byte list" where
  "be_bytes16 w = [ucast (drop_bit 8 w), ucast w]"

definition from_be16 :: "byte \<Rightarrow> byte \<Rightarrow> 16 word" where
  "from_be16 a b = push_bit 8 (ucast a) OR ucast b"

definition socket_decode :: "byte list \<Rightarrow> socket_error + (frame option \<times> byte list)" where
  "socket_decode src =
     (if length src < 4 then Inr (None, src)
      else if src ! 0 \<noteq> header_byte then Inl (InvalidHeader (src ! 0))
      else case op_try_from (src ! 1) of
          Inl e \<Rightarrow> Inl e
        | Inr o1 \<Rightarrow>
            (let len = unat (from_be16 (src ! 2) (src ! 3)) in
             if length src < 4 + len then Inr (None, src)
             else Inr (Some (o1, take len (drop 4 src)), drop len (drop 4 src))))"

definition socket_encode :: "frame \<Rightarrow> byte list \<Rightarrow> byte list" where
  "socket_encode f dst =
     (case f of (o1, payload) \<Rightarrow> dst @ [header_byte, op_code o1] @ be_bytes16 (of_nat (length payload)) @ payload)"

definition msg_to_frame :: "frame \<Rightarrow> byte list" where
  "msg_to_frame f =
     (case f of (o1, payload) \<Rightarrow> [header_byte, op_code o1] @ be_bytes16 (of_nat (length payload)) @ payload)"

text \<open>The codec under \<open>Framed\<close>: after each read every complete frame is taken off the buffer; an error ends the
  stream, and so do bytes left at the end of the connection.\<close>

lemma socket_decode_shorter: "socket_decode src = Inr (Some f, left) \<Longrightarrow> length left < length src"
  by (auto simp: socket_decode_def Let_def split: if_splits sum.splits)

function drain_frames :: "byte list \<Rightarrow> frame list \<times> (socket_error + byte list)" where
  "drain_frames b =
     (case socket_decode b of
        Inl e \<Rightarrow> ([], Inl e)
      | Inr (None, left) \<Rightarrow> ([], Inr left)
      | Inr (Some f, left) \<Rightarrow> (let (fs, r) = drain_frames left in (f # fs, r)))"
  by pat_completeness auto
termination
  by (relation "measure length") (auto simp: socket_decode_shorter)

declare drain_frames.simps [simp del]

fun framed_read :: "byte list \<Rightarrow> byte list list \<Rightarrow> (socket_error + frame) list" where
  "framed_read b [] = (if b = [] then [] else [Inl BytesRemaining])"
| "framed_read b (c # cs) =
     (case drain_frames (b @ c) of
        (fs, Inl e) \<Rightarrow> map Inr fs @ [Inl e]
      | (fs, Inr left) \<Rightarrow> map Inr fs @ framed_read left cs)"

section \<open>Metrics\<close>

record metrics =
  vad_invocations :: u64
  vad_duration_ns :: u64
  hotword_invocations :: u64
  hotword_duration_ns :: u64
  asr_invocations :: u64
  asr_duration_ns :: u64
  tts_invocations :: u64
  tts_duration_ns :: u64
  hotword_detections :: u64
  asr_successes :: u64
  tts_successes :: u64

definition metrics_default :: metrics where
  "metrics_default = \<lparr>vad_invocations = 0, vad_duration_ns = 0, hotword_invocations = 0, hotword_duration_ns = 0,
     asr_invocations = 0, asr_duration_ns = 0, tts_invocations = 0, tts_duration_ns = 0, hotword_detections = 0,
     asr_successes = 0, tts_successes = 0\<rparr>"

text \<open>The server owns one set of metrics; the recording functions write to another, the global one. The clock
  yields the duration of each measurement in turn.\<close>

record local_server =
  ls_metrics :: metrics
  ls_global :: metrics
  ls_elapsed :: "u64 list"

definition next_elapsed :: "local_server \<Rightarrow> u64 \<times> local_server" where
  "next_elapsed s = (case ls_elapsed s of [] \<Rightarrow> (0, s) | ns # rest \<Rightarrow> (ns, s\<lparr>ls_elapsed := rest\<rparr>))"

definition record_vad :: "local_server \<Rightarrow> local_server" where
  "record_vad s0 =
     (let (ns, s) = next_elapsed s0; m = ls_global s in
      s\<lparr>ls_global := m\<lparr>vad_invocations := vad_invocations m + 1, vad_duration_ns := vad_duration_ns m + ns\<rparr>\<rparr>)"

definition record_hotword :: "bool \<Rightarrow> local_server \<Rightarrow> local_server" where
  "record_hotword detected s0 =
     (let (ns, s) = next_elapsed s0;
          m = (ls_global s)\<lparr>hotword_invocations := hotword_invocations (ls_global s) + 1,
                            hotword_duration_ns := hotword_duration_ns (ls_global s) + ns\<rparr> in
      s\<lparr>ls_global := if detected then m\<lparr>hotword_detections := hotword_detections m + 1\<rparr> else m\<rparr>)"

definition record_asr :: "bool \<Rightarrow> local_server \<Rightarrow> local_server" where
  "record_asr success s0 =
     (let (ns, s) = next_elapsed s0;
          m = (ls_global s)\<lparr>asr_invocations := asr_invocations (ls_global s) + 1,
                            asr_duration_ns := asr_duration_ns (ls_global s) + ns\<rparr> in
      s\<lparr>ls_global := if success then m\<lparr>asr_successes := asr_successes m + 1\<rparr> else m\<rparr>)"

definition record_tts :: "bool \<Rightarrow> local_server \<Rightarrow> local_server" where
  "record_tts success s0 =
     (let (ns, s) = next_elapsed s0;
          m = (ls_global s)\<lparr>tts_invocations := tts_invocations (ls_global s) + 1,
                            tts_duration_ns := tts_duration_ns (ls_global s) + ns\<rparr> in
      s\<lparr>ls_global := if success then m\<lparr>tts_successes := tts_successes m + 1\<rparr> else m\<rparr>)"

section \<open>Voice activity\<close>

definition is_voice_segment :: "i16 list \<Rightarrow> bool" where
  "is_voice_segment fr =
     (fr \<noteq> [] \<and> sum_list (map (\<lambda>s. \<bar>sint s\<bar>) fr) div int (length fr) > 300)"

record vad_detector =
  vd_sample_rate :: u32
  vd_frame_ms :: u32

definition vad_new :: "byte \<Rightarrow> vad_detector" where
  "vad_new aggressiveness = \<lparr>vd_sample_rate = 48000, vd_frame_ms = 10\<rparr>"

definition vad_frame_len :: "vad_detector \<Rightarrow> nat" where
  "vad_frame_len v = unat (vd_sample_rate v div 1000 * vd_frame_ms v)"

definition vad_process :: "vad_detector \<Rightarrow> i16 list \<Rightarrow> local_server \<Rightarrow> bool \<times> local_server" where
  "vad_process v audio s =
     (if length audio < vad_frame_len v then (False, record_vad s)
      else (is_voice_segment (take (vad_frame_len v) audio), record_vad s))"

fun le_samples :: "byte list \<Rightarrow> i16 list" where
  "le_samples (a # b # bs) = (push_bit 8 (ucast b) OR ucast a) # le_samples bs"
| "le_samples _ = []"

text \<open>The loop over the cursor, as the frames it visits and one step for each; a tail shorter than a frame is
  left out. Every detector's frame is 960 bytes long.\<close>

function vad_frames :: "nat \<Rightarrow> byte list \<Rightarrow> byte list list" where
  "vad_frames n audio = (if n = 0 \<or> length audio < n then [] else take n audio # vad_frames n (drop n audio))"
  by pat_completeness auto
termination
  by (relation "measure (length \<circ> snd)") auto

declare vad_frames.simps [simp del]

definition segment_step ::
  "vad_detector \<Rightarrow> byte list \<Rightarrow> byte list list \<times> local_server \<Rightarrow> byte list list \<times> local_server" where
  "segment_step v fr acc =
     (case vad_process v (le_samples fr) (snd acc) of
        (True, s) \<Rightarrow> (if fst acc = [] then [fr] else butlast (fst acc) @ [last (fst acc) @ fr], s)
      | (False, s) \<Rightarrow> (fst acc, s))"

definition split_voice_segments :: "vad_detector \<Rightarrow> byte list \<Rightarrow> local_server \<Rightarrow> byte list list \<times> local_server" where
  "split_voice_segments v audio s = fold (segment_step v) (vad_frames (vad_frame_len v * 2) audio) ([], s)"

section \<open>The audio and the event handler\<close>

definition hotword_detect :: "i16 list \<Rightarrow> bool" where
  "hotword_detect samples = True"

definition transcribe_stub :: "i16 list \<Rightarrow> string + string" where
  "transcribe_stub samples = Inr (''Ath'' @ [CHR 0xC3, CHR 0xA9] @ ''na detected'')"

definition handle_segment :: "byte list \<Rightarrow> local_server \<Rightarrow> local_server" where
  "handle_segment segment s =
     (let samples = le_samples segment in
      if hotword_detect samples
      then (let s1 = record_hotword True s in
            case transcribe_stub samples of Inr _ \<Rightarrow> record_asr True s1 | Inl _ \<Rightarrow> record_asr False s1)
      else record_hotword False s)"

fun handle_audio_stream ::
  "vad_detector \<Rightarrow> (socket_error + frame) list \<Rightarrow> local_server \<Rightarrow> (socket_error + unit) \<times> local_server" where
  "handle_audio_stream v [] s = (Inr (), s)"
| "handle_audio_stream v (Inl e # rest) s = (Inl e, s)"
| "handle_audio_stream v (Inr (OpTranscript, p) # rest) s = (Inl UnexpectedTranscript, s)"
| "handle_audio_stream v (Inr (OpAudio, p) # rest) s =
     (case split_voice_segments v p s of
        (segs, s1) \<Rightarrow> handle_audio_stream v rest (fold handle_segment segs s1))"

definition average_ns :: "u64 \<Rightarrow> u64 \<Rightarrow> u64" where
  "average_ns total_ns n = total_ns div max n 1"

definition jword :: "u64 \<Rightarrow> json" where
  "jword w = JNum (PosInt w)"

definition metrics_json :: "metrics \<Rightarrow> json" where
  "metrics_json m = JObj
     [(''vad'', JObj [(''invocations'', jword (vad_invocations m)),
                      (''avg_duration_ns'', jword (average_ns (vad_duration_ns m) (vad_invocations m)))]),
      (''hotword'', JObj [(''invocations'', jword (hotword_invocations m)),
                      (''avg_duration_ns'', jword (average_ns (hotword_duration_ns m) (hotword_invocations m))),
                      (''detections'', jword (hotword_detections m))]),
      (''asr'', JObj [(''invocations'', jword (asr_invocations m)),
                      (''avg_duration_ns'', jword (average_ns (asr_duration_ns m) (asr_invocations m))),
                      (''successes'', jword (asr_successes m))]),
      (''tts'', JObj [(''invocations'', jword (tts_invocations m)),
                      (''avg_duration_ns'', jword (average_ns (tts_duration_ns m) (tts_invocations m))),
                      (''successes'', jword (tts_successes m))])]"

definition event_frame :: "(json \<Rightarrow> byte list) \<Rightarrow> local_server \<Rightarrow> byte list" where
  "event_frame encode s = msg_to_frame (OpTranscript, encode (metrics_json (ls_metrics s)))"

section \<open>Frames across the socket\<close>

lemma from_be16_be_bytes16 [simp]: "from_be16 (ucast (drop_bit 8 w)) (ucast w) = w"
  unfolding from_be16_def by (rule bit_eqI) (auto simp: bit_simps not_less dest: bit_imp_le_length)

instantiation op :: enum
begin

definition enum_op :: "op list" where "enum_op = [OpAudio, OpTranscript]"
definition enum_all_op :: "(op \<Rightarrow> bool) \<Rightarrow> bool" where "enum_all_op P \<longleftrightarrow> P OpAudio \<and> P OpTranscript"
definition enum_ex_op :: "(op \<Rightarrow> bool) \<Rightarrow> bool" where "enum_ex_op P \<longleftrightarrow> P OpAudio \<or> P OpTranscript"

instance
proof
  have all: "o1 = OpAudio \<or> o1 = OpTranscript" for o1 by (cases o1) simp_all
  show "(UNIV :: op set) = set enum_class.enum" using all by (auto simp: enum_op_def)
  show "distinct (enum_class.enum :: op list)" by (simp add: enum_op_def)
  show "enum_class.enum_all P \<longleftrightarrow> Ball UNIV P" for P :: "op \<Rightarrow> bool" using all by (metis enum_all_op_def UNIV_I)
  show "enum_class.enum_ex P \<longleftrightarrow> Bex UNIV P" for P :: "op \<Rightarrow> bool" using all by (metis enum_ex_op_def UNIV_I)
qed

end

lemma op_codes: "\<forall>o1. op_try_from (op_code o1) = Inr o1"
  by code_simp

lemmas op_code_try_from [simp] = op_codes [rule_format]

lemma socket_decode_header:
  assumes "unat w \<le> length rest"
  shows "socket_decode ([header_byte, op_code o1] @ be_bytes16 w @ rest) = Inr (Some (o1, take (unat w) rest), drop (unat w) rest)"
  using assms by (simp add: socket_decode_def be_bytes16_def Let_def)

lemma socket_decode_encode:
  "socket_decode (msg_to_frame (o1, p) @ b)
     = Inr (Some (o1, take (length p mod 65536) (p @ b)), drop (length p mod 65536) (p @ b))"
proof -
  have n: "unat (of_nat (length p) :: 16 word) = length p mod 65536" by (simp add: unsigned_of_nat take_bit_eq_mod)
  then have "unat (of_nat (length p) :: 16 word) \<le> length (p @ b)"
    by (metis mod_less_eq_dividend length_append trans_le_add1)
  from socket_decode_header [OF this, of o1] show ?thesis by (simp only: n msg_to_frame_def prod.case append_assoc)
qed

lemma socket_encode_msg: "socket_encode f dst = dst @ msg_to_frame f"
  by (cases f) (simp add: socket_encode_def msg_to_frame_def)

text \<open>Further bytes do not change what was decoded.\<close>

lemma socket_decode_append:
  "socket_decode a = Inl e \<Longrightarrow> socket_decode (a @ c) = Inl e"
  "socket_decode a = Inr (Some f, left) \<Longrightarrow> socket_decode (a @ c) = Inr (Some f, left @ c)"
  "socket_decode a = Inr (None, left) \<Longrightarrow> left = a"
  by (auto simp: socket_decode_def Let_def nth_append split: if_splits sum.splits)

lemma drain_frames_append:
  "drain_frames (a @ c) =
     (case drain_frames a of
        (fs, Inl e) \<Rightarrow> (fs, Inl e)
      | (fs, Inr left) \<Rightarrow> (case drain_frames (left @ c) of (gs, r) \<Rightarrow> (fs @ gs, r)))"
proof (induction a rule: drain_frames.induct)
  case (1 a)
  show ?case
  proof (cases "socket_decode a")
    case (Inl e)
    then show ?thesis using socket_decode_append(1) [OF Inl, of c] by (simp add: drain_frames.simps [of a] drain_frames.simps [of "a @ c"])
  next
    case (Inr r)
    obtain fo left where r: "r = (fo, left)" by fastforce
    show ?thesis
    proof (cases fo)
      case None
      then show ?thesis using Inr r socket_decode_append(3) [of a left]
        by (simp add: drain_frames.simps [of a] split: prod.splits)
    next
      case (Some f)
      have d: "socket_decode a = Inr (Some f, left)" using Inr r Some by simp
      show ?thesis
        using "1.IH" [of _ fo left f] d socket_decode_append(2) [OF d, of c] Inr r Some
        by (simp add: drain_frames.simps [of a] drain_frames.simps [of "a @ c"] split: prod.splits sum.splits)
    qed
  qed
qed

lemma drain_frames_idle: "drain_frames a = (fs, Inr left) \<Longrightarrow> drain_frames left = ([], Inr left)"
proof (induction a arbitrary: fs rule: drain_frames.induct)
  case (1 a)
  show ?case
  proof (cases "socket_decode a")
    case (Inr r)
    obtain fo b where r: "r = (fo, b)" by fastforce
    show ?thesis
    proof (cases fo)
      case None
      then have "socket_decode a = Inr (None, a)" "left = a"
        using Inr r socket_decode_append(3) [of a b] "1.prems" by (simp_all add: drain_frames.simps [of a])
      then show ?thesis by (simp add: drain_frames.simps [of a])
    next
      case (Some f)
      obtain gs q where q: "drain_frames b = (gs, q)" by fastforce
      then have "q = Inr left" using "1.prems" Inr r Some by (simp add: drain_frames.simps [of a])
      then show ?thesis using "1.IH" [of r fo b f gs] Inr r Some q by simp
    qed
  qed (use "1.prems" in \<open>simp add: drain_frames.simps [of a]\<close>)
qed

text \<open>The interface of a decoder that takes complete items off a buffer: draining in two goes is draining at once,
  and what is left holds no complete item. Then the reads' boundaries do not matter.\<close>

locale incremental_decoder =
  fixes drain :: "'b list \<Rightarrow> 'i list \<times> ('e + 'b list)"
  assumes drain_append: "drain (a @ c) =
      (case drain a of
         (xs, Inl e) \<Rightarrow> (xs, Inl e)
       | (xs, Inr left) \<Rightarrow> (case drain (left @ c) of (ys, r) \<Rightarrow> (xs @ ys, r)))"
    and drain_idle: "drain a = (xs, Inr left) \<Longrightarrow> drain left = ([], Inr left)"
begin

fun drain_reads :: "'b list \<Rightarrow> 'b list list \<Rightarrow> 'i list \<times> ('e + 'b list)" where
  "drain_reads b [] = ([], Inr b)"
| "drain_reads b (c # cs) =
     (case drain (b @ c) of
        (xs, Inl e) \<Rightarrow> (xs, Inl e)
      | (xs, Inr left) \<Rightarrow> (case drain_reads left cs of (ys, r) \<Rightarrow> (xs @ ys, r)))"

lemma drain_reads_join: "drain b = ([], Inr b) \<Longrightarrow> drain_reads b cs = drain (b @ concat cs)"
proof (induction cs arbitrary: b)
  case (Cons c cs)
  obtain xs r where d: "drain (b @ c) = (xs, r)" by fastforce
  show ?case
    using d drain_append [of "b @ c" "concat cs"] drain_idle [of "b @ c" xs] Cons.IH
    by (cases r) (auto split: prod.splits sum.splits)
qed simp

end

interpretation fr: incremental_decoder drain_frames
  by unfold_locales (rule drain_frames_append, rule drain_frames_idle)

text \<open>What the connection's end adds to the items read.\<close>

definition stream_items :: "frame list \<times> (socket_error + byte list) \<Rightarrow> (socket_error + frame) list" where
  "stream_items r =
     (case r of
        (fs, Inl e) \<Rightarrow> map Inr fs @ [Inl e]
      | (fs, Inr left) \<Rightarrow> map Inr fs @ (if left = [] then [] else [Inl BytesRemaining]))"

lemma framed_read_items: "framed_read b cs = stream_items (fr.drain_reads b cs)"
  by (induction cs arbitrary: b) (auto simp: stream_items_def split: prod.splits sum.splits)

lemma framed_read_join: "drain_frames b = ([], Inr b) \<Longrightarrow> framed_read b cs = stream_items (drain_frames (b @ concat cs))"
  by (simp add: framed_read_items fr.drain_reads_join)

lemma drain_frames_encoded:
  assumes "list_all (\<lambda>f. length (snd f) < 2 ^ 16) fs"
  shows "drain_frames (concat (map msg_to_frame fs)) = (fs, Inr [])"
  using assms
proof (induction fs)
  case Nil
  then show ?case by (simp add: drain_frames.simps socket_decode_def)
next
  case (Cons f fs)
  then show ?case
    by (cases f) (simp add: drain_frames.simps [of "msg_to_frame _ @ _"] socket_decode_encode)
qed

text \<open>However the connection cuts the bytes up, the frames written to it come out, each with its operation
  and payload, in order and nothing else, as long as no payload is longer than the length field can say.\<close>

theorem frames_cross_socket:
  assumes "list_all (\<lambda>f. length (snd f) < 2 ^ 16) fs" "concat reads = fold socket_encode fs []"
  shows "framed_read [] reads = map Inr fs"
proof -
  have "fold socket_encode fs dst = dst @ concat (map msg_to_frame fs)" for dst
    by (induction fs arbitrary: dst) (simp_all add: socket_encode_msg)
  then have "concat reads = concat (map msg_to_frame fs)" using assms(2) by simp
  then show ?thesis
    using framed_read_join [of "[]" reads] drain_frames_encoded [OF assms(1)] drain_frames_encoded [of "[]"]
    by (simp add: stream_items_def)
qed

theorem frames_cross_socket_witness:
  "framed_read [] [[0xAE, 1, 0], [3, 7, 8], [9, 0xAE, 2, 0, 0]] = [Inr (OpAudio, [7, 8, 9]), Inr (OpTranscript, [])]"
  using frames_cross_socket [of "[(OpAudio, [7, 8, 9]), (OpTranscript, [])]" "[[0xAE, 1, 0], [3, 7, 8], [9, 0xAE, 2, 0, 0]]"]
  by (simp add: socket_encode_def be_bytes16_def header_byte_def)

text \<open>A payload of 65536 bytes is announced as empty: the reader takes its bytes for the next frames.\<close>

lemma oversized_payload_desync:
  assumes "length p = 2 ^ 16" "p ! 0 \<noteq> header_byte"
  shows "framed_read [] [socket_encode (o1, p) []] = [Inr (o1, []), Inl (InvalidHeader (p ! 0))]"
  using assms socket_decode_encode [of o1 p "[]"]
  by (simp add: socket_encode_msg drain_frames.simps [of "msg_to_frame _"] drain_frames.simps [of p] socket_decode_def [of p])

section \<open>Voice segments\<close>

lemma fold_segment_step:
  assumes "fst acc = (if b = [] then [] else [b])" "list_all (\<lambda>fr. fr \<noteq> []) frs"
  shows "fst (fold (segment_step v) frs acc)
    = (let voiced = b @ concat (filter (\<lambda>fr. fst (vad_process v (le_samples fr) s0)) frs) in if voiced = [] then [] else [voiced])"
  using assms
proof (induction frs arbitrary: acc b)
  case (Cons fr frs)
  have same: "fst (vad_process v (le_samples fr) s) = fst (vad_process v (le_samples fr) s')" for s s'
    by (simp add: vad_process_def)
  let ?on = "fst (vad_process v (le_samples fr) s0)"
  let ?b = "if ?on then b @ fr else b"
  have "fst (segment_step v fr acc) = (if ?b = [] then [] else [?b])"
    using same [of "snd acc" s0] Cons.prems by (auto simp: segment_step_def split: prod.splits bool.splits)
  from Cons.IH [OF this] Cons.prems(2) show ?case by simp
qed simp

lemma vad_frames_nonempty: "0 < n \<Longrightarrow> list_all (\<lambda>fr. fr \<noteq> []) (vad_frames n audio)"
proof (induction n audio rule: vad_frames.induct)
  case (1 n audio)
  then show ?case by (subst vad_frames.simps) auto
qed

text \<open>All the voiced frames of a payload end up in one segment, however many silences lie between them.\<close>

lemma voice_segments_merge:
  "fst (split_voice_segments (vad_new a) audio s)
     = (let voiced = concat (filter (\<lambda>fr. is_voice_segment (take 480 (le_samples fr)) \<and> 480 \<le> length (le_samples fr)) (vad_frames 960 audio))
        in if voiced = [] then [] else [voiced])"
proof -
  have n: "vad_frame_len (vad_new a) = 480" by (simp add: vad_frame_len_def vad_new_def)
  have "fst (vad_process (vad_new a) (le_samples fr) s) = (is_voice_segment (take 480 (le_samples fr)) \<and> 480 \<le> length (le_samples fr))" for fr
    by (auto simp: vad_process_def n)
  then show ?thesis
    using fold_segment_step [of "([], s)" "[]" "vad_frames 960 audio" "vad_new a" s] vad_frames_nonempty [of 960 audio]
    by (simp add: split_voice_segments_def n)
qed

section \<open>What the event socket reports\<close>

lemma own_metrics_untouched [simp]:
  "ls_metrics (record_vad s) = ls_metrics s" "ls_metrics (record_hotword b s) = ls_metrics s"
  "ls_metrics (record_asr b s) = ls_metrics s" "ls_metrics (record_tts b s) = ls_metrics s"
  by (simp_all add: record_vad_def record_hotword_def record_asr_def record_tts_def next_elapsed_def Let_def split: list.splits)

lemma split_voice_segments_metrics: "ls_metrics (snd (split_voice_segments v audio s)) = ls_metrics s"
proof -
  have "ls_metrics (snd (fold (segment_step v) frs acc)) = ls_metrics (snd acc)" for frs acc
    by (induction frs arbitrary: acc) (auto simp: segment_step_def vad_process_def split: prod.splits bool.splits if_splits)
  then show ?thesis by (simp add: split_voice_segments_def)
qed

lemma handle_audio_stream_metrics: "ls_metrics (snd (handle_audio_stream v items s)) = ls_metrics s"
proof (induction v items s rule: handle_audio_stream.induct)
  case (4 v p rest s)
  have "ls_metrics (fold handle_segment segs s1) = ls_metrics s1" for segs s1
    by (induction segs arbitrary: s1) (simp_all add: handle_segment_def hotword_detect_def transcribe_stub_def Let_def)
  then show ?case using 4 split_voice_segments_metrics [of v p s] by (auto split: prod.splits)
qed simp_all

text \<open>Whatever audio the server has handled, the event socket reports that nothing was: the counters it reads are
  never written.\<close>

lemma event_socket_reports_nothing:
  "ls_metrics s = metrics_default
    \<Longrightarrow> event_frame encode (snd (handle_audio_stream v items s)) = msg_to_frame (OpTranscript, encode (metrics_json metrics_default))"
  by (simp add: event_frame_def handle_audio_stream_metrics)

end
