(* ===== verification/Memory_Store.thy ===== *)
theory Memory_Store
  imports Storage
begin

text \<open>
  The in-memory store (\<open>crates/athena-voice-storage/src/lib.rs\<close>) as a second implementation of the \<open>Store\<close> trait
  (\<open>store.rs\<close>): calls and answers, what it keeps and what it only acknowledges, and its agreement with the SQLite
  store on what it keeps. Hash maps are association lists; every listing sorts.
\<close>

section \<open>The trait's calls\<close>

datatype store_call =
    RecordSession session_id satellite_id locale_id
  | FinalizeSession session_id outcome
  | GetSession session_id
  | AppendEvent event
  | ListEvents session_id u32
  | AppendError session_id stage string string
  | ProvisionSatellite satellite_id string
  | FindSatellite satellite_id
  | ScheduleEvent string int string "byte list"
  | PopDueEvents int
  | DeleteScheduled nat
  | KvGet string string
  | KvSet string string "byte list"
  | KvGc string u64
  | SettingsFor string
  | SettingsAll
  | SettingSet string string string bool
  | SettingDelete string string
  | EnabledSet string bool
  | Disabled
  | TokenHash
  | TokenHashSet string

datatype store_answer =
    Acked
  | Refused store_error
  | ASession "session_row option"
  | AEvents "event_row list"
  | ASatellite "satellite_row option"
  | AId nat
  | ADue "scheduled_event list"
  | AFound bool
  | AValue "byte list option"
  | ASettings "setting_row list"
  | ANames "string list"
  | AToken "string option"

section \<open>The two stores\<close>

record memory_store =
  ms_tmp :: tmp_store
  ms_settings :: mem_settings
  ms_enabled :: "(string \<times> bool) list"
  ms_token :: "string option"

definition memory_default :: memory_store where
  "memory_default = \<lparr>ms_tmp = [], ms_settings = [], ms_enabled = [], ms_token = None\<rparr>"

fun memory_call :: "store_call \<Rightarrow> memory_store \<Rightarrow> store_answer \<times> memory_store" where
  "memory_call (RecordSession sid sat loc) m = (Acked, m)"
| "memory_call (FinalizeSession sid oc) m = (Acked, m)"
| "memory_call (GetSession sid) m = (ASession None, m)"
| "memory_call (AppendEvent e) m = (Acked, m)"
| "memory_call (ListEvents sid limit) m = (AEvents [], m)"
| "memory_call (AppendError sid stg variant message) m = (Acked, m)"
| "memory_call (ProvisionSatellite sat h) m = (Acked, m)"
| "memory_call (FindSatellite sat) m = (ASatellite None, m)"
| "memory_call (ScheduleEvent skill fires topic payload) m = (AId 0, m)"
| "memory_call (PopDueEvents now) m = (ADue [], m)"
| "memory_call (DeleteScheduled i) m = (AFound False, m)"
| "memory_call (KvGet skill key) m = (AValue None, m)"
| "memory_call (KvSet skill key v) m = (Acked, m)"
| "memory_call (KvGc skill t) m = (Acked, m)"
| "memory_call (SettingsFor skill) m = (ASettings (mem_settings_for skill (ms_settings m)), m)"
| "memory_call SettingsAll m = (ASettings (mem_settings_all (ms_settings m)), m)"
| "memory_call (SettingSet skill key v sec) m = (Acked, m\<lparr>ms_settings := mem_setting_set skill key v sec (ms_settings m)\<rparr>)"
| "memory_call (SettingDelete skill key) m =
     (case mem_setting_delete skill key (ms_settings m) of (found, t) \<Rightarrow> (AFound found, m\<lparr>ms_settings := t\<rparr>))"
| "memory_call (EnabledSet skill en) m = (Acked, m\<lparr>ms_enabled := AList.update skill en (ms_enabled m)\<rparr>)"
| "memory_call Disabled m = (ANames (sort (map fst (filter (\<lambda>e. \<not> snd e) (ms_enabled m)))), m)"
| "memory_call TokenHash m = (AToken (ms_token m), m)"
| "memory_call (TokenHashSet h) m = (Acked, m\<lparr>ms_token := Some h\<rparr>)"

text \<open>The temporary keys go to the wrapped store.\<close>

definition memory_tmp_set :: "u64 \<Rightarrow> string \<Rightarrow> string \<Rightarrow> byte list \<Rightarrow> u64 \<Rightarrow> memory_store \<Rightarrow> memory_store" where
  "memory_tmp_set now skill key v expires m = m\<lparr>ms_tmp := tmp_set now skill key v expires (ms_tmp m)\<rparr>"

definition memory_tmp_get :: "u64 \<Rightarrow> string \<Rightarrow> string \<Rightarrow> memory_store \<Rightarrow> byte list option \<times> memory_store" where
  "memory_tmp_get now skill key m = (case tmp_get now skill key (ms_tmp m) of (v, t) \<Rightarrow> (v, m\<lparr>ms_tmp := t\<rparr>))"

definition memory_tmp_gc :: "u64 \<Rightarrow> memory_store \<Rightarrow> memory_store" where
  "memory_tmp_gc now m = m\<lparr>ms_tmp := tmp_gc now (ms_tmp m)\<rparr>"

definition answer_of_result :: "sqlite \<Rightarrow> store_error + sqlite \<Rightarrow> store_answer \<times> sqlite" where
  "answer_of_result db r = (case r of Inl e \<Rightarrow> (Refused e, db) | Inr db1 \<Rightarrow> (Acked, db1))"

text \<open>The SQLite store at a time in seconds; a refused call changes nothing.\<close>

fun sqlite_call :: "nat \<Rightarrow> store_call \<Rightarrow> sqlite \<Rightarrow> store_answer \<times> sqlite" where
  "sqlite_call now (RecordSession sid sat loc) db = answer_of_result db (record_session now sid sat loc db)"
| "sqlite_call now (FinalizeSession sid oc) db = answer_of_result db (finalize_session now sid oc db)"
| "sqlite_call now (GetSession sid) db = (ASession (get_session sid db), db)"
| "sqlite_call now (AppendEvent e) db = answer_of_result db (append_event now e db)"
| "sqlite_call now (ListEvents sid limit) db = (AEvents (list_events_by_session sid limit db), db)"
| "sqlite_call now (AppendError sid stg variant message) db = (Acked, append_error now sid stg variant message db)"
| "sqlite_call now (ProvisionSatellite sat h) db = (Acked, provision_satellite now sat h db)"
| "sqlite_call now (FindSatellite sat) db = (ASatellite (find_satellite sat db), db)"
| "sqlite_call now (ScheduleEvent skill fires topic payload) db =
     (case schedule_event (int now) skill fires topic payload db of (i, db1) \<Rightarrow> (AId i, db1))"
| "sqlite_call now (PopDueEvents t) db = (case pop_due_events t db of (rs, db1) \<Rightarrow> (ADue rs, db1))"
| "sqlite_call now (DeleteScheduled i) db = (case delete_scheduled i db of (found, db1) \<Rightarrow> (AFound found, db1))"
| "sqlite_call now (KvGet skill key) db = (AValue (skill_kv_get skill key db), db)"
| "sqlite_call now (KvSet skill key v) db = (Acked, skill_kv_set (int now) skill key v db)"
| "sqlite_call now (KvGc skill t) db = (Acked, skill_kv_gc skill t db)"
| "sqlite_call now (SettingsFor skill) db = (ASettings (skill_settings_for skill db), db)"
| "sqlite_call now SettingsAll db = (ASettings (skill_settings_all db), db)"
| "sqlite_call now (SettingSet skill key v sec) db = (Acked, skill_setting_set skill key v sec db)"
| "sqlite_call now (SettingDelete skill key) db =
     (case skill_setting_delete skill key db of (found, db1) \<Rightarrow> (AFound found, db1))"
| "sqlite_call now (EnabledSet skill en) db = (Acked, skill_enabled_set skill en db)"
| "sqlite_call now Disabled db = (ANames (skills_disabled db), db)"
| "sqlite_call now TokenHash db = (AToken (admin_token_hash db), db)"
| "sqlite_call now (TokenHashSet h) db = (Acked, admin_token_hash_set h db)"

section \<open>Where they agree\<close>

text \<open>What the admin server asks of its store: the calls the in-memory store really answers.\<close>

definition kept :: "store_call \<Rightarrow> bool" where
  "kept c = (case c of
       SettingsFor _ \<Rightarrow> True | SettingsAll \<Rightarrow> True | SettingSet _ _ _ _ \<Rightarrow> True | SettingDelete _ _ \<Rightarrow> True
     | EnabledSet _ _ \<Rightarrow> True | Disabled \<Rightarrow> True | TokenHash \<Rightarrow> True | TokenHashSet _ \<Rightarrow> True | _ \<Rightarrow> False)"

definition same_store :: "memory_store \<Rightarrow> sqlite \<Rightarrow> bool" where
  "same_store m db \<longleftrightarrow> ms_settings m = map (\<lambda>e. (fst e, mk_setting e)) (settings db)
     \<and> ms_enabled m = skill_state db \<and> ms_token m = admin_auth db"

lemma sort_key_map: "map f (sort_key (\<lambda>x. k (f x)) xs) = sort_key k (map f xs)"
proof -
  have "map f (insort_key (\<lambda>x. k (f x)) a ys) = insort_key k (f a) (map f ys)" for a ys
    by (induction ys) simp_all
  then show ?thesis by (induction xs) simp_all
qed

lemma update_settings:
  "AList.update (s, k) \<lparr>sg_skill = s, sg_key = k, sg_value = v, sg_secret = b\<rparr> (map (\<lambda>e. (fst e, mk_setting e)) xs)
     = map (\<lambda>e. (fst e, mk_setting e)) (AList.update (s, k) (v, b) xs)"
  by (induction xs) (auto simp: mk_setting_def)

lemma delete_settings:
  "AList.delete p (map (\<lambda>e. (fst e, mk_setting e)) xs) = map (\<lambda>e. (fst e, mk_setting e)) (AList.delete p xs)"
  by (induction xs) auto

lemma map_of_settings: "map_of (map (\<lambda>e. (fst e, mk_setting e)) xs) p = None \<longleftrightarrow> map_of xs p = None"
  by (induction xs) auto

lemma listed_settings:
  assumes "same_store m db"
  shows "mem_settings_for s (ms_settings m) = skill_settings_for s db" "mem_settings_all (ms_settings m) = skill_settings_all db"
proof -
  have rows: "map snd (ms_settings m) = map mk_setting (settings db)" using assms by (simp add: same_store_def)
  have "filter (\<lambda>r. sg_skill r = s) (map mk_setting xs) = map mk_setting (filter (\<lambda>e. fst (fst e) = s) xs)" for xs
    by (induction xs) (simp_all add: mk_setting_def)
  then show "mem_settings_for s (ms_settings m) = skill_settings_for s db"
    using sort_key_map [of mk_setting sg_key]
    by (simp add: mem_settings_for_def skill_settings_for_def rows) (simp add: mk_setting_def)
  show "mem_settings_all (ms_settings m) = skill_settings_all db"
    using sort_key_map [of mk_setting "\<lambda>r. (sg_skill r, sg_key r)" "settings db"]
    by (simp add: mem_settings_all_def skill_settings_all_def rows mk_setting_def)
qed

lemma stores_step:
  assumes "same_store m db"
  shows "same_store (snd (memory_call c m)) (snd (sqlite_call now c db))
    \<and> (kept c \<longrightarrow> fst (memory_call c m) = fst (sqlite_call now c db))"
proof (cases c)
  case (RecordSession sid sat loc)
  then show ?thesis using assms by (auto simp: same_store_def kept_def answer_of_result_def record_session_def)
next
  case (FinalizeSession sid oc)
  then show ?thesis using assms by (auto simp: same_store_def kept_def answer_of_result_def finalize_session_def split: option.split)
next
  case (AppendEvent e)
  then show ?thesis using assms by (auto simp: same_store_def kept_def answer_of_result_def append_event_def split: option.split)
next
  case (SettingDelete s k)
  then show ?thesis
    using assms map_of_settings [of "settings db" "(s, k)"]
    by (simp add: same_store_def kept_def mem_setting_delete_def skill_setting_delete_def delete_settings del: not_None_eq)
next
  case (PopDueEvents t)
  then show ?thesis using assms by (simp add: same_store_def kept_def pop_due_events_def Let_def)
qed (use assms listed_settings [OF assms] in \<open>auto simp: same_store_def kept_def append_error_def provision_satellite_def schedule_event_def
       delete_scheduled_def skill_kv_set_def skill_kv_gc_def mem_setting_set_def skill_setting_set_def update_settings mem_setting_delete_def
       skill_setting_delete_def delete_settings map_of_settings skill_enabled_set_def skills_disabled_def admin_token_hash_def admin_token_hash_set_def\<close>)

fun call_answers :: "('c \<Rightarrow> 's \<Rightarrow> 'a \<times> 's) \<Rightarrow> 'c list \<Rightarrow> 's \<Rightarrow> 'a list" where
  "call_answers f [] s = []"
| "call_answers f (c # cs) s = (case f c s of (a, s1) \<Rightarrow> a # call_answers f cs s1)"

text \<open>The interface of a step-by-step comparison: related states stay related and their answers agree.\<close>

locale call_simulation =
  fixes f :: "'c \<Rightarrow> 's \<Rightarrow> 'a \<times> 's" and g :: "'c \<Rightarrow> 't \<Rightarrow> 'b \<times> 't"
    and rel :: "'s \<Rightarrow> 't \<Rightarrow> bool" and agree :: "'c \<Rightarrow> 'a \<Rightarrow> 'b \<Rightarrow> bool"
  assumes step: "rel s t \<Longrightarrow> rel (snd (f c s)) (snd (g c t)) \<and> agree c (fst (f c s)) (fst (g c t))"
begin

lemma answers_agree:
  "rel s t \<Longrightarrow> list_all (\<lambda>(c, a, b). agree c a b) (zip cs (zip (call_answers f cs s) (call_answers g cs t)))"
proof (induction cs arbitrary: s t)
  case (Cons c cs)
  show ?case
    using step [OF Cons.prems, of c] Cons.IH by (cases "f c s"; cases "g c t") simp
qed simp

end

interpretation st: call_simulation "\<lambda>(_, c). memory_call c" "\<lambda>(now, c). sqlite_call now c" same_store
    "\<lambda>(_, c) a b. kept c \<longrightarrow> a = b"
  by unfold_locales (use stores_step in \<open>auto split: prod.splits\<close>)

text \<open>Over any sequence of calls the two stores answer alike every call the in-memory store keeps, whatever other
  calls come between; what it does not keep it answers as if nothing had ever been stored.\<close>

theorem stores_agree:
  "list_all (\<lambda>((now, c), a, b). kept c \<longrightarrow> a = b)
     (zip cs (zip (call_answers (\<lambda>(_, c). memory_call c) cs memory_default) (call_answers (\<lambda>(now, c). sqlite_call now c) cs sqlite_open)))"
  using st.answers_agree [of memory_default sqlite_open cs]
  by (simp add: same_store_def memory_default_def sqlite_open_def case_prod_unfold)

lemma memory_store_forgets:
  "fst (memory_call (KvGet s k) (snd (memory_call (KvSet s k v) m))) = AValue None"
  "fst (memory_call (PopDueEvents t) (snd (memory_call (ScheduleEvent s f tp p) m))) = ADue []"
  by simp_all

end
