(* ===== verification/Firmware.thy ===== *)
theory Firmware
  imports Satellite_Session Mic
begin

text \<open>
  The satellite's firmware around its session machine (\<open>satellite-esp32/src/main.rs\<close>, with the capture driver of
  \<open>mic.rs\<close>, \<open>speaker.rs\<close> and \<open>wake.rs\<close>): the event queue, the microphone thread with the two flags it shares with
  the main loop, the speaker's queue. Threads interleave step by step; a microphone iteration that ends an utterance
  takes three steps, an iteration of the main loop two. Pins, Wi-Fi, the MQTT and audio drivers and the wake-word
  network are outside; the network is a predicate on what it has heard.
\<close>

section \<open>The speaker\<close>

definition speaker_default_rate :: u32 where "speaker_default_rate = 24000"

datatype speaker_msg = Rate u32 | Chunk "byte list"

text \<open>What the playback thread writes, each chunk with the rate of its driver; a failing write loses its chunk.\<close>

fun speaker_run :: "u32 \<Rightarrow> speaker_msg list \<Rightarrow> (u32 \<times> byte list) list" where
  "speaker_run rate [] = []"
| "speaker_run rate (Rate r # ms) = speaker_run r ms"
| "speaker_run rate (Chunk c # ms) = (rate, c) # speaker_run rate ms"

section \<open>Capture and wake word\<close>

definition sample_bytes :: "i16 \<Rightarrow> byte list" where
  "sample_bytes s = [ucast s, ucast (drop_bit 8 s)]"

definition read_frame :: "byte list \<Rightarrow> dc_blocker \<Rightarrow> byte list \<times> i16 list \<times> dc_blocker" where
  "read_frame raw dc =
     (case dc_process (convert_inmp441 raw) dc of
        (samples, dc1) \<Rightarrow> (concat (map sample_bytes samples), samples, dc1))"

text \<open>The network sees the samples chunk by chunk; \<open>detect\<close> is its answer after the samples fed so far.\<close>

record wakenet =
  wn_buf :: "i16 list"
  wn_chunk :: nat
  wn_fed :: "i16 list"

function wn_drain :: "(i16 list \<Rightarrow> bool) \<Rightarrow> bool \<Rightarrow> wakenet \<Rightarrow> bool \<times> wakenet" where
  "wn_drain detect detected wn =
     (if wn_chunk wn = 0 \<or> length (wn_buf wn) < wn_chunk wn then (detected, wn)
      else let fed = wn_fed wn @ take (wn_chunk wn) (wn_buf wn) in
        wn_drain detect (detected \<or> detect fed) (wn\<lparr>wn_buf := drop (wn_chunk wn) (wn_buf wn), wn_fed := fed\<rparr>))"
  by pat_completeness auto
termination
  by (relation "measure (\<lambda>(_, _, wn). length (wn_buf wn))") auto

declare wn_drain.simps [simp del]

definition wn_feed :: "(i16 list \<Rightarrow> bool) \<Rightarrow> i16 list \<Rightarrow> wakenet \<Rightarrow> bool \<times> wakenet" where
  "wn_feed detect samples wn = wn_drain detect False (wn\<lparr>wn_buf := wn_buf wn @ samples\<rparr>)"

section \<open>The threads\<close>

datatype app_event =
    Button
  | Wake
  | Frame "byte list"
  | UtteranceEnd
  | MqttMsg string "byte list"
  | TickEvent

text \<open>Where the microphone thread stands: reading the next frame, about to clear the flag, about to report the
  end of the utterance.\<close>

datatype mic_phase = MicReading | MicStopping | MicEnding

record mic_thread =
  mt_phase :: mic_phase
  mt_dc :: dc_blocker
  mt_tracker :: silence_tracker
  mt_meter :: level_meter
  mt_was_streaming :: bool
  mt_spoke :: bool
  mt_frames_sent :: u32
  mt_wakenet :: "wakenet option"

record firmware =
  fw_session :: sat_session
  fw_queue :: "app_event list"
  fw_streaming :: bool
  fw_armed :: bool
  fw_arming :: bool
  fw_mic :: mic_thread
  fw_published :: "(string \<times> byte list) list"
  fw_speaker :: "speaker_msg list"

definition mic_init :: "wakenet option \<Rightarrow> mic_thread" where
  "mic_init wn = \<lparr>mt_phase = MicReading, mt_dc = dc_new, mt_tracker = tracker_new silence_rms silence_ms 20, mt_meter = meter_new 50,
     mt_was_streaming = False, mt_spoke = False, mt_frames_sent = 0, mt_wakenet = wn\<rparr>"

definition firmware_init :: "wakenet option \<Rightarrow> string \<Rightarrow> string \<Rightarrow> string \<Rightarrow> firmware" where
  "firmware_init wn troot sat loc =
     \<lparr>fw_session = session_new (checked troot ''assist'') (checked sat ''esp32-sat'') (checked loc ''fr''), fw_queue = [],
      fw_streaming = False, fw_armed = True, fw_arming = False, fw_mic = mic_init wn, fw_published = [], fw_speaker = []\<rparr>"

fun exec_command :: "command \<Rightarrow> firmware \<Rightarrow> firmware" where
  "exec_command (Publish t p) fw = fw\<lparr>fw_published := fw_published fw @ [(t, p)]\<rparr>"
| "exec_command (ConfigureSpeaker r) fw = fw\<lparr>fw_speaker := fw_speaker fw @ [Rate r]\<rparr>"
| "exec_command (Play b) fw = fw\<lparr>fw_speaker := fw_speaker fw @ [Chunk b]\<rparr>"
| "exec_command (ShowTranscript t fin) fw = fw"
| "exec_command (ShowAnswer t) fw = fw"
| "exec_command CmdSessionEnded fw = fw\<lparr>fw_streaming := False\<rparr>"

fun to_input :: "string \<Rightarrow> app_event \<Rightarrow> sat_input" where
  "to_input uuid Button = Trigger uuid"
| "to_input uuid Wake = Trigger uuid"
| "to_input uuid (Frame b) = MicFrame b"
| "to_input uuid UtteranceEnd = SilenceDetected"
| "to_input uuid (MqttMsg t p) = Inbound t p"
| "to_input uuid TickEvent = Tick"

text \<open>The main loop handles the next event, then publishes whether the wake word may listen.\<close>

definition main_handle :: "(byte list \<Rightarrow> json option) \<Rightarrow> nat \<Rightarrow> string \<Rightarrow> firmware \<Rightarrow> firmware" where
  "main_handle pj now uuid fw =
     (if fw_arming fw then fw
      else case fw_queue fw of
        [] \<Rightarrow> fw
      | ev # q \<Rightarrow>
          (case sat_handle pj (now, to_input uuid ev) (fw_session fw) of
             (s, cmds) \<Rightarrow>
               (let fw1 = fold exec_command cmds (fw\<lparr>fw_session := s, fw_queue := q\<rparr>) in
                (if s_state s = Streaming then fw1\<lparr>fw_streaming := True\<rparr> else fw1)\<lparr>fw_arming := True\<rparr>)))"

definition main_arm :: "firmware \<Rightarrow> firmware" where
  "main_arm fw =
     (if fw_arming fw then fw\<lparr>fw_armed := s_state (fw_session fw) = Idle, fw_arming := False\<rparr> else fw)"

definition mic_read :: "(i16 list \<Rightarrow> bool) \<Rightarrow> byte list \<Rightarrow> firmware \<Rightarrow> firmware" where
  "mic_read detect raw fw =
     (let m0 = fw_mic fw in
      if mt_phase m0 \<noteq> MicReading then fw
      else case read_frame raw (mt_dc m0) of
        (frame, samples, dc) \<Rightarrow>
          (let m = m0\<lparr>mt_dc := dc, mt_meter := snd (meter_push samples (mt_meter m0))\<rparr> in
           if fw_streaming fw then
             (let m1 = (if mt_was_streaming m then m
                        else m\<lparr>mt_tracker := tracker_reset (mt_tracker m), mt_was_streaming := True, mt_spoke := False, mt_frames_sent := 0\<rparr>);
                  (fin, tr) = tracker_push samples (mt_tracker m1) in
              fw\<lparr>fw_queue := fw_queue fw @ [Frame frame],
                 fw_mic := m1\<lparr>mt_tracker := tr, mt_spoke := mt_spoke m1 \<or> speech_started tr, mt_frames_sent := mt_frames_sent m1 + 1,
                   mt_phase := if fin then MicStopping else MicReading\<rparr>\<rparr>)
           else
             (let m1 = m\<lparr>mt_was_streaming := False, mt_tracker := tracker_observe samples (mt_tracker m)\<rparr> in
              case (fw_armed fw, mt_wakenet m1) of
                (True, Some wn) \<Rightarrow>
                  (case wn_feed detect samples wn of
                     (heard, wn1) \<Rightarrow>
                       fw\<lparr>fw_queue := fw_queue fw @ (if heard then [Wake] else []), fw_mic := m1\<lparr>mt_wakenet := Some wn1\<rparr>\<rparr>)
              | _ \<Rightarrow> fw\<lparr>fw_mic := m1\<rparr>)))"

definition mic_finish :: "firmware \<Rightarrow> firmware" where
  "mic_finish fw =
     (case mt_phase (fw_mic fw) of
        MicReading \<Rightarrow> fw
      | MicStopping \<Rightarrow> fw\<lparr>fw_streaming := False, fw_mic := (fw_mic fw)\<lparr>mt_phase := MicEnding\<rparr>\<rparr>
      | MicEnding \<Rightarrow> fw\<lparr>fw_queue := fw_queue fw @ [UtteranceEnd], fw_mic := (fw_mic fw)\<lparr>mt_phase := MicReading\<rparr>\<rparr>)"

text \<open>The button's thread polls its pin and reports each falling edge.\<close>

fun button_poll :: "bool \<Rightarrow> bool list \<Rightarrow> app_event list" where
  "button_poll was_low [] = []"
| "button_poll was_low (low # ls) = (if low \<and> \<not> was_low then [Button] else []) @ button_poll low ls"

datatype fw_action =
    MainHandle nat string
  | MainArm
  | MicRead "byte list"
  | MicFinish
  | Arrives app_event

fun fw_act :: "(byte list \<Rightarrow> json option) \<Rightarrow> (i16 list \<Rightarrow> bool) \<Rightarrow> fw_action \<Rightarrow> firmware \<Rightarrow> firmware" where
  "fw_act pj detect (MainHandle now uuid) fw = main_handle pj now uuid fw"
| "fw_act pj detect MainArm fw = main_arm fw"
| "fw_act pj detect (MicRead raw) fw = mic_read detect raw fw"
| "fw_act pj detect MicFinish fw = mic_finish fw"
| "fw_act pj detect (Arrives ev) fw = fw\<lparr>fw_queue := fw_queue fw @ [ev]\<rparr>"

text \<open>The other threads bring button presses, messages and ticks.\<close>

definition from_outside :: "fw_action \<Rightarrow> bool" where
  "from_outside a = (case a of Arrives ev \<Rightarrow> (case ev of Button \<Rightarrow> True | MqttMsg _ _ \<Rightarrow> True | TickEvent \<Rightarrow> True | _ \<Rightarrow> False) | _ \<Rightarrow> True)"

text \<open>The device's states together with the frames its microphone has captured while a session was under way.\<close>

inductive fw_reach ::
  "(byte list \<Rightarrow> json option) \<Rightarrow> (i16 list \<Rightarrow> bool) \<Rightarrow> firmware \<Rightarrow> byte list list \<Rightarrow> firmware \<Rightarrow> bool"
  for pj detect fw0 where
  boot: "fw_reach pj detect fw0 [] fw0"
| move: "fw_reach pj detect fw0 heard fw \<Longrightarrow> from_outside a
    \<Longrightarrow> heard' = heard @ (case a of
           MicRead raw \<Rightarrow> if s_state (fw_session fw) \<noteq> Idle then [fst (read_frame raw (mt_dc (fw_mic fw)))] else []
         | _ \<Rightarrow> [])
    \<Longrightarrow> fw_reach pj detect fw0 heard' (fw_act pj detect a fw)"

section \<open>What leaves the device\<close>

definition audio_topic :: "string \<Rightarrow> bool" where
  "audio_topic t = suffix ''/audio'' t"

definition audio_of :: "(string \<times> byte list) list \<Rightarrow> byte list list" where
  "audio_of out = concat (map (\<lambda>(t, p). if audio_topic t \<and> p \<noteq> [] then [p] else []) out)"

definition audio_published :: "firmware \<Rightarrow> byte list list" where
  "audio_published fw = audio_of (fw_published fw)"

definition frames_queued :: "app_event list \<Rightarrow> byte list list" where
  "frames_queued q = List.map_filter (\<lambda>ev. case ev of Frame b \<Rightarrow> if b \<noteq> [] then Some b else None | _ \<Rightarrow> None) q"

lemma frames_queued_simps [simp]:
  "frames_queued [] = []" "frames_queued (Frame b # q) = (if b = [] then [] else [b]) @ frames_queued q"
  "frames_queued (Button # q) = frames_queued q" "frames_queued (Wake # q) = frames_queued q"
  "frames_queued (UtteranceEnd # q) = frames_queued q" "frames_queued (MqttMsg t p # q) = frames_queued q"
  "frames_queued (TickEvent # q) = frames_queued q"
  "frames_queued (q @ q') = frames_queued q @ frames_queued q'"
  by (simp_all add: frames_queued_def List.map_filter_def)

fun cmd_audio :: "command list \<Rightarrow> byte list list" where
  "cmd_audio [] = []"
| "cmd_audio (Publish t p # cs) = (if audio_topic t \<and> p \<noteq> [] then [p] else []) @ cmd_audio cs"
| "cmd_audio (_ # cs) = cmd_audio cs"

lemma exec_commands:
  "audio_published (fold exec_command cmds fw) = audio_published fw @ cmd_audio cmds"
  "fw_queue (fold exec_command cmds fw) = fw_queue fw" "fw_session (fold exec_command cmds fw) = fw_session fw"
  "fw_mic (fold exec_command cmds fw) = fw_mic fw" "fw_armed (fold exec_command cmds fw) = fw_armed fw"
  "fw_streaming (fold exec_command cmds fw) \<longleftrightarrow> fw_streaming fw \<and> CmdSessionEnded \<notin> set cmds"
proof -
  show "audio_published (fold exec_command cmds fw) = audio_published fw @ cmd_audio cmds"
    by (induction cmds arbitrary: fw rule: cmd_audio.induct) (simp_all add: audio_published_def audio_of_def)
  show "fw_queue (fold exec_command cmds fw) = fw_queue fw"
    by (induction cmds arbitrary: fw rule: cmd_audio.induct) simp_all
  show "fw_session (fold exec_command cmds fw) = fw_session fw"
    by (induction cmds arbitrary: fw rule: cmd_audio.induct) simp_all
  show "fw_mic (fold exec_command cmds fw) = fw_mic fw"
    by (induction cmds arbitrary: fw rule: cmd_audio.induct) simp_all
  show "fw_armed (fold exec_command cmds fw) = fw_armed fw"
    by (induction cmds arbitrary: fw rule: cmd_audio.induct) simp_all
  show "fw_streaming (fold exec_command cmds fw) \<longleftrightarrow> fw_streaming fw \<and> CmdSessionEnded \<notin> set cmds"
    by (induction cmds arbitrary: fw rule: cmd_audio.induct) auto
qed

text \<open>Every return to idle comes with the command that ends the session.\<close>

lemma on_inbound_idle:
  assumes "s_state (fst (on_inbound pj topic payload s)) = Idle"
  shows "s_state s = Idle \<or> CmdSessionEnded \<in> set (snd (on_inbound pj topic payload s))"
  using assms
  by (cases "s_state s"; cases "s_sid s";
      cases "strip_prefix (s_root s @ ''/sat/'' @ s_sat s @ ''/session/'' @ the (s_sid s) @ ''/'') topic")
     (auto simp: on_inbound_def finish_def simp del: strip_prefix_Some split: if_splits)

lemma idle_means_ended:
  assumes "s_state (fst (sat_handle pj (now, i) s)) = Idle"
  shows "s_state s = Idle \<or> CmdSessionEnded \<in> set (snd (sat_handle pj (now, i) s))"
proof (cases i)
  case (Inbound topic payload)
  then show ?thesis using assms on_inbound_idle by simp
next
  case Tick
  then show ?thesis using assms by (cases "s_state s") (auto simp: sat_defs split: if_splits option.splits)
qed (use assms in \<open>auto simp: sat_defs split: if_splits\<close>)

lemma start_not_audio: "\<not> audio_topic (s_topic s ''start'')"
  by (auto simp: audio_topic_def s_topic_def suffix_def append_eq_append_conv2 Cons_eq_append_conv append_eq_Cons_conv)

lemma cmd_audio_silent: "(\<And>t p. Publish t p \<notin> set cmds) \<Longrightarrow> cmd_audio cmds = []"
  by (induction cmds rule: cmd_audio.induct) auto

text \<open>The sound an event makes the session publish is the event's own frame or nothing.\<close>

lemma handled_audio:
  "cmd_audio (snd (sat_handle pj (now, to_input uuid ev) s)) = [] \<or>
     cmd_audio (snd (sat_handle pj (now, to_input uuid ev) s)) = frames_queued [ev]"
proof (cases ev)
  case (MqttMsg t p)
  then show ?thesis using cmd_audio_silent [of "snd (on_inbound pj t p s)"] on_inbound_silent by auto
next
  case TickEvent
  then show ?thesis by (cases "s_state s") (auto simp: sat_defs split: option.splits)
qed (auto simp: sat_defs start_not_audio)

section \<open>Nothing heard while idle is sent\<close>

definition fw_inv :: "byte list list \<Rightarrow> firmware \<Rightarrow> bool" where
  "fw_inv heard fw \<longleftrightarrow>
     subseq (audio_published fw @ frames_queued (fw_queue fw)) heard
     \<and> (fw_streaming fw \<longrightarrow> s_state (fw_session fw) \<noteq> Idle)
     \<and> (fw_armed fw \<and> \<not> fw_arming fw \<longrightarrow> s_state (fw_session fw) = Idle)"

lemma subseq_through: "subseq (a @ b) h \<Longrightarrow> subseq c b \<Longrightarrow> subseq (a @ c) h"
  by (meson list_emb_append_mono subseq_order.order_refl subseq_order.order_trans)

lemma fw_inv_init: "fw_inv [] (firmware_init wn troot sat loc)"
  by (simp add: fw_inv_def firmware_init_def session_new_def audio_published_def audio_of_def)

lemma main_handle_inv:
  assumes "fw_inv heard fw"
  shows "fw_inv heard (main_handle pj now uuid fw)"
proof (cases "fw_arming fw \<or> fw_queue fw = []")
  case True
  then show ?thesis using assms by (auto simp: main_handle_def)
next
  case False
  then obtain ev q where q: "fw_queue fw = ev # q" by (cases "fw_queue fw") auto
  obtain s cmds where h: "sat_handle pj (now, to_input uuid ev) (fw_session fw) = (s, cmds)" by fastforce
  have fq: "frames_queued (ev # q) = frames_queued [ev] @ frames_queued q" using frames_queued_simps(8) [of "[ev]" q] by simp
  have audio: "cmd_audio cmds = [] \<or> cmd_audio cmds = frames_queued [ev]"
    using handled_audio [of pj now uuid ev "fw_session fw"] by (simp add: h)
  have "subseq (cmd_audio cmds @ frames_queued q) (frames_queued (ev # q))"
    using audio unfolding fq by (elim disjE) (simp_all add: list_emb_append2)
  then have "subseq (audio_published fw @ cmd_audio cmds @ frames_queued q) heard"
    using assms subseq_through unfolding fw_inv_def q by blast
  moreover have "s_state s = Idle \<longrightarrow> \<not> fw_streaming fw \<or> CmdSessionEnded \<in> set cmds"
    using idle_means_ended [of pj now "to_input uuid ev" "fw_session fw"] assms by (auto simp: h fw_inv_def)
  ultimately show ?thesis
    using False by (auto simp: main_handle_def q h Let_def fw_inv_def audio_published_def exec_commands [unfolded audio_published_def])
qed

lemma mic_read_cases:
  "audio_published (mic_read detect raw fw) = audio_published fw"
  "fw_session (mic_read detect raw fw) = fw_session fw"
  "fw_streaming (mic_read detect raw fw) = fw_streaming fw" "fw_armed (mic_read detect raw fw) = fw_armed fw"
  "fw_arming (mic_read detect raw fw) = fw_arming fw"
  "frames_queued (fw_queue (mic_read detect raw fw)) =
     frames_queued (fw_queue fw) @
       (if mt_phase (fw_mic fw) = MicReading \<and> fw_streaming fw
        then frames_queued [Frame (fst (read_frame raw (mt_dc (fw_mic fw))))] else [])"
  by (auto simp: mic_read_def audio_published_def Let_def split: prod.splits option.splits bool.splits)

lemma fw_reach_inv:
  assumes "fw_reach pj detect fw0 heard fw" "fw_inv [] fw0"
  shows "fw_inv heard fw"
  using assms
proof (induction rule: fw_reach.induct)
  case (move heard fw a heard')
  then have inv: "fw_inv heard fw" by simp
  show ?case
  proof (cases a)
    case (MainHandle now uuid)
    then show ?thesis using move.hyps(3) main_handle_inv [OF inv] by simp
  next
    case MainArm
    then show ?thesis using move.hyps(3) inv by (simp add: main_arm_def fw_inv_def audio_published_def)
  next
    case (MicRead raw)
    let ?b = "fst (read_frame raw (mt_dc (fw_mic fw)))"
    have h: "heard' = heard @ (if s_state (fw_session fw) \<noteq> Idle then [?b] else [])" using move.hyps(3) MicRead by simp
    have "subseq (if mt_phase (fw_mic fw) = MicReading \<and> fw_streaming fw then frames_queued [Frame ?b] else [])
        (if s_state (fw_session fw) \<noteq> Idle then [?b] else [])"
      using inv by (simp add: fw_inv_def)
    then have "subseq (audio_published fw @ frames_queued (fw_queue (mic_read detect raw fw))) heard'"
      using inv list_emb_append_mono [of "(=)" "audio_published fw @ frames_queued (fw_queue fw)" heard]
      unfolding fw_inv_def h mic_read_cases by simp
    then show ?thesis using inv by (simp add: MicRead fw_inv_def mic_read_cases)
  next
    case MicFinish
    then show ?thesis using move.hyps(3) inv
      by (auto simp: mic_finish_def fw_inv_def audio_published_def split: mic_phase.splits)
  next
    case (Arrives ev)
    then show ?thesis using move.hyps(2,3) inv
      by (cases ev) (auto simp: fw_inv_def audio_published_def from_outside_def)
  qed
qed simp



section \<open>A reply is played\<close>

text \<open>The runtime's messages for the running session, its rate first, come out of the speaker at that rate, in
  order.\<close>

lemma reply_is_played:
  assumes "s_state s = AwaitingReply" "s_sid s = Some sid" "base = s_root s @ ''/sat/'' @ s_sat s @ ''/session/'' @ sid"
    and "Option.bind (field as_u64 ''sample_rate'' (pj meta)) to_u32 = Some r"
  shows "\<exists>s'. sat_run pj ((t, Inbound (base @ ''/tts/meta'') meta) # map (\<lambda>c. (t, Inbound (base @ ''/tts'') c)) cs) s
            = (s', ConfigureSpeaker r # map Play cs)
    \<and> speaker_run rate (fw_speaker (fold exec_command (ConfigureSpeaker r # map Play cs) (fw\<lparr>fw_speaker := []\<rparr>)))
        = map (Pair r) cs"
proof -
  have strip: "strip_prefix (s_root s1 @ ''/sat/'' @ s_sat s1 @ ''/session/'' @ sid @ ''/'') (base @ ''/'' @ v) = Some v"
    if "s_root s1 = s_root s" "s_sat s1 = s_sat s" for s1 v
    using that by (simp add: assms(3))
  have play: "sat_run pj (map (\<lambda>c. (t, Inbound (base @ ''/tts'') c)) cs) (s\<lparr>s_state := Playing\<rparr>) = (s\<lparr>s_state := Playing\<rparr>, map Play cs)"
    using strip [of "s\<lparr>s_state := Playing\<rparr>" "''tts''"] assms(2)
    by (induction cs) (simp_all add: on_inbound_def del: strip_prefix_Some)
  have run: "sat_run pj ((t, Inbound (base @ ''/tts/meta'') meta) # map (\<lambda>c. (t, Inbound (base @ ''/tts'') c)) cs) s
      = (s\<lparr>s_state := Playing\<rparr>, ConfigureSpeaker r # map Play cs)"
    using assms(1,2,4) play strip [of s "''tts/meta''"] by (simp add: on_inbound_def del: strip_prefix_Some)
  have exec: "fw_speaker (fold exec_command (map Play cs) fw') = fw_speaker fw' @ map Chunk cs" for fw'
    by (induction cs arbitrary: fw') simp_all
  have "speaker_run r (map Chunk cs) = map (Pair r) cs" by (induction cs) simp_all
  then show ?thesis using run by (simp add: exec)
qed

section \<open>An end reported late\<close>

text \<open>The ten-second limit ends the utterance but leaves the microphone streaming; the end of utterance it then
  reports is acted on by whatever session is running when it is handled: queued behind a reply's end and a new
  press, it ends the new utterance at once.\<close>

lemma limit_keeps_streaming:
  assumes "s_state (fw_session fw) = Streaming" "s_deadline (fw_session fw) = Some d" "d < now" "fw_streaming fw"
    "fw_queue fw = [TickEvent]" "\<not> fw_arming fw"
  shows "s_state (fw_session (main_handle pj now uuid fw)) = AwaitingReply \<and> fw_streaming (main_handle pj now uuid fw)"
  using assms by (simp add: main_handle_def sat_defs)

lemma late_end_cuts_new_utterance:
  assumes "s_state (fw_session fw) = Idle" "fw_queue fw = [Button, UtteranceEnd]" "\<not> fw_arming fw"
  shows "s_state (fw_session (main_handle pj now u2 (main_arm (main_handle pj now u fw)))) = AwaitingReply"
  using assms by (simp add: main_handle_def main_arm_def sat_defs)

end
