(* ===== verification/Server_Loop.thy ===== *)
theory Server_Loop
  imports Sessions Assist Registry
begin

text \<open>
  The server's two central loops: the MQTT event loop (\<open>spawn_satellite\<close> in
  \<open>crates/athena-voice-runtime/src/satellite/ingress.rs\<close>), which composes the assist bridge and the sessions, and the
  dispatcher's mailbox (\<open>wasm/dispatcher.rs\<close>) with the calls of its handle. The wait for the last publishes after a
  shutdown is the MQTT library's.
\<close>

section \<open>The MQTT event loop\<close>

datatype poll = ConnAck | IncomingPublish string "byte list" | OtherPoll | PollFailed | ShutdownSeen

record server_cfg =
  sc_codecs :: codecs
  sc_root :: string
  sc_assist :: "string option"

record server =
  sv_ingress :: ingress
  sv_bridge :: bridge
  sv_requests :: "string list"
  sv_running :: bool

definition server_new :: server where
  "server_new = \<lparr>sv_ingress = ingress_init, sv_bridge = bridge_new, sv_requests = [], sv_running = True\<rparr>"

text \<open>Each event comes with the time and whether the session's channel has room.\<close>

definition on_publish_event :: "server_cfg \<Rightarrow> u64 \<Rightarrow> bool \<Rightarrow> string \<Rightarrow> byte list \<Rightarrow> server \<Rightarrow> server" where
  "on_publish_event cfg now room topic payload s =
     (let (consumed, b) = (case sc_assist cfg of
            None \<Rightarrow> (False, sv_bridge s)
          | Some pre \<Rightarrow> bridge_handle (c_json (sc_codecs cfg)) pre topic payload (sv_bridge s)) in
      if consumed then s\<lparr>sv_bridge := b\<rparr>
      else s\<lparr>sv_ingress := handle_publish (sc_codecs cfg) (sc_root cfg) now room topic payload (sv_ingress s)\<rparr>)"

fun server_step :: "server_cfg \<Rightarrow> u64 \<times> bool \<times> poll \<Rightarrow> server \<Rightarrow> server" where
  "server_step cfg (now, room, p) s =
     (if \<not> sv_running s then s
      else case p of
          ConnAck \<Rightarrow> s\<lparr>sv_requests := sv_requests s @ resubscribe (sc_root cfg) (map_option transcription_wildcard (sc_assist cfg))\<rparr>
        | IncomingPublish topic payload \<Rightarrow> on_publish_event cfg now room topic payload s
        | OtherPoll \<Rightarrow> s
        | PollFailed \<Rightarrow> s
        | ShutdownSeen \<Rightarrow>
            s\<lparr>sv_running := False, sv_ingress := (sv_ingress s)\<lparr>ig_mgr := mgr_cancel_all (ig_mgr (sv_ingress s))\<rparr>\<rparr>)"

definition server_run :: "server_cfg \<Rightarrow> (u64 \<times> bool \<times> poll) list \<Rightarrow> server \<Rightarrow> server" where
  "server_run cfg evs s = fold (server_step cfg) evs s"

section \<open>Every message goes where it is addressed\<close>

text \<open>What the sessions and the bridge should each see of the events.\<close>

definition for_sessions :: "server_cfg \<Rightarrow> (u64 \<times> bool \<times> poll) list \<Rightarrow> ingress_op list" where
  "for_sessions cfg evs =
     List.map_filter (\<lambda>(now, room, p). case p of
         IncomingPublish t c \<Rightarrow>
           if parse_satellite_topic (c_uuid (sc_codecs cfg)) (sc_root cfg) t \<noteq> None then Some (Incoming now room t c) else None
       | _ \<Rightarrow> None) evs"

definition for_bridge :: "server_cfg \<Rightarrow> (u64 \<times> bool \<times> poll) list \<Rightarrow> bridge_op list" where
  "for_bridge cfg evs =
     List.map_filter (\<lambda>(now, room, p). case (p, sc_assist cfg) of
         (IncomingPublish t c, Some pre) \<Rightarrow> if parse_transcription pre t \<noteq> None then Some (BrMessage t c) else None
       | _ \<Rightarrow> None) evs"

definition connections :: "(u64 \<times> bool \<times> poll) list \<Rightarrow> nat" where
  "connections evs = length (filter (\<lambda>(_, _, p). p = ConnAck) evs)"

lemma last_level_unique:
  assumes "xs @ CHR ''/'' # v = ys @ CHR ''/'' # d" "CHR ''/'' \<notin> set v" "CHR ''/'' \<notin> set d"
  shows "xs = ys \<and> v = d"
proof -
  have last: "takeWhile (\<lambda>c. c \<noteq> CHR ''/'') (rev (zs @ CHR ''/'' # w)) = rev w" if "CHR ''/'' \<notin> set w" for zs w
  proof -
    have "takeWhile (\<lambda>c. c \<noteq> CHR ''/'') (rev w @ CHR ''/'' # rev zs) = rev w @ takeWhile (\<lambda>c. c \<noteq> CHR ''/'') (CHR ''/'' # rev zs)"
      using that by (intro takeWhile_append2) auto
    then show ?thesis by simp
  qed
  have "rev v = rev d" using last [OF assms(2), of xs] last [OF assms(3), of ys] by (simp only: assms(1))
  then show ?thesis using assms(1) by simp
qed

text \<open>No message for a session can be taken for a question, whatever the two namespaces are.\<close>

lemma satellite_not_question:
  assumes "CHR ''/'' \<notin> set troot" "\<forall>s sid. puuid s = Some sid \<longrightarrow> CHR ''/'' \<notin> set s" "puuid ''transcription'' = None"
    and "parse_satellite_topic puuid troot topic = Some p"
  shows "parse_transcription pre topic = None"
proof (rule ccontr)
  assume "parse_transcription pre topic \<noteq> None"
  then obtain d where d: "topic = pre @ ''/transcription/'' @ d" "CHR ''/'' \<notin> set d"
    by (auto simp: parse_transcription_iff)
  obtain u where u: "puuid u = Some (snd (topic_ids p))"
      "topic = troot @ ''/sat/'' @ fst (topic_ids p) @ ''/session/'' @ u @ ''/'' @ verb_of p"
    using assms(4) parse_satellite_topic_iff [OF assms(1,2)] by blast
  have "CHR ''/'' \<notin> set (verb_of p)" by (cases p) (simp_all add: verb_of_def)
  with d u(2) have "troot @ ''/sat/'' @ fst (topic_ids p) @ ''/session/'' @ u = pre @ ''/transcription''"
    using last_level_unique [of "troot @ ''/sat/'' @ fst (topic_ids p) @ ''/session/'' @ u" "verb_of p" "pre @ ''/transcription''" d] by simp
  then have "(troot @ ''/sat/'' @ fst (topic_ids p) @ ''/session'') @ CHR ''/'' # u = pre @ CHR ''/'' # ''transcription''" by simp
  moreover have "CHR ''/'' \<notin> set u" using u(1) assms(2) by blast
  ultimately have "u = ''transcription''"
    using last_level_unique [of "troot @ ''/sat/'' @ fst (topic_ids p) @ ''/session''" u pre "''transcription''"] by simp
  then show False using u(1) assms(3) by simp
qed

lemma on_publish_split:
  assumes "CHR ''/'' \<notin> set (sc_root cfg)" "\<forall>s sid. c_uuid (sc_codecs cfg) s = Some sid \<longrightarrow> CHR ''/'' \<notin> set s"
    and "c_uuid (sc_codecs cfg) ''transcription'' = None"
  shows "on_publish_event cfg now room t c s
    = s\<lparr>sv_ingress := fold (ingress_step (sc_codecs cfg) (sc_root cfg)) (for_sessions cfg [(now, room, IncomingPublish t c)]) (sv_ingress s),
        sv_bridge := fold (bridge_step (c_json (sc_codecs cfg)) (case sc_assist cfg of None \<Rightarrow> [] | Some pre \<Rightarrow> pre))
          (for_bridge cfg [(now, room, IncomingPublish t c)]) (sv_bridge s)\<rparr>"
proof (cases "parse_satellite_topic (c_uuid (sc_codecs cfg)) (sc_root cfg) t")
  case None
  then show ?thesis
    by (cases "sc_assist cfg"; cases "parse_transcription (the (sc_assist cfg)) t")
       (simp_all add: on_publish_event_def for_sessions_def for_bridge_def map_filter_simps bridge_handle_def handle_publish_def split: option.split)
next
  case (Some p)
  have "parse_transcription pre t = None" for pre using satellite_not_question [OF assms Some] .
  then show ?thesis using Some
    by (cases "sc_assist cfg")
       (simp_all add: on_publish_event_def for_sessions_def for_bridge_def map_filter_simps bridge_handle_def)
qed

lemma for_Cons:
  "for_sessions cfg (e # evs) = for_sessions cfg [e] @ for_sessions cfg evs"
  "for_bridge cfg (e # evs) = for_bridge cfg [e] @ for_bridge cfg evs"
  by (simp_all add: for_sessions_def for_bridge_def List.map_filter_def)

lemma server_run_stopped: "\<not> sv_running s \<Longrightarrow> server_run cfg evs s = s"
  by (induction evs) (auto simp: server_run_def)

text \<open>C27: every message goes exactly where it is addressed: until the shutdown the sessions see precisely the messages
  on session topics and the bridge precisely the questions on its own, each in order, whatever namespaces the two are
  given and however messages, connections and failures interleave; every connection subscribes to both, and the
  shutdown cancels every session and is the last thing that happens.\<close>

theorem messages_go_where_addressed:
  assumes "CHR ''/'' \<notin> set (sc_root cfg)" "\<forall>s sid. c_uuid (sc_codecs cfg) s = Some sid \<longrightarrow> CHR ''/'' \<notin> set s"
    and "c_uuid (sc_codecs cfg) ''transcription'' = None"
    and "served = takeWhile (\<lambda>(_, _, p). p \<noteq> ShutdownSeen) evs"
  shows "(let s = server_run cfg evs server_new;
              w = fold (ingress_step (sc_codecs cfg) (sc_root cfg)) (for_sessions cfg served) ingress_init in
      sv_ingress s = (if served = evs then w else w\<lparr>ig_mgr := mgr_cancel_all (ig_mgr w)\<rparr>)
      \<and> sv_bridge s = fold (bridge_step (c_json (sc_codecs cfg)) (case sc_assist cfg of None \<Rightarrow> [] | Some pre \<Rightarrow> pre))
            (for_bridge cfg served) bridge_new
      \<and> sv_requests s = concat (replicate (connections served)
            (resubscribe (sc_root cfg) (map_option transcription_wildcard (sc_assist cfg)))))"
proof -
  let ?in = "\<lambda>evs. fold (ingress_step (sc_codecs cfg) (sc_root cfg)) (for_sessions cfg evs)"
  let ?br = "\<lambda>evs. fold (bridge_step (c_json (sc_codecs cfg)) (case sc_assist cfg of None \<Rightarrow> [] | Some pre \<Rightarrow> pre)) (for_bridge cfg evs)"
  let ?subs = "resubscribe (sc_root cfg) (map_option transcription_wildcard (sc_assist cfg))"
  let ?served = "takeWhile (\<lambda>(_, _, p). p \<noteq> ShutdownSeen)"
  have "server_run cfg evs s =
      (let w = ?in (?served evs) (sv_ingress s) in
       s\<lparr>sv_ingress := if ?served evs = evs then w else w\<lparr>ig_mgr := mgr_cancel_all (ig_mgr w)\<rparr>,
         sv_bridge := ?br (?served evs) (sv_bridge s),
         sv_requests := sv_requests s @ concat (replicate (connections (?served evs)) ?subs),
         sv_running := (?served evs = evs)\<rparr>)" if "sv_running s" for s
    using that
  proof (induction evs arbitrary: s)
    case Nil
    then show ?case by (simp add: server_run_def for_sessions_def for_bridge_def connections_def map_filter_simps Let_def)
  next
    case (Cons e evs)
    obtain now room p where e: "e = (now, room, p)" by (cases e)
    have run: "server_run cfg ((now, room, p) # evs) s = server_run cfg evs (server_step cfg (now, room, p) s)" for p s
      by (simp add: server_run_def)
    show ?case
    proof (cases p)
      case ShutdownSeen
      then show ?thesis
        using Cons.prems server_run_stopped [of "server_step cfg e s" cfg evs]
        by (simp add: run e for_sessions_def for_bridge_def connections_def map_filter_simps Let_def)
    next
      case (IncomingPublish t c)
      let ?s = "on_publish_event cfg now room t c s"
      note split = on_publish_split [OF assms(1-3), of now room t c s]
      have "sv_running ?s" using Cons.prems by (simp add: split)
      from Cons.IH [OF this] show ?thesis
        using Cons.prems
        by (simp add: run e IncomingPublish for_Cons [of cfg _ "?served evs"] split connections_def Let_def)
    next
      case ConnAck
      have "sv_running (server_step cfg e s)" using Cons.prems by (simp add: e ConnAck)
      from Cons.IH [OF this] show ?thesis
        using Cons.prems
        by (simp add: run e ConnAck for_Cons [of cfg _ "?served evs"] for_sessions_def [of cfg "[_]"] for_bridge_def [of cfg "[_]"]
            map_filter_simps connections_def Let_def)
    qed (use Cons in \<open>simp_all add: run e for_Cons [of cfg _ "?served evs"] for_sessions_def [of cfg "[_]"] for_bridge_def [of cfg "[_]"]
            map_filter_simps connections_def Let_def\<close>)
  qed
  from this [of server_new] show ?thesis by (simp add: server_new_def Let_def assms(4))
qed

theorem messages_go_where_addressed_witness:
  "let s = server_run \<lparr>sc_codecs = demo_codecs, sc_root = ''home'', sc_assist = Some ''home''\<rparr>
         [(1, True, ConnAck), (2, True, IncomingPublish ''home/transcription/tab1'' []), (3, True, ShutdownSeen)] server_new in
   sv_requests s = resubscribe ''home'' (Some (transcription_wildcard ''home'')) \<and> ig_spawned (sv_ingress s) = []"
proof -
  let ?cfg = "\<lparr>sc_codecs = demo_codecs, sc_root = ''home'', sc_assist = Some ''home''\<rparr>"
  let ?evs = "[(1, True, ConnAck), (2, True, IncomingPublish ''home/transcription/tab1'' []), (3, True, ShutdownSeen)] :: (u64 \<times> bool \<times> poll) list"
  let ?served = "[(1, True, ConnAck), (2, True, IncomingPublish ''home/transcription/tab1'' [])] :: (u64 \<times> bool \<times> poll) list"
  have uuid: "\<forall>s sid. c_uuid (sc_codecs ?cfg) s = Some sid \<longrightarrow> CHR ''/'' \<notin> set s" "c_uuid (sc_codecs ?cfg) ''transcription'' = None"
    by (auto simp: demo_codecs_def split: if_splits)
  have served: "?served = takeWhile (\<lambda>(_, _, p). p \<noteq> ShutdownSeen) ?evs" by simp
  have "parse_satellite_topic (c_uuid demo_codecs) ''home'' ''home/transcription/tab1'' = None"
    by (simp add: parse_satellite_topic_def Let_def)
  then have none: "for_sessions ?cfg ?served = []" by (simp add: for_sessions_def map_filter_simps)
  show ?thesis
    using messages_go_where_addressed [OF _ uuid served] none
    by (simp add: Let_def connections_def ingress_init_def)
qed

section \<open>The dispatcher's mailbox\<close>

text \<open>What becomes of a request: it is not taken because the task is gone, it is never served or asked for no reply, or it is
  answered.\<close>

datatype fate = NotTaken | Unanswered | Answered "skill_error + skill_response"

definition dispatcher_send :: "fate \<Rightarrow> skill_error + unit" where
  "dispatcher_send f = (case f of NotTaken \<Rightarrow> Inl (Custom ''Dispatch failed'') | _ \<Rightarrow> Inr ())"

definition dispatcher_call :: "fate \<Rightarrow> skill_error + skill_response" where
  "dispatcher_call f =
     (case f of
        NotTaken \<Rightarrow> Inl (Custom ''skill dispatcher shut down'')
      | Unanswered \<Rightarrow> Inl (Custom ''skill dispatcher dropped reply'')
      | Answered r \<Rightarrow> r)"

definition mailbox_size :: nat where "mailbox_size = 64"

record 'p mailbox =
  mb_queue :: "dispatch_request list"
  mb_alive :: bool
  mb_registry :: "'p registry"
  mb_events :: "event list"
  mb_sent :: "dispatch_request list"
  mb_fates :: "(dispatch_request \<times> fate) list"

text \<open>A send to a full mailbox waits and is tried again; serving brings the time and the reason of a task the runtime
  never ran.\<close>

datatype mailbox_op = MbSend dispatch_request | MbServe u64 "string option" | MbCancel

definition fate_of :: "(skill_error + skill_response) option \<Rightarrow> fate" where
  "fate_of a = (case a of None \<Rightarrow> Unanswered | Some r \<Rightarrow> Answered r)"

fun mailbox_step :: "'p plugin_ops \<Rightarrow> mailbox_op \<Rightarrow> 'p mailbox \<Rightarrow> 'p mailbox" where
  "mailbox_step ops (MbSend req) m =
     (if \<not> mb_alive m then m\<lparr>mb_sent := mb_sent m @ [req], mb_fates := mb_fates m @ [(req, NotTaken)]\<rparr>
      else if length (mb_queue m) < mailbox_size then m\<lparr>mb_sent := mb_sent m @ [req], mb_queue := mb_queue m @ [req]\<rparr>
      else m)"
| "mailbox_step ops (MbServe now aborted) m =
     (case mb_queue m of
        [] \<Rightarrow> m
      | req # q \<Rightarrow>
          (if \<not> mb_alive m then m
           else case handle_one ops now aborted req (mb_registry m) of
             (evs, reply, _, r) \<Rightarrow>
               m\<lparr>mb_queue := q, mb_registry := r, mb_events := mb_events m @ evs, mb_fates := mb_fates m @ [(req, fate_of reply)]\<rparr>))"
| "mailbox_step ops MbCancel m =
     m\<lparr>mb_alive := False, mb_queue := [], mb_fates := mb_fates m @ map (\<lambda>req. (req, Unanswered)) (mb_queue m)\<rparr>"

text \<open>Each request sent has exactly one fate or is still waiting, in the order sent.\<close>

theorem mailbox_accounts:
  assumes "mb_sent m = map fst (mb_fates m) @ mb_queue m" "mb_alive m \<or> mb_queue m = []" "length (mb_queue m) \<le> mailbox_size"
  shows "(let r = fold (mailbox_step ops) acts m in
      mb_sent r = map fst (mb_fates r) @ mb_queue r \<and> (mb_alive r \<or> mb_queue r = []) \<and> length (mb_queue r) \<le> mailbox_size)"
  using assms
proof (induction acts arbitrary: m)
  case (Cons a acts)
  let ?m = "mailbox_step ops a m"
  have "mb_sent ?m = map fst (mb_fates ?m) @ mb_queue ?m \<and> (mb_alive ?m \<or> mb_queue ?m = []) \<and> length (mb_queue ?m) \<le> mailbox_size"
    using Cons.prems by (cases a) (auto simp: comp_def split: list.splits prod.splits)
  then show ?case using Cons.IH [of ?m] by simp
qed simp

end
