(* ===== verification/Workers.thy ===== *)
theory Workers
  imports Synthesizer Transcriber Admin
begin

text \<open>
  The two speech workers as processes (\<open>main\<close> and \<open>serve\<close> of \<open>crates/athena-voice-tts-worker\<close> and
  \<open>crates/athena-voice-stt-worker\<close>): the checks before any MQTT traffic, and the event loop, which subscribes
  on every connection and takes the messages of its request topic. The synthesis worker runs each request as a
  task of its own, so what it publishes is an interleaving of its requests' replies; the recognition worker
  takes one message at a time. What the file system and the commands answer is a record of probes.
\<close>

section \<open>Start-up\<close>

record worker_probe =
  wp_runs :: "string \<Rightarrow> string \<Rightarrow> bool"
  wp_is_file :: "string \<Rightarrow> bool"
  wp_exists :: "string \<Rightarrow> bool"
  wp_size :: "string \<Rightarrow> u64 option"

text \<open>\<open>Path::with_extension\<close>: the last component's extension is replaced; a path without a file name stays.\<close>

definition with_extension :: "string \<Rightarrow> string \<Rightarrow> string" where
  "with_extension ext path =
     (let name = rev (takeWhile (\<lambda>c. c \<noteq> CHR ''/'') (rev path)); dir = take (length path - length name) path
      in if name = [] \<or> name = ''..'' then path else dir @ fst (split_ext name) @ ''.'' @ ext)"

datatype engine_choice = ChooseSay | ChoosePiper

record tts_args =
  ta_host :: string
  ta_port :: "16 word"
  ta_topic_root :: string
  ta_name :: string
  ta_engine :: engine_choice
  ta_voice :: string
  ta_piper_bin :: string
  ta_piper_model :: "string option"
  ta_rate :: u32
  ta_chunk_ms :: u32

definition tts_default_args :: tts_args where
  "tts_default_args = \<lparr>ta_host = ''127.0.0.1'', ta_port = 1883, ta_topic_root = ''athena'', ta_name = ''say'', ta_engine = ChooseSay, ta_voice = ''Thomas'',
     ta_piper_bin = ''piper'', ta_piper_model = None, ta_rate = 22050, ta_chunk_ms = 200\<rparr>"

datatype tts_refusal =
    SayNotFound
  | ModelUnset
  | ModelMissing string
  | ModelConfigMissing string
  | PiperNotRunnable string
  | SmokeFailed
  | SmokeSilent

definition piper_start :: "worker_probe \<Rightarrow> 'f speech_cmds \<Rightarrow> tts_args \<Rightarrow> tts_refusal + engine_config" where
  "piper_start wp cmds args =
     (case ta_piper_model args of
        None \<Rightarrow> Inl ModelUnset
      | Some model \<Rightarrow>
          (let config = with_extension ''onnx.json'' model; bin = ta_piper_bin args; cfg = PiperEngine bin model in
           if \<not> wp_is_file wp model then Inl (ModelMissing model)
           else if \<not> wp_is_file wp config then Inl (ModelConfigMissing config)
           else if \<not> wp_runs wp bin ''--help'' then Inl (PiperNotRunnable bin)
           else case synthesize cmds cfg ''test'' ''fr'' of
               None \<Rightarrow> Inl SmokeFailed
             | Some (samples, rate) \<Rightarrow> if samples = [] then Inl SmokeSilent else Inr cfg))"

definition tts_start :: "worker_probe \<Rightarrow> 'f speech_cmds \<Rightarrow> tts_args \<Rightarrow> tts_refusal + engine_config" where
  "tts_start wp cmds args =
     (case ta_engine args of
        ChooseSay \<Rightarrow> if \<not> wp_runs wp ''say'' ''--version'' then Inl SayNotFound else Inr (SayEngine (ta_voice args) (ta_rate args))
      | ChoosePiper \<Rightarrow> piper_start wp cmds args)"

record stt_args =
  wa_host :: string
  wa_port :: "16 word"
  wa_topic_root :: string
  wa_name :: string
  wa_whisper_bin :: string
  wa_model :: string
  wa_rate :: u32

definition stt_default_args :: stt_args where
  "stt_default_args = \<lparr>wa_host = ''127.0.0.1'', wa_port = 1883, wa_topic_root = ''athena'', wa_name = ''whisper'',
     wa_whisper_bin = ''./whisper.cpp/build/bin/whisper-cli'', wa_model = ''./models/ggml-small.bin'', wa_rate = 16000\<rparr>"

datatype stt_refusal = WhisperMissing string | NotAModel string u64

definition stt_launch :: "worker_probe \<Rightarrow> stt_args \<Rightarrow> stt_refusal option" where
  "stt_launch wp args =
     (if \<not> wp_exists wp (wa_whisper_bin args) then Some (WhisperMissing (wa_whisper_bin args))
      else let model_size = (case wp_size wp (wa_model args) of Some n \<Rightarrow> n | None \<Rightarrow> 0) in
           if \<not> model_size > 1000000 then Some (NotAModel (wa_model args) model_size) else None)"

section \<open>The event loop\<close>

datatype mq_event = MqConnAck | MqPublish string "byte list" | MqOther | MqError
datatype 'o worker_out = Subscribed string | Handled 'o

text \<open>One event, and a run; a failed poll is retried, a failed subscription only logged.\<close>

definition worker_step ::
  "string \<Rightarrow> (nat \<Rightarrow> byte list \<Rightarrow> 's \<Rightarrow> 's \<times> 'o) \<Rightarrow> nat \<times> mq_event \<Rightarrow> 's \<Rightarrow> 's \<times> 'o worker_out list" where
  "worker_step request_topic handle ev s =
     (case ev of
        (now, MqPublish topic payload) \<Rightarrow>
          if topic = request_topic then (let (s1, r) = handle now payload s in (s1, [Handled r])) else (s, [])
      | (_, MqConnAck) \<Rightarrow> (s, [Subscribed request_topic])
      | (_, MqOther) \<Rightarrow> (s, [])
      | (_, MqError) \<Rightarrow> (s, []))"

fun worker_loop ::
  "string \<Rightarrow> (nat \<Rightarrow> byte list \<Rightarrow> 's \<Rightarrow> 's \<times> 'o) \<Rightarrow> (nat \<times> mq_event) list \<Rightarrow> 's \<Rightarrow> 's \<times> 'o worker_out list" where
  "worker_loop request_topic handle [] s = (s, [])"
| "worker_loop request_topic handle (ev # evs) s =
     (let (s1, out) = worker_step request_topic handle ev s; (s2, outs) = worker_loop request_topic handle evs s1
      in (s2, out @ outs))"

text \<open>Synthesis: the loop only spawns; the reply of a task is what its request publishes, nothing on an error.\<close>

definition tts_spawn :: "wire \<Rightarrow> 'f speech_cmds \<Rightarrow> engine_config \<Rightarrow> u32 \<Rightarrow> nat \<Rightarrow> byte list \<Rightarrow> unit \<Rightarrow> unit \<times> byte list list" where
  "tts_spawn w cmds engine chunk_ms now payload u =
     (u, case handle_tts_request w cmds engine chunk_ms payload of None \<Rightarrow> [] | Some out \<Rightarrow> out)"

definition tts_serve ::
  "wire \<Rightarrow> 'f speech_cmds \<Rightarrow> tts_args \<Rightarrow> engine_config \<Rightarrow> (nat \<times> mq_event) list \<Rightarrow> byte list list worker_out list" where
  "tts_serve w cmds args engine evs =
     snd (worker_loop (fst (tts_topics (ta_topic_root args) (ta_name args))) (tts_spawn w cmds engine (ta_chunk_ms args)) evs ())"

definition stt_request_topic :: "stt_args \<Rightarrow> string" where
  "stt_request_topic args = wa_topic_root args @ ''/providers/stt/'' @ wa_name args @ ''/request''"

definition stt_serve ::
  "wire \<Rightarrow> recognizer \<Rightarrow> stt_args \<Rightarrow> (nat \<times> mq_event) list \<Rightarrow> buffers \<times> byte list list worker_out list" where
  "stt_serve w rc args evs =
     worker_loop (stt_request_topic args) (handle_message w rc (wa_rate args)) evs (\<lambda>_. None)"

section \<open>A worker that started can work\<close>

text \<open>A \<open>piper\<close> worker that starts has a voice and its configuration on disk and has spoken a word; the \<open>say\<close>
  worker only knows that its command runs.\<close>

lemma tts_start_iff:
  "tts_start wp cmds args = Inr engine \<longleftrightarrow>
     (ta_engine args = ChooseSay \<and> wp_runs wp ''say'' ''--version'' \<and> engine = SayEngine (ta_voice args) (ta_rate args))
     \<or> (ta_engine args = ChoosePiper
        \<and> (\<exists>model samples rate. ta_piper_model args = Some model \<and> engine = PiperEngine (ta_piper_bin args) model
             \<and> wp_is_file wp model \<and> wp_is_file wp (with_extension ''onnx.json'' model) \<and> wp_runs wp (ta_piper_bin args) ''--help''
             \<and> synthesize cmds engine ''test'' ''fr'' = Some (samples, rate) \<and> samples \<noteq> []))"
  by (cases "ta_engine args"; cases "ta_piper_model args"; cases "synthesize cmds (PiperEngine (ta_piper_bin args) (the (ta_piper_model args))) ''test'' ''fr''")
     (auto simp: tts_start_def piper_start_def Let_def split: if_splits)

lemma onnx_config_beside_model: "with_extension ''onnx.json'' ''voices/fr.onnx'' = ''voices/fr.onnx.json''"
  by code_simp

lemma stt_launch_iff:
  "stt_launch wp args = None \<longleftrightarrow>
     wp_exists wp (wa_whisper_bin args) \<and> (\<exists>n. wp_size wp (wa_model args) = Some n \<and> 1000000 < n)"
  by (auto simp: stt_launch_def Let_def split: option.splits)

section \<open>The loop serves its topic\<close>

definition topic_messages :: "string \<Rightarrow> (nat \<times> mq_event) list \<Rightarrow> (nat \<times> byte list) list" where
  "topic_messages rt evs =
     List.map_filter (\<lambda>(now, ev). case ev of MqPublish t p \<Rightarrow> if t = rt then Some (now, p) else None | _ \<Rightarrow> None) evs"

definition handled :: "'o worker_out list \<Rightarrow> 'o list" where
  "handled outs = List.map_filter (\<lambda>x. case x of Handled r \<Rightarrow> Some r | Subscribed _ \<Rightarrow> None) outs"

definition worker_subscriptions :: "'o worker_out list \<Rightarrow> string list" where
  "worker_subscriptions outs = List.map_filter (\<lambda>x. case x of Subscribed t \<Rightarrow> Some t | Handled _ \<Rightarrow> None) outs"

fun handle_all :: "(nat \<Rightarrow> byte list \<Rightarrow> 's \<Rightarrow> 's \<times> 'o) \<Rightarrow> (nat \<times> byte list) list \<Rightarrow> 's \<Rightarrow> 's \<times> 'o list" where
  "handle_all h [] s = (s, [])"
| "handle_all h ((now, p) # ms) s = (let (s1, r) = h now p s; (s2, rs) = handle_all h ms s1 in (s2, r # rs))"

lemmas out_simps = handled_def worker_subscriptions_def topic_messages_def List.map_filter_simps

text \<open>Every connection is followed by a subscription, and the handler sees exactly the messages on the topic.\<close>

lemma worker_loop_serves:
  "fst (worker_loop rt h evs s) = fst (handle_all h (topic_messages rt evs) s)
   \<and> handled (snd (worker_loop rt h evs s)) = snd (handle_all h (topic_messages rt evs) s)
   \<and> worker_subscriptions (snd (worker_loop rt h evs s)) = replicate (length (filter (\<lambda>ev. snd ev = MqConnAck) evs)) rt"
proof (induction evs arbitrary: s)
  case (Cons ev evs)
  obtain now e where ev: "ev = (now, e)" by fastforce
  show ?case
  proof (cases e)
    case (MqPublish t p)
    then show ?thesis using Cons by (auto simp: ev worker_step_def out_simps Let_def split_beta)
  qed (use Cons in \<open>auto simp: ev worker_step_def out_simps Let_def split_beta\<close>)
qed (simp add: out_simps)

lemma handle_all_run:
  "fst (handle_all (handle_message w rc rate) ms ss) = fst (worker_run w rc rate ms ss)
   \<and> concat (snd (handle_all (handle_message w rc rate) ms ss)) = snd (worker_run w rc rate ms ss)"
  by (induction ms arbitrary: ss) (auto simp: Let_def split_beta)

text \<open>The recognition worker is its message handler over the messages of its topic.\<close>

lemma stt_serve_run:
  "fst (stt_serve w rc args evs) = fst (worker_run w rc (wa_rate args) (topic_messages (stt_request_topic args) evs) (\<lambda>_. None))
   \<and> concat (handled (snd (stt_serve w rc args evs)))
       = snd (worker_run w rc (wa_rate args) (topic_messages (stt_request_topic args) evs) (\<lambda>_. None))"
  using worker_loop_serves [of "stt_request_topic args" "handle_message w rc (wa_rate args)" evs "\<lambda>_. None"]
    handle_all_run [of w rc "wa_rate args" "topic_messages (stt_request_topic args) evs" "\<lambda>_. None"]
  unfolding stt_serve_def by simp

section \<open>Concurrent requests\<close>

fun interleavings :: "'a list list \<Rightarrow> 'a list set" where
  "interleavings [] = {[]}"
| "interleavings (xs # xss) = (\<Union>ys \<in> interleavings xss. shuffles xs ys)"

lemma filter_interleavings: "z \<in> interleavings xss \<Longrightarrow> filter P z \<in> interleavings (map (filter P) xss)"
proof (induction xss arbitrary: z)
  case (Cons xs xss)
  then obtain ys where "ys \<in> interleavings xss" "z \<in> shuffles xs ys" by auto
  moreover have "filter P z \<in> shuffles (filter P xs) (filter P ys)"
    using \<open>z \<in> shuffles xs ys\<close> filter_shuffles [of P xs ys] by blast
  ultimately show ?case using Cons.IH by auto
qed simp

lemma interleavings_Nil: "\<forall>xs \<in> set xss. xs = [] \<Longrightarrow> interleavings xss = {[]}"
  by (induction xss) auto

lemma interleavings_only:
  "\<forall>xs \<in> set (xss @ yss). xs = [] \<Longrightarrow> interleavings (xss @ xs # yss) = {xs}"
  by (induction xss) (auto simp: interleavings_Nil)

lemma handle_all_spawn:
  "snd (handle_all (tts_spawn w cmds engine ms) reqs u)
     = map (\<lambda>(now, p). case handle_tts_request w cmds engine ms p of None \<Rightarrow> [] | Some out \<Rightarrow> out) reqs"
  by (induction reqs arbitrary: u) (auto simp: tts_spawn_def Let_def split_beta)

text \<open>Requests of different sessions do not disturb each other: however the tasks interleave, what is published
  for a session is exactly its own request's replies, in order.\<close>

lemma requests_do_not_mix:
  assumes "wire_ok w" "distinct (map fst reqs)" "(sid, loc, txt) \<in> set reqs" "synthesize cmds engine txt loc = Some (samples, rate)"
    and "map snd (topic_messages (fst (tts_topics (ta_topic_root args) (ta_name args))) evs)
           = map (\<lambda>(sid, loc, txt). tts_request w sid loc txt) reqs"
    and "z \<in> interleavings (handled (tts_serve w cmds args engine evs))"
  shows "filter (\<lambda>p. extract_session w p = Some sid) z
    = tts_replies w (w_uuid_text w sid) rate False (chunks_of (samples_per_chunk rate (ta_chunk_ms args)) samples)"
proof -
  let ?P = "\<lambda>p. extract_session w p = Some sid"
  let ?ans = "\<lambda>(s, l, t). case synthesize cmds engine t l of None \<Rightarrow> []
    | Some (samples, rate) \<Rightarrow> tts_replies w (w_uuid_text w s) rate False (chunks_of (samples_per_chunk rate (ta_chunk_ms args)) samples)"
  have "handled (tts_serve w cmds args engine evs)
      = map (\<lambda>p. case handle_tts_request w cmds engine (ta_chunk_ms args) p of None \<Rightarrow> [] | Some out \<Rightarrow> out)
          (map snd (topic_messages (fst (tts_topics (ta_topic_root args) (ta_name args))) evs))"
    using worker_loop_serves [of "fst (tts_topics (ta_topic_root args) (ta_name args))" "tts_spawn w cmds engine (ta_chunk_ms args)" evs "()"]
    by (auto simp: tts_serve_def handle_all_spawn)
  also have "\<dots> = map ?ans reqs"
    unfolding assms(5) by (auto simp: tts_request_reads [OF assms(1)] split: option.split)
  finally have out: "handled (tts_serve w cmds args engine evs) = map ?ans reqs" .
  have mine: "filter ?P (?ans (s, l, t)) = (if s = sid then ?ans (s, l, t) else [])" for s l t
    using tts_replies_session [OF assms(1)] by (auto simp: filter_id_conv filter_empty_conv split: option.split)
  obtain xs ys where sp: "reqs = xs @ (sid, loc, txt) # ys" using assms(3) by (metis split_list)
  have others: "\<forall>r \<in> set (xs @ ys). fst r \<noteq> sid" using assms(2) by (force simp: sp)
  have "filter ?P z \<in> interleavings (map (filter ?P) (map ?ans reqs))"
    using filter_interleavings assms(6) unfolding out by blast
  also have "map (filter ?P) (map ?ans reqs)
      = map (\<lambda>r. filter ?P (?ans r)) xs @ ?ans (sid, loc, txt) # map (\<lambda>r. filter ?P (?ans r)) ys"
    using mine [of sid loc "txt"] by (simp add: sp)
  also have "interleavings \<dots> = {?ans (sid, loc, txt)}"
  proof (rule interleavings_only, rule ballI)
    fix fs assume "fs \<in> set (map (\<lambda>r. filter ?P (?ans r)) xs @ map (\<lambda>r. filter ?P (?ans r)) ys)"
    then obtain r where r: "fs = filter ?P (?ans r)" "fst r \<noteq> sid" using others by auto
    then show "fs = []" using mine [of "fst r" "fst (snd r)" "snd (snd r)"] by simp
  qed
  finally show ?thesis using assms(4) by simp
qed

end
