(* ===== verification/Probes.thy ===== *)
theory Probes
  imports Skills Jeedom Satellite_Session
begin

text \<open>
  The small skills the runtime's own tests load (\<open>skills-smoke-test\<close>, \<open>skills-tmp-test\<close>, \<open>skills-audio-test\<close>),
  over the same host calls as the bundled ones, and \<open>IniSlice\<close> of the SDK's \<open>host.rs\<close>, which the audio test reads
  its configuration through. The INI parser, UTF-8 decoding, Rust's debug printing of a text, the sine of the test
  tone and the bit pattern of a float are parameters.
\<close>

section \<open>Temporary storage\<close>

definition tmp_test_rules :: "string \<Rightarrow> pattern_rule list" where
  "tmp_test_rules loc = [sdk_rule ''tmp.test'' [''test tmp {key} {value}''] [string_slot ''key'', string_slot ''value'']]"

definition tmp_test_handle :: "'u host_ctx \<Rightarrow> intent \<Rightarrow> (('u, 'm) guest, skill_error + skill_response) state" where
  "tmp_test_handle hc i =
     (let key = slot_text i ''key''; val = slot_text i ''value'' in do {
        r \<leftarrow> ctx_tmp_set hc key (bytes_of val) 2;
        case r of
          Inl e \<Rightarrow> ret (Inl e)
        | Inr _ \<Rightarrow> do {
            g \<leftarrow> ctx_tmp_get hc key;
            ret (case g of
                   Inl e \<Rightarrow> Inl e
                 | Inr stored \<Rightarrow> if stored = Some (bytes_of val) then say ''found'' else say ''not found'') } })"

section \<open>Configuration\<close>

record ini_fns =
  ini_utf8 :: "byte list \<Rightarrow> string option"
  ini_read :: "string \<Rightarrow> (string \<Rightarrow> (string \<Rightarrow> string option option) option) option"
  ini_lower :: "string \<Rightarrow> string"

definition ini_section :: "ini_fns \<Rightarrow> byte list \<Rightarrow> string \<Rightarrow> (string \<Rightarrow> string option option) option" where
  "ini_section fns data sec =
     Option.bind (ini_utf8 fns data) (\<lambda>txt. Option.bind (ini_read fns txt) (\<lambda>m. m (ini_lower fns sec)))"

definition audio_test_rules :: "string \<Rightarrow> pattern_rule list" where
  "audio_test_rules loc = [sdk_rule ''audio.test'' [''test config''] []]"

definition audio_test_handle ::
  "ini_fns \<Rightarrow> (string option \<Rightarrow> string) \<Rightarrow> 'u host_ctx \<Rightarrow> intent \<Rightarrow> (('u, 'm) guest, skill_error + skill_response) state" where
  "audio_test_handle fns dbg hc i = do {
     r \<leftarrow> config_get hc;
     ret (case r of
            Inl e \<Rightarrow> Inl e
          | Inr None \<Rightarrow> say ''No config''
          | Inr (Some data) \<Rightarrow>
              (let speed = Option.bind (ini_section fns data ''audio'') (\<lambda>s. Option.bind (s ''speed'') id)
               in say (''Speed: '' @ dbg speed))) }"

section \<open>The smoke test\<close>

definition speak_time_fr :: "int \<Rightarrow> int \<Rightarrow> string" where
  "speak_time_fr hour minute =
     (let h = (if hour = 0 then ''minuit'' else if hour = 12 then ''midi'' else show_int hour @ '' heures'')
      in if minute = 0 then ''il est '' @ h else ''il est '' @ h @ '' '' @ show_int minute)"

definition pad2 :: "int \<Rightarrow> string" where
  "pad2 n = (if n < 10 then ''0'' else []) @ show_int n"

definition speak_time_en :: "int \<Rightarrow> int \<Rightarrow> string" where
  "speak_time_en hour minute =
     (let (h12, suf) =
        (if hour = 0 then (12, ''AM'') else if hour \<le> 11 then (hour, ''AM'')
         else if hour = 12 then (12, ''PM'') else (hour - 12, ''PM''))
      in if minute = 0 then ''it is '' @ show_int h12 @ '' '' @ suf
         else ''it is '' @ show_int h12 @ '':'' @ pad2 minute @ '' '' @ suf)"

definition time_rules :: "string \<Rightarrow> pattern_rule list" where
  "time_rules loc =
     (if loc = ''fr'' then [sdk_rule ''time.query'' [''quelle heure est-il'', ''il est quelle heure''] []]
      else if loc = ''en'' then [sdk_rule ''time.query'' [''what time is it'', ''what'' @ apos @ ''s the time''] []]
      else [])"

definition time_handle :: "'u host_ctx \<Rightarrow> intent \<Rightarrow> (('u, 'm) guest, skill_error + skill_response) state" where
  "time_handle hc i = do {
     r \<leftarrow> local_time hc;
     ret (case r of
            Inl e \<Rightarrow> Inl e
          | Inr t \<Rightarrow>
              say (if prefix ''en'' (i_locale i) then speak_time_en (local_hour t) (local_minute t)
                   else speak_time_fr (local_hour t) (local_minute t))) }"

definition audio_rules :: "pattern_rule list" where
  "audio_rules =
     [sdk_rule ''audio.play'' [''joue un son''] [],
      sdk_rule ''audio.volume'' [''mets le volume '' @ a_grave @ '' {percent}'', ''volume '' @ a_grave @ '' {percent}'']
        [\<lparr>ss_name = ''percent'', ss_kind = SkNumber\<rparr>]]"

text \<open>\<open>serde_json::Value::as_f64\<close> is \<open>None\<close> for a text. \<open>tone i\<close> is the i-th sample's bits; there are
  \<open>8000 * 0.05 = 400\<close> of them. \<open>SkillResponse::volume\<close> clamps once more.\<close>

definition as_f64 :: "json \<Rightarrow> rat option" where
  "as_f64 v = (case v of JNum n \<Rightarrow> Some (num_f64 n) | _ \<Rightarrow> None)"

definition audio_volume :: "intent \<Rightarrow> rat" where
  "audio_volume i =
     (let percent = (case Option.bind (map_of (i_slots i) ''percent'') as_f64 of Some p \<Rightarrow> p | None \<Rightarrow> 100)
      in clamp_volume (f32 (f64 (percent / 100))))"

definition audio_handle :: "(nat \<Rightarrow> u32) \<Rightarrow> (rat \<Rightarrow> u32) \<Rightarrow> intent \<Rightarrow> skill_error + skill_response" where
  "audio_handle tone bits i =
     (if i_name i = ''audio.play'' then Inr (SampledPcm 8000 (map tone [0..<400]))
      else if i_name i = ''audio.volume'' then Inr (Volume (bits (clamp_volume (audio_volume i))))
      else Inl (Custom (''unknown audio intent '' @ i_name i)))"

definition smoke_rules :: "string \<Rightarrow> pattern_rule list" where
  "smoke_rules loc = time_rules loc @ (if loc = ''fr'' then audio_rules else [])"

definition smoke_handle ::
  "(nat \<Rightarrow> u32) \<Rightarrow> (rat \<Rightarrow> u32) \<Rightarrow> 'u host_ctx \<Rightarrow> intent \<Rightarrow> (('u, 'm) guest, skill_error + skill_response) state" where
  "smoke_handle tone bits hc i = do {
     result \<leftarrow> (if i_name i = ''time.query'' then time_handle hc i
        else if i_name i = ''audio.play'' \<or> i_name i = ''audio.volume'' then ret (audio_handle tone bits i)
        else ret (Inl (Custom (''unknown intent '' @ i_name i))));
     case result of
       Inl e \<Rightarrow> ret (Inl e)
     | Inr resp \<Rightarrow> do {
         r \<leftarrow> state_set hc ''last_intent'' (bytes_of (i_name i));
         ret (case r of Inl e \<Rightarrow> Inl e | Inr _ \<Rightarrow> Inr resp) } }"

section \<open>What the probes find\<close>

text \<open>A value is found again unless it is empty: the SDK reads an empty answer as no value.\<close>

lemma tmp_test_finds:
  assumes "val = slot_text i ''value''" "now = (\<lambda>n. e_now_sec (gs_env g (length (gs_trace g) + n)))"
    and "unat (now 0) + 2 < 2 ^ 64" "unat (now 1) < unat (now 0) + 2"
  shows "fst (run_state (tmp_test_handle hc i) g) = say (if val = [] then ''not found'' else ''found'')"
proof -
  have "unat (now 0 + 2) = unat (now 0) + 2" using assms(3) by (simp add: unat_add_lem [THEN iffD1])
  then have "\<not> now 0 + 2 \<le> now 1" using assms(4) by (simp add: word_le_nat_alt)
  then have "fst (tmp_get (now 1) (hc_skill_name hc) (slot_text i ''key'')
      (tmp_set (now 0) (hc_skill_name hc) (slot_text i ''key'') (bytes_of val) 2 m)) = Some (bytes_of val)" for m
    by (simp add: tmp_get_def tmp_set_def update_conv')
  then show ?thesis
    unfolding assms(2)
    by (simp add: tmp_test_handle_def Let_def sdk_runs env_now_def host_tmp_set_def host_tmp_get_def ret_unit_def ret_bytes_def
        map_err_def non_empty_def assms(1) split_beta bytes_of_def)
qed

text \<open>The hour and minute the smoke test speaks are those of a clock.\<close>

lemma clock_range:
  "0 \<le> local_hour t \<and> local_hour t < 24 \<and> 0 \<le> local_minute t \<and> local_minute t < 60"
proof -
  have euclid: "x sdiv k = x div k" if "0 \<le> x" "0 < k" for x k :: int
    using that by (cases "x = 0") (simp_all add: signed_divide_int_def)
  have h: "0 \<le> b div 3600 \<and> b div 3600 < 24" if "0 \<le> b" "b < 86400" for b :: int
    using zdiv_mono1 [of b 86399 3600] that by (simp add: pos_imp_zdiv_nonneg_iff)
  have m: "0 \<le> b div 60 \<and> b div 60 < 60" if "0 \<le> b" "b < 3600" for b :: int
    using zdiv_mono1 [of b 3599 60] that by (simp add: pos_imp_zdiv_nonneg_iff)
  show ?thesis
    using h [of "local_secs t mod 86400"] m [of "local_secs t mod 3600"]
    by (simp add: local_hour_def local_minute_def euclid)
qed

text \<open>The matcher's slots are texts or nothing, also for a number slot, so the volume skill never reads a number:
  whatever percentage is spoken, it asks for the nominal volume.\<close>

lemma try_match_wf:
  assumes "try_match_phrase tf phrase rl input = Some m"
  shows "slots_wf input rl (i_slots (m_intent m))"
proof (cases "\<exists>lit. split_phrase phrase = [Literal lit]")
  case True
  then show ?thesis using assms by (auto simp: try_match_phrase_def match_literal_def mk_match_def Let_def slots_wf_def)
next
  case False
  then obtain w where w: "walk tf rl input (lower tf input) (split_phrase phrase) \<lparr>cursor = 0, w_slots = [], filled = []\<rparr> = Some w"
    and "i_slots (m_intent m) = w_slots w"
    using assms by (auto simp: try_match_phrase_def mk_match_def Let_def split: list.splits segment.splits option.splits)
  then show ?thesis using walk_slots [OF w] by (simp add: slots_wf_def)
qed

lemma find_match_wf:
  assumes "find_match tf text loc idx = Some m"
  shows "\<exists>rl. slots_wf text rl (i_slots (m_intent m))"
proof -
  have "m \<in> set (candidates tf text (entries idx loc))"
    using assms fold_pick_in(2) unfolding find_match_fold by blast
  then obtain e ph where "m \<in> set (phrase_candidates tf text e ph)" by (auto simp: candidates_def)
  then obtain c where "try_match_phrase tf ph (fst e) text = Some c" "m = c\<lparr>m_skill := snd e\<rparr>"
    by (cases "try_match_phrase tf ph (fst e) text") (auto simp: phrase_candidates_def split: if_splits)
  then have "try_match_phrase tf ph (fst e) text = Some c" "m_intent m = m_intent c" by simp_all
  then show ?thesis using try_match_wf by metis
qed

lemma find_match_slots:
  assumes "find_match tf text loc idx = Some m" "(k, v) \<in> set (i_slots (m_intent m))"
  shows "v = JNull \<or> (\<exists>s. v = JStr s)"
proof -
  obtain rl where "slots_wf text rl (i_slots (m_intent m))" using find_match_wf [OF assms(1)] by blast
  then have "slot_value_ok text rl (k, v)" using assms(2) unfolding slots_wf_def by blast
  then show ?thesis by (auto simp: slot_value_ok_def)
qed

lemma volume_ignores_the_number:
  assumes "find_match tf text loc idx = Some m"
  shows "audio_volume ((m_intent m)\<lparr>i_locale := l\<rparr>) = 1"
proof -
  have "Option.bind (map_of (i_slots (m_intent m)) ''percent'') as_f64 = None"
  proof (cases "map_of (i_slots (m_intent m)) ''percent''")
    case (Some v)
    then show ?thesis using find_match_slots [OF assms map_of_SomeD [OF Some]] by (auto simp: as_f64_def)
  qed simp
  moreover have "f32 (f64 1) = 1" by code_simp
  ultimately show ?thesis by (simp add: audio_volume_def clamp_volume_def)
qed

end
