(* ===== verification/Background.thy ===== *)
theory Background
  imports Server_Loop Admin
begin

text \<open>
  The tasks that run beside the sessions, and the outer shell of the admin server: the skill watcher and its reload
  task (\<open>wasm/watcher.rs\<close>, \<open>wasm/mod.rs\<close>), the reaper of idle sessions and the shutdown of the runtime
  (\<open>athena-voice-runtime/src/lib.rs\<close>), and the admin's route table and static pages
  (\<open>athena-voice-admin/src/lib.rs\<close>). The debouncing of file events, the clock's ticks and the matching of a path
  against one route pattern are those of the \<open>notify\<close>, \<open>tokio\<close> and \<open>axum\<close> libraries.
\<close>

section \<open>Hot reload\<close>

text \<open>A debounced batch: file events, each of a kind and about some paths, with what exists by then; or errors,
  which are logged.\<close>

type_synonym fs_event = "fs_kind \<times> (skill_file \<Rightarrow> bool) \<times> skill_file list"

definition watch_callback :: "string list + fs_event list \<Rightarrow> (skill_file \<times> watch_kind) list" where
  "watch_callback result =
     (case result of
        Inr batch \<Rightarrow> concat (map (\<lambda>(k, present, paths). classify k present paths) batch)
      | Inl _ \<Rightarrow> [])"

datatype reload_input = ReloadCancelled | Changed "skill_file \<times> watch_kind" | WatcherGone

fun reload_task ::
  "'p plugin_ops \<Rightarrow> rules_order \<Rightarrow> 'p builder \<Rightarrow> skill_deps \<Rightarrow> reload_input list \<Rightarrow> 'p registry \<Rightarrow> event list \<times> 'p registry" where
  "reload_task ops ord build deps [] r = ([], r)"
| "reload_task ops ord build deps (ReloadCancelled # is) r = ([], r)"
| "reload_task ops ord build deps (WatcherGone # is) r = ([], r)"
| "reload_task ops ord build deps (Changed ev # is) r =
     (let (evs, r1) = hot_reload ops ord build deps ev r; (evs2, r2) = reload_task ops ord build deps is r1
      in (evs @ evs2, r2))"

section \<open>The reaper\<close>

datatype reaper_input = ReaperCancelled | ReapTick u64

definition reap_interval_ms :: nat where "reap_interval_ms = 10000"

fun reaper :: "u64 \<Rightarrow> reaper_input list \<Rightarrow> session_manager \<Rightarrow> session_manager" where
  "reaper idle [] m = m"
| "reaper idle (ReaperCancelled # is) m = m"
| "reaper idle (ReapTick now # is) m = reaper idle is (snd (mgr_reap now idle m))"

section \<open>Shutdown\<close>

text \<open>The satellite task sees the token and finishes before the mirror is stopped.\<close>

record runtime_state =
  rt_shutdown :: bool
  rt_server :: server
  rt_mirror :: bool

definition runtime_shutdown :: "server_cfg \<Rightarrow> u64 \<Rightarrow> runtime_state \<Rightarrow> runtime_state" where
  "runtime_shutdown cfg now rt =
     (let rt1 = rt\<lparr>rt_shutdown := True\<rparr>; sv = rt_server rt1;
          rt2 = rt1\<lparr>rt_server := sv\<lparr>sv_ingress := (sv_ingress sv)\<lparr>ig_mgr := mgr_cancel_all (ig_mgr (sv_ingress sv))\<rparr>\<rparr>\<rparr>;
          rt3 = rt2\<lparr>rt_server := server_step cfg (now, False, ShutdownSeen) (rt_server rt2)\<rparr>
      in rt3\<lparr>rt_mirror := False\<rparr>)"

section \<open>The admin's routes\<close>

datatype http_method = GET | HEAD | PUT | POST | OtherMethod

text \<open>A \<open>GET\<close> route answers \<open>HEAD\<close> too.\<close>

definition method_ok :: "http_method \<Rightarrow> http_method \<Rightarrow> bool" where
  "method_ok mt m \<longleftrightarrow> m = mt \<or> mt = GET \<and> m = HEAD"

datatype endpoint =
    EpStatus | EpListSkills | EpPutConfig string | EpEnable string | EpDisable string
  | EpJeedomTest | EpJeedomDiscover | EpJeedomRead string | EpJeedomPhrases
  | EpTestCommand | EpUpload | EpListBundled | EpInstallBundled string
  | EpAsset

datatype seg_pattern = Lit string | Param

fun match_segs :: "seg_pattern list \<Rightarrow> string list \<Rightarrow> string list option" where
  "match_segs [] [] = Some []"
| "match_segs (Lit l # ps) (s # ss) = (if s = l then match_segs ps ss else None)"
| "match_segs (Param # ps) (s # ss) = (if s = [] then None else map_option (\<lambda>as. s # as) (match_segs ps ss))"
| "match_segs _ _ = None"

definition api_routes :: "(seg_pattern list \<times> http_method \<times> (string list \<Rightarrow> endpoint)) list" where
  "api_routes =
     [([Lit ''status''], GET, \<lambda>_. EpStatus),
      ([Lit ''skills''], GET, \<lambda>_. EpListSkills),
      ([Lit ''skills'', Param, Lit ''config''], PUT, \<lambda>as. EpPutConfig (hd as)),
      ([Lit ''skills'', Param, Lit ''enable''], POST, \<lambda>as. EpEnable (hd as)),
      ([Lit ''skills'', Param, Lit ''disable''], POST, \<lambda>as. EpDisable (hd as)),
      ([Lit ''skills'', Lit ''jeedom'', Lit ''test''], POST, \<lambda>_. EpJeedomTest),
      ([Lit ''skills'', Lit ''jeedom'', Lit ''discover''], POST, \<lambda>_. EpJeedomDiscover),
      ([Lit ''skills'', Lit ''jeedom'', Lit ''read'', Param], POST, \<lambda>as. EpJeedomRead (hd as)),
      ([Lit ''skills'', Lit ''jeedom'', Lit ''phrases''], GET, \<lambda>_. EpJeedomPhrases),
      ([Lit ''test-command''], POST, \<lambda>_. EpTestCommand),
      ([Lit ''skills'', Lit ''upload''], POST, \<lambda>_. EpUpload),
      ([Lit ''bundled''], GET, \<lambda>_. EpListBundled),
      ([Lit ''bundled'', Param, Lit ''install''], POST, \<lambda>as. EpInstallBundled (hd as))]"

text \<open>The nested router first, by the segments under \<open>/api\<close>; a path it does not know falls through to the
  asset handler, a known path with another method is refused.\<close>

datatype routed = To endpoint | MethodNotAllowed

definition admin_route :: "http_method \<Rightarrow> string list \<Rightarrow> routed" where
  "admin_route m segs =
     (let hits = (case segs of
          s # ss \<Rightarrow> if s = ''api'' then List.map_filter (\<lambda>(ps, mt, ep). map_option (\<lambda>as. (mt, ep as)) (match_segs ps ss)) api_routes else []
        | [] \<Rightarrow> [])
      in case hits of
           (mt, ep) # _ \<Rightarrow> if method_ok mt m then To ep else MethodNotAllowed
         | [] \<Rightarrow> if method_ok GET m then To EpAsset else MethodNotAllowed)"

datatype asset_response = AssetNotFound | Asset string "byte list"

definition mime_of :: "string \<Rightarrow> string" where
  "mime_of path =
     (let ext = last (split_on (CHR ''.'') path) in
      if ext = ''html'' then ''text/html; charset=utf-8''
      else if ext = ''js'' then ''text/javascript; charset=utf-8''
      else if ext = ''css'' then ''text/css; charset=utf-8''
      else ''application/octet-stream'')"

definition static_asset :: "(string \<Rightarrow> byte list option) \<Rightarrow> string \<Rightarrow> asset_response" where
  "static_asset assets uri_path =
     (let p = dropWhile (\<lambda>c. c = CHR ''/'') uri_path; path = (if p = [] then ''index.html'' else p)
      in case assets path of None \<Rightarrow> AssetNotFound | Some bs \<Rightarrow> Asset (mime_of path) bs)"

section \<open>What the tasks guarantee\<close>

text \<open>The rule index follows the directory's changes, whatever the watcher reports.\<close>

lemma reload_task_ok:
  "order_ok ord \<Longrightarrow> registry_ok r \<Longrightarrow> registry_ok (snd (reload_task ops ord build deps is r))"
proof (induction "is" arbitrary: r)
  case (Cons i "is")
  show ?case
  proof (cases i)
    case (Changed ev)
    then show ?thesis
      using Cons.IH [OF Cons.prems(1) watch_ok [OF Cons.prems(1,2)]] by (simp add: Let_def split_beta)
  qed (use Cons.prems in simp_all)
qed simp

lemma reload_task_append:
  "snd (reload_task ops ord build deps (map Changed es @ is) r)
     = snd (reload_task ops ord build deps is (snd (reload_task ops ord build deps (map Changed es) r)))"
  by (induction es arbitrary: r) (simp_all add: Let_def split_beta)

text \<open>A removed file's skill does not run on, and a file with another extension changes nothing.\<close>

lemma removed_file_unloads:
  assumes "sf_stem f = Some name" "sf_ext f = Some ''wasm''"
  shows "name \<notin> set (skill_names (snd (reload_task ops ord build deps
      (map Changed (es @ watch_callback (Inr [(FsRemove, present, [f])]))) r)))"
proof -
  have "name \<notin> set (skill_names (snd (remove_skill ord name r1)))" for r1 :: "'a registry"
  proof -
    have "map_of (plugins (snd (remove_skill ord name r1))) name = None"
      by (simp add: remove_skill_def Let_def rebuild_index_def delete_conv')
    then show ?thesis by (simp add: skill_names_def map_of_eq_None_iff)
  qed
  then show ?thesis
    using assms reload_task_append [of ops ord build deps es "[Changed (f, Removed)]" r]
    by (simp add: watch_callback_def classify_def Let_def)
qed

lemma other_files_ignored:
  "\<forall>f \<in> set paths. sf_ext f \<noteq> Some ''wasm'' \<Longrightarrow> watch_callback (Inr [(k, present, paths)]) = []"
  by (auto simp: watch_callback_def classify_def concat_eq_Nil_conv)

text \<open>Ticks every ten seconds close a silent session no later than ten seconds after its idle limit: at the
  first tick past the limit. A session heard of since is kept.\<close>

lemma reaper_closes:
  assumes "distinct (map fst (sm_map m))" "mgr_get sid m = Some st"
  shows "mgr_get sid (snd (mgr_reap now idle m)) = (if unat (ss_last st) + unat idle < unat now then None else Some st)"
proof -
  let ?idle = "\<lambda>(s :: session_id, st). unat (ss_last st) + unat idle < unat now"
  have st: "(sid, st) \<in> set (sm_map m)" using assms(2) by (auto simp: mgr_get_def dest: map_of_SomeD)
  have "snd (mgr_reap now idle m) = fold mgr_close (map fst (filter ?idle (sm_map m))) m"
    by (simp add: mgr_reap_def Let_def idle_iff)
  moreover have "mgr_get s (fold mgr_close sids n) = (if s \<in> set sids then None else mgr_get s n)" for s sids n
    by (induction sids arbitrary: n) auto
  moreover have "sid \<in> fst ` set (filter ?idle (sm_map m)) \<longleftrightarrow> ?idle (sid, st)"
    using assms(1) st by (force simp: distinct_map inj_on_def)
  ultimately show ?thesis using assms(2) by simp
qed

lemma reaper_deadline:
  assumes "distinct (map fst (sm_map m))" "mgr_get sid m = Some st" "unat (ss_last st) + unat idle < t + reap_interval_ms * n"
    and "t + reap_interval_ms * n < 2 ^ 64"
  shows "mgr_get sid (reaper idle (map (\<lambda>k. ReapTick (of_nat (t + reap_interval_ms * k))) [0..<Suc n]) m) = None"
proof -
  have gone: "mgr_get sid (reaper idle is m') = None" if "mgr_get sid m' = None" for "is" m'
  proof -
    have c: "mgr_get s (fold mgr_close sids n) = (if s \<in> set sids then None else mgr_get s n)" for s sids n
      by (induction sids arbitrary: n) auto
    show ?thesis using that
    proof (induction idle "is" m' rule: reaper.induct)
      case (3 idle now "is" m)
      then show ?case by (simp add: mgr_reap_def Let_def c)
    qed simp_all
  qed
  have keys: "distinct (map fst (sm_map (snd (mgr_reap now idle m'))))" if "distinct (map fst (sm_map m'))" for now m'
    using closes_kept that by (simp add: mgr_reap_def Let_def)
  have run: "mgr_get sid (reaper idle (map ReapTick (xs @ [now])) m') = None"
    if "distinct (map fst (sm_map m'))" "mgr_get sid m' = Some st" "unat (ss_last st) + unat idle < unat now" for xs now m'
    using that
  proof (induction xs arbitrary: m')
    case Nil
    then show ?case using reaper_closes [OF Nil(1,2)] by simp
  next
    case (Cons x xs)
    show ?case
      using Cons.IH [OF keys [OF Cons.prems(1)]] reaper_closes [OF Cons.prems(1,2), of x idle] gone Cons.prems(3)
      by (simp split: if_splits)
  qed
  have "unat (of_nat (t + reap_interval_ms * n) :: u64) = t + reap_interval_ms * n"
    using assms(4) by (simp add: unsigned_of_nat take_bit_nat_eq_self_iff del: of_nat_add of_nat_mult)
  then show ?thesis
    using run [OF assms(1,2), of "of_nat (t + reap_interval_ms * n)" "map (\<lambda>k. of_nat (t + reap_interval_ms * k)) [0..<n]"] assms(3)
    by (simp add: comp_def)
qed

text \<open>After a shutdown every session's token is cancelled and the event loop takes nothing more.\<close>

lemma shutdown_stops:
  "list_all (\<lambda>(sid, st). ss_cancelled st) (sm_map (ig_mgr (sv_ingress (rt_server (runtime_shutdown cfg now rt)))))
   \<and> \<not> sv_running (rt_server (runtime_shutdown cfg now rt))
   \<and> server_run cfg evs (rt_server (runtime_shutdown cfg now rt)) = rt_server (runtime_shutdown cfg now rt)" if "sv_running (rt_server rt)"
proof -
  let ?s = "rt_server (runtime_shutdown cfg now rt)"
  have r: "\<not> sv_running ?s" using that by (simp add: runtime_shutdown_def Let_def)
  have "list_all (\<lambda>(sid, st). ss_cancelled st) (sm_map (ig_mgr (sv_ingress ?s)))"
    using that by (auto simp: runtime_shutdown_def Let_def mgr_cancel_all_def list_all_iff)
  moreover have "fold (server_step cfg) evs s = s" if "\<not> sv_running s" for s
    using that by (induction evs) auto
  ultimately show ?thesis using r by (simp add: server_run_def)
qed

text \<open>No path is claimed by two routes, so the order of the table does not matter; and what no route claims is
  looked up among the embedded files alone.\<close>

fun may_overlap :: "seg_pattern list \<Rightarrow> seg_pattern list \<Rightarrow> bool" where
  "may_overlap [] [] = True"
| "may_overlap (Lit a # ps) (Lit b # qs) = (a = b \<and> may_overlap ps qs)"
| "may_overlap (_ # ps) (_ # qs) = may_overlap ps qs"
| "may_overlap _ _ = False"

lemma matches_overlap: "match_segs ps ss \<noteq> None \<Longrightarrow> match_segs qs ss \<noteq> None \<Longrightarrow> may_overlap ps qs"
proof (induction ps arbitrary: qs ss)
  case Nil
  then show ?case by (cases ss; cases qs; cases "hd qs") auto
next
  case (Cons p ps)
  then obtain s ss' where ss: "ss = s # ss'" by (cases ss; cases p) simp_all
  then obtain q qs' where qs: "qs = q # qs'" using Cons.prems(2) by (cases qs) simp_all
  have "match_segs ps ss' \<noteq> None" "match_segs qs' ss' \<noteq> None"
    using Cons.prems ss qs by (cases p; cases q; auto split: if_splits)+
  then show ?case using Cons.IH Cons.prems ss qs by (cases p; cases q; auto split: if_splits)
qed

lemma routes_disjoint:
  assumes "i < length api_routes" "j < length api_routes"
    and "match_segs (fst (api_routes ! i)) ss \<noteq> None" "match_segs (fst (api_routes ! j)) ss \<noteq> None"
  shows "i = j"
proof -
  have "list_all (\<lambda>i. list_all (\<lambda>j. i = j \<or> \<not> may_overlap (map fst api_routes ! i) (map fst api_routes ! j))
      [0..<length api_routes]) [0..<length api_routes]"
    by code_simp
  moreover have "may_overlap (fst (api_routes ! i)) (fst (api_routes ! j))" using matches_overlap assms(3,4) .
  ultimately show ?thesis using assms(1,2) unfolding list_all_iff set_upt by fastforce
qed

lemma asset_is_embedded: "static_asset assets p = Asset mime bs \<Longrightarrow> \<exists>path. assets path = Some bs \<and> mime = mime_of path"
  by (auto simp: static_asset_def Let_def split: option.splits if_splits)

end
