(* ===== verification/Serde.thy ===== *)
theory Serde
  imports Core_Types
begin

text \<open>
  How serde's derived readers take JSON apart, shared by the documents of the guest boundary (Guest_Abi) and the
  core's messages (Core_Wire): structs from objects or arrays, missing and repeated members, externally tagged enums,
  integers that must fit. The text of a document, of a refusal and of a 32-bit float are \<open>serde_json\<close>'s, parameters.
\<close>

section \<open>Reading\<close>

text \<open>A derived struct is read from an object, whose unknown members are skipped and whose known ones may not
  repeat, or from an array of its fields in order.\<close>

definition struct_of :: "string list \<Rightarrow> json \<Rightarrow> (string \<Rightarrow> json option) option" where
  "struct_of names v =
     (case v of
        JObj kvs \<Rightarrow> if distinct (filter (\<lambda>k. k \<in> set names) (map fst kvs)) then Some (map_of kvs) else None
      | JArr vs \<Rightarrow> if length vs \<le> length names then Some (map_of (zip names vs)) else None
      | _ \<Rightarrow> None)"

definition needed :: "(json \<Rightarrow> 'a option) \<Rightarrow> (string \<Rightarrow> json option) \<Rightarrow> string \<Rightarrow> 'a option" where
  "needed dec m k = Option.bind (m k) dec"

definition defaulted :: "'a \<Rightarrow> (json \<Rightarrow> 'a option) \<Rightarrow> (string \<Rightarrow> json option) \<Rightarrow> string \<Rightarrow> 'a option" where
  "defaulted d dec m k = (case m k of None \<Rightarrow> Some d | Some v \<Rightarrow> dec v)"

text \<open>An externally tagged enum: a bare name, or an object with one member.\<close>

definition enum_of :: "json \<Rightarrow> (string \<times> json option) option" where
  "enum_of v = (case v of JStr s \<Rightarrow> Some (s, None) | JObj [(s, w)] \<Rightarrow> Some (s, Some w) | _ \<Rightarrow> None)"

definition unit_variant :: "json option \<Rightarrow> bool" where
  "unit_variant w = (case w of None \<Rightarrow> True | Some v \<Rightarrow> v = JNull)"

definition of_bool :: "json \<Rightarrow> bool option" where
  "of_bool v = (case v of JBool b \<Rightarrow> Some b | _ \<Rightarrow> None)"

definition of_list :: "(json \<Rightarrow> 'a option) \<Rightarrow> json \<Rightarrow> 'a list option" where
  "of_list dec v = (case v of JArr vs \<Rightarrow> those (map dec vs) | _ \<Rightarrow> None)"

definition of_uint :: "nat \<Rightarrow> json \<Rightarrow> 'w::len word option" where
  "of_uint bound v = (case v of JNum (PosInt n) \<Rightarrow> if unat n < bound then Some (ucast n) else None | _ \<Rightarrow> None)"

definition of_map :: "json \<Rightarrow> (string \<times> json) list option" where
  "of_map v = (case v of JObj kvs \<Rightarrow> Some (fold (\<lambda>(k, w). bt_insert k w) kvs []) | _ \<Rightarrow> None)"

section \<open>The text of the documents\<close>

datatype abi_type = TIntent | TRules | TResult | TSchema

record json_text =
  jc_print :: "json \<Rightarrow> string"
  jc_parse :: "string \<Rightarrow> json option"
  jc_f32 :: "u32 \<Rightarrow> json"
  jc_as_f32 :: "jnumber \<Rightarrow> u32"
  jc_reason :: "abi_type \<Rightarrow> string \<Rightarrow> string"

definition of_f32 :: "json_text \<Rightarrow> json \<Rightarrow> u32 option" where
  "of_f32 jt v = (case v of JNum n \<Rightarrow> Some (jc_as_f32 jt n) | _ \<Rightarrow> None)"

definition from_str :: "json_text \<Rightarrow> abi_type \<Rightarrow> (json \<Rightarrow> 'a option) \<Rightarrow> string \<Rightarrow> string + 'a" where
  "from_str jt ty dec s = (case Option.bind (jc_parse jt s) dec of Some a \<Rightarrow> Inr a | None \<Rightarrow> Inl (jc_reason jt ty s))"

section \<open>Reading what was written\<close>

definition finite_f32 :: "u32 \<Rightarrow> bool" where
  "finite_f32 b \<longleftrightarrow> take_bit 8 (drop_bit 23 b) \<noteq> 255"

text \<open>What \<open>serde_json\<close> documents: a printed value is read back, a finite float is printed as a number that reads
  back as itself, any other float as \<open>null\<close>.\<close>

definition json_text_ok :: "json_text \<Rightarrow> bool" where
  "json_text_ok jt \<longleftrightarrow>
     (\<forall>v. jc_parse jt (jc_print jt v) = Some v)
     \<and> (\<forall>b. if finite_f32 b then \<exists>n. jc_f32 jt b = JNum n \<and> jc_as_f32 jt n = b else jc_f32 jt b = JNull)"

named_theorems abi_simps \<open>reading back what was written\<close>

lemma from_str_print [abi_simps]:
  "json_text_ok jt \<Longrightarrow>
     from_str jt ty dec (jc_print jt v) = (case dec v of Some a \<Rightarrow> Inr a | None \<Rightarrow> Inl (jc_reason jt ty (jc_print jt v)))"
  by (simp add: from_str_def json_text_ok_def)

lemma of_f32_print [abi_simps]:
  assumes "json_text_ok jt"
  shows "of_f32 jt (jc_f32 jt b) = (if finite_f32 b then Some b else None)"
proof -
  have "if finite_f32 b then \<exists>n. jc_f32 jt b = JNum n \<and> jc_as_f32 jt n = b else jc_f32 jt b = JNull"
    using assms unfolding json_text_ok_def by blast
  then show ?thesis by (auto simp: of_f32_def split: if_splits)
qed

lemma struct_of_obj [abi_simps]: "distinct (map fst kvs) \<Longrightarrow> struct_of names (JObj kvs) = Some (map_of kvs)"
  by (simp add: struct_of_def)

lemma as_str_JStr [abi_simps]: "as_str (JStr s) = Some s"
  by (simp add: as_str_def)

lemma of_list_map: "(\<And>x. x \<in> set xs \<Longrightarrow> dec (enc x) = Some x) \<Longrightarrow> of_list dec (JArr (map enc xs)) = Some xs"
proof (induction xs)
  case (Cons x xs)
  then show ?case by (simp add: of_list_def)
qed (simp add: of_list_def)

lemma of_list_strings [abi_simps]: "of_list as_str (JArr (map JStr xs)) = Some xs"
  by (rule of_list_map) (simp add: abi_simps)

lemma of_list_f32 [abi_simps]:
  assumes "json_text_ok jt"
  shows "of_list (of_f32 jt) (JArr (map (jc_f32 jt) bs)) = (if list_all finite_f32 bs then Some bs else None)"
proof (induction bs)
  case (Cons b bs)
  then show ?case using assms by (simp add: of_list_def abi_simps split: if_splits)
qed (simp add: of_list_def)

lemma of_uint_32 [abi_simps]: "of_uint (2 ^ 32) (JNum (PosInt (ucast (n :: u32)))) = Some n"
  using unat_bound [of n] by (simp add: of_uint_def unsigned_ucast_eq take_bit_nat_eq_self take_bit_word_eq_self)

lemma of_list_bytes [abi_simps]: "of_list (of_uint 256) (JArr (map (\<lambda>b. JNum (PosInt (ucast (b :: byte)))) bs)) = Some bs"
proof (rule of_list_map)
  fix b :: byte
  show "of_uint 256 (JNum (PosInt (ucast b))) = Some b"
    using unat_bound [of b] by (simp add: of_uint_def unsigned_ucast_eq take_bit_nat_eq_self take_bit_word_eq_self)
qed

lemma bt_insert_last: "(\<And>k'. k' \<in> set (map fst m) \<Longrightarrow> k' < k) \<Longrightarrow> bt_insert k v m = m @ [(k, v)]"
proof (induction m)
  case (Cons a m)
  have "fst a < k" using Cons.prems by simp
  then show ?case using Cons by (cases a) (auto simp: not_less_iff_gr_or_eq less_le_not_le)
qed simp

lemma of_map_sorted:
  assumes "sorted_wrt (<) (map fst kvs)"
  shows "of_map (JObj kvs) = Some kvs"
proof -
  have "fold (\<lambda>(k, w). bt_insert k w) kvs acc = acc @ kvs" if "sorted_wrt (<) (map fst (acc @ kvs))" for acc kvs :: "(string \<times> json) list"
    using that
  proof (induction kvs arbitrary: acc)
    case (Cons a kvs)
    have "bt_insert (fst a) (snd a) acc = acc @ [a]"
      using Cons.prems bt_insert_last [of acc "fst a" "snd a"] by (auto simp: sorted_wrt_append)
    then show ?case using Cons.IH [of "acc @ [a]"] Cons.prems by (simp add: split_beta)
  qed simp
  from this [of "[]" kvs] show ?thesis using assms by (simp add: of_map_def)
qed

end
