(* ===== verification/Guest_Abi.thy ===== *)
theory Guest_Abi
  imports Serde Registry Skills Jeedom Probes
begin

text \<open>
  The boundary between the registry and a skill's WASM guest: \<open>ExtismSkillPlugin\<close> of the runtime's
  \<open>wasm/registry.rs\<close>, the \<open>#[plugin_fn]\<close> exports of the skills, and the JSON documents that cross it, as serde
  derives them from the types of the SDK (\<open>skill.rs\<close>, \<open>response.rs\<close>, \<open>schema.rs\<close>): which members are written in
  which order, which may be missing, and which documents are refused. The text of a JSON document, of a refusal and
  of a 32-bit float are \<open>serde_json\<close>'s, parameters; calling into a module is Extism's.

  The theorems show that the boundary is transparent: what a skill returns is what the registry sees, for every
  answer without NaN or infinite samples, and that such an answer becomes an error.
\<close>

section \<open>The documents\<close>

definition intent_json :: "intent \<Rightarrow> json" where
  "intent_json i = JObj [(''name'', JStr (i_name i)), (''slots'', JObj (i_slots i)), (''locale'', JStr (i_locale i))]"

definition intent_of :: "json \<Rightarrow> intent option" where
  "intent_of v = do {
     m \<leftarrow> struct_of [''name'', ''slots'', ''locale''] v;
     nm \<leftarrow> needed as_str m ''name'';
     slots \<leftarrow> defaulted [] of_map m ''slots'';
     loc \<leftarrow> defaulted [] as_str m ''locale'';
     Some \<lparr>i_name = nm, i_slots = slots, i_locale = loc\<rparr> }"

fun kind_json :: "slot_kind \<Rightarrow> json" where
  "kind_json SkString = JStr ''string''"
| "kind_json SkNumber = JStr ''number''"
| "kind_json (SkOneOf vs) = JObj [(''one_of'', JArr (map JStr vs))]"

definition kind_of :: "json \<Rightarrow> slot_kind option" where
  "kind_of v =
     (case enum_of v of
        None \<Rightarrow> None
      | Some (tag, w) \<Rightarrow>
          if tag = ''string'' then (if unit_variant w then Some SkString else None)
          else if tag = ''number'' then (if unit_variant w then Some SkNumber else None)
          else if tag = ''one_of'' then map_option SkOneOf (Option.bind w (of_list as_str))
          else None)"

definition slot_json :: "slot_spec \<Rightarrow> json" where
  "slot_json s = JObj [(''name'', JStr (ss_name s)), (''kind'', kind_json (ss_kind s))]"

definition slot_of :: "json \<Rightarrow> slot_spec option" where
  "slot_of v = do {
     m \<leftarrow> struct_of [''name'', ''kind''] v;
     nm \<leftarrow> needed as_str m ''name'';
     kind \<leftarrow> needed kind_of m ''kind'';
     Some \<lparr>ss_name = nm, ss_kind = kind\<rparr> }"

definition rule_json :: "pattern_rule \<Rightarrow> json" where
  "rule_json r = JObj [(''intent'', JStr (pr_intent r)), (''phrases'', JArr (map JStr (pr_phrases r))),
     (''slots'', JArr (map slot_json (pr_slots r)))]"

definition rule_of :: "json \<Rightarrow> pattern_rule option" where
  "rule_of v = do {
     m \<leftarrow> struct_of [''intent'', ''phrases'', ''slots''] v;
     nm \<leftarrow> needed as_str m ''intent'';
     phrases \<leftarrow> needed (of_list as_str) m ''phrases'';
     slots \<leftarrow> defaulted [] (of_list slot_of) m ''slots'';
     Some \<lparr>pr_intent = nm, pr_phrases = phrases, pr_slots = slots\<rparr> }"

text \<open>\<open>SkillResponse\<close> carries its tag among its members.\<close>

definition response_json :: "json_text \<Rightarrow> skill_response \<Rightarrow> json" where
  "response_json jt r =
     (let tagged = (\<lambda>tag kvs. JObj ((''kind'', JStr tag) # kvs)) in
      case r of
        Speak s \<Rightarrow> tagged ''speak'' [(''text'', JStr s)]
      | Empty \<Rightarrow> tagged ''empty'' []
      | AskLlm s \<Rightarrow> tagged ''ask_llm'' [(''prompt'', JStr s)]
      | SampledPcm rate samples \<Rightarrow>
          tagged ''sampled_pcm'' [(''sample_rate'', JNum (PosInt (ucast rate))), (''samples'', JArr (map (jc_f32 jt) samples))]
      | SampledOpus bs \<Rightarrow> tagged ''sampled_opus'' [(''opus_frames'', JArr (map (\<lambda>b. JNum (PosInt (ucast b))) bs))]
      | Volume level \<Rightarrow> tagged ''volume'' [(''level'', jc_f32 jt level)])"

definition variant_of :: "json_text \<Rightarrow> string \<Rightarrow> json \<Rightarrow> skill_response option" where
  "variant_of jt tag v =
     (if tag = ''speak'' then do { m \<leftarrow> struct_of [''text''] v; s \<leftarrow> needed as_str m ''text''; Some (Speak s) }
      else if tag = ''empty'' then Some Empty
      else if tag = ''ask_llm'' then do { m \<leftarrow> struct_of [''prompt''] v; s \<leftarrow> needed as_str m ''prompt''; Some (AskLlm s) }
      else if tag = ''sampled_pcm'' then do {
        m \<leftarrow> struct_of [''sample_rate'', ''samples''] v;
        rate \<leftarrow> needed (of_uint (2 ^ 32)) m ''sample_rate'';
        samples \<leftarrow> needed (of_list (of_f32 jt)) m ''samples'';
        Some (SampledPcm rate samples) }
      else if tag = ''sampled_opus'' then do {
        m \<leftarrow> struct_of [''opus_frames''] v;
        bs \<leftarrow> needed (of_list (of_uint 256)) m ''opus_frames'';
        Some (SampledOpus bs) }
      else if tag = ''volume'' then do {
        m \<leftarrow> struct_of [''level''] v;
        level \<leftarrow> needed (of_f32 jt) m ''level'';
        Some (Volume level) }
      else None)"

definition response_of :: "json_text \<Rightarrow> json \<Rightarrow> skill_response option" where
  "response_of jt v =
     (case v of
        JObj kvs \<Rightarrow>
          (case filter (\<lambda>(k, _). k = ''kind'') kvs of
             [(_, JStr tag)] \<Rightarrow> variant_of jt tag (JObj (filter (\<lambda>(k, _). k \<noteq> ''kind'') kvs))
           | _ \<Rightarrow> None)
      | JArr (JStr tag # vs) \<Rightarrow> variant_of jt tag (JArr vs)
      | _ \<Rightarrow> None)"

fun error_json :: "skill_error \<Rightarrow> json" where
  "error_json (HttpFailed s) = JObj [(''HttpFailed'', JStr s)]"
| "error_json (MqttFailed s) = JObj [(''MqttFailed'', JStr s)]"
| "error_json (StateError s) = JObj [(''State'', JStr s)]"
| "error_json (ConfigError s) = JObj [(''Config'', JStr s)]"
| "error_json (HostFn s) = JObj [(''HostFn'', JStr s)]"
| "error_json (Custom s) = JObj [(''Custom'', JStr s)]"

definition error_of :: "json \<Rightarrow> skill_error option" where
  "error_of v =
     (case enum_of v of
        Some (tag, Some w) \<Rightarrow>
          (if tag = ''HttpFailed'' then map_option HttpFailed (as_str w)
           else if tag = ''MqttFailed'' then map_option MqttFailed (as_str w)
           else if tag = ''State'' then map_option StateError (as_str w)
           else if tag = ''Config'' then map_option ConfigError (as_str w)
           else if tag = ''HostFn'' then map_option HostFn (as_str w)
           else if tag = ''Custom'' then map_option Custom (as_str w)
           else None)
      | _ \<Rightarrow> None)"

text \<open>\<open>Result\<close> is an enum of \<open>Ok\<close> and \<open>Err\<close>.\<close>

definition result_json :: "json_text \<Rightarrow> skill_error + skill_response \<Rightarrow> json" where
  "result_json jt r =
     (case r of Inr a \<Rightarrow> JObj [(''Ok'', response_json jt a)] | Inl e \<Rightarrow> JObj [(''Err'', error_json e)])"

definition result_of :: "json_text \<Rightarrow> json \<Rightarrow> (skill_error + skill_response) option" where
  "result_of jt v =
     (case enum_of v of
        Some (tag, Some w) \<Rightarrow>
          (if tag = ''Ok'' then map_option Inr (response_of jt w)
           else if tag = ''Err'' then map_option Inl (error_of w)
           else None)
      | _ \<Rightarrow> None)"

definition field_kind_name :: "field_kind \<Rightarrow> string" where
  "field_kind_name k =
     (case k of FkString \<Rightarrow> ''string'' | FkNumber \<Rightarrow> ''number'' | FkSecret \<Rightarrow> ''secret'' | FkUrl \<Rightarrow> ''url''
      | FkHost \<Rightarrow> ''host'' | FkList \<Rightarrow> ''list'' | FkBool \<Rightarrow> ''bool'')"

definition field_kind_of :: "json \<Rightarrow> field_kind option" where
  "field_kind_of v =
     (case enum_of v of
        Some (tag, w) \<Rightarrow>
          if unit_variant w then List.find (\<lambda>k. field_kind_name k = tag) [FkString, FkNumber, FkSecret, FkUrl, FkHost, FkList, FkBool]
          else None
      | None \<Rightarrow> None)"

definition item_json :: "item_field \<Rightarrow> json" where
  "item_json f = JObj [(''key'', JStr (if_key f)), (''type'', JStr (field_kind_name (if_kind f))), (''required'', JBool (if_required f))]"

definition item_of :: "json \<Rightarrow> item_field option" where
  "item_of v = do {
     m \<leftarrow> struct_of [''key'', ''type'', ''required''] v;
     k \<leftarrow> needed as_str m ''key'';
     kind \<leftarrow> needed field_kind_of m ''type'';
     req \<leftarrow> defaulted False of_bool m ''required'';
     Some \<lparr>if_key = k, if_kind = kind, if_required = req\<rparr> }"

definition field_json :: "config_field \<Rightarrow> json" where
  "field_json f = JObj [(''key'', JStr (cf_key f)), (''label'', JStr (cf_label f)), (''type'', JStr (field_kind_name (cf_kind f))),
     (''required'', JBool (cf_required f)), (''help'', JStr (cf_help f)), (''default'', JStr (cf_default f)),
     (''item_fields'', JArr (map item_json (cf_item_fields f)))]"

definition field_of :: "json \<Rightarrow> config_field option" where
  "field_of v = do {
     m \<leftarrow> struct_of [''key'', ''label'', ''type'', ''required'', ''help'', ''default'', ''item_fields''] v;
     k \<leftarrow> needed as_str m ''key'';
     label \<leftarrow> needed as_str m ''label'';
     kind \<leftarrow> needed field_kind_of m ''type'';
     req \<leftarrow> defaulted False of_bool m ''required'';
     help \<leftarrow> defaulted [] as_str m ''help'';
     dflt \<leftarrow> defaulted [] as_str m ''default'';
     items \<leftarrow> defaulted [] (of_list item_of) m ''item_fields'';
     Some \<lparr>cf_key = k, cf_label = label, cf_kind = kind, cf_required = req, cf_help = help, cf_default = dflt,
       cf_item_fields = items\<rparr> }"

definition schema_json :: "config_schema \<Rightarrow> json" where
  "schema_json s = JObj [(''fields'', JArr (map field_json s))]"

definition config_schema_of :: "json \<Rightarrow> config_schema option" where
  "config_schema_of v = do { m \<leftarrow> struct_of [''fields''] v; needed (of_list field_of) m ''fields'' }"

section \<open>The guest's exports\<close>

text \<open>A skill's code over its statics and the host; the host sees the exports \<open>pattern_rules\<close>, \<open>handle\<close> and,
  if there is a schema, \<open>config_schema\<close>. A failing export traps with its message.\<close>

record 's guest_code =
  gc_rules :: "string \<Rightarrow> 's \<Rightarrow> pattern_rule list \<times> 's"
  gc_handle :: "intent \<Rightarrow> 's \<Rightarrow> (skill_error + skill_response) \<times> 's"
  gc_schema :: "'s \<Rightarrow> config_schema option"

record 'p extism =
  ex_call :: "'p \<Rightarrow> string \<Rightarrow> string \<Rightarrow> (string + string) \<times> 'p"
  ex_exists :: "'p \<Rightarrow> string \<Rightarrow> bool"

definition export_rules :: "json_text \<Rightarrow> 's guest_code \<Rightarrow> string \<Rightarrow> 's \<Rightarrow> (string + string) \<times> 's" where
  "export_rules jt gc loc p =
     (let (rules, p1) = gc_rules gc loc p in (Inr (jc_print jt (JArr (map rule_json rules))), p1))"

definition export_handle :: "json_text \<Rightarrow> 's guest_code \<Rightarrow> string \<Rightarrow> 's \<Rightarrow> (string + string) \<times> 's" where
  "export_handle jt gc intent_text p =
     (case from_str jt TIntent intent_of intent_text of
        Inl e \<Rightarrow> (Inl e, p)
      | Inr i \<Rightarrow> (let (res, p1) = gc_handle gc i p in (Inr (jc_print jt (result_json jt res)), p1)))"

definition module_of :: "json_text \<Rightarrow> (string \<Rightarrow> string) \<Rightarrow> 's guest_code \<Rightarrow> 's extism" where
  "module_of jt missing gc =
     \<lparr>ex_call = (\<lambda>p name input.
        if name = ''pattern_rules'' then export_rules jt gc input p
        else if name = ''handle'' then export_handle jt gc input p
        else (case if name = ''config_schema'' then gc_schema gc p else None of
                Some s \<Rightarrow> (Inr (jc_print jt (schema_json s)), p)
              | None \<Rightarrow> (Inl (missing name), p))),
      ex_exists = (\<lambda>p name. name = ''pattern_rules'' \<or> name = ''handle'' \<or> name = ''config_schema'' \<and> gc_schema gc p \<noteq> None)\<rparr>"

definition timer_module ::
  "text_fns \<Rightarrow> (u64 \<Rightarrow> string + byte list) \<Rightarrow> (('u, 'm) guest \<Rightarrow> i64) \<Rightarrow> 'u web \<Rightarrow> skill_ctx \<Rightarrow> ('u, 'm) guest guest_code" where
  "timer_module tf encode clock wb sk =
     \<lparr>gc_rules = (\<lambda>loc g. (timer_rules loc, g)),
      gc_handle = (\<lambda>i g. run_state (timer_handle tf encode (for_testing wb sk) (clock g) i) g),
      gc_schema = (\<lambda>_. Some [])\<rparr>"

definition home_module :: "home_io \<Rightarrow> 'u web \<Rightarrow> skill_ctx \<Rightarrow> ('u, entity list option) guest guest_code" where
  "home_module hi wb sk =
     \<lparr>gc_rules = (\<lambda>loc g. (home_rules loc, g)),
      gc_handle = (\<lambda>i. run_state (home_handle hi (for_testing wb sk) i)),
      gc_schema = (\<lambda>_. Some home_schema)\<rparr>"

definition weather_module :: "weather_io \<Rightarrow> 'u web \<Rightarrow> skill_ctx \<Rightarrow> ('u, 'm) guest guest_code" where
  "weather_module wi wb sk =
     \<lparr>gc_rules = (\<lambda>loc g. (weather_rules loc, g)),
      gc_handle = (\<lambda>i. run_state (weather_handle wi (for_testing wb sk) i)),
      gc_schema = (\<lambda>_. Some weather_schema)\<rparr>"

definition jeedom_module :: "jeedom_io \<Rightarrow> 'u web \<Rightarrow> skill_ctx \<Rightarrow> ('u, jeedom_mem) guest guest_code" where
  "jeedom_module jd wb sk =
     \<lparr>gc_rules = (\<lambda>loc. run_state (pattern_rules jd (for_testing wb sk) loc)),
      gc_handle = (\<lambda>i. run_state (handle jd (for_testing wb sk) i)),
      gc_schema = (\<lambda>_. Some jeedom_schema)\<rparr>"

definition tmp_test_module :: "'u web \<Rightarrow> skill_ctx \<Rightarrow> ('u, 'm) guest guest_code" where
  "tmp_test_module wb sk =
     \<lparr>gc_rules = (\<lambda>loc g. (tmp_test_rules loc, g)),
      gc_handle = (\<lambda>i. run_state (tmp_test_handle (for_testing wb sk) i)),
      gc_schema = (\<lambda>_. None)\<rparr>"

definition smoke_module :: "(nat \<Rightarrow> u32) \<Rightarrow> (rat \<Rightarrow> u32) \<Rightarrow> 'u web \<Rightarrow> skill_ctx \<Rightarrow> ('u, 'm) guest guest_code" where
  "smoke_module tone bits wb sk =
     \<lparr>gc_rules = (\<lambda>loc g. (smoke_rules loc, g)),
      gc_handle = (\<lambda>i. run_state (smoke_handle tone bits (for_testing wb sk) i)),
      gc_schema = (\<lambda>_. None)\<rparr>"

definition audio_test_module :: "ini_fns \<Rightarrow> (string option \<Rightarrow> string) \<Rightarrow> 'u web \<Rightarrow> skill_ctx \<Rightarrow> ('u, 'm) guest guest_code" where
  "audio_test_module fns dbg wb sk =
     \<lparr>gc_rules = (\<lambda>loc g. (audio_test_rules loc, g)),
      gc_handle = (\<lambda>i. run_state (audio_test_handle fns dbg (for_testing wb sk) i)),
      gc_schema = (\<lambda>_. None)\<rparr>"

text \<open>The plugins a server runs: the bundled skills, each with the context it was built with and its own statics.\<close>

datatype 'u running =
    Timer skill_ctx "('u, unit) guest"
  | Home skill_ctx "('u, entity list option) guest"
  | Weather skill_ctx "('u, unit) guest"
  | JeedomBox skill_ctx "('u, jeedom_mem) guest"

record 'u bundle_io =
  bi_text :: text_fns
  bi_encode :: "u64 \<Rightarrow> string + byte list"
  bi_clock :: "('u, unit) guest \<Rightarrow> i64"
  bi_home :: home_io
  bi_weather :: weather_io
  bi_jeedom :: jeedom_io
  bi_web :: "'u web"

definition bundled :: "'u bundle_io \<Rightarrow> 'u running guest_code" where
  "bundled bi =
     (let timer = timer_module (bi_text bi) (bi_encode bi) (bi_clock bi) (bi_web bi); home = home_module (bi_home bi) (bi_web bi);
          weather = weather_module (bi_weather bi) (bi_web bi); jeedom = jeedom_module (bi_jeedom bi) (bi_web bi)
      in \<lparr>gc_rules = (\<lambda>loc s. case s of
              Timer sk g \<Rightarrow> apsnd (Timer sk) (gc_rules (timer sk) loc g)
            | Home sk g \<Rightarrow> apsnd (Home sk) (gc_rules (home sk) loc g)
            | Weather sk g \<Rightarrow> apsnd (Weather sk) (gc_rules (weather sk) loc g)
            | JeedomBox sk g \<Rightarrow> apsnd (JeedomBox sk) (gc_rules (jeedom sk) loc g)),
          gc_handle = (\<lambda>i s. case s of
              Timer sk g \<Rightarrow> apsnd (Timer sk) (gc_handle (timer sk) i g)
            | Home sk g \<Rightarrow> apsnd (Home sk) (gc_handle (home sk) i g)
            | Weather sk g \<Rightarrow> apsnd (Weather sk) (gc_handle (weather sk) i g)
            | JeedomBox sk g \<Rightarrow> apsnd (JeedomBox sk) (gc_handle (jeedom sk) i g)),
          gc_schema = (\<lambda>s. case s of
              Timer sk g \<Rightarrow> gc_schema (timer sk) g
            | Home sk g \<Rightarrow> gc_schema (home sk) g
            | Weather sk g \<Rightarrow> gc_schema (weather sk) g
            | JeedomBox sk g \<Rightarrow> gc_schema (jeedom sk) g)\<rparr>)"

section \<open>The host's side\<close>

text \<open>\<open>serde_json::to_string\<close> of an intent does not fail. None of the three calls panics.\<close>

definition extism_ops :: "json_text \<Rightarrow> 'p extism \<Rightarrow> 'p plugin_ops" where
  "extism_ops jt ex =
     \<lparr>g_rules = (\<lambda>p loc.
        case ex_call ex p ''pattern_rules'' loc of
          (Inl e, p1) \<Rightarrow> (Inl e, p1)
        | (Inr out, p1) \<Rightarrow> (from_str jt TRules (of_list rule_of) out, p1)),
      g_schema = (\<lambda>p.
        if \<not> ex_exists ex p ''config_schema'' then (None, p)
        else (case ex_call ex p ''config_schema'' [] of
            (Inl _, p1) \<Rightarrow> (None, p1)
          | (Inr out, p1) \<Rightarrow> (case from_str jt TSchema config_schema_of out of Inr s \<Rightarrow> (Some s, p1) | Inl _ \<Rightarrow> (None, p1)))),
      g_handle = (\<lambda>p i.
        case ex_call ex p ''handle'' (jc_print jt (intent_json i)) of
          (Inl e, p1) \<Rightarrow> (Inr (Inl (Custom (''plugin call: '' @ e))), p1)
        | (Inr out, p1) \<Rightarrow>
            (Inr (case from_str jt TResult (result_of jt) out of
                    Inl e \<Rightarrow> Inl (Custom (''response decode: '' @ e))
                  | Inr res \<Rightarrow> res), p1))\<rparr>"

section \<open>Round trips\<close>

definition answer_finite :: "skill_error + skill_response \<Rightarrow> bool" where
  "answer_finite res =
     (case res of
        Inr (SampledPcm _ samples) \<Rightarrow> list_all finite_f32 samples
      | Inr (Volume level) \<Rightarrow> finite_f32 level
      | _ \<Rightarrow> True)"

lemma intent_of_json:
  "sorted_wrt (<) (map fst (i_slots i)) \<Longrightarrow> intent_of (intent_json i) = Some i"
  by (simp add: intent_of_def intent_json_def needed_def defaulted_def abi_simps of_map_sorted)

lemma kind_of_json [abi_simps]: "kind_of (kind_json k) = Some k"
  by (cases k) (simp_all add: kind_of_def enum_of_def unit_variant_def abi_simps)

lemma slot_of_json [abi_simps]: "slot_of (slot_json s) = Some s"
  by (simp add: slot_of_def slot_json_def needed_def abi_simps)

lemma rule_of_json [abi_simps]: "rule_of (rule_json r) = Some r"
  by (simp add: rule_of_def rule_json_def needed_def defaulted_def abi_simps of_list_map)

lemma rules_of_json [abi_simps]: "of_list rule_of (JArr (map rule_json rs)) = Some rs"
  by (rule of_list_map) (simp add: abi_simps)

lemma response_of_json:
  "json_text_ok jt \<Longrightarrow> response_of jt (response_json jt a) = (if answer_finite (Inr a) then Some a else None)"
  by (cases a) (simp_all add: response_of_def response_json_def Let_def variant_of_def needed_def abi_simps answer_finite_def
      del: power_numeral)

lemma error_of_json [abi_simps]: "error_of (error_json e) = Some e"
  by (cases e) (simp_all add: error_of_def enum_of_def abi_simps)

lemma result_of_json:
  "json_text_ok jt \<Longrightarrow> result_of jt (result_json jt res) = (if answer_finite res then Some res else None)"
  by (cases res) (simp_all add: result_of_def result_json_def enum_of_def abi_simps response_of_json answer_finite_def)

lemma field_kind_of_json [abi_simps]: "field_kind_of (JStr (field_kind_name k)) = Some k"
  by (cases k) (simp_all add: field_kind_of_def field_kind_name_def enum_of_def unit_variant_def)

lemma item_of_json [abi_simps]: "item_of (item_json f) = Some f"
  by (simp add: item_of_def item_json_def needed_def defaulted_def of_bool_def abi_simps)

lemma field_of_json [abi_simps]: "field_of (field_json f) = Some f"
  by (simp add: field_of_def field_json_def needed_def defaulted_def of_bool_def abi_simps of_list_map)

lemma config_schema_of_json [abi_simps]: "config_schema_of (schema_json s) = Some s"
  by (simp add: config_schema_of_def schema_json_def needed_def abi_simps of_list_map)

section \<open>The registry cannot tell\<close>

text \<open>A plugin as the skill alone defines it, with no text in between.\<close>

definition direct_ops :: "'s guest_code \<Rightarrow> 's plugin_ops" where
  "direct_ops gc =
     \<lparr>g_rules = (\<lambda>p loc. let (rules, p1) = gc_rules gc loc p in (Inr rules, p1)),
      g_schema = (\<lambda>p. (gc_schema gc p, p)),
      g_handle = (\<lambda>p i. let (res, p1) = gc_handle gc i p in (Inr res, p1))\<rparr>"

definition over_json :: "json_text \<Rightarrow> skill_error + skill_response \<Rightarrow> skill_error + skill_response" where
  "over_json jt res =
     (if answer_finite res then res
      else Inl (Custom (''response decode: '' @ jc_reason jt TResult (jc_print jt (result_json jt res)))))"

lemma over_json_error [simp]: "over_json jt (Inl e) = Inl e"
  by (simp add: over_json_def answer_finite_def)

lemma extism_rules:
  "json_text_ok jt \<Longrightarrow> g_rules (extism_ops jt (module_of jt missing gc)) = g_rules (direct_ops gc)"
  by (intro ext) (simp add: extism_ops_def module_of_def direct_ops_def export_rules_def Let_def split_beta abi_simps)

lemma extism_schema:
  "json_text_ok jt \<Longrightarrow> g_schema (extism_ops jt (module_of jt missing gc)) = g_schema (direct_ops gc)"
  by (intro ext) (auto simp: extism_ops_def module_of_def direct_ops_def abi_simps split: option.split)

lemma extism_handle:
  assumes "json_text_ok jt" "sorted_wrt (<) (map fst (i_slots i))"
  shows "g_handle (extism_ops jt (module_of jt missing gc)) p i =
     (Inr (over_json jt (fst (gc_handle gc i p))), snd (gc_handle gc i p))"
  using assms
  by (simp add: extism_ops_def module_of_def export_handle_def Let_def split_beta abi_simps intent_of_json result_of_json
      over_json_def)

text \<open>Nothing but these three is called.\<close>

lemma install_same: "g_rules o1 = g_rules o2 \<Longrightarrow> g_schema o1 = g_schema o2 \<Longrightarrow> install o1 = install o2"
proof -
  assume "g_rules o1 = g_rules o2" "g_schema o1 = g_schema o2"
  moreover from this(1) have "query_rules o1 name locs p acc = query_rules o2 name locs p acc" for name locs p acc
    by (induction locs arbitrary: p acc) (simp_all split: prod.split sum.split)
  ultimately show ?thesis by (intro ext) (simp add: install_def split: prod.split sum.split)
qed

lemma hot_reload_same: "install o1 = install o2 \<Longrightarrow> hot_reload o1 ord build deps e r = hot_reload o2 ord build deps e r"
  by (cases "(o1, ord, build, deps, e, r)" rule: hot_reload.cases) (simp_all add: reload_path_def split: sum.split prod.split)

text \<open>An intent the matcher found is one the guest reads back, in whatever locale.\<close>

lemma matched_intents_cross:
  assumes "find_match tf text loc idx = Some m"
  shows "intent_of (intent_json ((m_intent m)\<lparr>i_locale := l\<rparr>)) = Some ((m_intent m)\<lparr>i_locale := l\<rparr>)"
  using find_match_wf [OF assms] by (intro intent_of_json) (auto simp: slots_wf_def)

lemma load_dir_same: "install o1 = install o2 \<Longrightarrow> load_dir o1 ord build deps dir rd = load_dir o2 ord build deps dir rd"
proof -
  assume "install o1 = install o2"
  then have "load_entries o1 ord build deps dir es r = load_entries o2 ord build deps dir es r" for es r
    by (induction o1 ord build deps dir es r rule: load_entries.induct) (simp_all split: sum.split prod.split)
  then show ?thesis by (simp add: load_dir_def split: sum.split)
qed

lemma dispatch_extism:
  assumes "json_text_ok jt" "sorted_wrt (<) (map fst (i_slots i))"
  shows "dispatch (extism_ops jt (module_of jt missing gc)) now skill i r =
     apfst (map_sum id (over_json jt)) (dispatch (direct_ops gc) now skill i r)"
proof (cases "map_of (plugins r) skill")
  case (Some sl)
  have "g_handle (direct_ops gc) (sl_plugin sl) i = (Inr (fst (gc_handle gc i (sl_plugin sl))), snd (gc_handle gc i (sl_plugin sl)))"
    by (simp add: direct_ops_def split_beta Let_def)
  then show ?thesis using Some by (simp add: dispatch_def extism_handle [OF assms])
qed (simp add: dispatch_def)

text \<open>The Jeedom skill of a running server, through its module: its answer and its statics are those of its code.\<close>

lemma jeedom_dispatch:
  assumes "json_text_ok jt" "sorted_wrt (<) (map fst (i_slots i))"
    and "map_of (plugins r) skill = Some sl" "sl_plugin sl = JeedomBox sk g" "\<not> sl_poisoned sl"
    and "run_state (handle (bi_jeedom bi) (for_testing (bi_web bi) sk) i) g = (res, g1)"
  shows "dispatch (extism_ops jt (module_of jt missing (bundled bi))) now skill i r =
     (Inr (over_json jt res), gc_jobs now skill sl, r\<lparr>plugins := AList.update skill (sl\<lparr>sl_plugin := JeedomBox sk g1\<rparr>) (plugins r)\<rparr>)"
  unfolding dispatch_extism [OF assms(1,2)]
  using assms(3-) by (simp add: dispatch_def direct_ops_def bundled_def jeedom_module_def Let_def)

definition ordered_slots :: "'p registry_op \<Rightarrow> bool" where
  "ordered_slots op = (case op of OpDispatch _ _ i \<Rightarrow> sorted_wrt (<) (map fst (i_slots i)) | _ \<Rightarrow> True)"

text \<open>C35: skills cross the guest boundary unchanged. The startup scan and every history of installs, removals, file
  changes and dispatches leave the registry as if the skills were called directly, schemas and match rules included,
  and a dispatch answers what the skill answers; only an answer with a sample or level that is not finite becomes a
  decoding error.\<close>

theorem registry_sees_the_skill:
  assumes "json_text_ok jt" "list_all ordered_slots h" "sorted_wrt (<) (map fst (i_slots i))"
    and "host = extism_ops jt (module_of jt missing gc)"
  shows "load_dir host ord build deps dir rd = load_dir (direct_ops gc) ord build deps dir rd
    \<and> fold (registry_apply host ord build deps) h r = fold (registry_apply (direct_ops gc) ord build deps) h r
    \<and> dispatch host now skill i r = apfst (map_sum id (over_json jt)) (dispatch (direct_ops gc) now skill i r)"
proof (intro conjI)
  have same: "install host = install (direct_ops gc)"
    unfolding assms(4) by (rule install_same [OF extism_rules [OF assms(1)] extism_schema [OF assms(1)]])
  show "load_dir host ord build deps dir rd = load_dir (direct_ops gc) ord build deps dir rd" using load_dir_same [OF same] .
  have "registry_apply host ord build deps op r = registry_apply (direct_ops gc) ord build deps op r" if "ordered_slots op" for op r
  proof (cases op)
    case (OpDispatch now skill i)
    then show ?thesis using that by (simp add: assms(4) dispatch_extism [OF assms(1)] ordered_slots_def apfst_def map_prod_def split_beta)
  qed (simp_all add: same hot_reload_same [OF same])
  then show "fold (registry_apply host ord build deps) h r = fold (registry_apply (direct_ops gc) ord build deps) h r"
    using assms(2) by (induction h arbitrary: r) simp_all
  show "dispatch host now skill i r = apfst (map_sum id (over_json jt)) (dispatch (direct_ops gc) now skill i r)"
    unfolding assms(4) using dispatch_extism assms(1,3) .
qed

section \<open>A text for the documents\<close>

fun write_str :: "string \<Rightarrow> string" where
  "write_str [] = ''.''"
| "write_str (c # s) = CHR ''+'' # c # write_str s"

fun read_str :: "string \<Rightarrow> (string \<times> string) option" where
  "read_str [] = None"
| "read_str [c] = (if c = CHR ''.'' then Some ([], []) else None)"
| "read_str (c # d # r) =
     (if c = CHR ''.'' then Some ([], d # r) else if c = CHR ''+'' then map_option (apfst ((#) d)) (read_str r) else None)"

fun write_num :: "jnumber \<Rightarrow> string" where
  "write_num (PosInt w) = CHR ''p'' # write_str (show_nat (unat w))"
| "write_num (NegInt w) = CHR ''m'' # write_str (show_nat (unat w))"
| "write_num (FloatBits w) = CHR ''d'' # write_str (show_nat (unat w))"

fun write_json :: "json \<Rightarrow> string"
  and write_items :: "json list \<Rightarrow> string"
  and write_members :: "(string \<times> json) list \<Rightarrow> string" where
  "write_json JNull = ''n''"
| "write_json (JBool b) = (if b then ''t'' else ''f'')"
| "write_json (JNum n) = write_num n"
| "write_json (JStr s) = CHR ''s'' # write_str s"
| "write_json (JArr vs) = CHR ''a'' # write_items vs"
| "write_json (JObj kvs) = CHR ''o'' # write_members kvs"
| "write_items [] = ''.''"
| "write_items (v # vs) = CHR '','' # write_json v @ write_items vs"
| "write_members [] = ''.''"
| "write_members ((k, v) # kvs) = CHR '','' # write_str k @ write_json v @ write_members kvs"

definition read_num :: "(64 word \<Rightarrow> jnumber) \<Rightarrow> string \<Rightarrow> (json \<times> string) option" where
  "read_num f r = Option.bind (read_str r) (\<lambda>(s, r). map_option (\<lambda>n. (JNum (f (of_nat n)), r)) (parse_u64 s))"

fun read_json :: "nat \<Rightarrow> string \<Rightarrow> (json \<times> string) option"
  and read_items :: "nat \<Rightarrow> string \<Rightarrow> (json list \<times> string) option"
  and read_members :: "nat \<Rightarrow> string \<Rightarrow> ((string \<times> json) list \<times> string) option" where
  "read_json 0 s = None"
| "read_json (Suc n) [] = None"
| "read_json (Suc n) (c # r) =
     (if c = CHR ''n'' then Some (JNull, r)
      else if c = CHR ''t'' then Some (JBool True, r)
      else if c = CHR ''f'' then Some (JBool False, r)
      else if c = CHR ''p'' then read_num PosInt r
      else if c = CHR ''m'' then read_num NegInt r
      else if c = CHR ''d'' then read_num FloatBits r
      else if c = CHR ''s'' then map_option (apfst JStr) (read_str r)
      else if c = CHR ''a'' then map_option (apfst JArr) (read_items n r)
      else if c = CHR ''o'' then map_option (apfst JObj) (read_members n r)
      else None)"
| "read_items 0 s = None"
| "read_items (Suc n) [] = None"
| "read_items (Suc n) (c # r) =
     (if c = CHR ''.'' then Some ([], r)
      else Option.bind (read_json n r) (\<lambda>(v, r). map_option (apfst ((#) v)) (read_items n r)))"
| "read_members 0 s = None"
| "read_members (Suc n) [] = None"
| "read_members (Suc n) (c # r) =
     (if c = CHR ''.'' then Some ([], r)
      else Option.bind (read_str r) (\<lambda>(k, r). Option.bind (read_json n r) (\<lambda>(v, r). map_option (apfst ((#) (k, v))) (read_members n r))))"

definition demo_text :: json_text where
  "demo_text =
     \<lparr>jc_print = write_json,
      jc_parse = (\<lambda>s. case read_json (length s) s of Some (v, []) \<Rightarrow> Some v | _ \<Rightarrow> None),
      jc_f32 = (\<lambda>b. if finite_f32 b then JNum (FloatBits (ucast b)) else JNull),
      jc_as_f32 = (\<lambda>n. case n of FloatBits w \<Rightarrow> ucast w | PosInt w \<Rightarrow> ucast w | NegInt w \<Rightarrow> ucast w),
      jc_reason = (\<lambda>_ _. ''invalid type'')\<rparr>"

lemma read_write_str: "read_str (write_str s @ r) = Some (s, r)"
  by (induction s) (cases r; simp)+

lemma read_write:
  "length (write_json v) \<le> n \<Longrightarrow> read_json n (write_json v @ r) = Some (v, r)"
  "length (write_items vs) \<le> n \<Longrightarrow> read_items n (write_items vs @ r) = Some (vs, r)"
  "length (write_members kvs) \<le> n \<Longrightarrow> read_members n (write_members kvs @ r) = Some (kvs, r)"
proof (induction v and vs and kvs arbitrary: n r and n r and n r rule: write_json_write_items_write_members.induct)
  case (3 num)
  have "read_num f (write_str (show_nat (unat w)) @ r) = Some (JNum (f w), r)" for f and w :: "64 word"
    using parse_show_nat unat_bound [of w] by (simp add: read_num_def read_write_str)
  then show ?case using 3 by (cases n; cases num) simp_all
next
  case (8 v vs)
  then obtain m where "n = Suc m" "length (write_json v) \<le> m" "length (write_items vs) \<le> m" by (cases n) simp_all
  then show ?case using 8 by simp
next
  case (10 k v kvs)
  then obtain m where "n = Suc m" "length (write_json v) \<le> m" "length (write_members kvs) \<le> m" by (cases n) simp_all
  then show ?case using 10 by (simp add: read_write_str)
next
  case (5 vs)
  then show ?case by (cases n) simp_all
next
  case (6 kvs)
  then show ?case by (cases n) simp_all
next
  case 1
  then show ?case by (cases n) simp_all
next
  case (2 b)
  then show ?case by (cases n; cases b) simp_all
next
  case (4 s)
  then show ?case by (cases n) (simp_all add: read_write_str)
next
  case 7
  then show ?case by (cases n) simp_all
next
  case 9
  then show ?case by (cases n) simp_all
qed

lemma demo_text_ok: "json_text_ok demo_text"
proof -
  have "read_json (length (write_json v)) (write_json v) = Some (v, [])" for v
    using read_write(1) [of v _ "[]"] by simp
  moreover have "(ucast (ucast b :: 64 word) :: u32) = b" for b
    by (rule bit_word_eqI) (simp add: bit_simps)
  ultimately show ?thesis by (simp add: json_text_ok_def demo_text_def)
qed

definition demo_probe :: "(string, unit) guest slot" where
  "demo_probe = \<lparr>sl_plugin = \<lparr>gs_world = demo_hosts, gs_env = (\<lambda>_. demo_env), gs_trace = [], gs_memory = ()\<rparr>, sl_ctx = None,
     sl_poisoned = False\<rparr>"

definition demo_ask :: intent where
  "demo_ask = \<lparr>i_name = ''tmp.test'', i_slots = [(''key'', JStr ''k''), (''value'', JStr ''v'')], i_locale = ''en''\<rparr>"

theorem registry_sees_the_skill_witness:
  "fst (dispatch (extism_ops demo_text (module_of demo_text id (tmp_test_module demo_web (demo_ctx None)))) 9 ''tmp'' demo_ask
      (registry_new\<lparr>plugins := [(''tmp'', demo_probe)]\<rparr>)) = Inr (Inr (Speak ''found''))"
proof -
  let ?gc = "tmp_test_module demo_web (demo_ctx None) :: (string, unit) guest guest_code"
  have sorted: "sorted_wrt (<) (map fst (i_slots demo_ask))" by code_simp
  have "fst (run_state (tmp_test_handle (for_testing demo_web (demo_ctx None)) demo_ask) (sl_plugin demo_probe)) = say ''found''"
    using tmp_test_finds [of "slot_text demo_ask ''value''" demo_ask _ "sl_plugin demo_probe" "for_testing demo_web (demo_ctx None)", OF refl refl]
    by (simp add: demo_probe_def demo_ask_def demo_env_def slot_text_def as_str_def)
  then have "fst (dispatch (direct_ops ?gc) 9 ''tmp'' demo_ask (registry_new\<lparr>plugins := [(''tmp'', demo_probe)]\<rparr>))
      = Inr (say ''found'')"
    by (simp add: dispatch_def direct_ops_def tmp_test_module_def split_beta Let_def demo_probe_def)
  then show ?thesis
    using registry_sees_the_skill [where h = "[]" and jt = demo_text and missing = id and gc = ?gc and i = demo_ask, OF demo_text_ok _ sorted refl]
    by (simp add: say_def over_json_def answer_finite_def)
qed

end
