(* ===== verification/Core_Wire.thy ===== *)
theory Core_Wire
  imports Serde Sessions "HOL-Library.Monad_Syntax"
begin

text \<open>
  The written forms of the core's vocabulary (\<open>crates/athena-voice-core\<close>): how identifiers and errors are printed
  and parsed (\<open>ids.rs\<close>, \<open>error.rs\<close>), the JSON that serde derives for the bus messages and data types (\<open>event.rs\<close>,
  \<open>types.rs\<close>), and with it the payloads of the event mirror. A reader validates identifiers, so a decoded event
  holds none that the constructors refuse. UUID and base64 text are their crates', parameters.
\<close>

section \<open>Identifiers and errors\<close>

record core_text =
  ct_json :: json_text
  ct_uuid :: "session_id \<Rightarrow> string"
  ct_puuid :: "string \<Rightarrow> session_id option"
  ct_uuid_error :: "string \<Rightarrow> string"
  ct_rat :: "rat \<Rightarrow> json"
  ct_as_rat :: "jnumber \<Rightarrow> rat"
  ct_base64 :: "byte list \<Rightarrow> string"
  ct_unbase64 :: "string \<Rightarrow> byte list option"

definition session_from_str :: "core_text \<Rightarrow> string \<Rightarrow> id_error + session_id" where
  "session_from_str ct s = (case ct_puuid ct s of Some u \<Rightarrow> Inr u | None \<Rightarrow> Inl (InvalidSessionId (ct_uuid_error ct s)))"

definition id_error_text :: "id_error \<Rightarrow> string" where
  "id_error_text e =
     (case e of
        InvalidSatelliteId s \<Rightarrow> ''invalid SatelliteId `'' @ s @ ''`: must match ^[a-z0-9-]{1,64}$''
      | InvalidLocale s \<Rightarrow> ''invalid Locale `'' @ s @ ''`: must match ^[a-z]{2}(-[A-Z]{2})?$''
      | InvalidSessionId s \<Rightarrow> ''invalid SessionId: '' @ s)"

definition stage_debug :: "stage \<Rightarrow> string" where
  "stage_debug st =
     (case st of Ingest \<Rightarrow> ''Ingest'' | Vad \<Rightarrow> ''Vad'' | Stt \<Rightarrow> ''Stt'' | Router \<Rightarrow> ''Router'' | Skill \<Rightarrow> ''Skill''
      | Llm \<Rightarrow> ''Llm'' | Tts \<Rightarrow> ''Tts'' | Sink \<Rightarrow> ''Sink'' | Storage \<Rightarrow> ''Storage'')"

definition core_error_text :: "core_error \<Rightarrow> string" where
  "core_error_text e =
     (case e of
        InvalidId i \<Rightarrow> id_error_text i
      | Cancelled \<Rightarrow> ''cancelled''
      | Timeout st ms \<Rightarrow> ''stage '' @ stage_debug st @ '' timed out after '' @ show_nat (unat ms) @ ''ms'')"

definition right :: "'e + 'a \<Rightarrow> 'a option" where
  "right r = (case r of Inr a \<Rightarrow> Some a | Inl _ \<Rightarrow> None)"

text \<open>\<open>#[serde(try_from = "String")]\<close>: the constructor checks what is read.\<close>

definition session_of :: "core_text \<Rightarrow> json \<Rightarrow> session_id option" where
  "session_of ct v = Option.bind (as_str v) (ct_puuid ct)"

definition satellite_of :: "json \<Rightarrow> satellite_id option" where
  "satellite_of v = Option.bind (as_str v) (right \<circ> satellite_new)"

definition locale_of :: "json \<Rightarrow> locale_id option" where
  "locale_of v = Option.bind (as_str v) (right \<circ> locale_new)"

section \<open>Names of the enums\<close>

definition audio_format_name :: "audio_format \<Rightarrow> string" where
  "audio_format_name f = (case f of S16le \<Rightarrow> ''s16le'' | Opus \<Rightarrow> ''opus'' | F32le \<Rightarrow> ''f32le'' | TextFormat \<Rightarrow> ''text'')"

definition stage_name :: "stage \<Rightarrow> string" where
  "stage_name st =
     (case st of Ingest \<Rightarrow> ''ingest'' | Vad \<Rightarrow> ''vad'' | Stt \<Rightarrow> ''stt'' | Router \<Rightarrow> ''router'' | Skill \<Rightarrow> ''skill''
      | Llm \<Rightarrow> ''llm'' | Tts \<Rightarrow> ''tts'' | Sink \<Rightarrow> ''sink'' | Storage \<Rightarrow> ''storage'')"

definition outcome_name :: "outcome \<Rightarrow> string" where
  "outcome_name oc =
     (case oc of OutOk \<Rightarrow> ''ok'' | OutError \<Rightarrow> ''error'' | OutCancelled \<Rightarrow> ''cancelled'' | OutOverloaded \<Rightarrow> ''overloaded''
      | OutOrphaned \<Rightarrow> ''orphaned'')"

definition barge_in_name :: "barge_in_reason \<Rightarrow> string" where
  "barge_in_name b = (case b of NewFinalTranscript \<Rightarrow> ''new_final_transcript'' | VadSpeechStart \<Rightarrow> ''vad_speech_start'')"

definition llm_fallback_name :: "llm_fallback_reason \<Rightarrow> string" where
  "llm_fallback_name b = (case b of NoMatch \<Rightarrow> ''no_match'' | MissingSlots \<Rightarrow> ''missing_slots'')"

definition finish_name :: "finish_reason \<Rightarrow> string" where
  "finish_name f = (case f of Stop \<Rightarrow> ''stop'' | Length \<Rightarrow> ''length'' | ContentFilter \<Rightarrow> ''content_filter'' | FinishError \<Rightarrow> ''error'')"

definition variant_named :: "('a \<Rightarrow> string) \<Rightarrow> 'a list \<Rightarrow> json \<Rightarrow> 'a option" where
  "variant_named name all v =
     (case enum_of v of
        Some (tag, w) \<Rightarrow> if unit_variant w then List.find (\<lambda>x. name x = tag) all else None
      | None \<Rightarrow> None)"

abbreviation stage_of :: "json \<Rightarrow> stage option" where
  "stage_of \<equiv> variant_named stage_name [Ingest, Vad, Stt, Router, Skill, Llm, Tts, Sink, Storage]"

abbreviation outcome_of :: "json \<Rightarrow> outcome option" where
  "outcome_of \<equiv> variant_named outcome_name [OutOk, OutError, OutCancelled, OutOverloaded, OutOrphaned]"

abbreviation audio_format_of :: "json \<Rightarrow> audio_format option" where
  "audio_format_of \<equiv> variant_named audio_format_name [S16le, Opus, F32le, TextFormat]"

abbreviation barge_in_of :: "json \<Rightarrow> barge_in_reason option" where
  "barge_in_of \<equiv> variant_named barge_in_name [NewFinalTranscript, VadSpeechStart]"

abbreviation llm_fallback_of :: "json \<Rightarrow> llm_fallback_reason option" where
  "llm_fallback_of \<equiv> variant_named llm_fallback_name [NoMatch, MissingSlots]"

section \<open>Numbers\<close>

definition i64_json :: "i64 \<Rightarrow> json" where
  "i64_json n = JNum (if 0 \<le>s n then PosInt n else NegInt n)"

definition of_i64 :: "json \<Rightarrow> i64 option" where
  "of_i64 v = (case v of JNum (PosInt n) \<Rightarrow> if 0 \<le>s n then Some n else None | JNum (NegInt n) \<Rightarrow> Some n | _ \<Rightarrow> None)"

definition of_usize :: "json \<Rightarrow> nat option" where
  "of_usize v = (case v of JNum (PosInt n) \<Rightarrow> Some (unat n) | _ \<Rightarrow> None)"

definition of_rat :: "core_text \<Rightarrow> json \<Rightarrow> rat option" where
  "of_rat ct v = (case v of JNum n \<Rightarrow> Some (ct_as_rat ct n) | _ \<Rightarrow> None)"

section \<open>Events\<close>

text \<open>\<open>to_value\<close>: a \<open>serde_json::Value\<close> keeps the members of an object in key order.\<close>

definition value_of :: "(string \<times> json) list \<Rightarrow> json" where
  "value_of kvs = JObj (fold (\<lambda>(k, w). bt_insert k w) kvs [])"

definition core_intent_json :: "core_text \<Rightarrow> core_intent \<Rightarrow> json" where
  "core_intent_json ct i =
     value_of [(''name'', JStr (ci_name i)), (''slots'', JObj (ci_slots i)), (''confidence'', ct_rat ct (ci_confidence i))]"

definition core_intent_of :: "core_text \<Rightarrow> json \<Rightarrow> core_intent option" where
  "core_intent_of ct v = do {
     m \<leftarrow> struct_of [''name'', ''slots'', ''confidence''] v;
     nm \<leftarrow> needed as_str m ''name'';
     slots \<leftarrow> needed of_map m ''slots'';
     c \<leftarrow> needed (of_rat ct) m ''confidence'';
     Some \<lparr>ci_name = nm, ci_slots = slots, ci_confidence = c\<rparr> }"

fun event_members :: "core_text \<Rightarrow> event \<Rightarrow> (string \<times> json) list" where
  "event_members ct (SessionStarted s sat loc) =
     [(''session'', JStr (ct_uuid ct s)), (''satellite'', JStr sat), (''locale'', JStr loc)]"
| "event_members ct (AudioFrameDropped s n) = [(''session'', JStr (ct_uuid ct s)), (''seq'', JNum (PosInt (ucast n)))]"
| "event_members ct (TranscriptPartial s t) = [(''session'', JStr (ct_uuid ct s)), (''text'', JStr t)]"
| "event_members ct (TranscriptFinal s t) = [(''session'', JStr (ct_uuid ct s)), (''text'', JStr t)]"
| "event_members ct (IntentMatched s i) = [(''session'', JStr (ct_uuid ct s)), (''intent'', core_intent_json ct i)]"
| "event_members ct (SkillInvoked s k) = [(''session'', JStr (ct_uuid ct s)), (''skill'', JStr k)]"
| "event_members ct (SkillPanicked s k r) = [(''session'', JStr (ct_uuid ct s)), (''skill'', JStr k), (''reason'', JStr r)]"
| "event_members ct (LlmFallback s r slots) =
     [(''session'', JStr (ct_uuid ct s)), (''reason'', JStr (llm_fallback_name r)), (''slots'', JArr (map JStr slots))]"
| "event_members ct (TtsChunk s n len) =
     [(''session'', JStr (ct_uuid ct s)), (''seq'', JNum (PosInt (ucast n))), (''bytes_len'', JNum (PosInt (of_nat len)))]"
| "event_members ct (SessionEnded s oc) = [(''session'', JStr (ct_uuid ct s)), (''outcome'', JStr (outcome_name oc))]"
| "event_members ct (ProviderError s st e) =
     [(''session'', JStr (ct_uuid ct s)), (''stage'', JStr (stage_name st)), (''error'', JStr e)]"
| "event_members ct (CircuitOpened st p) = [(''stage'', JStr (stage_name st)), (''provider'', JStr p)]"
| "event_members ct (CircuitClosed st p) = [(''stage'', JStr (stage_name st)), (''provider'', JStr p)]"
| "event_members ct (BargeIn s r) = [(''session'', JStr (ct_uuid ct s)), (''reason'', JStr (barge_in_name r))]"
| "event_members ct (SkillCancelled s k) = [(''session'', JStr (ct_uuid ct s)), (''skill'', JStr k)]"
| "event_members ct (SkillReloaded n) = [(''name'', JStr n)]"
| "event_members ct (SkillReloadFailed n r) = [(''name'', JStr n), (''reason'', JStr r)]"
| "event_members ct (ScheduledFired k n) = [(''skill'', JStr k), (''id'', i64_json n)]"
| "event_members ct (SkillNotify s k t) = [(''session'', JStr (ct_uuid ct s)), (''skill'', JStr k), (''text'', JStr t)]"
| "event_members ct (AudioChunk s f rate bs) =
     [(''session'', JStr (ct_uuid ct s)), (''format'', JStr (audio_format_name f)), (''sample_rate'', JNum (PosInt (ucast rate))),
      (''payload'', JArr (map (\<lambda>b. JNum (PosInt (ucast b))) bs))]"
| "event_members ct (VolumeChanged s l) = [(''session'', JStr (ct_uuid ct s)), (''level'', jc_f32 (ct_json ct) l)]"
| "event_members ct (TtsText s t) = [(''session'', JStr (ct_uuid ct s)), (''text'', JStr t)]"

definition event_json :: "core_text \<Rightarrow> event \<Rightarrow> json" where
  "event_json ct e = value_of ((''kind'', JStr (event_kind e)) # event_members ct e)"

text \<open>The fields a variant has, and the event they make; a field marked \<open>default\<close> may be missing.\<close>

abbreviation str_in :: "(string \<Rightarrow> json option) \<Rightarrow> string \<Rightarrow> string option" where
  "str_in \<equiv> needed as_str"

definition default_sample_rate :: u32 where "default_sample_rate = 48000"

definition event_fields :: "string \<Rightarrow> string list option" where
  "event_fields kind = map_of
     [(''session_started'', [''session'', ''satellite'', ''locale'']), (''audio_frame_dropped'', [''session'', ''seq'']),
      (''transcript_partial'', [''session'', ''text'']), (''transcript_final'', [''session'', ''text'']),
      (''intent_matched'', [''session'', ''intent'']), (''skill_invoked'', [''session'', ''skill'']),
      (''skill_panicked'', [''session'', ''skill'', ''reason'']), (''llm_fallback'', [''session'', ''reason'', ''slots'']),
      (''tts_chunk'', [''session'', ''seq'', ''bytes_len'']), (''session_ended'', [''session'', ''outcome'']),
      (''provider_error'', [''session'', ''stage'', ''error'']), (''circuit_opened'', [''stage'', ''provider'']),
      (''circuit_closed'', [''stage'', ''provider'']), (''barge_in'', [''session'', ''reason'']),
      (''skill_cancelled'', [''session'', ''skill'']), (''skill_reloaded'', [''name'']),
      (''skill_reload_failed'', [''name'', ''reason'']), (''scheduled_fired'', [''skill'', ''id'']),
      (''skill_notify'', [''session'', ''skill'', ''text'']),
      (''audio_chunk'', [''session'', ''format'', ''sample_rate'', ''payload'']), (''volume_changed'', [''session'', ''level'']),
      (''tts_text'', [''session'', ''text''])] kind"

definition event_made :: "core_text \<Rightarrow> string \<Rightarrow> (string \<Rightarrow> json option) \<Rightarrow> event option" where
  "event_made ct kind m =
     (let session = needed (session_of ct) m ''session'' in
      if kind = ''session_started'' then do {
        s \<leftarrow> session; sat \<leftarrow> needed satellite_of m ''satellite''; loc \<leftarrow> needed locale_of m ''locale''; Some (SessionStarted s sat loc) }
      else if kind = ''audio_frame_dropped'' then do { s \<leftarrow> session; n \<leftarrow> needed (of_uint (2 ^ 32)) m ''seq''; Some (AudioFrameDropped s n) }
      else if kind = ''transcript_partial'' then do { s \<leftarrow> session; t \<leftarrow> str_in m ''text''; Some (TranscriptPartial s t) }
      else if kind = ''transcript_final'' then do { s \<leftarrow> session; t \<leftarrow> str_in m ''text''; Some (TranscriptFinal s t) }
      else if kind = ''intent_matched'' then do { s \<leftarrow> session; i \<leftarrow> needed (core_intent_of ct) m ''intent''; Some (IntentMatched s i) }
      else if kind = ''skill_invoked'' then do { s \<leftarrow> session; k \<leftarrow> str_in m ''skill''; Some (SkillInvoked s k) }
      else if kind = ''skill_panicked'' then do {
        s \<leftarrow> session; k \<leftarrow> str_in m ''skill''; r \<leftarrow> str_in m ''reason''; Some (SkillPanicked s k r) }
      else if kind = ''llm_fallback'' then do {
        s \<leftarrow> session; r \<leftarrow> defaulted NoMatch llm_fallback_of m ''reason''; slots \<leftarrow> defaulted [] (of_list as_str) m ''slots'';
        Some (LlmFallback s r slots) }
      else if kind = ''tts_chunk'' then do {
        s \<leftarrow> session; n \<leftarrow> needed (of_uint (2 ^ 32)) m ''seq''; len \<leftarrow> needed of_usize m ''bytes_len''; Some (TtsChunk s n len) }
      else if kind = ''session_ended'' then do { s \<leftarrow> session; oc \<leftarrow> needed outcome_of m ''outcome''; Some (SessionEnded s oc) }
      else if kind = ''provider_error'' then do {
        s \<leftarrow> session; st \<leftarrow> needed stage_of m ''stage''; e \<leftarrow> str_in m ''error''; Some (ProviderError s st e) }
      else if kind = ''circuit_opened'' then do { st \<leftarrow> needed stage_of m ''stage''; p \<leftarrow> str_in m ''provider''; Some (CircuitOpened st p) }
      else if kind = ''circuit_closed'' then do { st \<leftarrow> needed stage_of m ''stage''; p \<leftarrow> str_in m ''provider''; Some (CircuitClosed st p) }
      else if kind = ''barge_in'' then do { s \<leftarrow> session; r \<leftarrow> needed barge_in_of m ''reason''; Some (BargeIn s r) }
      else if kind = ''skill_cancelled'' then do { s \<leftarrow> session; k \<leftarrow> str_in m ''skill''; Some (SkillCancelled s k) }
      else if kind = ''skill_reloaded'' then do { n \<leftarrow> str_in m ''name''; Some (SkillReloaded n) }
      else if kind = ''skill_reload_failed'' then do { n \<leftarrow> str_in m ''name''; r \<leftarrow> str_in m ''reason''; Some (SkillReloadFailed n r) }
      else if kind = ''scheduled_fired'' then do { k \<leftarrow> str_in m ''skill''; n \<leftarrow> needed of_i64 m ''id''; Some (ScheduledFired k n) }
      else if kind = ''skill_notify'' then do {
        s \<leftarrow> session; k \<leftarrow> str_in m ''skill''; t \<leftarrow> str_in m ''text''; Some (SkillNotify s k t) }
      else if kind = ''audio_chunk'' then do {
        s \<leftarrow> session; f \<leftarrow> needed audio_format_of m ''format''; rate \<leftarrow> defaulted default_sample_rate (of_uint (2 ^ 32)) m ''sample_rate'';
        bs \<leftarrow> needed (of_list (of_uint 256)) m ''payload''; Some (AudioChunk s f rate bs) }
      else if kind = ''volume_changed'' then do { s \<leftarrow> session; l \<leftarrow> needed (of_f32 (ct_json ct)) m ''level''; Some (VolumeChanged s l) }
      else if kind = ''tts_text'' then do { s \<leftarrow> session; t \<leftarrow> str_in m ''text''; Some (TtsText s t) }
      else None)"

definition event_of :: "core_text \<Rightarrow> json \<Rightarrow> event option" where
  "event_of ct v =
     (let made = (\<lambda>kind body. do { names \<leftarrow> event_fields kind; m \<leftarrow> struct_of names body; event_made ct kind m }) in
      case v of
        JObj kvs \<Rightarrow>
          (case filter (\<lambda>(k, _). k = ''kind'') kvs of
             [(_, JStr kind)] \<Rightarrow> made kind (JObj (filter (\<lambda>(k, _). k \<noteq> ''kind'') kvs))
           | _ \<Rightarrow> None)
      | JArr (JStr kind # vs) \<Rightarrow> made kind (JArr vs)
      | _ \<Rightarrow> None)"

section \<open>Data types\<close>

definition transcript_json :: "core_text \<Rightarrow> transcript \<Rightarrow> json" where
  "transcript_json ct t =
     JObj ([(''text'', JStr (t_text t)), (''is_final'', JBool (t_is_final t))]
       @ (case t_confidence t of Some c \<Rightarrow> [(''confidence'', jc_f32 (ct_json ct) c)] | None \<Rightarrow> []))"

definition transcript_of :: "core_text \<Rightarrow> json \<Rightarrow> transcript option" where
  "transcript_of ct v = do {
     m \<leftarrow> struct_of [''text'', ''is_final'', ''confidence''] v;
     t \<leftarrow> needed as_str m ''text'';
     f \<leftarrow> needed of_bool m ''is_final'';
     c \<leftarrow> defaulted None (\<lambda>v. if v = JNull then Some None else map_option Some (of_f32 (ct_json ct) v)) m ''confidence'';
     Some \<lparr>t_text = t, t_is_final = f, t_confidence = c\<rparr> }"

record completion =
  co_text :: string
  co_finish :: finish_reason

definition completion_json :: "completion \<Rightarrow> json" where
  "completion_json c = JObj [(''text'', JStr (co_text c)), (''finish'', JStr (finish_name (co_finish c)))]"

definition completion_of :: "json \<Rightarrow> completion option" where
  "completion_of v = do {
     m \<leftarrow> struct_of [''text'', ''finish''] v;
     t \<leftarrow> needed as_str m ''text'';
     f \<leftarrow> needed (variant_named finish_name [Stop, Length, ContentFilter, FinishError]) m ''finish'';
     Some \<lparr>co_text = t, co_finish = f\<rparr> }"

definition audio_frame_json :: "core_text \<Rightarrow> audio_frame \<Rightarrow> json" where
  "audio_frame_json ct f =
     JObj [(''session'', JStr (ct_uuid ct (af_session f))), (''seq'', JNum (PosInt (ucast (af_seq f)))),
       (''pcm'', JStr (ct_base64 ct (af_pcm f)))]"

definition audio_frame_of :: "core_text \<Rightarrow> json \<Rightarrow> audio_frame option" where
  "audio_frame_of ct v = do {
     m \<leftarrow> struct_of [''session'', ''seq'', ''pcm''] v;
     s \<leftarrow> needed (session_of ct) m ''session'';
     n \<leftarrow> needed (of_uint (2 ^ 32)) m ''seq'';
     pcm \<leftarrow> needed (\<lambda>v. Option.bind (as_str v) (ct_unbase64 ct)) m ''pcm'';
     Some \<lparr>af_session = s, af_seq = n, af_pcm = pcm\<rparr> }"

section \<open>The mirror's payloads\<close>

definition event_payload :: "core_text \<Rightarrow> event \<Rightarrow> byte list option" where
  "event_payload ct e = Some (bytes_of (jc_print (ct_json ct) (event_json ct e)))"

section \<open>Round trips\<close>

lemma right_Some [simp]: "right r = Some a \<longleftrightarrow> r = Inr a"
  by (simp add: right_def split: sum.split)

lemma satellite_of_valid: "satellite_of v = Some s \<longleftrightarrow> v = JStr s \<and> valid_satellite s"
  by (cases v) (auto simp: satellite_of_def as_str_def satellite_new_Inr)

lemma locale_of_valid: "locale_of v = Some s \<longleftrightarrow> v = JStr s \<and> valid_locale s"
  by (cases v) (auto simp: locale_of_def as_str_def locale_new_Inr)

lemmas identifiers_kept = satellite_of_valid [THEN iffD2, OF conjI, OF refl] locale_of_valid [THEN iffD2, OF conjI, OF refl]

lemma f32_not_null: "json_text_ok jt \<Longrightarrow> finite_f32 b \<Longrightarrow> jc_f32 jt b \<noteq> JNull"
  using of_f32_print [of jt b] by (auto simp: of_f32_def)

lemma named_known [abi_simps]:
  "variant_named stage_name [Ingest, Vad, Stt, Router, Skill, Llm, Tts, Sink, Storage] (JStr (stage_name st)) = Some st"
  "variant_named outcome_name [OutOk, OutError, OutCancelled, OutOverloaded, OutOrphaned] (JStr (outcome_name oc)) = Some oc"
  "variant_named audio_format_name [S16le, Opus, F32le, TextFormat] (JStr (audio_format_name f)) = Some f"
  "variant_named barge_in_name [NewFinalTranscript, VadSpeechStart] (JStr (barge_in_name b)) = Some b"
  "variant_named llm_fallback_name [NoMatch, MissingSlots] (JStr (llm_fallback_name r)) = Some r"
  by (cases st, simp_all add: variant_named_def enum_of_def unit_variant_def stage_name_def)
     (cases oc, simp_all add: variant_named_def enum_of_def unit_variant_def outcome_name_def,
      cases f, simp_all add: variant_named_def enum_of_def unit_variant_def audio_format_name_def,
      cases b, simp_all add: variant_named_def enum_of_def unit_variant_def barge_in_name_def,
      cases r, simp_all add: variant_named_def enum_of_def unit_variant_def llm_fallback_name_def)

lemma of_i64_json [abi_simps]: "of_i64 (i64_json n) = Some n"
  by (simp add: of_i64_def i64_json_def)

lemma of_usize_json [abi_simps]: "n < 2 ^ 64 \<Longrightarrow> of_usize (JNum (PosInt (of_nat n))) = Some n"
  by (simp add: of_usize_def unat_of_nat_id)

lemma folded_members:
  "distinct (map fst kvs) \<Longrightarrow>
     (let m = fold (\<lambda>(k, w). bt_insert k w) kvs [] in sorted_wrt (<) (map fst m) \<and> map_of m = map_of kvs)"
proof -
  have "sorted_wrt (<) (map fst acc) \<Longrightarrow> distinct (map fst kvs) \<Longrightarrow> fst ` set acc \<inter> fst ` set kvs = {} \<Longrightarrow>
      sorted_wrt (<) (map fst (fold (\<lambda>(k, w). bt_insert k w) kvs acc))
      \<and> map_of (fold (\<lambda>(k, w). bt_insert k w) kvs acc) = map_of acc ++ map_of kvs" for acc :: "(string \<times> 'a) list" and kvs
  proof (induction kvs arbitrary: acc)
    case (Cons a kvs)
    obtain k w where a: "a = (k, w)" by (cases a)
    have "map_of (bt_insert k w acc) = (map_of acc)(k \<mapsto> w)" by auto
    moreover have "map_of kvs k = None" using Cons.prems(2) by (simp add: a map_of_eq_None_iff)
    ultimately have "map_of (bt_insert k w acc) ++ map_of kvs = map_of acc ++ map_of (a # kvs)"
      by (auto simp: a map_add_def split: option.split)
    moreover have "sorted_wrt (<) (map fst (fold (\<lambda>(k, w). bt_insert k w) kvs (bt_insert k w acc)))
        \<and> map_of (fold (\<lambda>(k, w). bt_insert k w) kvs (bt_insert k w acc)) = map_of (bt_insert k w acc) ++ map_of kvs"
    proof (rule Cons.IH)
      show "sorted_wrt (<) (map fst (bt_insert k w acc))" using sorted_bt_insert Cons.prems(1) .
      show "distinct (map fst kvs)" "fst ` set (bt_insert k w acc) \<inter> fst ` set kvs = {}" using Cons.prems(2,3) by (auto simp: a)
    qed
    ultimately show ?case by (simp only: a fold_simps split_conv)
  qed simp
  from this [of "[]" kvs] show "distinct (map fst kvs) \<Longrightarrow> ?thesis" by (simp add: Let_def)
qed

lemma value_struct [abi_simps]: "distinct (map fst kvs) \<Longrightarrow> struct_of names (value_of kvs) = Some (map_of kvs)"
  using folded_members [of kvs] by (auto simp: value_of_def struct_of_def Let_def strict_sorted_iff)

lemma filter_key: "distinct (map fst kvs) \<Longrightarrow> filter (\<lambda>(k, _). k = a) kvs = (case map_of kvs a of None \<Rightarrow> [] | Some v \<Rightarrow> [(a, v)])"
proof (induction kvs)
  case (Cons b kvs)
  obtain k v where b: "b = (k, v)" by (cases b)
  have "map_of kvs k = None" using Cons.prems by (simp add: b map_of_eq_None_iff)
  then show ?case using Cons by (cases "k = a") (simp_all add: b)
qed simp

lemma map_of_filter_key: "map_of (filter (\<lambda>(k, _). k \<noteq> a) kvs) = (map_of kvs)(a := None)"
  by (induction kvs) auto

definition event_ok :: "core_text \<Rightarrow> event \<Rightarrow> bool" where
  "event_ok ct e =
     (case e of
        SessionStarted _ sat loc \<Rightarrow> valid_satellite sat \<and> valid_locale loc
      | IntentMatched _ i \<Rightarrow> sorted_wrt (<) (map fst (ci_slots i)) \<and> of_rat ct (ct_rat ct (ci_confidence i)) = Some (ci_confidence i)
      | TtsChunk _ _ len \<Rightarrow> len < 2 ^ 64
      | VolumeChanged _ l \<Rightarrow> finite_f32 l
      | _ \<Rightarrow> True)"

definition core_text_ok :: "core_text \<Rightarrow> bool" where
  "core_text_ok ct \<longleftrightarrow> json_text_ok (ct_json ct) \<and> (\<forall>s. ct_puuid ct (ct_uuid ct s) = Some s) \<and> (\<forall>bs. ct_unbase64 ct (ct_base64 ct bs) = Some bs)"

lemma session_of_uuid [abi_simps]: "core_text_ok ct \<Longrightarrow> session_of ct (JStr (ct_uuid ct s)) = Some s"
  by (simp add: session_of_def core_text_ok_def as_str_def)

lemma core_intent_of_json:
  "sorted_wrt (<) (map fst (ci_slots i)) \<Longrightarrow> of_rat ct (ct_rat ct (ci_confidence i)) = Some (ci_confidence i) \<Longrightarrow>
     core_intent_of ct (core_intent_json ct i) = Some i"
  by (simp add: core_intent_of_def core_intent_json_def needed_def abi_simps of_map_sorted)

lemma event_keys: "distinct (''kind'' # map fst (event_members ct e))"
  by (cases e) simp_all

lemma event_of_members:
  assumes "core_text_ok ct" "event_ok ct e"
  shows "event_made ct (event_kind e) (map_of (event_members ct e)) = Some e"
proof -
  have "json_text_ok (ct_json ct)" using assms(1) by (simp add: core_text_ok_def)
  then show ?thesis
    using assms
    by (cases e) (simp_all add: event_made_def Let_def needed_def defaulted_def abi_simps event_ok_def core_intent_of_json
        identifiers_kept del: power_numeral)
qed

lemma event_of_json:
  assumes "core_text_ok ct" "event_ok ct e"
  shows "event_of ct (event_json ct e) = Some e"
proof -
  let ?kvs = "(''kind'', JStr (event_kind e)) # event_members ct e"
  define ms where "ms = fold (\<lambda>(k, w). bt_insert k w) ?kvs []"
  have d: "distinct (map fst ?kvs)" using event_keys [of ct e] by simp
  then have m: "distinct (map fst ms)" "map_of ms = map_of ?kvs"
    using folded_members [OF d] unfolding ms_def Let_def strict_sorted_iff by blast+
  have kind: "filter (\<lambda>(k, _). k = ''kind'') ms = [(''kind'', JStr (event_kind e))]"
    using filter_key [OF m(1), of "''kind''"] by (simp add: m(2))
  have "map_of (event_members ct e) ''kind'' = None" using d by (simp add: map_of_eq_None_iff)
  then have "map_of (filter (\<lambda>(k, _). k \<noteq> ''kind'') ms) = map_of (event_members ct e)"
    unfolding map_of_filter_key m(2) by (auto simp: fun_upd_def)
  moreover have "distinct (map fst (filter (\<lambda>(k, _). k \<noteq> ''kind'') ms))" using m(1) distinct_map_filter by blast
  ultimately have body: "struct_of names (JObj (filter (\<lambda>(k, _). k \<noteq> ''kind'') ms)) = Some (map_of (event_members ct e))" for names
    by (simp add: struct_of_obj)
  obtain names where "event_fields (event_kind e) = Some names" by (cases e) (simp_all add: event_fields_def)
  moreover have "event_json ct e = JObj ms" by (simp only: event_json_def value_of_def ms_def)
  ultimately show ?thesis using event_of_members [OF assms] by (simp add: event_of_def Let_def kind body)
qed

lemma transcript_of_json:
  "json_text_ok (ct_json ct) \<Longrightarrow> (case t_confidence t of Some c \<Rightarrow> finite_f32 c | None \<Rightarrow> True) \<Longrightarrow>
     transcript_of ct (transcript_json ct t) = Some t"
  by (cases "t_confidence t") (auto simp: transcript_of_def transcript_json_def needed_def defaulted_def abi_simps of_bool_def f32_not_null)

lemma completion_of_json: "completion_of (completion_json c) = Some c"
  by (cases "co_finish c")
     (simp_all add: completion_of_def completion_json_def needed_def abi_simps variant_named_def enum_of_def unit_variant_def finish_name_def)

lemma audio_frame_of_json:
  "core_text_ok ct \<Longrightarrow> audio_frame_of ct (audio_frame_json ct f) = Some f"
  by (simp add: audio_frame_of_def audio_frame_json_def needed_def abi_simps core_text_ok_def session_of_uuid del: power_numeral)

text \<open>A session id printed is the one parsed; an identifier read is one the constructors accept.\<close>

lemma session_display_parses: "core_text_ok ct \<Longrightarrow> session_from_str ct (ct_uuid ct s) = Inr s"
  by (simp add: session_from_str_def core_text_ok_def)

lemma read_identifiers_valid:
  "event_made ct kind m = Some (SessionStarted s sat loc) \<Longrightarrow> valid_satellite sat \<and> valid_locale loc"
  by (auto simp: event_made_def Let_def needed_def satellite_of_valid locale_of_valid split: if_splits bind_splits)

text \<open>What the mirror publishes for an event is that event, on the topic of its kind.\<close>

lemma mirrored_events_read_back:
  assumes "core_text_ok ct" "list_all (event_ok ct) evs"
  shows "map fst (mqtt_mirror (event_payload ct) troot evs) = map (\<lambda>e. event_topic troot (event_kind e)) evs
    \<and> map (\<lambda>(t, p). Option.bind (jc_parse (ct_json ct) (text_of p)) (event_of ct)) (mqtt_mirror (event_payload ct) troot evs) = map Some evs"
proof -
  have p: "jc_parse (ct_json ct) (jc_print (ct_json ct) v) = Some v" for v
    using assms(1) by (simp add: core_text_ok_def json_text_ok_def)
  show ?thesis using assms(2)
    by (induction evs) (simp_all add: mqtt_mirror_def List.map_filter_simps event_payload_def p event_of_json [OF assms(1)])
qed

end
