(* ===== verification/Recorder.thy ===== *)
theory Recorder
  imports Client Floats Firmware
begin

text \<open>
  Where the command line client's audio comes from (\<open>athena-voice-client/src/main.rs\<close>): a WAV file or the
  microphone, mixed down and resampled to 16 kHz; the flush of the connection when it leaves; and the unused
  resampler of \<open>athena-voice-server/src/resample.rs\<close>. Samples are finite floats, as the rationals they denote,
  and every operation of the code rounds. Decoding the file and the capture device are libraries', parameters.
\<close>

section \<open>Exact floats\<close>

lemma pow2_powi: "pow2 k = 2 powi k"
  by (simp add: pow2_def power_int_def field_simps)

lemma pow2_pos [simp]: "0 < pow2 k"
  by (simp add: pow2_powi)

lemma pow2_add: "pow2 (i + j) = pow2 i * pow2 j"
  by (simp add: pow2_powi power_int_add)

lemma pow2_less: "pow2 i < pow2 j \<longleftrightarrow> i < j"
proof -
  have "pow2 a < pow2 b" if "a < b" for a b
    unfolding pow2_powi by (rule power_int_strict_increasing [OF that]) simp
  then show ?thesis by (metis linorder_neq_iff order_less_asym)
qed

lemma exponent_le:
  assumes "0 < x"
  shows "pow2 (exponent x) \<le> x"
proof -
  obtain n d where q: "quotient_of x = (n, d)" by fastforce
  have d: "0 < d" and x: "x = of_int n / of_int d" using quotient_of_denom_pos [OF q] quotient_of_div [OF q] by simp_all
  then have n: "0 < n" using assms by (simp add: zero_less_divide_iff)
  have bound: "pow2 (bitlen n - 1) \<le> of_int n" "of_int d < pow2 (bitlen d)"
  proof -
    have "2 ^ nat (bitlen n - 1) \<le> n" "0 < bitlen n"
      using bitlen_bounds [OF n] n bitlen_nonneg [of n] bitlen_eq_zero_iff [of n] by (auto simp: order_le_less)
    then show "pow2 (bitlen n - 1) \<le> of_int n"
      by (simp add: pow2_def)
    have "d < 2 ^ nat (bitlen d)" "0 \<le> bitlen d" using bitlen_bounds [OF d] bitlen_nonneg [of d] by simp_all
    then show "of_int d < pow2 (bitlen d)"
      by (simp add: pow2_def)
  qed
  have "pow2 (bitlen n - bitlen d - 1) = pow2 (bitlen n - 1) * pow2 (- bitlen d)"
    by (simp add: algebra_simps flip: pow2_add)
  also have "pow2 (- bitlen d) = 1 / pow2 (bitlen d)" by (simp add: pow2_powi power_int_minus field_simps)
  finally have "pow2 (bitlen n - bitlen d - 1) \<le> x"
    unfolding x using bound d n by (simp add: frac_le less_imp_le)
  then show ?thesis unfolding exponent_def q by (simp add: Let_def)
qed

lemma round_int [simp]: "round_half_even (of_int i) = i"
  by (simp add: round_half_even_def Let_def)

text \<open>A number of at most \<open>p\<close> bits at any scale is not rounded.\<close>

lemma fl_exact:
  assumes "\<bar>m\<bar> < 2 ^ p"
  shows "fl p (of_int m * pow2 k) = of_int m * pow2 k"
proof (cases "m = 0")
  case False
  let ?x = "of_int m * pow2 k"
  let ?a = "\<bar>?x\<bar>"
  let ?e = "exponent ?a - int p + 1"
  have a: "?a = of_int \<bar>m\<bar> * pow2 k" by (simp add: abs_mult less_imp_le)
  have "pow2 (exponent ?a) \<le> ?a" using False by (intro exponent_le) (simp add: less_imp_neq [OF pow2_pos, symmetric])
  also have "?a < pow2 (int p + k)"
  proof -
    have "(of_int \<bar>m\<bar> :: rat) < 2 ^ p" using assms by (metis of_int_less_iff of_int_power of_int_numeral)
    then show ?thesis by (simp add: a pow2_add) (simp add: pow2_def)
  qed
  finally have e: "?e \<le> k" by (simp add: pow2_less)
  define u where "u = pow2 ?e"
  have u: "u \<noteq> 0" by (simp add: u_def less_imp_neq [OF pow2_pos, symmetric])
  have "pow2 k = pow2 (k - ?e) * u" by (simp add: u_def flip: pow2_add)
  also have "pow2 (k - ?e) = of_int (2 ^ nat (k - ?e))" using e by (simp add: pow2_def)
  finally have "?a = of_int (\<bar>m\<bar> * 2 ^ nat (k - ?e)) * u" by (simp add: a)
  then have "of_int (round_half_even (?a / u)) * u = ?a" using u by (metis nonzero_mult_div_cancel_right round_int)
  then have "fl p ?x = sgn ?x * ?a"
    using False less_imp_neq [OF pow2_pos, of k] by (simp only: fl_def Let_def u_def [symmetric] mult.assoc) simp
  then show ?thesis by (simp add: sgn_mult_abs)
qed simp

lemma fl_of_nat: "n < 2 ^ p \<Longrightarrow> fl p (of_nat n) = of_nat n"
  using fl_exact [of "int n" p 0] by (simp add: pow2_def flip: of_nat_power)

section \<open>Conversion\<close>

text \<open>A float cast to an integer truncates and saturates.\<close>

definition truncate :: "rat \<Rightarrow> int" where
  "truncate x = (if 0 \<le> x then \<lfloor>x\<rfloor> else \<lceil>x\<rceil>)"

definition as_i16 :: "rat \<Rightarrow> i16" where
  "as_i16 x = of_int (max (- 32768) (min 32767 (truncate x)))"

definition clamp_unit :: "rat \<Rightarrow> rat" where
  "clamp_unit v = max (- 1) (min 1 v)"

definition stt_rate :: u32 where "stt_rate = 16000"

definition mix_down :: "nat \<Rightarrow> rat list \<Rightarrow> rat list" where
  "mix_down channels samples =
     map (\<lambda>frame. f32 (foldl (\<lambda>a x. f32 (a + x)) 0 frame / f32 (of_nat (length frame)))) (chunks_of (max 1 channels) samples)"

definition quantise :: "rat \<Rightarrow> i16" where
  "quantise v = as_i16 (f32 (clamp_unit v * 32767))"

definition sample_at :: "rat list \<Rightarrow> rat \<Rightarrow> nat \<Rightarrow> rat" where
  "sample_at mixed ratio i =
     (let pos = f64 (f64 (of_nat i) * ratio); idx = nat \<lfloor>pos\<rfloor>; frac = f32 (f64 (pos - f64 (of_nat idx)));
          a = mixed ! min idx (length mixed - 1); b = mixed ! min (idx + 1) (length mixed - 1)
      in f32 (a + f32 (f32 (b - a) * frac)))"

text \<open>At a rate of 0 the length is infinite, and the allocation panics: \<open>None\<close>.\<close>

definition to_s16le_16k :: "rat list \<Rightarrow> u32 \<Rightarrow> nat \<Rightarrow> byte list option" where
  "to_s16le_16k samples src_rate channels =
     (let mixed = mix_down channels samples in
      if mixed = [] then Some []
      else if src_rate = 0 then None
      else (let ratio = f64 (of_nat (unat src_rate) / of_nat (unat stt_rate)); out_len = nat \<lfloor>f64 (f64 (of_nat (length mixed)) / ratio)\<rfloor>
            in Some (concat (map (\<lambda>i. sample_bytes (quantise (sample_at mixed ratio i))) [0..<out_len]))))"

section \<open>Sources\<close>

datatype wav_data = WavFloat "rat list" | WavInt "i16 list"

record wav =
  wv_rate :: u32
  wv_channels :: nat
  wv_samples :: "string + wav_data"

text \<open>A file that does not open, or a sample that does not decode, is an error; \<open>None\<close> is the panic above.\<close>

definition read_wav :: "(string \<Rightarrow> string + wav) \<Rightarrow> string \<Rightarrow> string + byte list option" where
  "read_wav open_wav path =
     (case open_wav path of
        Inl e \<Rightarrow> Inl (''cannot open '' @ path @ '': '' @ e)
      | Inr w \<Rightarrow>
          (case wv_samples w of
             Inl e \<Rightarrow> Inl e
           | Inr data \<Rightarrow>
               (let samples = (case data of WavFloat xs \<Rightarrow> xs | WavInt vs \<Rightarrow> map (\<lambda>v. f32 (f32 (of_int (sint v)) / 32767)) vs)
                in Inr (to_s16le_16k samples (wv_rate w) (wv_channels w)))))"

definition record_microphone :: "string + (u32 \<times> nat \<times> rat list) \<Rightarrow> string + byte list option" where
  "record_microphone capture =
     (case capture of
        Inl e \<Rightarrow> Inl e
      | Inr (rate, channels, samples) \<Rightarrow>
          if samples = [] then Inl ''microphone produced no samples'' else Inr (to_s16le_16k samples rate channels))"

record audio_args =
  aa_wav :: "string option"
  aa_microphone :: bool
  aa_text :: "string option"

text \<open>The utterance is read before the session opens; \<open>Inr (Some None)\<close> is the panic, \<open>Inr None\<close> a text session.\<close>

definition utterance_source ::
  "(string \<Rightarrow> string + wav) \<Rightarrow> string + (u32 \<times> nat \<times> rat list) \<Rightarrow> audio_args \<Rightarrow> string + byte list option option" where
  "utterance_source open_wav capture args =
     (case aa_wav args of
        Some path \<Rightarrow> map_sum id Some (read_wav open_wav path)
      | None \<Rightarrow>
          if aa_microphone args then map_sum id Some (record_microphone capture)
          else if aa_text args = None then Inl ''one of --text, --wav, or --microphone is required''
          else Inr None)"

text \<open>The samples a playback appends, from the chunks in which the answer came.\<close>

definition played_samples :: "byte list list \<Rightarrow> i16 list" where
  "played_samples tts_chunks =
     concat (map (\<lambda>c. map (\<lambda>i. or (ucast (c ! (2 * i))) (push_bit 8 (ucast (c ! (2 * i + 1))))) [0..<length c div 2]) tts_chunks)"

section \<open>Leaving\<close>

datatype poll_out = PubAck nat | OtherEvent | PollTimeout

text \<open>Polls until an acknowledgement, a silent tenth of a second or the deadline, of which the list has room for the
  polls before; the result is the part of the list not consumed.\<close>

fun flush_eventloop :: "poll_out list \<Rightarrow> poll_out list" where
  "flush_eventloop [] = []"
| "flush_eventloop (PubAck n # ps) = ps"
| "flush_eventloop (OtherEvent # ps) = flush_eventloop ps"
| "flush_eventloop (PollTimeout # ps) = ps"

section \<open>The server's resampler\<close>

text \<open>Indexing beyond the samples panics: \<open>None\<close>, as does an infinite length. A \<open>Vec\<close> is indexed before anything is pushed for that position.\<close>

definition resample_at :: "i16 list \<Rightarrow> rat \<Rightarrow> nat \<Rightarrow> i16 option" where
  "resample_at audio ratio i =
     (let pos = f32 (f32 (of_nat i) / ratio); idx = nat \<lfloor>pos\<rfloor>; frac = f32 (pos - f32 (of_nat idx));
          next_idx = min (idx + 1) (length audio - 1)
      in if idx < length audio
         then Some (as_i16 (f32 (f32 (of_int (sint (audio ! idx)) * f32 (1 - frac)) + f32 (of_int (sint (audio ! next_idx)) * frac))))
         else None)"

definition resample_audio :: "i16 list \<Rightarrow> u32 \<Rightarrow> u32 \<Rightarrow> i16 list option" where
  "resample_audio audio from_rate to_rate =
     (if from_rate = to_rate then Some audio
      else if from_rate = 0 \<and> audio \<noteq> [] then None
      else (let ratio = f32 (f32 (of_nat (unat to_rate)) / f32 (of_nat (unat from_rate)));
                new_len = nat \<lfloor>f32 (f32 (of_nat (length audio)) * ratio)\<rfloor>
            in those (map (resample_at audio ratio) [0..<new_len])))"

section \<open>What reaches the recognizer\<close>

lemma chunks_of_1: "chunks_of (Suc 0) xs = map (\<lambda>x. [x]) xs"
  by (induction xs) (simp_all add: chunks_of.simps)

lemma sample_bytes_length [simp]: "length (sample_bytes s) = 2"
  by (simp add: sample_bytes_def)

lemma converted_length:
  assumes "to_s16le_16k samples rate channels = Some bs"
  shows "\<exists>vs. bs = concat (map sample_bytes vs) \<and> length bs = 2 * length vs"
proof -
  obtain f n where "bs = concat (map (\<lambda>i. sample_bytes (f i)) [0..<n])"
    using assms by (fastforce simp: to_s16le_16k_def Let_def split: if_splits intro: that [of _ 0])
  then have "bs = concat (map sample_bytes (map f [0..<n]))" by (simp add: comp_def)
  moreover have "length (concat (map sample_bytes vs)) = 2 * length vs" for vs by (induction vs) simp_all
  ultimately show ?thesis by blast
qed

text \<open>A 16 kHz mixed recording is only quantised: no sample is moved, mixed or lost.\<close>

lemma native_rate_kept:
  assumes "list_all (\<lambda>x. f32 x = x) samples" "length samples < 2 ^ 53"
  shows "to_s16le_16k samples stt_rate 1 = Some (concat (map (\<lambda>x. sample_bytes (quantise x)) samples))"
proof (cases "samples = []")
  case False
  have one: "f32 1 = 1" "f64 1 = 1" using fl_of_nat [of 1] by simp_all
  have mixed: "mix_down (Suc 0) samples = samples"
    using assms(1) by (simp add: mix_down_def chunks_of_1 one list_all_iff comp_def map_idI)
  have at: "sample_at samples 1 i = samples ! i" if "i < length samples" for i
  proof -
    have "f64 (of_nat i) = of_nat i" using that assms(2) by (intro fl_of_nat) simp
    moreover have "f32 (samples ! i) = samples ! i" using assms(1) that by (simp add: list_all_length)
    moreover have "i \<le> length samples - 1" using that by simp
    ultimately show ?thesis by (simp add: sample_at_def Let_def min_def)
  qed
  have "f64 (of_nat (length samples)) = of_nat (length samples)" using assms(2) by (intro fl_of_nat) simp
  then show ?thesis
    using False arg_cong [OF map_nth [of samples], of "map (\<lambda>x. sample_bytes (quantise x))"]
      map_cong [OF refl, of "[0..<length samples]" "\<lambda>i. sample_bytes (quantise (sample_at samples 1 i))" "\<lambda>i. sample_bytes (quantise (samples ! i))"] at
    by (simp add: to_s16le_16k_def mixed Let_def stt_rate_def one comp_def)
qed (simp add: to_s16le_16k_def mix_down_def chunks_of.simps)

text \<open>A file that declares a rate of 0 brings the client down.\<close>

lemma rate_zero_panics: "samples \<noteq> [] \<Longrightarrow> to_s16le_16k samples 0 channels = None"
  by (simp add: to_s16le_16k_def mix_down_def Let_def chunks_of.simps)

text \<open>The first acknowledgement ends the flush, whichever message it is of.\<close>

lemma flush_stops_at_first_ack: "list_all (\<lambda>p. p = OtherEvent) ps \<Longrightarrow> flush_eventloop (ps @ PubAck n # rest) = rest"
  by (induction ps) auto

text \<open>With 32-bit positions the server's resampler leaves its input: tripling \<open>2^23\<close> samples, its last position is
  rounded up to the length.\<close>

lemma resampler_panics:
  assumes "length audio = 2 ^ 23"
  shows "resample_audio audio 16000 48000 = None"
proof -
  have "f32 48000 = 48000" "f32 16000 = 16000" "f32 3 = 3" "f32 8388608 = 8388608" "f32 25165824 = 25165824" by code_simp+
  then have ratio: "f32 (f32 (of_nat (unat (48000 :: u32))) / f32 (of_nat (unat (16000 :: u32)))) = 3"
    and len: "nat \<lfloor>f32 (f32 (of_nat (length audio)) * 3)\<rfloor> = 25165824"
    by (simp_all add: assms)
  have "f32 25165823 = 25165824" by code_simp
  then have "nat \<lfloor>f32 (f32 (25165823 :: rat) / 3)\<rfloor> = 8388608" using \<open>f32 8388608 = 8388608\<close> by simp
  then have "resample_at audio 3 25165823 = None" by (simp add: resample_at_def Let_def assms)
  moreover have "25165823 \<in> set [0..<25165824 :: nat]" unfolding set_upt by simp
  ultimately have "None \<in> set (map (resample_at audio 3) [0..<25165824])" unfolding set_map by (metis imageI)
  moreover have "those xs = None" if "None \<in> set xs" for xs :: "i16 option list"
    using that by (induction xs) (auto split: option.split)
  ultimately have "those (map (resample_at audio 3) [0..<25165824]) = None" by blast
  moreover have "(16000 :: u32) \<noteq> 48000" "(16000 :: u32) \<noteq> 0" by simp_all
  ultimately show ?thesis unfolding resample_audio_def ratio Let_def len by simp
qed

end
