(* ===== verification/Spec2Isabelle.thy ===== *)
theory Spec2Isabelle
  imports Circuit Pipeline Mic Registry Sessions Assist Jeedom Skills Admin Discovery Llm_Providers
    Synthesizer Transcriber Boot Console Client Fakes Local_Server Memory_Store Firmware Server_Loop Workers Probes Background Guest_Abi
    Core_Wire Recorder
begin

text \<open>
  A verification development for Athena-Voice, a voice assistant in Rust. Satellites (an ESP32 device, a command
  line client, the admin's test console, text clients of the assist bridge) talk MQTT to a server, which
  recognizes speech, matches intents, runs sandboxed skills, asks a language model when nothing matches, and
  speaks the answer.

  \<^bold>\<open>How the parts fit.\<close> A message on \<open><root>/sat/<satellite>/session/<id>/...\<close> is parsed (Topics) and opens,
  feeds or closes a session (Sessions), unless the assist bridge takes it as a question (Assist, Server_Loop).
  Audio passes the ingest, voice-activity and recognition stages (Sessions); a transcript reaches the router
  (Router), which matches it against the rules of the loaded skills (Intent, Registry) and dispatches to a skill
  (Registry, Host_Fns, Skill_Sdk, and the skills themselves in Skills, Jeedom_Rules, Jeedom) or hands it to the
  language model (Speech, Llm_Providers). Tokens are gathered into sentences (Sentence), spoken by the TTS actor
  and published by the sink (Speech); Pipeline runs these tasks together over their bounded channels. Speech
  workers behind MQTT do the recognition and the synthesis (Mqtt_Providers, Transcriber, Synthesizer), behind
  retries and a circuit breaker (Circuit). Skills keep state and timers in the store (Storage, Memory_Store,
  Scheduler). The admin server (Admin, Discovery, Console) edits skills and their settings; Boot composes a
  start from configuration, store and skill directory. On the other side of the broker stand the device (Mic,
  Satellite_Session, Firmware) and the command line client (Client).

  \<^bold>\<open>Theories and sources\<close> (paths below \<open>src/crates\<close> unless a directory of \<open>src\<close> is named). Prelude: machine
  integers, UTF-8 strings, bounded channels, shared by all. Core_Types: \<open>athena-voice-core\<close>. Floats: the
  rounding of \<open>f32\<close> and \<open>f64\<close>. Circuit: providers' \<open>circuit.rs\<close>, \<open>retry.rs\<close>. Topics: runtime's \<open>mqtt/topics.rs\<close>,
  \<open>assist/topics.rs\<close>. Sentence, Speech, Router: \<open>pipeline/sentence.rs\<close>, \<open>llm.rs\<close>, \<open>tts.rs\<close>, \<open>sink.rs\<close>,
  \<open>router.rs\<close>. Pipeline: the wiring of those four in \<open>open_session\<close> of \<open>satellite/ingress.rs\<close>. Intent:
  \<open>intent/\<close>. Sessions: \<open>session/manager.rs\<close>, \<open>satellite/ingress.rs\<close>, \<open>event_bus.rs\<close> and the audio stages.
  Server_Loop: the MQTT event loop of \<open>ingress.rs\<close> and the mailbox of \<open>wasm/dispatcher.rs\<close>. Assist:
  \<open>assist/bridge.rs\<close>. Storage and Memory_Store: \<open>athena-voice-storage\<close>. Scheduler, Host_Fns, Registry: \<open>wasm/\<close>.
  Skill_Types, Skill_Sdk: \<open>athena-voice-skill-sdk\<close>. Skills: \<open>skills-timer\<close>, \<open>skills-home\<close>, \<open>skills-weather\<close>.
  Jeedom_Rules, Jeedom: \<open>skills-jeedom\<close>. Admin, Discovery, Console: \<open>athena-voice-admin\<close>. Llm_Providers,
  Mqtt_Providers, Fakes: the providers' \<open>remote/\<close>, \<open>factory.rs\<close>, \<open>no_llm.rs\<close>, \<open>testing/\<close>, \<open>error.rs\<close>, and
  \<open>locale.rs\<close>. Synthesizer, Transcriber, Workers: the two workers, and their start-up checks and MQTT loops.
  Background: the skill watcher and its reload task, the reaper of idle sessions, the shutdown, and the admin's
  route table and pages. Probes: the test skills (\<open>skills-smoke-test\<close>, \<open>skills-tmp-test\<close>, \<open>skills-audio-test\<close>).
  Guest_Abi: the skills' exports and \<open>ExtismSkillPlugin\<close> of \<open>wasm/registry.rs\<close>, with the JSON documents between
  them. Core_Wire: the printed and JSON forms of \<open>athena-voice-core\<close>. Serde: the readers both share. Recorder:
  the client's audio sources and their conversion, and \<open>resample.rs\<close> of \<open>athena-voice-server\<close>. Boot:
  \<open>athena-voice-cli\<close> and the runtime's \<open>lib.rs\<close>. Client: \<open>athena-voice-client\<close>. Local_Server:
  \<open>athena-voice-server\<close>, \<open>webrtcvad\<close>. Mic, Satellite_Session, Firmware: \<open>satellite-esp32\<close>.

  \<^bold>\<open>How the code is modelled.\<close> A struct is a record, an enum a datatype with the code's constructors. Machine
  integers that the code adds or multiplies are words of their width, so that a bound in a statement is a proof
  that nothing wraps; clock values are naturals where the code's cannot wrap in practice. Strings are lists of
  UTF-8 bytes. Hash maps are association lists or functions, B-tree maps association lists in key order.
  \<open>Result\<close> and \<open>Option\<close> are sums and options. An actor is a state and a step per arm of its \<open>select!\<close>, outputs
  are lists in the order sent; interleavings are explicit lists of steps, or inductive reachability for the
  router, the pipeline and the firmware. Bounded channels say whether a send succeeds. The admin's handlers run
  in a state monad in which any store or file call may fail.

  \<^bold>\<open>Parameters.\<close> Code not in the repository is an argument of the definitions that use it: JSON and TOML
  parsing, base64, UUID printing, Unicode lower-casing and alphanumeric tests, the HTTP client, the WASM guests
  where a theorem is about any guest, recognizers and synthesizers, the clock. Hypotheses about them (a printed
  UUID is parsed back, a JSON printer round-trips) are named in the statements and met by concrete functions in
  the witnesses.

  \<^bold>\<open>What is shown\<close>, by group. Router: every utterance is answered exactly once or accounted for, a superseded
  skill is never heard. Intent: the matcher's answer is the best admissible one and its slots come from the
  input. Speech and Sentence: no text is lost or invented, answers are bracketed by exactly one end, a barge-in
  silences. Pipeline: however the tasks interleave, each utterance is accounted for on the wire, a turn from
  rest is spoken and closed by one done, and a session with open sinks can always move on. Circuit: the breaker
  trips at its threshold and reopens after its delay. Topics, Sessions, Console, Client, Satellite_Session,
  Firmware: devices and server agree on topics and sessions, a device's or recording's frames arrive in order
  with their end marker, a session always ends, every message goes to the one part it is addressed to
  (Server_Loop), an idle device's sound stays on it. Assist: no question lost, loaders released. Storage,
  Scheduler, Memory_Store: settings are a last-write-wins map in both stores, events fire once. Host_Fns,
  Registry: a guest stays within its namespace and allow-list, errors hide query values, the rule index follows
  the loaded skills. Guest_Abi: skills cross the guest boundary unchanged. Core_Wire: a mirrored event reads
  back as the event, and an identifier read is valid. Recorder: a 16 kHz mono recording is quantised and not
  otherwise changed. Skills, Jeedom: authorised commands only, one confirmation runs one command, a set timer
  rings once. Admin, Discovery, Boot: a saved form writes what it says and is what a restart restores, secrets
  are not listed, discovery claims a command once. Providers and workers: byte streams decode alike however cut,
  replies reach their call, synthesis and recognition cross MQTT unchanged; a worker starts exactly when its
  files are there, subscribes at every connection and keeps sessions apart (Workers). Background: the rule index
  follows the skill directory, an idle session is closed at the first tick past its limit, no two admin routes
  claim one path. Local_Server: frames survive the socket, its metrics do not.

  \<^bold>\<open>Interfaces.\<close> The locales are \<open>settings_store\<close> (both stores), \<open>call_simulation\<close> (a store against another),
  \<open>incremental_decoder\<close> (the socket codec), and those of Circuit, Scheduler and Sentence; each is interpreted on
  the model's definitions in the theory that provides them.

  \<^bold>\<open>Bounds and fuel.\<close> No definition takes fuel and none is partial: loops of the code that end by the data are
  structural recursions or carry a measure (drained buffers, Newton's square root, chunking); loops that end by
  the world (actors, clients, listeners) run over the list of what they receive, and whether they end is a
  statement about that list, as in \<open>console_session_ends\<close>.

  \<^bold>\<open>Not modelled.\<close> Sockets, brokers, the polling of the skill directory and process control, and the MQTT
  library's reconnects; the ONNX speech model, the local playback behind the \<open>audio\<close> feature; argument parsing
  and logging; pins, Wi-Fi and drivers of the device; the derived serde formats of configuration files; the web
  page; build scripts and tests. The manifest lists each with its reason.
\<close>

end
